(* ===== verification/Prelude.thy ===== *)
theory Prelude
  imports Complex_Main
begin

text \<open>
  Shared vocabulary of the development.

  \<^item> \<open>decimal\<close> stands for Python's \<open>decimal.Decimal\<close>. Money columns are \<open>Numeric(12, 2)\<close>;
    sums, differences, negations, minima and comparisons of such values are exact in the
    default 28-digit context, so they are rational arithmetic. Quotients are not modelled
    as exact: a definition that needs one says how it rounds.
  \<^item> \<open>service_error\<close> is the exception hierarchy of \<open>app/services/exceptions.py\<close>, plus the
    \<open>HTTPException(422)\<close> and \<open>(409)\<close> that the field validators raise and Python's \<open>ValueError\<close> and
    \<open>RuntimeError\<close>. The text of a message is kept
    only as far as a caller can tell two refusals apart.
  \<^item> A function that may raise returns \<open>service_error + 'a\<close>; \<open>rbind\<close> sequences two of them.
\<close>

type_synonym decimal = rat

datatype service_error =
    NotFoundError string
  | ValidationError string
  | ConflictError string
  | HTTP422 string
  | HTTP409 string
  | PyValueError string
  | PyRuntimeError string

type_synonym 'a result = "service_error + 'a"

named_theorems unfold_ops \<open>defining equations of the operations of a component\<close>

definition rbind :: "'a result \<Rightarrow> ('a \<Rightarrow> 'b result) \<Rightarrow> 'b result" where
  "rbind r f = (case r of Inl e \<Rightarrow> Inl e | Inr x \<Rightarrow> f x)"

lemma rbind_simps [simp]:
  "rbind (Inl e) f = Inl e"
  "rbind (Inr x) f = f x"
  by (simp_all add: rbind_def)

lemma rbind_eq_Inr: "rbind r f = Inr y \<longleftrightarrow> (\<exists>x. r = Inr x \<and> f x = Inr y)"
  by (cases r) auto

lemma rbind_eq_Inl: "rbind r f = Inl e \<longleftrightarrow> r = Inl e \<or> (\<exists>x. r = Inr x \<and> f x = Inl e)"
  by (cases r) auto

text \<open>A guard: \<open>if not ok: raise e\<close>.\<close>

definition guard :: "bool \<Rightarrow> service_error \<Rightarrow> unit result" where
  "guard ok e = (if ok then Inr () else Inl e)"

lemma guard_eq [simp]:
  "guard ok e = Inr u \<longleftrightarrow> ok"
  "guard ok e = Inl e' \<longleftrightarrow> \<not> ok \<and> e' = e"
  by (auto simp: guard_def)

lemma rbind_guard [simp]:
  "rbind (guard ok e) f = (if ok then f () else Inl e)"
  by (simp add: guard_def)

text \<open>A loop that collects, and stops at the first error.\<close>

primrec rmap :: "('x \<Rightarrow> 'y result) \<Rightarrow> 'x list \<Rightarrow> 'y list result" where
  "rmap f [] = Inr []"
| "rmap f (x # xs) = rbind (f x) (\<lambda>y. rbind (rmap f xs) (\<lambda>ys. Inr (y # ys)))"

lemma rmap_Inr: "rmap f xs = Inr ys \<longleftrightarrow> list_all2 (\<lambda>x y. f x = Inr y) xs ys"
  by (induction xs arbitrary: ys) (auto simp: rbind_eq_Inr list_all2_Cons1)

lemma rmap_mem: "rmap f xs = Inr ys \<Longrightarrow> y \<in> set ys \<Longrightarrow> \<exists>x \<in> set xs. f x = Inr y"
  by (induction xs arbitrary: ys) (auto simp: rbind_eq_Inr)

section \<open>Strings\<close>

text \<open>\<open>str.strip()\<close> on the characters of the model (code points below 128).\<close>

definition is_space :: "char \<Rightarrow> bool" where
  "is_space c \<longleftrightarrow> c \<in> set [CHR 0x20, CHR 0x09, CHR 0x0A, CHR 0x0B, CHR 0x0C, CHR 0x0D,
     CHR 0x1C, CHR 0x1D, CHR 0x1E, CHR 0x1F]"

definition py_strip :: "string \<Rightarrow> string" where
  "py_strip s = rev (dropWhile is_space (rev (dropWhile is_space s)))"

end
