(* ===== verification/Calendar.thy ===== *)
theory Calendar
  imports Prelude
begin

text \<open>
  Python's calendar: the part of \<open>datetime\<close> and \<open>calendar\<close> the services use. A
  \<open>date\<close> is always a real day between 0001-01-01 and 9999-12-31, so the type holds exactly
  those; it is finite and linearly ordered, which is what makes every forward walk over
  dates terminate. \<open>plus_days\<close> and \<open>minus_days\<close> are \<open>+/- timedelta(days=n)\<close>, with \<open>None\<close> for
  the \<open>OverflowError\<close> outside the range.

  \<open>dateutil.relativedelta\<close> is a third-party package: it is a parameter, and the locale
  \<open>relativedelta_lib\<close> states what its documentation promises (move by whole months, keep
  the day, clamp it to the length of the target month, \<open>ValueError\<close> when the year leaves the
  range). \<open>civil_add\<close> shows that the promises can be kept.
\<close>

section \<open>Month lengths\<close>

definition is_leap :: "int \<Rightarrow> bool" where
  "is_leap y \<longleftrightarrow> y mod 4 = 0 \<and> (y mod 100 \<noteq> 0 \<or> y mod 400 = 0)"

text \<open>\<open>calendar.monthrange(year, month)[1]\<close>.\<close>

definition days_in_month :: "int \<Rightarrow> int \<Rightarrow> int" where
  "days_in_month y m =
     (if m = 2 then (if is_leap y then 29 else 28)
      else if m = 4 \<or> m = 6 \<or> m = 9 \<or> m = 11 then 30 else 31)"

lemma days_in_month_bounds: "28 \<le> days_in_month y m" "days_in_month y m \<le> 31"
  by (auto simp: days_in_month_def)

lemma days_in_month_pos [simp]: "0 < days_in_month y m" "1 \<le> days_in_month y m"
  using days_in_month_bounds(1)[of y m] by auto

lemma days_in_month_12 [simp]: "days_in_month y 12 = 31"
  by (simp add: days_in_month_def)

definition valid_ymd :: "int \<Rightarrow> int \<Rightarrow> int \<Rightarrow> bool" where
  "valid_ymd y m d \<longleftrightarrow>
     1 \<le> y \<and> y \<le> 9999 \<and> 1 \<le> m \<and> m \<le> 12 \<and> 1 \<le> d \<and> d \<le> days_in_month y m"

section \<open>Dates\<close>

typedef date = "{(y, m, d). valid_ymd y m d}"
  by (rule exI [of _ "(1, 1, 1)"]) (simp add: valid_ymd_def days_in_month_def)

setup_lifting type_definition_date

lift_definition year :: "date \<Rightarrow> int" is "\<lambda>(y, m, d). y" .
lift_definition month :: "date \<Rightarrow> int" is "\<lambda>(y, m, d). m" .
lift_definition day :: "date \<Rightarrow> int" is "\<lambda>(y, m, d). d" .

text \<open>\<open>datetime.date(y, m, d)\<close>, for a triple that is a real day; 0001-01-01 otherwise
  (\<open>mk_date\<close> is the constructor that reports the \<open>ValueError\<close>).\<close>

lift_definition date_of :: "int \<Rightarrow> int \<Rightarrow> int \<Rightarrow> date" is
  "\<lambda>y m d. if valid_ymd y m d then (y, m, d) else (1, 1, 1)"
  by (auto simp: valid_ymd_def days_in_month_def)

definition mk_date :: "int \<Rightarrow> int \<Rightarrow> int \<Rightarrow> date option" where
  "mk_date y m d = (if valid_ymd y m d then Some (date_of y m d) else None)"

lemma date_of_sel [simp]:
  assumes "valid_ymd y m d"
  shows "year (date_of y m d) = y" "month (date_of y m d) = m" "day (date_of y m d) = d"
  using assms by (transfer; simp)+

lemma valid_date: "valid_ymd (year d) (month d) (day d)"
  by transfer auto

lemma date_bounds:
  "1 \<le> year d" "year d \<le> 9999" "1 \<le> month d" "month d \<le> 12"
  "1 \<le> day d" "day d \<le> days_in_month (year d) (month d)"
  using valid_date[of d] by (auto simp: valid_ymd_def)

lemma day_le_31: "day d \<le> 31"
  using date_bounds(6)[of d] days_in_month_bounds(2)[of "year d" "month d"] by linarith

lemma date_of_collapse [simp]: "date_of (year d) (month d) (day d) = d"
  by transfer auto

lemma date_eqI: "year a = year b \<Longrightarrow> month a = month b \<Longrightarrow> day a = day b \<Longrightarrow> a = b"
  by transfer auto

lemma mk_date_eq_Some [simp]:
  "mk_date y m d = Some x \<longleftrightarrow> valid_ymd y m d \<and> x = date_of y m d"
  by (auto simp: mk_date_def)

text \<open>A key that orders dates as their tuples: months are at most 31 days long.\<close>

definition month_index :: "date \<Rightarrow> int" where
  "month_index d = 12 * year d + (month d - 1)"

definition date_key :: "date \<Rightarrow> int" where
  "date_key d = 32 * month_index d + day d"

lemma month_index_div: "month_index d div 12 = year d" "month_index d mod 12 = month d - 1"
  using date_bounds(3,4)[of d] by (auto simp: month_index_def)

lemma month_index_bounds: "12 \<le> month_index d" "month_index d \<le> 119999"
  using date_bounds[of d] by (auto simp: month_index_def)

lemma date_key_div: "date_key d div 32 = month_index d" "date_key d mod 32 = day d"
  using date_bounds(5)[of d] day_le_31[of d] by (auto simp: date_key_def)

lemma month_index_eqD: "month_index a = month_index b \<Longrightarrow> year a = year b \<and> month a = month b"
  by (metis month_index_div diff_add_cancel)

lemma date_key_inj: "date_key a = date_key b \<Longrightarrow> a = b"
  by (metis date_key_div month_index_eqD date_eqI)

instantiation date :: equal
begin

definition equal_date :: "date \<Rightarrow> date \<Rightarrow> bool" where
  "equal_date a b \<longleftrightarrow> date_key a = date_key b"

instance
  by standard (auto simp: equal_date_def intro: date_key_inj)

end

instantiation date :: linorder
begin

definition less_eq_date :: "date \<Rightarrow> date \<Rightarrow> bool" where
  "a \<le> b \<longleftrightarrow> date_key a \<le> date_key b"

definition less_date :: "date \<Rightarrow> date \<Rightarrow> bool" where
  "a < b \<longleftrightarrow> date_key a < date_key b"

instance
  by standard (auto simp: less_eq_date_def less_date_def dest: date_key_inj)

end

lemma date_less_by_month: "month_index a < month_index b \<Longrightarrow> a < b"
  using date_bounds(5)[of b] day_le_31[of a] by (simp add: less_date_def date_key_def)

lemma date_le_month: "a \<le> b \<Longrightarrow> month_index a \<le> month_index b"
  using date_less_by_month[of b a] by (meson leD not_le_imp_less)

lemma date_less_iff:
  "a < b \<longleftrightarrow> month_index a < month_index b \<or> month_index a = month_index b \<and> day a < day b"
  using date_bounds(5)[of a] date_bounds(5)[of b] day_le_31[of a] day_le_31[of b]
  unfolding less_date_def date_key_def by linarith

lemma date_le_iff:
  "a \<le> b \<longleftrightarrow> month_index a < month_index b \<or> month_index a = month_index b \<and> day a \<le> day b"
  using date_bounds(5)[of a] date_bounds(5)[of b] day_le_31[of a] day_le_31[of b]
  unfolding less_eq_date_def date_key_def by linarith

lemma month_index_date_of [simp]:
  "valid_ymd y m d \<Longrightarrow> month_index (date_of y m d) = 12 * y + (m - 1)"
  by (simp add: month_index_def)

text \<open>How far a date is from the end of the range: the measure of every forward walk.\<close>

definition days_left :: "date \<Rightarrow> nat" where
  "days_left d = nat (32 * 120000 - date_key d)"

lemma days_left_less: "a < b \<Longrightarrow> days_left b < days_left a"
proof -
  have "date_key a < 32 * 120000" for a
    using month_index_bounds(2)[of a] day_le_31[of a] by (simp add: date_key_def)
  then show "a < b \<Longrightarrow> days_left b < days_left a"
    by (simp add: days_left_def less_date_def)
qed

section \<open>Moving by days\<close>

definition next_day :: "date \<Rightarrow> date option" where
  "next_day d =
     (if day d < days_in_month (year d) (month d) then Some (date_of (year d) (month d) (day d + 1))
      else if month d < 12 then Some (date_of (year d) (month d + 1) 1)
      else mk_date (year d + 1) 1 1)"

definition prev_day :: "date \<Rightarrow> date option" where
  "prev_day d =
     (if 1 < day d then Some (date_of (year d) (month d) (day d - 1))
      else if 1 < month d
        then Some (date_of (year d) (month d - 1) (days_in_month (year d) (month d - 1)))
      else mk_date (year d - 1) 12 31)"

primrec plus_days :: "nat \<Rightarrow> date \<Rightarrow> date option" where
  "plus_days 0 d = Some d"
| "plus_days (Suc n) d = (case next_day d of None \<Rightarrow> None | Some e \<Rightarrow> plus_days n e)"

lemma next_day_gt: "next_day d = Some e \<Longrightarrow> d < e"
  using date_bounds[of d]
  by (auto simp: next_day_def date_less_iff valid_ymd_def month_index_def
      month_index_date_of [unfolded month_index_def] split: if_splits)

lemma prev_day_less: "prev_day d = Some e \<Longrightarrow> e < d"
  using date_bounds[of d]
  by (auto simp: prev_day_def date_less_iff valid_ymd_def month_index_def
      month_index_date_of [unfolded month_index_def] split: if_splits)

lemma next_day_month:
  assumes "next_day d = Some e"
  shows "month_index e = month_index d \<and> day e = day d + 1 \<or>
    day d = days_in_month (year d) (month d) \<and> month_index e = month_index d + 1 \<and> day e = 1"
  using assms date_bounds[of d]
  by (auto simp: next_day_def valid_ymd_def month_index_def split: if_splits)

lemma prev_day_month:
  assumes "prev_day d = Some e"
  shows "month_index e = month_index d \<and> day e = day d - 1 \<or>
    day e = days_in_month (year e) (month e) \<and> month_index e = month_index d - 1 \<and> day d = 1"
proof -
  note bounds = date_bounds[of d]
  have "1 < day d \<or> day d = 1 \<and> 1 < month d \<or> day d = 1 \<and> month d = 1"
    using bounds by linarith
  then consider (a) "1 < day d" | (b) "day d = 1" "1 < month d" | (c) "day d = 1" "month d = 1"
    by blast
  then show ?thesis
  proof cases
    case a
    then have "valid_ymd (year d) (month d) (day d - 1)" using bounds by (simp add: valid_ymd_def)
    with assms a show ?thesis by (auto simp: prev_day_def month_index_def)
  next
    case b
    then have "valid_ymd (year d) (month d - 1) (days_in_month (year d) (month d - 1))"
      using date_bounds[of d] by (simp add: valid_ymd_def)
    with assms b show ?thesis by (auto simp: prev_day_def month_index_def)
  next
    case c
    with assms show ?thesis
      by (auto simp: prev_day_def month_index_def valid_ymd_def)
  qed
qed

text \<open>There is no date between a day and its successor.\<close>

lemma next_day_least:
  assumes "next_day d = Some e" and "d < x"
  shows "e \<le> x"
proof (cases "month_index d = month_index x")
  case True
  with assms(2) month_index_eqD[OF True] date_bounds(6)[of x] next_day_month[OF assms(1)]
  show ?thesis by (auto simp: date_less_iff date_le_iff)
next
  case False
  with assms(2) have "month_index d < month_index x" by (auto simp: date_less_iff)
  with next_day_month[OF assms(1)] date_bounds(5)[of x] show ?thesis
    by (auto simp: date_le_iff)
qed

lemma prev_day_greatest:
  assumes "prev_day d = Some e" and "x < d"
  shows "x \<le> e"
proof (cases "month_index d = month_index x")
  case True
  with assms(2) prev_day_month[OF assms(1)] date_bounds(5)[of x]
  show ?thesis by (auto simp: date_less_iff date_le_iff)
next
  case False
  with assms(2) have *: "month_index x < month_index d" by (auto simp: date_less_iff)
  from prev_day_month[OF assms(1)] show ?thesis
  proof
    assume "month_index e = month_index d \<and> day e = day d - 1"
    with * show ?thesis by (simp add: date_le_iff)
  next
    assume e: "day e = days_in_month (year e) (month e) \<and> month_index e = month_index d - 1 \<and> day d = 1"
    with * consider "month_index x < month_index e" | "month_index x = month_index e" by linarith
    then show ?thesis
      using e date_bounds(6)[of x] month_index_eqD[of x e] by cases (auto simp: date_le_iff)
  qed
qed

lemma next_day_less_iff: "next_day d = Some e \<Longrightarrow> d < x \<longleftrightarrow> e \<le> x"
  using next_day_least next_day_gt by (meson less_le_trans)

lemma prev_day_less_iff: "prev_day d = Some e \<Longrightarrow> x < d \<longleftrightarrow> x \<le> e"
  using prev_day_greatest prev_day_less by (meson le_less_trans)

lemma next_day_None_iff: "next_day d = None \<longleftrightarrow> d = date_of 9999 12 31"
proof -
  have "next_day d = None \<longleftrightarrow> year d = 9999 \<and> month d = 12 \<and> day d = 31"
    using date_bounds[of d]
    by (auto simp: next_day_def mk_date_def valid_ymd_def days_in_month_def split: if_splits)
  moreover have "valid_ymd 9999 12 31" by (simp add: valid_ymd_def days_in_month_def)
  ultimately show ?thesis by (metis date_of_sel date_eqI)
qed

lemma next_prev_day:
  assumes "prev_day d = Some e"
  shows "next_day e = Some d"
proof (cases "next_day e")
  case None
  then have "d \<le> e"
    using day_le_31[of d] month_index_bounds(2)[of d]
    by (auto simp: next_day_None_iff date_le_iff valid_ymd_def days_in_month_def)
  with prev_day_less[OF assms] show ?thesis by simp
next
  case (Some f)
  have "f \<le> d" using next_day_least[OF Some prev_day_less[OF assms]] .
  moreover have "\<not> f < d"
    using prev_day_less_iff[OF assms, of f] next_day_gt[OF Some] by auto
  ultimately show ?thesis using Some by simp
qed

lemma prev_day_None:
  assumes "prev_day b = None" "a \<le> b"
  shows "a = b"
proof -
  have "day b = 1 \<and> month b = 1 \<and> year b = 1"
    using assms(1) date_bounds[of b] by (auto simp: prev_day_def mk_date_def valid_ymd_def days_in_month_def split: if_splits)
  then have "month_index b = 12" "day b = 1" by (simp_all add: month_index_def)
  then have "b \<le> a" using month_index_bounds(1)[of a] date_bounds(5)[of a] by (auto simp: date_le_iff)
  with assms(2) show ?thesis by simp
qed

lemma next_day_defined: "d < e \<Longrightarrow> \<exists>n. next_day d = Some n"
  using day_le_31[of e] month_index_bounds(2)[of e]
  by (cases "next_day d") (auto simp: next_day_None_iff date_less_iff valid_ymd_def days_in_month_def)

lemma plus_days_gt: "0 < n \<Longrightarrow> plus_days n d = Some e \<Longrightarrow> d < e"
proof (induction n arbitrary: d)
  case (Suc n)
  then obtain d' where d': "next_day d = Some d'" "plus_days n d' = Some e"
    by (auto split: option.splits)
  show ?case
  proof (cases n)
    case 0
    with d' show ?thesis by (simp add: next_day_gt)
  next
    case (Suc k)
    with Suc.IH [OF _ d'(2)] next_day_gt [OF d'(1)] show ?thesis by simp
  qed
qed simp

section \<open>Moving by months\<close>

locale relativedelta_lib =
  fixes rd :: "int \<Rightarrow> int \<Rightarrow> date \<Rightarrow> date option"
  assumes rd_Some:
    "rd ys ms d = Some e \<Longrightarrow>
       month_index e = month_index d + 12 * ys + ms \<and>
       day e = min (day d) (days_in_month (year e) (month e))"
  and rd_defined:
    "12 \<le> month_index d + 12 * ys + ms \<Longrightarrow> month_index d + 12 * ys + ms \<le> 119999 \<Longrightarrow>
       rd ys ms d \<noteq> None"
begin

lemma rd_gt: "rd ys ms d = Some e \<Longrightarrow> 0 < 12 * ys + ms \<Longrightarrow> d < e"
  using rd_Some[of ys ms d e] by (auto intro: date_less_by_month)

lemma rd_mono:
  assumes "rd ys ms a = Some a'" "rd ys ms b = Some b'" "a \<le> b"
  shows "a' \<le> b'"
proof (cases "month_index a = month_index b")
  case True
  with assms rd_Some[OF assms(1)] rd_Some[OF assms(2)] month_index_eqD[of a' b'] show ?thesis
    by (auto simp: date_le_iff)
next
  case False
  with assms(3) have "month_index a < month_index b" by (auto simp: date_le_iff)
  with rd_Some[OF assms(1)] rd_Some[OF assms(2)] show ?thesis
    by (auto simp: date_le_iff)
qed

lemma rd_None_iff:
  "rd ys ms d = None \<longleftrightarrow>
     month_index d + 12 * ys + ms < 12 \<or> 119999 < month_index d + 12 * ys + ms"
proof (cases "rd ys ms d")
  case (Some e)
  with rd_Some[OF this] month_index_bounds[of e] show ?thesis by auto
next
  case None
  with rd_defined[of d ys ms]
  have "\<not> (12 \<le> month_index d + 12 * ys + ms \<and> month_index d + 12 * ys + ms \<le> 119999)"
    by blast
  with None show ?thesis by linarith
qed

end

text \<open>An implementation of the promises: month arithmetic on \<open>month_index\<close>.\<close>

definition civil_add :: "int \<Rightarrow> int \<Rightarrow> date \<Rightarrow> date option" where
  "civil_add ys ms d =
     (let i = month_index d + 12 * ys + ms; y = i div 12; m = i mod 12 + 1
      in mk_date y m (min (day d) (days_in_month y m)))"

interpretation civil: relativedelta_lib civil_add
proof (unfold_locales, goal_cases)
  case (1 ys ms d e)
  then show ?case by (auto simp: civil_add_def Let_def)
next
  case (2 d ys ms)
  then show ?case
    using date_bounds(5)[of d] days_in_month_bounds
    by (auto simp: civil_add_def Let_def mk_date_def valid_ymd_def)
qed

end
