(* ===== verification/DateUtils.thy ===== *)
theory DateUtils
  imports Calendar
begin

text \<open>
  \<open>services/date_utils.py\<close>: the occurrence grid of a recurring template. \<open>advance_date\<close> is
  one step, \<open>next_occurrence\<close> folds the two ways a grid ends into \<open>None\<close>, and
  \<open>occurrences_in_window\<close> is the fast-forward loop followed by the collect loop, both
  spending the instalment budget. \<open>grid\<close> is the specification: the \<open>k\<close>-th date of the
  walk. The main result says which grid points the two loops return.
\<close>

section \<open>One step of the grid\<close>

datatype frequency = WEEKLY | BIWEEKLY | MONTHLY | QUARTERLY | YEARLY

fun advance_date :: "(int \<Rightarrow> int \<Rightarrow> date \<Rightarrow> date option) \<Rightarrow> date \<Rightarrow> frequency \<Rightarrow> date option" where
  "advance_date rd current WEEKLY = plus_days 7 current"
| "advance_date rd current BIWEEKLY = plus_days 14 current"
| "advance_date rd current MONTHLY = rd 0 1 current"
| "advance_date rd current QUARTERLY = rd 0 3 current"
| "advance_date rd current YEARLY = rd 1 0 current"

definition next_occurrence ::
  "(int \<Rightarrow> int \<Rightarrow> date \<Rightarrow> date option) \<Rightarrow> date \<Rightarrow> frequency \<Rightarrow> date option" where
  "next_occurrence rd d freq =
     (case advance_date rd d freq of
        None \<Rightarrow> None
      | Some nxt \<Rightarrow> if d < nxt then Some nxt else None)"

lemma next_occurrence_gt: "next_occurrence rd d f = Some e \<Longrightarrow> d < e"
  by (auto simp: next_occurrence_def split: option.splits if_splits)

context relativedelta_lib
begin

lemma advance_date_gt: "advance_date rd d f = Some e \<Longrightarrow> d < e"
  by (cases f) (auto intro: rd_gt dest: plus_days_gt[rotated])

lemma next_occurrence_eq: "next_occurrence rd d f = advance_date rd d f"
  using advance_date_gt by (auto simp: next_occurrence_def split: option.splits)

end

section \<open>The two loops\<close>

text \<open>The budget: \<open>None\<close> is open-ended, and the guard is \<open>remaining <= 0\<close>.\<close>

definition exhausted :: "int option \<Rightarrow> bool" where
  "exhausted remaining = (case remaining of None \<Rightarrow> False | Some r \<Rightarrow> r \<le> 0)"

definition spend :: "int option \<Rightarrow> int option" where
  "spend remaining = (case remaining of None \<Rightarrow> None | Some r \<Rightarrow> Some (r - 1))"

text \<open>Each pass of the first loop discards the occurrence at \<open>d\<close> and pays for it. \<open>None\<close> is
  its early \<open>return out\<close>, with \<open>out\<close> still empty.\<close>

function fast_forward ::
  "(int \<Rightarrow> int \<Rightarrow> date \<Rightarrow> date option) \<Rightarrow> frequency \<Rightarrow> date \<Rightarrow> date \<Rightarrow> int option
     \<Rightarrow> (date \<times> int option) option" where
  "fast_forward rd freq start d remaining =
     (if d < start then
        if exhausted remaining then None
        else (case next_occurrence rd d freq of
                None \<Rightarrow> None
              | Some nxt \<Rightarrow> fast_forward rd freq start nxt (spend remaining))
      else Some (d, remaining))"
  by pat_completeness auto
termination
  by (relation "measure (\<lambda>(rd, freq, start, d, remaining). days_left d)")
     (auto intro: days_left_less next_occurrence_gt)

function collect ::
  "(int \<Rightarrow> int \<Rightarrow> date \<Rightarrow> date option) \<Rightarrow> frequency \<Rightarrow> date \<Rightarrow> date \<Rightarrow> int option
     \<Rightarrow> date list" where
  "collect rd freq end d remaining =
     (if d \<le> end then
        if exhausted remaining then []
        else d # (case next_occurrence rd d freq of
                    None \<Rightarrow> []
                  | Some nxt \<Rightarrow> collect rd freq end nxt (spend remaining))
      else [])"
  by pat_completeness auto
termination
  by (relation "measure (\<lambda>(rd, freq, end, d, remaining). days_left d)")
     (auto intro: days_left_less next_occurrence_gt)

declare fast_forward.simps [simp del] collect.simps [simp del]

definition occurrences_in_window ::
  "(int \<Rightarrow> int \<Rightarrow> date \<Rightarrow> date option) \<Rightarrow> date \<Rightarrow> frequency \<Rightarrow> date \<Rightarrow> date \<Rightarrow> int option
     \<Rightarrow> date list" where
  "occurrences_in_window rd next_due freq start end budget =
     (case fast_forward rd freq start next_due budget of
        None \<Rightarrow> []
      | Some (d, remaining) \<Rightarrow> collect rd freq end d remaining)"

section \<open>The grid as specification\<close>

primrec grid ::
  "(int \<Rightarrow> int \<Rightarrow> date \<Rightarrow> date option) \<Rightarrow> frequency \<Rightarrow> date \<Rightarrow> nat \<Rightarrow> date option" where
  "grid rd freq d 0 = Some d"
| "grid rd freq d (Suc k) =
     (case next_occurrence rd d freq of None \<Rightarrow> None | Some nxt \<Rightarrow> grid rd freq nxt k)"

text \<open>The \<open>k\<close>-th occurrence (from 0) is inside the budget.\<close>

definition within_budget :: "int option \<Rightarrow> nat \<Rightarrow> bool" where
  "within_budget budget k = (case budget of None \<Rightarrow> True | Some b \<Rightarrow> int k < b)"

lemma within_budget_0 [simp]: "within_budget b 0 \<longleftrightarrow> \<not> exhausted b"
  by (auto simp: within_budget_def exhausted_def split: option.splits)

lemma within_budget_Suc [simp]: "within_budget b (Suc k) \<longleftrightarrow> within_budget (spend b) k"
  by (auto simp: within_budget_def spend_def split: option.splits)

lemma within_budget_mono: "within_budget b k \<Longrightarrow> j \<le> k \<Longrightarrow> within_budget b j"
  by (auto simp: within_budget_def split: option.splits)

lemma grid_ge: "grid rd f d k = Some e \<Longrightarrow> d \<le> e"
proof (induction k arbitrary: d)
  case (Suc k)
  then show ?case
    using next_occurrence_gt by (fastforce split: option.splits)
qed simp

lemma grid_add:
  "grid rd f d (j + k) = (case grid rd f d j of None \<Rightarrow> None | Some e \<Rightarrow> grid rd f e k)"
  by (induction j arbitrary: d) (auto split: option.splits)

lemma grid_strict:
  assumes "grid rd f d j = Some a" "grid rd f d k = Some b" "j < k"
  shows "a < b"
proof -
  obtain i where k: "k = j + Suc i" using \<open>j < k\<close> less_iff_Suc_add by auto
  with assms grid_add[of rd f d j "Suc i"]
  obtain c where "next_occurrence rd a f = Some c" "grid rd f c i = Some b"
    by (auto simp del: add_Suc_right split: option.splits)
  then show ?thesis using next_occurrence_gt grid_ge by (meson less_le_trans)
qed

lemma grid_inj: "grid rd f d j = Some a \<Longrightarrow> grid rd f d k = Some a \<Longrightarrow> j = k"
  by (metis grid_strict less_irrefl linorder_neqE_nat)

lemma grid_prefix: "grid rd f d k = Some e \<Longrightarrow> j \<le> k \<Longrightarrow> \<exists>c. grid rd f d j = Some c \<and> c \<le> e"
  using grid_add[of rd f d j "k - j"] grid_ge by (auto split: option.splits)

section \<open>What the loops return\<close>

lemma collect_iff:
  "e \<in> set (collect rd f end d b) \<longleftrightarrow>
     (\<exists>k. grid rd f d k = Some e \<and> within_budget b k \<and> e \<le> end)"
proof (induction rd f "end" d b rule: collect.induct)
  case (1 rd f "end" d b)
  show ?case
  proof (cases "d \<le> end \<and> \<not> exhausted b")
    case False
    moreover have "\<not> within_budget b k" if "exhausted b" for k
      using that within_budget_mono[of b k 0] by auto
    ultimately show ?thesis
      using grid_ge by (fastforce simp: collect.simps[of rd f "end" d b])
  next
    case True
    have "(\<exists>k. grid rd f d k = Some e \<and> within_budget b k \<and> e \<le> end) \<longleftrightarrow>
      e = d \<or> (\<exists>k. grid rd f d (Suc k) = Some e \<and> within_budget b (Suc k) \<and> e \<le> end)"
      using True by (metis grid.simps(1) not0_implies_Suc option.inject within_budget_0)
    with True 1 show ?thesis
      by (auto simp: collect.simps[of rd f "end" d b] split: option.splits)
  qed
qed

lemma collect_ge: "e \<in> set (collect rd f end d b) \<Longrightarrow> d \<le> e"
  using grid_ge by (auto simp: collect_iff)

lemma collect_sorted: "sorted_wrt (<) (collect rd f end d b)"
proof (induction rd f "end" d b rule: collect.induct)
  case (1 rd f "end" d b)
  then show ?case
    by (auto simp: collect.simps[of rd f "end" d b] split: option.splits
        dest!: next_occurrence_gt collect_ge intro: less_le_trans)
qed

lemma fast_forward_Some:
  "fast_forward rd f start d b = Some (d', b') \<Longrightarrow>
     \<exists>j. grid rd f d j = Some d' \<and> start \<le> d' \<and> (\<forall>k. within_budget b (j + k) \<longleftrightarrow> within_budget b' k) \<and>
       (\<forall>i<j. \<forall>e. grid rd f d i = Some e \<longrightarrow> e < start)"
proof (induction rd f start d b rule: fast_forward.induct)
  case (1 rd f start d b)
  show ?case
  proof (cases "d < start")
    case False
    with 1 show ?thesis
      by (intro exI[of _ 0]) (auto simp: fast_forward.simps[of rd f start d b])
  next
    case True
    with "1.prems" obtain n where n: "next_occurrence rd d f = Some n" "\<not> exhausted b"
      "fast_forward rd f start n (spend b) = Some (d', b')"
      by (auto simp: fast_forward.simps[of rd f start d b] split: if_splits option.splits)
    from "1.IH"[OF True n(2,1,3)] obtain j where
      "grid rd f n j = Some d'" "start \<le> d'"
      "\<forall>k. within_budget (spend b) (j + k) \<longleftrightarrow> within_budget b' k"
      "\<forall>i<j. \<forall>e. grid rd f n i = Some e \<longrightarrow> e < start"
      by blast
    with n(1) True show ?thesis
      by (intro exI[of _ "Suc j"]) (auto simp: less_Suc_eq_0_disj)
  qed
qed

lemma fast_forward_None:
  "fast_forward rd f start d b = None \<Longrightarrow> grid rd f d k = Some e \<Longrightarrow> within_budget b k \<Longrightarrow> e < start"
proof (induction rd f start d b arbitrary: k rule: fast_forward.induct)
  case (1 rd f start d b)
  then have True: "d < start"
    by (auto simp: fast_forward.simps[of rd f start d b] split: if_splits)
  show ?case
  proof (cases k)
    case 0
    with 1 True show ?thesis by simp
  next
    case (Suc k')
    from "1.prems" have nx: "\<not> exhausted b"
      using within_budget_mono[of b k 0] by simp
    from Suc "1.prems"(2) obtain n where n: "next_occurrence rd d f = Some n" "grid rd f n k' = Some e"
      by (auto split: option.splits)
    moreover from "1.prems"(1) True nx n have "fast_forward rd f start n (spend b) = None"
      by (simp add: fast_forward.simps[of rd f start d b])
    ultimately show ?thesis
      using "1.IH"[OF True nx n(1) _ n(2)] "1.prems"(3) Suc by simp
  qed
qed

lemma occurrences_iff:
  "e \<in> set (occurrences_in_window rd d f start end b) \<longleftrightarrow>
     (\<exists>k. grid rd f d k = Some e \<and> within_budget b k) \<and> start \<le> e \<and> e \<le> end"
proof (cases "fast_forward rd f start d b")
  case None
  then show ?thesis
    using fast_forward_None[OF None] by (auto simp: occurrences_in_window_def dest: leD)
next
  case (Some p)
  then obtain d' b' where p: "fast_forward rd f start d b = Some (d', b')" by (cases p) auto
  from fast_forward_Some[OF p] obtain j where
    j: "grid rd f d j = Some d'" "start \<le> d'"
      "\<And>k. within_budget b (j + k) \<longleftrightarrow> within_budget b' k"
      "\<And>i e. i < j \<Longrightarrow> grid rd f d i = Some e \<Longrightarrow> e < start"
    by blast
  have shift: "grid rd f d' k = grid rd f d (j + k)" for k by (simp add: grid_add j(1))
  show ?thesis
  proof
    assume "e \<in> set (occurrences_in_window rd d f start end b)"
    then obtain k where "grid rd f d' k = Some e" "within_budget b' k" "e \<le> end"
      by (auto simp: occurrences_in_window_def p collect_iff)
    then show "(\<exists>k. grid rd f d k = Some e \<and> within_budget b k) \<and> start \<le> e \<and> e \<le> end"
      using j(2,3) shift grid_ge by (metis order_trans)
  next
    assume "(\<exists>k. grid rd f d k = Some e \<and> within_budget b k) \<and> start \<le> e \<and> e \<le> end"
    then obtain k where k: "grid rd f d k = Some e" "within_budget b k" "start \<le> e" "e \<le> end"
      by blast
    with j(4)[of k e] have "j \<le> k" by (meson leD not_less)
    then obtain i where i: "k = j + i" using le_Suc_ex by blast
    then show "e \<in> set (occurrences_in_window rd d f start end b)"
      using k j(3) shift by (auto simp: occurrences_in_window_def p collect_iff)
  qed
qed

lemma occurrences_sorted: "sorted_wrt (<) (occurrences_in_window rd d f start end b)"
  by (auto simp: occurrences_in_window_def collect_sorted split: option.splits)

lemma occurrences_distinct: "distinct (occurrences_in_window rd d f start end b)"
  using occurrences_sorted strict_sorted_iff by blast

text \<open>A sorted list without repetitions is determined by its elements.\<close>

lemma strict_sorted_eqI:
  fixes xs ys :: "'a::linorder list"
  assumes "sorted_wrt (<) xs" "sorted_wrt (<) ys" "set xs = set ys"
  shows "xs = ys"
  using assms strict_sorted_equal by blast

end
