(* ===== verification/Models.thy ===== *)
theory Models
  imports DateUtils
begin

text \<open>
  The rows of the database the services work on (\<open>app/models\<close>), as records, and the store
  that holds the tables. Columns no modelled service reads (timestamps, the idempotency
  fields of an import) are left out. A table is the list of its rows in the order of the
  primary key; \<open>store_wf\<close> is what the schema itself guarantees: primary keys are unique,
  and a fresh row gets a key no row has had.
\<close>

section \<open>Enumerations\<close>

datatype category_type = CatIncome | CatExpense | CatBoth

datatype transaction_type = INCOME | EXPENSE | TRANSFER

datatype transaction_status = SETTLED | PENDING

datatype reconciliation_state =
  pending_review | matched | unmatched | skipped | edited | accepted | rejected

datatype payment_strategy = FULL_BALANCE | FIXED_AMOUNT

datatype batch_status = BatchOpen | BatchClosed

section \<open>Rows\<close>

record organization =
  o_id :: int
  o_billing_cycle_day :: int
  o_primary_currency :: "string option"

record category =
  cat_id :: int
  cat_org_id :: int
  cat_parent_id :: "int option"
  cat_slug :: "string option"
  cat_is_system :: bool
  cat_type :: category_type

record account =
  acc_id :: int
  acc_org_id :: int
  acc_type_slug :: "string option"
  acc_name :: string
  acc_balance :: decimal
  acc_currency :: string
  acc_is_active :: bool
  acc_close_day :: "int option"
  acc_payment_day :: "int option"
  acc_payment_day_relative_month :: "int option"
  acc_payment_source_account_id :: "int option"
  acc_fixed_payment_amount :: "decimal option"
  acc_payment_strategy :: "payment_strategy option"
  acc_principal_amount :: "decimal option"
  acc_interest_rate_apr :: "decimal option"
  acc_term_months :: "int option"
  acc_origination_date :: "date option"
  acc_first_payment_date :: "date option"
  acc_opening_balance :: decimal

record transaction =
  tx_id :: int
  tx_org_id :: int
  tx_account_id :: int
  tx_category_id :: int
  tx_description :: string
  tx_amount :: decimal
  tx_type :: transaction_type
  tx_status :: transaction_status
  tx_linked :: "int option"
  tx_recurring_id :: "int option"
  tx_recurring_origin_id :: "int option"
  tx_date :: date
  tx_settled_date :: "date option"
  tx_is_imported :: bool
  tx_import_batch_id :: "int option"
  tx_recon :: reconciliation_state
  tx_fitid :: "string option"
  tx_is_manual_adjustment :: bool

record template =
  r_id :: int
  r_org_id :: int
  r_account_id :: int
  r_to_account_id :: "int option"
  r_category_id :: int
  r_description :: string
  r_amount :: decimal
  r_type :: transaction_type
  r_frequency :: frequency
  r_next_due_date :: date
  r_auto_settle :: bool
  r_is_active :: bool
  r_occurrence_count :: "int option"
  r_occurrences_elapsed :: int
  r_last_spent_date :: "date option"

record import_batch =
  ib_id :: int
  ib_org_id :: int
  ib_status :: batch_status
  ib_row_count :: int
  ib_accepted_count :: int
  ib_pending_count :: int

record store =
  organizations :: "organization list"
  categories :: "category list"
  accounts :: "account list"
  transactions :: "transaction list"
  templates :: "template list"
  batches :: "import_batch list"
  next_id :: int

section \<open>Tables\<close>

text \<open>A row is read by its key, and an \<open>UPDATE\<close> by key rewrites the row in place.\<close>

definition row_by :: "('r \<Rightarrow> int) \<Rightarrow> 'r list \<Rightarrow> int \<Rightarrow> 'r option" where
  "row_by key rows i = find (\<lambda>r. key r = i) rows"

definition update_row :: "('r \<Rightarrow> int) \<Rightarrow> int \<Rightarrow> ('r \<Rightarrow> 'r) \<Rightarrow> 'r list \<Rightarrow> 'r list" where
  "update_row key i f rows = map (\<lambda>r. if key r = i then f r else r) rows"

definition store_wf :: "store \<Rightarrow> bool" where
  "store_wf s \<longleftrightarrow>
     distinct (map cat_id (categories s)) \<and>
     distinct (map acc_id (accounts s)) \<and>
     distinct (map tx_id (transactions s)) \<and>
     distinct (map r_id (templates s)) \<and>
     distinct (map ib_id (batches s)) \<and>
     list_all (\<lambda>t. tx_id t < next_id s) (transactions s) \<and>
     list_all (\<lambda>c. cat_id c < next_id s) (categories s) \<and>
     list_all (\<lambda>r. r_id r < next_id s) (templates s) \<and>
     list_all (\<lambda>b. ib_id b < next_id s) (batches s)"

lemma row_by_Some: "row_by key rows i = Some r \<Longrightarrow> r \<in> set rows \<and> key r = i"
  by (auto simp: row_by_def find_Some_iff)

lemma row_by_None: "row_by key rows i = None \<longleftrightarrow> (\<forall>r \<in> set rows. key r \<noteq> i)"
  by (auto simp: row_by_def find_None_iff)

lemma key_unique: "distinct (map key rows) \<Longrightarrow> a \<in> set rows \<Longrightarrow> b \<in> set rows \<Longrightarrow> key a = key b \<Longrightarrow> a = b"
  by (meson distinct_map inj_onD)

lemma row_by_distinct:
  assumes "distinct (map key rows)"
  shows "row_by key rows i = Some r \<longleftrightarrow> r \<in> set rows \<and> key r = i"
proof
  assume r: "r \<in> set rows \<and> key r = i"
  then obtain x where x: "row_by key rows i = Some x"
    using row_by_None[of key rows i] by blast
  from row_by_Some[OF x] r key_unique[OF assms] have "x = r" by blast
  with x show "row_by key rows i = Some r" by simp
qed (rule row_by_Some)

text \<open>The same with a further condition, as \<open>WHERE id = i AND org_id = o\<close> has.\<close>

lemma find_key:
  assumes "distinct (map key rows)"
  shows "find (\<lambda>r. key r = i \<and> P r) rows = Some r \<longleftrightarrow> r \<in> set rows \<and> key r = i \<and> P r"
proof
  assume r: "r \<in> set rows \<and> key r = i \<and> P r"
  then obtain x where x: "find (\<lambda>r. key r = i \<and> P r) rows = Some x"
    by (cases "find (\<lambda>r. key r = i \<and> P r) rows") (auto simp: find_None_iff)
  then have "x = r" using r key_unique[OF assms, of x r] by (auto simp: find_Some_iff)
  with x show "find (\<lambda>r. key r = i \<and> P r) rows = Some r" by simp
qed (auto simp: find_Some_iff)

lemma set_update_row:
  "set (update_row key i f rows) = (\<lambda>r. if key r = i then f r else r) ` set rows"
  by (simp add: update_row_def)

lemma update_row_keys:
  "(\<And>r. key (f r) = key r) \<Longrightarrow> map key (update_row key i f rows) = map key rows"
  by (simp add: update_row_def)

lemma row_by_update_row:
  "(\<And>r. key (f r) = key r) \<Longrightarrow>
     row_by key (update_row key i f rows) j =
       (if i = j then map_option f (row_by key rows j) else row_by key rows j)"
  by (induction rows) (auto simp: row_by_def update_row_def)

lemma update_row_same:
  assumes "distinct (map key rows)" "r \<in> set rows"
  shows "update_row key (key r) (\<lambda>_. r) rows = rows"
proof -
  have "(if key x = key r then r else x) = x" if "x \<in> set rows" for x
    using key_unique[OF assms(1) that assms(2)] by metis
  then show ?thesis by (simp add: update_row_def map_idI)
qed

section \<open>Sums over a table\<close>

text \<open>Rewriting one row of a table with unique keys changes a column sum by that row only.\<close>

lemma sum_list_change:
  fixes g h :: "'r \<Rightarrow> 'a::ab_group_add"
  assumes "distinct (map key rows)" "r \<in> set rows"
    and "\<And>x. x \<in> set rows \<Longrightarrow> key x \<noteq> key r \<Longrightarrow> h x = g x"
  shows "sum_list (map h rows) = sum_list (map g rows) - g r + h r"
  using assms
proof (induction rows)
  case (Cons a rows)
  show ?case
  proof (cases "r = a")
    case True
    have "map h rows = map g rows"
      using Cons.prems True by (intro map_cong) (auto simp: image_iff)
    with True show ?thesis by (simp del: map_eq_conv)
  next
    case False
    with Cons have "sum_list (map h rows) = sum_list (map g rows) - g r + h r" by simp
    moreover have "h a = g a"
      using Cons.prems False key_unique[of key "a # rows" a r] by auto
    ultimately show ?thesis by simp
  qed
qed simp

lemma sum_list_filter_split:
  fixes g :: "'r \<Rightarrow> 'a::comm_monoid_add"
  shows "sum_list (map g rows) =
    sum_list (map g (filter P rows)) + sum_list (map g (filter (\<lambda>r. \<not> P r) rows))"
  by (induction rows) (auto simp: algebra_simps)

lemma sum_list_if:
  fixes g :: "'r \<Rightarrow> 'a::comm_monoid_add"
  shows "sum_list (map g (filter P rows)) = sum_list (map (\<lambda>r. if P r then g r else 0) rows)"
  by (induction rows) auto

text \<open>The part of a sum that falls on a sublist of distinct rows.\<close>

lemma sum_list_sublist:
  fixes g :: "'r \<Rightarrow> 'a::comm_monoid_add"
  assumes "distinct rows" "distinct part" "set part \<subseteq> set rows"
  shows "sum_list (map (\<lambda>r. if r \<in> set part then g r else 0) rows) = sum_list (map g part)"
proof -
  have "sum_list (map (\<lambda>r. if r \<in> set part then g r else 0) rows) = (\<Sum>r\<in>set rows. if r \<in> set part then g r else 0)"
    by (rule sum_list_distinct_conv_sum_set[OF assms(1)])
  also have "\<dots> = sum g (set rows \<inter> set part)" by (simp add: sum.inter_restrict)
  also have "set rows \<inter> set part = set part" using assms(3) by blast
  also have "sum g (set part) = sum_list (map g part)"
    by (rule sum_list_distinct_conv_sum_set[OF assms(2), symmetric])
  finally show ?thesis .
qed

end
