(* ===== verification/Filters.thy ===== *)
theory Filters
  imports Models
begin

text \<open>
  \<open>services/transaction_filters.py\<close>. The SQL clauses are predicates of the row and the
  table it lives in (the \<open>EXISTS\<close> subqueries read the table); the Python siblings take the
  row and the partner instance. \<open>x IN (...)\<close>, \<open>IS NULL\<close> and the three-valued comparisons of
  the clauses are written out so that a \<open>NULL\<close> drops or keeps the row as SQL does.
\<close>

section \<open>Clauses\<close>

definition REVERTED_RECONCILIATION_STATES :: "reconciliation_state list" where
  "REVERTED_RECONCILIATION_STATES = [skipped, rejected]"

definition reverted :: "transaction \<Rightarrow> bool" where
  "reverted t \<longleftrightarrow> tx_recon t \<in> set REVERTED_RECONCILIATION_STATES"

lemma reverted_iff [simp]: "reverted t \<longleftrightarrow> tx_recon t = skipped \<or> tx_recon t = rejected"
  by (auto simp: reverted_def REVERTED_RECONCILIATION_STATES_def)

definition signed_amount_expr :: "transaction \<Rightarrow> decimal" where
  "signed_amount_expr t = (if tx_type t = INCOME then tx_amount t else - tx_amount t)"

definition reportable_transaction_filter :: "transaction \<Rightarrow> bool" where
  "reportable_transaction_filter t \<longleftrightarrow>
     tx_linked t = None \<and> \<not> tx_is_manual_adjustment t \<and> \<not> reverted t"

definition balance_contribution_filter :: "transaction list \<Rightarrow> transaction \<Rightarrow> bool" where
  "balance_contribution_filter rows t \<longleftrightarrow>
     \<not> reverted t \<and>
     (tx_linked t = None \<or>
      list_ex (\<lambda>p. tx_linked t = Some (tx_id p) \<and> tx_linked p = Some (tx_id t)) rows)"

definition non_reverted_transaction_filter :: "transaction list \<Rightarrow> transaction \<Rightarrow> bool" where
  "non_reverted_transaction_filter rows t = balance_contribution_filter rows t"

definition not_pending_of_series_filter :: "int list \<Rightarrow> transaction \<Rightarrow> bool" where
  "not_pending_of_series_filter recurring_ids t \<longleftrightarrow>
     tx_status t \<noteq> PENDING \<or>
     (case tx_recurring_id t of None \<Rightarrow> True | Some r \<Rightarrow> r \<notin> set recurring_ids)"

definition reciprocal_transfer_filter :: "transaction list \<Rightarrow> transaction \<Rightarrow> bool" where
  "reciprocal_transfer_filter rows t \<longleftrightarrow>
     list_ex (\<lambda>p. tx_linked t = Some (tx_id p) \<and> tx_org_id p = tx_org_id t \<and>
       tx_linked p = Some (tx_id t) \<and> tx_id p \<noteq> tx_id t) rows"

definition effective_period_date_expr :: "transaction \<Rightarrow> date" where
  "effective_period_date_expr t = (case tx_settled_date t of Some d \<Rightarrow> d | None \<Rightarrow> tx_date t)"

section \<open>Python predicates\<close>

definition is_reportable_transaction :: "transaction \<Rightarrow> bool" where
  "is_reportable_transaction t \<longleftrightarrow>
     tx_linked t = None \<and> \<not> tx_is_manual_adjustment t \<and> \<not> reverted t"

definition is_transfer_leg :: "transaction \<Rightarrow> bool" where
  "is_transfer_leg t \<longleftrightarrow> tx_linked t \<noteq> None"

definition is_reciprocal_pair :: "transaction \<Rightarrow> transaction option \<Rightarrow> bool" where
  "is_reciprocal_pair t partner =
     (case partner of
        None \<Rightarrow> False
      | Some p \<Rightarrow> tx_linked t \<noteq> None \<and> tx_linked t = Some (tx_id p) \<and> tx_id p \<noteq> tx_id t \<and>
          tx_org_id p = tx_org_id t \<and> tx_linked p = Some (tx_id t))"

definition contributes_to_cached_balance :: "transaction \<Rightarrow> transaction option \<Rightarrow> bool" where
  "contributes_to_cached_balance t partner =
     (if reverted t then False
      else if tx_linked t = None then True
      else (case partner of
              None \<Rightarrow> True
            | Some p \<Rightarrow> if Some (tx_id p) \<noteq> tx_linked t then True
                        else tx_linked p = Some (tx_id t)))"

text \<open>The partner a service resolves: the row the link names, within the organisation.\<close>

definition link_target :: "transaction list \<Rightarrow> transaction \<Rightarrow> transaction option" where
  "link_target rows t =
     (case tx_linked t of
        None \<Rightarrow> None
      | Some i \<Rightarrow> find (\<lambda>p. tx_id p = i \<and> tx_org_id p = tx_org_id t) rows)"

definition org_currency_filter :: "account list \<Rightarrow> int \<Rightarrow> (int \<times> string option) option \<Rightarrow> int \<Rightarrow> bool" where
  "org_currency_filter accts org_id currency_scope account_id =
     (case currency_scope of
        None \<Rightarrow> True
      | Some (excluded_account_count, currency) \<Rightarrow>
          if excluded_account_count = 0 then True
          else list_ex (\<lambda>a. acc_id a = account_id \<and> acc_org_id a = org_id \<and>
                 Some (acc_currency a) = currency) accts)"

section \<open>Well-formed links\<close>

text \<open>What the three writers of the link column keep: a link names an existing row of the
  same organisation, and never the row itself.\<close>

definition links_wf :: "transaction list \<Rightarrow> bool" where
  "links_wf rows \<longleftrightarrow>
     list_all (\<lambda>t. case tx_linked t of
         None \<Rightarrow> True
       | Some i \<Rightarrow> i \<noteq> tx_id t \<and> list_ex (\<lambda>p. tx_id p = i \<and> tx_org_id p = tx_org_id t) rows) rows"

lemma links_wfD:
  assumes "links_wf rows" "t \<in> set rows" "tx_linked t = Some i"
  shows "i \<noteq> tx_id t" "\<exists>p \<in> set rows. tx_id p = i \<and> tx_org_id p = tx_org_id t"
  using assms by (auto simp: links_wf_def list_all_iff list_ex_iff)

lemma links_wf_iff:
  "links_wf rows \<longleftrightarrow>
     (\<forall>t \<in> set rows. \<forall>i. tx_linked t = Some i \<longrightarrow>
        i \<noteq> tx_id t \<and> (\<exists>p \<in> set rows. tx_id p = i \<and> tx_org_id p = tx_org_id t))"
  by (auto simp: links_wf_def list_all_iff list_ex_iff split: option.splits)

lemma link_target_Some:
  "link_target rows t = Some p \<Longrightarrow> p \<in> set rows \<and> tx_linked t = Some (tx_id p) \<and> tx_org_id p = tx_org_id t"
  by (auto simp: link_target_def find_Some_iff split: option.splits)

lemma link_target_wf:
  assumes "links_wf rows" "t \<in> set rows" "distinct (map tx_id rows)"
  shows "tx_linked t = Some i \<longleftrightarrow> (\<exists>p. link_target rows t = Some p \<and> tx_id p = i)"
proof
  assume i: "tx_linked t = Some i"
  from links_wfD(2)[OF assms(1,2) i] have "link_target rows t \<noteq> None"
    by (auto simp: link_target_def i find_None_iff)
  then obtain p where p: "link_target rows t = Some p" by blast
  with link_target_Some[OF p] i show "\<exists>p. link_target rows t = Some p \<and> tx_id p = i" by auto
qed (auto dest: link_target_Some)

text \<open>On well-formed links the Python predicate and its SQL sibling agree.\<close>

lemma contributes_filter_agree:
  assumes "links_wf rows" "distinct (map tx_id rows)" "t \<in> set rows"
  shows "contributes_to_cached_balance t (link_target rows t) = balance_contribution_filter rows t"
proof (cases "tx_linked t")
  case None
  then show ?thesis by (simp add: contributes_to_cached_balance_def balance_contribution_filter_def)
next
  case (Some i)
  with link_target_wf[OF assms(1,3,2)] obtain p where
    p: "link_target rows t = Some p" "tx_id p = i" by blast
  have "(\<exists>q \<in> set rows. i = tx_id q \<and> tx_linked q = Some (tx_id t)) \<longleftrightarrow> tx_linked p = Some (tx_id t)"
    using link_target_Some[OF p(1)] p(2) key_unique[OF assms(2)] by metis
  then show ?thesis
    by (auto simp: contributes_to_cached_balance_def balance_contribution_filter_def Some p list_ex_iff)
qed

lemma reciprocal_filter_agree:
  assumes "distinct (map tx_id rows)"
  shows "reciprocal_transfer_filter rows t = is_reciprocal_pair t (link_target rows t)"
proof (cases "link_target rows t")
  case None
  then show ?thesis
    by (auto simp: reciprocal_transfer_filter_def is_reciprocal_pair_def link_target_def
        list_ex_iff find_None_iff split: option.splits)
next
  case (Some p)
  from link_target_Some[OF Some]
  show ?thesis
    using key_unique[OF assms] by (auto simp: reciprocal_transfer_filter_def is_reciprocal_pair_def Some list_ex_iff)
qed

text \<open>A reciprocal pair is symmetric.\<close>

lemma is_reciprocal_pair_sym: "is_reciprocal_pair t (Some p) = is_reciprocal_pair p (Some t)"
  by (auto simp: is_reciprocal_pair_def)

end
