(* ===== verification/Batches.thy ===== *)
theory Batches
  imports Filters
begin

text \<open>
  Import batches (\<open>services/reconciliation_service.py\<close>): creation, the denormalized counters
  and the auto-close. \<open>batches_inv\<close> says the three counters of every batch are the counts of
  its live rows; the operations on single rows are followed through it here, and the
  handlers that move many rows use these lemmas.
\<close>

section \<open>Operations\<close>

definition PENDING_STATES :: "reconciliation_state list" where
  "PENDING_STATES = [pending_review, unmatched]"

definition put_batch :: "import_batch \<Rightarrow> store \<Rightarrow> store" where
  "put_batch b s = s\<lparr>batches := update_row ib_id (ib_id b) (\<lambda>_. b) (batches s)\<rparr>"

definition find_batch :: "store \<Rightarrow> int \<Rightarrow> int \<Rightarrow> import_batch option" where
  "find_batch s batch_id org_id = find (\<lambda>b. ib_id b = batch_id \<and> ib_org_id b = org_id) (batches s)"

definition get_batch_for_update :: "store \<Rightarrow> int \<Rightarrow> int \<Rightarrow> import_batch result" where
  "get_batch_for_update s org_id batch_id =
     (case find_batch s batch_id org_id of
        None \<Rightarrow> Inl (NotFoundError ''ImportBatch'') | Some b \<Rightarrow> Inr b)"

definition close_batch_if_complete :: "store \<Rightarrow> import_batch \<Rightarrow> int list \<Rightarrow> import_batch \<times> bool" where
  "close_batch_if_complete s batch exclude_transaction_ids =
     (if ib_status batch = BatchClosed then (batch, False)
      else if ib_pending_count batch > 0 then (batch, False)
      else
        let pending = int (length (filter (\<lambda>t. tx_import_batch_id t = Some (ib_id batch) \<and>
              tx_recon t \<in> set PENDING_STATES \<and> tx_id t \<notin> set exclude_transaction_ids) (transactions s)))
        in if pending > 0 then (batch\<lparr>ib_pending_count := pending\<rparr>, False)
           else (batch\<lparr>ib_status := BatchClosed\<rparr>, True))"

definition create_import_batch ::
  "store \<Rightarrow> int \<Rightarrow> string \<Rightarrow> int option list \<Rightarrow> (store \<times> import_batch) result" where
  "create_import_batch s org_id source_format transaction_ids =
     (let ids = List.map_filter id transaction_ids in
      if ids = [] then Inl (ValidationError ''create_import_batch called with empty transaction_ids'')
      else if source_format \<notin> set [''csv'', ''ofx'', ''tab'']
        then Inl (ValidationError ''unknown source_format'')
      else
        let batch = \<lparr>ib_id = next_id s, ib_org_id = org_id, ib_status = BatchOpen,
              ib_row_count = int (length ids), ib_accepted_count = int (length ids),
              ib_pending_count = 0\<rparr>
        in Inr (s\<lparr>batches := batches s @ [batch], next_id := next_id s + 1,
                  transactions := map (\<lambda>t. if tx_id t \<in> set ids \<and> tx_org_id t = org_id
                      then t\<lparr>tx_import_batch_id := Some (ib_id batch)\<rparr> else t) (transactions s)\<rparr>, batch))"

section \<open>The counters\<close>

definition count_rows :: "(transaction \<Rightarrow> bool) \<Rightarrow> int \<Rightarrow> transaction list \<Rightarrow> int" where
  "count_rows P bid rows = int (length (filter (\<lambda>t. tx_import_batch_id t = Some bid \<and> P t) rows))"

abbreviation "is_accepted t \<equiv> tx_recon t = accepted"
abbreviation "is_pending t \<equiv> tx_recon t \<in> set PENDING_STATES"

definition counters_ok :: "transaction list \<Rightarrow> import_batch \<Rightarrow> bool" where
  "counters_ok rows b \<longleftrightarrow>
     ib_row_count b = count_rows (\<lambda>_. True) (ib_id b) rows \<and>
     ib_accepted_count b = count_rows is_accepted (ib_id b) rows \<and>
     ib_pending_count b = count_rows is_pending (ib_id b) rows"

definition batches_inv :: "store \<Rightarrow> bool" where
  "batches_inv s \<longleftrightarrow>
     list_all (counters_ok (transactions s)) (batches s) \<and>
     list_all (\<lambda>t. case tx_import_batch_id t of None \<Rightarrow> True
        | Some bid \<Rightarrow> list_ex (\<lambda>b. ib_id b = bid \<and> ib_org_id b = tx_org_id t) (batches s)) (transactions s)"

lemma count_rows_nonneg [simp]: "0 \<le> count_rows P bid rows"
  by (simp add: count_rows_def)

lemma count_rows_append [simp]: "count_rows P bid (xs @ ys) = count_rows P bid xs + count_rows P bid ys"
  by (simp add: count_rows_def)

lemma count_rows_simps [simp]:
  "count_rows P bid [] = 0"
  "count_rows P bid (t # rows) =
     (if tx_import_batch_id t = Some bid \<and> P t then 1 else 0) + count_rows P bid rows"
  by (simp_all add: count_rows_def)

text \<open>A counter is a sum over the rows, so rewriting one row moves it by that row only.\<close>

lemma count_rows_sum:
  "count_rows P bid rows = sum_list (map (\<lambda>t. if tx_import_batch_id t = Some bid \<and> P t then 1 else 0) rows)"
  by (induction rows) auto

lemma count_rows_update:
  assumes "distinct (map tx_id rows)" "t \<in> set rows" "tx_id t' = tx_id t"
  shows "count_rows P bid (update_row tx_id (tx_id t) (\<lambda>_. t') rows) =
    count_rows P bid rows - (if tx_import_batch_id t = Some bid \<and> P t then 1 else 0)
      + (if tx_import_batch_id t' = Some bid \<and> P t' then 1 else 0)"
proof -
  let ?g = "\<lambda>t. if tx_import_batch_id t = Some bid \<and> P t then 1 else (0::int)"
  have "count_rows P bid (update_row tx_id (tx_id t) (\<lambda>_. t') rows) =
      sum_list (map (\<lambda>r. ?g (if tx_id r = tx_id t then t' else r)) rows)"
    by (simp add: count_rows_sum update_row_def comp_def)
  also have "\<dots> = sum_list (map ?g rows) - ?g t + ?g (if tx_id t = tx_id t then t' else t)"
    by (rule sum_list_change[OF assms(1,2)]) auto
  finally show ?thesis by (simp add: count_rows_sum)
qed

lemma batches_invD:
  assumes "batches_inv s"
  shows "b \<in> set (batches s) \<Longrightarrow> counters_ok (transactions s) b"
    and "t \<in> set (transactions s) \<Longrightarrow> tx_import_batch_id t = Some bid \<Longrightarrow>
      \<exists>b \<in> set (batches s). ib_id b = bid \<and> ib_org_id b = tx_org_id t"
  using assms by (fastforce simp: batches_inv_def list_all_iff list_ex_iff split: option.splits)+

lemma batches_invI:
  assumes "\<And>b. b \<in> set (batches s) \<Longrightarrow> counters_ok (transactions s) b"
    and "\<And>t bid. t \<in> set (transactions s) \<Longrightarrow> tx_import_batch_id t = Some bid \<Longrightarrow>
      \<exists>b \<in> set (batches s). ib_id b = bid \<and> ib_org_id b = tx_org_id t"
  shows "batches_inv s"
  using assms by (fastforce simp: batches_inv_def list_all_iff list_ex_iff split: option.splits)

lemma batches_inv_cong:
  "transactions s' = transactions s \<Longrightarrow> batches s' = batches s \<Longrightarrow> batches_inv s' = batches_inv s"
  unfolding batches_inv_def by (simp only:)

text \<open>The auto-close finds no drift in a batch whose counters are right.\<close>

lemma close_batch_ok:
  assumes "counters_ok (transactions s) b"
  shows "counters_ok (transactions s) (fst (close_batch_if_complete s b []))"
    and "snd (close_batch_if_complete s b []) \<longleftrightarrow> ib_status b = BatchOpen \<and> ib_pending_count b = 0"
    and "ib_id (fst (close_batch_if_complete s b [])) = ib_id b"
    and "ib_org_id (fst (close_batch_if_complete s b [])) = ib_org_id b"
    and "ib_pending_count (fst (close_batch_if_complete s b [])) = ib_pending_count b"
  using assms batch_status.exhaust[of "ib_status b"]
  by (auto simp: close_batch_if_complete_def counters_ok_def count_rows_def Let_def)

lemma create_import_batch_counters:
  assumes "create_import_batch s org_id fmt tids = Inr (s', b)" "batches_inv s" "store_wf s"
    and ids: "distinct (List.map_filter id tids)"
    and rows: "\<And>i. i \<in> set (List.map_filter id tids) \<Longrightarrow>
      \<exists>t \<in> set (transactions s). tx_id t = i \<and> tx_org_id t = org_id \<and> tx_import_batch_id t = None \<and> is_accepted t"
  shows "batches_inv s'"
proof -
  let ?ids = "List.map_filter id tids" and ?n = "next_id s"
  let ?hit = "\<lambda>t. tx_id t \<in> set ?ids \<and> tx_org_id t = org_id"
  let ?f = "\<lambda>t. if ?hit t then t\<lparr>tx_import_batch_id := Some ?n\<rparr> else t"
  from assms(1) have s': "transactions s' = map ?f (transactions s)" "batches s' = batches s @ [b]"
    and b: "ib_id b = ?n" "ib_org_id b = org_id" "ib_row_count b = int (length ?ids)"
      "ib_accepted_count b = int (length ?ids)" "ib_pending_count b = 0"
    by (auto simp: create_import_batch_def Let_def split: if_splits)
  have d: "distinct (map tx_id (transactions s))" and fresh: "\<And>b. b \<in> set (batches s) \<Longrightarrow> ib_id b \<noteq> ?n"
    using assms(3) by (auto simp: store_wf_def list_all_iff)
  have hit: "tx_import_batch_id t = None \<and> is_accepted t" if "t \<in> set (transactions s)" "?hit t" for t
    using rows[of "tx_id t"] that key_unique[OF d that(1)] by metis
  have other: "tx_import_batch_id t \<noteq> Some ?n" if "t \<in> set (transactions s)" for t
    using batches_invD(2)[OF assms(2) that] fresh by auto
  have old: "count_rows P i (map ?f (transactions s)) = count_rows P i (transactions s)" if "i \<noteq> ?n" for P i
    unfolding count_rows_sum using hit that by (auto simp: comp_def intro!: arg_cong[where f = sum_list])
  have len: "length (filter ?hit (transactions s)) = length ?ids"
  proof -
    have "set (map tx_id (filter ?hit (transactions s))) = set ?ids" using rows by fastforce
    moreover have "distinct (map tx_id (filter ?hit (transactions s)))" by (simp add: d distinct_map_filter)
    ultimately show ?thesis using ids by (metis distinct_card length_map)
  qed
  have new: "count_rows P ?n (map ?f (transactions s)) =
      int (length (filter (\<lambda>t. ?hit t \<and> P (t\<lparr>tx_import_batch_id := Some ?n\<rparr>)) (transactions s)))" for P
    using other unfolding count_rows_def filter_map comp_def length_map
    by (intro arg_cong[where f = "\<lambda>xs. int (length xs)"] filter_cong) auto
  have acc: "filter (\<lambda>t. ?hit t \<and> is_accepted t) (transactions s) = filter ?hit (transactions s)"
    "filter (\<lambda>t. ?hit t \<and> is_pending t) (transactions s) = []"
    using hit by (auto intro!: filter_cong simp: filter_empty_conv PENDING_STATES_def)
  have "counters_ok (map ?f (transactions s)) b"
    using b len acc by (simp add: counters_ok_def new)
  moreover have "counters_ok (map ?f (transactions s)) b'" if "b' \<in> set (batches s)" for b'
    using batches_invD(1)[OF assms(2) that] fresh[OF that] by (simp add: counters_ok_def old)
  moreover have "\<exists>b' \<in> set (batches s @ [b]). ib_id b' = i \<and> ib_org_id b' = tx_org_id (?f t)"
    if "t \<in> set (transactions s)" "tx_import_batch_id (?f t) = Some i" for t i
    using batches_invD(2)[OF assms(2) that(1)] that b(1,2) by (auto split: if_splits)
  ultimately show ?thesis
    by (intro batches_invI) (auto simp only: s' set_map set_append list.set)
qed

end
