(* ===== verification/Balance.thy ===== *)
theory Balance
  imports Filters
begin

text \<open>
  \<open>services/transaction_service.py\<close>: the balance primitives, the create path, transfer
  pairing and the manual adjustment. Row locks are no-ops of a sequential model; a savepoint
  that rolls back is an \<open>Inl\<close>, which leaves the caller with the store it had.
\<close>

section \<open>Guards\<close>

definition validate_account :: "store \<Rightarrow> int \<Rightarrow> int \<Rightarrow> unit result" where
  "validate_account s account_id org_id =
     guard (list_ex (\<lambda>a. acc_id a = account_id \<and> acc_org_id a = org_id) (accounts s))
       (ValidationError ''Invalid account'')"

definition find_category :: "store \<Rightarrow> int \<Rightarrow> int \<Rightarrow> category option" where
  "find_category s category_id org_id =
     find (\<lambda>c. cat_id c = category_id \<and> cat_org_id c = org_id) (categories s)"

definition validate_category :: "store \<Rightarrow> int \<Rightarrow> int \<Rightarrow> unit result" where
  "validate_category s category_id org_id =
     guard (find_category s category_id org_id \<noteq> None) (ValidationError ''Invalid category'')"

fun category_type_matches :: "category_type \<Rightarrow> transaction_type \<Rightarrow> bool" where
  "category_type_matches CatBoth _ = True"
| "category_type_matches c INCOME = (c = CatIncome)"
| "category_type_matches c EXPENSE = (c = CatExpense)"
| "category_type_matches _ TRANSFER = False"

definition validate_category_for_type ::
  "store \<Rightarrow> int \<Rightarrow> int \<Rightarrow> transaction_type \<Rightarrow> unit result" where
  "validate_category_for_type s category_id org_id ty =
     (case find_category s category_id org_id of
        None \<Rightarrow> Inl (ValidationError ''Invalid category'')
      | Some cat \<Rightarrow>
          if \<not> category_type_matches (cat_type cat) ty
          then Inl (ValidationError ''Category type does not match transaction type'')
          else (case cat_parent_id cat of
                  None \<Rightarrow> Inr ()
                | Some pid \<Rightarrow>
                    (case find_category s pid org_id of
                       None \<Rightarrow> Inr ()
                     | Some parent \<Rightarrow>
                         if \<not> category_type_matches (cat_type parent) ty
                         then Inl (ValidationError ''Subcategory's master type does not match'')
                         else Inr ())))"

definition validate_transfer_category :: "store \<Rightarrow> int \<Rightarrow> int \<Rightarrow> unit result" where
  "validate_transfer_category s category_id org_id =
     (case find_category s category_id org_id of
        None \<Rightarrow> Inl (ValidationError ''Invalid category'')
      | Some cat \<Rightarrow>
          if cat_type cat \<noteq> CatBoth
          then Inl (ValidationError ''Transfer category must accept both income and expense'')
          else Inr ())"

definition get_account_for_update :: "store \<Rightarrow> int \<Rightarrow> int \<Rightarrow> account result" where
  "get_account_for_update s account_id org_id =
     (case find (\<lambda>a. acc_id a = account_id \<and> acc_org_id a = org_id) (accounts s) of
        None \<Rightarrow> Inl (ValidationError ''Invalid account'')
      | Some a \<Rightarrow> Inr a)"

section \<open>Balance primitives\<close>

fun apply_balance :: "account \<Rightarrow> decimal \<Rightarrow> transaction_type \<Rightarrow> account result" where
  "apply_balance a amount TRANSFER =
     Inl (ValidationError ''Cannot apply balance for TRANSFER type directly'')"
| "apply_balance a amount INCOME = Inr (a\<lparr>acc_balance := acc_balance a + amount\<rparr>)"
| "apply_balance a amount EXPENSE = Inr (a\<lparr>acc_balance := acc_balance a - amount\<rparr>)"

fun revert_balance :: "account \<Rightarrow> decimal \<Rightarrow> transaction_type \<Rightarrow> account result" where
  "revert_balance a amount TRANSFER =
     Inl (ValidationError ''Cannot revert balance for TRANSFER type directly'')"
| "revert_balance a amount INCOME = Inr (a\<lparr>acc_balance := acc_balance a - amount\<rparr>)"
| "revert_balance a amount EXPENSE = Inr (a\<lparr>acc_balance := acc_balance a + amount\<rparr>)"

text \<open>Lock the account of a row, move it, write it back: what every caller does with the two
  primitives.\<close>

definition put_account :: "account \<Rightarrow> store \<Rightarrow> store" where
  "put_account a s = s\<lparr>accounts := update_row acc_id (acc_id a) (\<lambda>_. a) (accounts s)\<rparr>"

definition move_on_account ::
  "(account \<Rightarrow> decimal \<Rightarrow> transaction_type \<Rightarrow> account result) \<Rightarrow>
     int \<Rightarrow> int \<Rightarrow> decimal \<Rightarrow> transaction_type \<Rightarrow> store \<Rightarrow> store result" where
  "move_on_account op org_id account_id amount ty s =
     rbind (get_account_for_update s account_id org_id) (\<lambda>a.
     rbind (op a amount ty) (\<lambda>a'. Inr (put_account a' s)))"

section \<open>Creating a row\<close>

record tx_create =
  tc_account_id :: int
  tc_category_id :: int
  tc_description :: string
  tc_amount :: decimal
  tc_type :: transaction_type
  tc_status :: transaction_status
  tc_date :: date
  tc_settled_date :: "date option"

definition add_transaction :: "transaction \<Rightarrow> store \<Rightarrow> store" where
  "add_transaction t s = s\<lparr>transactions := transactions s @ [t], next_id := next_id s + 1\<rparr>"

definition create_transaction_no_commit ::
  "store \<Rightarrow> int \<Rightarrow> tx_create \<Rightarrow> bool \<Rightarrow> bool \<Rightarrow> string option \<Rightarrow> (store \<times> transaction) result" where
  "create_transaction_no_commit s org_id body is_imported is_manual_adjustment fitid =
     rbind (validate_account s (tc_account_id body) org_id) (\<lambda>_.
     rbind (validate_category_for_type s (tc_category_id body) org_id (tc_type body)) (\<lambda>_.
     rbind (if tc_status body = SETTLED
            then move_on_account apply_balance org_id (tc_account_id body) (tc_amount body)
                   (tc_type body) s
            else Inr s) (\<lambda>s1.
     let resolved_settled_date =
           (if tc_status body = SETTLED
            then (case tc_settled_date body of Some d \<Rightarrow> Some d | None \<Rightarrow> Some (tc_date body))
            else tc_settled_date body);
         t = \<lparr>tx_id = next_id s1, tx_org_id = org_id, tx_account_id = tc_account_id body,
              tx_category_id = tc_category_id body, tx_description = tc_description body,
              tx_amount = tc_amount body, tx_type = tc_type body, tx_status = tc_status body,
              tx_linked = None, tx_recurring_id = None, tx_recurring_origin_id = None,
              tx_date = tc_date body, tx_settled_date = resolved_settled_date,
              tx_is_imported = is_imported, tx_import_batch_id = None, tx_recon = accepted,
              tx_fitid = fitid, tx_is_manual_adjustment = is_manual_adjustment\<rparr>
     in Inr (add_transaction t s1, t))))"

text \<open>The commit, without the best-effort rule learning that follows it. The first guard is the
  \<open>Literal\<close> of the request's type.\<close>

definition create_transaction ::
  "store \<Rightarrow> int \<Rightarrow> tx_create \<Rightarrow> bool \<Rightarrow> (store \<times> transaction) result" where
  "create_transaction s org_id body is_imported =
     rbind (guard (tc_type body \<noteq> TRANSFER) (HTTP422 ''Input should be income or expense'')) (\<lambda>_.
     create_transaction_no_commit s org_id body is_imported False None)"

section \<open>Transfer pairs\<close>

definition put_transaction :: "transaction \<Rightarrow> store \<Rightarrow> store" where
  "put_transaction t s =
     s\<lparr>transactions := update_row tx_id (tx_id t) (\<lambda>_. t) (transactions s)\<rparr>"

definition same_currency :: "store \<Rightarrow> bool \<Rightarrow> transaction \<Rightarrow> transaction \<Rightarrow> bool" where
  "same_currency s accounts_loaded e i =
     (let queried = (\<lambda>t. map_option acc_currency
            (find (\<lambda>a. acc_id a = tx_account_id t \<and> acc_org_id a = tx_org_id e) (accounts s)));
          related = (\<lambda>t. row_by acc_id (accounts s) (tx_account_id t))
      in case (if accounts_loaded then related e else None, if accounts_loaded then related i else None) of
           (Some a, Some b) \<Rightarrow> acc_currency a = acc_currency b
         | _ \<Rightarrow> queried e = queried i)"

definition transfer_category :: "int \<Rightarrow> store \<Rightarrow> store \<times> int" where
  "transfer_category org_id s =
     (case find (\<lambda>c. cat_slug c = Some ''transfer'' \<and> cat_org_id c = org_id) (categories s) of
        Some c \<Rightarrow> (s, cat_id c)
      | None \<Rightarrow>
          (s\<lparr>categories := categories s @
               [\<lparr>cat_id = next_id s, cat_org_id = org_id, cat_parent_id = None,
                 cat_slug = Some ''transfer'', cat_is_system = True, cat_type = CatBoth\<rparr>],
             next_id := next_id s + 1\<rparr>, next_id s))"

definition link_pair_check :: "store \<Rightarrow> bool \<Rightarrow> transaction \<Rightarrow> transaction \<Rightarrow> unit result" where
  "link_pair_check s accounts_loaded e i =
     (if tx_is_manual_adjustment e \<or> tx_is_manual_adjustment i
        then Inl (ValidationError ''Manual balance adjustments cannot be paired as transfer legs'')
      else if tx_org_id e \<noteq> tx_org_id i
        then Inl (ValidationError ''Transfer legs must belong to the same org'')
      else if tx_type e \<noteq> EXPENSE
        then Inl (ValidationError ''Expense leg must have type=EXPENSE'')
      else if tx_type i \<noteq> INCOME
        then Inl (ValidationError ''Income leg must have type=INCOME'')
      else if tx_account_id e = tx_account_id i
        then Inl (ValidationError ''Transfer legs must be on different accounts'')
      else if \<bar>tx_amount e\<bar> \<noteq> \<bar>tx_amount i\<bar>
        then Inl (ValidationError ''Transfer legs must have equal absolute amounts'')
      else if tx_linked e \<noteq> None
        then Inl (ValidationError ''Expense leg is already linked'')
      else if tx_linked i \<noteq> None
        then Inl (ValidationError ''Income leg is already linked'')
      else if \<not> same_currency s accounts_loaded e i
        then Inl (ValidationError ''Transfer legs must have the same currency'')
      else Inr ())"

definition link_pair ::
  "store \<Rightarrow> bool \<Rightarrow> transaction \<Rightarrow> transaction \<Rightarrow> bool \<Rightarrow> int option
     \<Rightarrow> (store \<times> transaction \<times> transaction) result" where
  "link_pair s accounts_loaded e i recategorize transfer_category_id =
     rbind (link_pair_check s accounts_loaded e i) (\<lambda>_.
     rbind (if recategorize then
              (case transfer_category_id of
                 None \<Rightarrow> (case transfer_category (tx_org_id e) s of (s', c) \<Rightarrow> Inr (s', Some c))
               | Some c \<Rightarrow> rbind (validate_transfer_category s c (tx_org_id e))
                             (\<lambda>_. Inr (s, Some c)))
            else Inr (s, None)) (\<lambda>(s1, cat).
     let recat = (\<lambda>t. case cat of None \<Rightarrow> t | Some c \<Rightarrow> t\<lparr>tx_category_id := c\<rparr>);
         e' = (recat e)\<lparr>tx_linked := Some (tx_id i)\<rparr>;
         i' = (recat i)\<lparr>tx_linked := Some (tx_id e)\<rparr>
     in Inr (put_transaction i' (put_transaction e' s1), e', i')))"

text \<open>The rows a query by id within the organisation returns.\<close>

definition org_row :: "store \<Rightarrow> int \<Rightarrow> int \<Rightarrow> transaction option" where
  "org_row s org_id i = find (\<lambda>t. tx_id t = i \<and> tx_org_id t = org_id) (transactions s)"

definition pair_existing_transactions ::
  "store \<Rightarrow> int \<Rightarrow> int \<Rightarrow> int \<Rightarrow> bool \<Rightarrow> int option \<Rightarrow> (store \<times> transaction \<times> transaction) result" where
  "pair_existing_transactions s org_id expense_tx_id income_tx_id recategorize transfer_category_id =
     (if expense_tx_id = income_tx_id
        then Inl (ValidationError ''Expense and income IDs must differ'')
      else (case (org_row s org_id expense_tx_id, org_row s org_id income_tx_id) of
              (Some e, Some i) \<Rightarrow> link_pair s True e i recategorize transfer_category_id
            | _ \<Rightarrow> Inl (NotFoundError ''Transaction'')))"

definition unpair_transactions ::
  "store \<Rightarrow> int \<Rightarrow> int \<Rightarrow> int \<Rightarrow> int \<Rightarrow> (store \<times> transaction \<times> transaction) result" where
  "unpair_transactions s org_id transaction_id expense_fallback income_fallback =
     (let not_pair = ValidationError ''Transaction is not part of a transfer pair'' in
      case org_row s org_id transaction_id of
        None \<Rightarrow> Inl (NotFoundError ''Transaction'')
      | Some t \<Rightarrow>
        (case tx_linked t of
           None \<Rightarrow> Inl not_pair
         | Some pid \<Rightarrow>
             let partner = org_row s org_id pid in
             if \<not> is_reciprocal_pair t partner then Inl not_pair
             else
               rbind (validate_category s expense_fallback org_id) (\<lambda>_.
               rbind (validate_category s income_fallback org_id) (\<lambda>_.
               case (find_category s expense_fallback org_id, find_category s income_fallback org_id, partner) of
                 (Some ec, Some ic, Some p) \<Rightarrow>
                   if cat_type ec \<noteq> CatExpense \<and> cat_type ec \<noteq> CatBoth
                     then Inl (ValidationError ''expense_fallback_category_id must be EXPENSE or BOTH'')
                   else if cat_type ic \<noteq> CatIncome \<and> cat_type ic \<noteq> CatBoth
                     then Inl (ValidationError ''income_fallback_category_id must be INCOME or BOTH'')
                   else if tx_type t = EXPENSE \<and> tx_type p = INCOME \<or> tx_type t = INCOME \<and> tx_type p = EXPENSE
                     then
                       let e = (if tx_type t = EXPENSE then t else p);
                           i = (if tx_type t = EXPENSE then p else t);
                           e' = e\<lparr>tx_linked := None, tx_category_id := expense_fallback\<rparr>;
                           i' = i\<lparr>tx_linked := None, tx_category_id := income_fallback\<rparr>
                       in Inr (put_transaction i' (put_transaction e' s), e', i')
                     else Inl (ConflictError ''Pair has invalid type composition'')
               | _ \<Rightarrow> Inl (ValidationError ''Invalid category'')))))"

section \<open>Creating a transfer\<close>

record transfer_create =
  tf_from_account_id :: int
  tf_to_account_id :: int
  tf_category_id :: "int option"
  tf_description :: string
  tf_amount :: decimal
  tf_status :: transaction_status
  tf_date :: date

definition account_name :: "store \<Rightarrow> int \<Rightarrow> int \<Rightarrow> string" where
  "account_name s account_id org_id =
     (case find (\<lambda>a. acc_id a = account_id \<and> acc_org_id a = org_id) (accounts s) of
        Some a \<Rightarrow> acc_name a | None \<Rightarrow> ''None'')"

text \<open>One leg of a transfer, as the two constructor calls write it.\<close>

definition transfer_leg ::
  "store \<Rightarrow> int \<Rightarrow> transfer_create \<Rightarrow> int \<Rightarrow> int \<Rightarrow> string \<Rightarrow> transaction_type \<Rightarrow> bool \<Rightarrow> transaction" where
  "transfer_leg s org_id body account_id category_id description ty is_imported =
     \<lparr>tx_id = next_id s, tx_org_id = org_id, tx_account_id = account_id,
      tx_category_id = category_id, tx_description = description, tx_amount = tf_amount body,
      tx_type = ty, tx_status = tf_status body, tx_linked = None, tx_recurring_id = None,
      tx_recurring_origin_id = None, tx_date = tf_date body,
      tx_settled_date = (if tf_status body = SETTLED then Some (tf_date body) else None),
      tx_is_imported = is_imported, tx_import_batch_id = None, tx_recon = accepted,
      tx_fitid = None, tx_is_manual_adjustment = False\<rparr>"

text \<open>\<open>account.balance += x\<close> on a locked account.\<close>

definition bump_account :: "int \<Rightarrow> int \<Rightarrow> decimal \<Rightarrow> store \<Rightarrow> store result" where
  "bump_account org_id account_id x s =
     rbind (get_account_for_update s account_id org_id)
       (\<lambda>a. Inr (put_account (a\<lparr>acc_balance := acc_balance a + x\<rparr>) s))"

text \<open>The description falls back to the two account names, the category to the system one.\<close>

definition transfer_description :: "store \<Rightarrow> int \<Rightarrow> transfer_create \<Rightarrow> string" where
  "transfer_description s org_id body =
     (let stripped = py_strip (tf_description body) in
      if stripped = [] then
        ''Transfer from '' @ account_name s (tf_from_account_id body) org_id
        @ '' to '' @ account_name s (tf_to_account_id body) org_id
      else stripped)"

definition resolve_transfer_category :: "store \<Rightarrow> int \<Rightarrow> int option \<Rightarrow> (store \<times> int) result" where
  "resolve_transfer_category s org_id category_id =
     (case category_id of
        None \<Rightarrow> Inr (transfer_category org_id s)
      | Some c \<Rightarrow> rbind (validate_transfer_category s c org_id) (\<lambda>_. Inr (s, c)))"

definition create_transfer ::
  "store \<Rightarrow> int \<Rightarrow> transfer_create \<Rightarrow> bool \<Rightarrow> (store \<times> transaction \<times> transaction) result" where
  "create_transfer s org_id body is_imported =
     rbind (guard (tf_from_account_id body \<noteq> tf_to_account_id body)
       (ValidationError ''Source and destination accounts must be different'')) (\<lambda>_.
     rbind (validate_account s (tf_from_account_id body) org_id) (\<lambda>_.
     rbind (validate_account s (tf_to_account_id body) org_id) (\<lambda>_.
     rbind (resolve_transfer_category s org_id (tf_category_id body)) (\<lambda>(s1, category_id).
     let description = transfer_description s org_id body;
         e = transfer_leg s1 org_id body (tf_from_account_id body) category_id description EXPENSE is_imported;
         s2 = add_transaction e s1;
         i = transfer_leg s2 org_id body (tf_to_account_id body) category_id description INCOME is_imported;
         s3 = add_transaction i s2
     in
     rbind (link_pair s3 False e i False (Some category_id)) (\<lambda>(s4, e', i').
     rbind (if tf_status body = SETTLED then
              rbind (bump_account org_id (tf_from_account_id body) (- tf_amount body) s4)
                (bump_account org_id (tf_to_account_id body) (tf_amount body))
            else Inr s4) (\<lambda>s5. Inr (s5, e', i')))))))"

section \<open>Manual balance adjustment\<close>

definition balance_adjustment_category :: "int \<Rightarrow> store \<Rightarrow> store \<times> int" where
  "balance_adjustment_category org_id s =
     (case find (\<lambda>c. cat_slug c = Some ''balance-adjustment'' \<and> cat_org_id c = org_id \<and> cat_is_system c)
             (categories s) of
        Some c \<Rightarrow> (s, cat_id c)
      | None \<Rightarrow>
          (s\<lparr>categories := categories s @
               [\<lparr>cat_id = next_id s, cat_org_id = org_id, cat_parent_id = None,
                 cat_slug = Some ''balance-adjustment'', cat_is_system = True, cat_type = CatBoth\<rparr>],
             next_id := next_id s + 1\<rparr>, next_id s))"

text \<open>\<open>show_dec\<close> is \<open>str\<close> on a \<open>Decimal\<close>. The body is validated as a \<open>TransactionCreate\<close>: the description is
  stripped, and it never is empty; of the checks on the amount only the ten digits before the point can fail
  for a difference of two amounts in cents that is not zero.\<close>

definition adjustment_body ::
  "(decimal \<Rightarrow> string) \<Rightarrow> int \<Rightarrow> int \<Rightarrow> decimal \<Rightarrow> decimal \<Rightarrow> string option \<Rightarrow> date \<Rightarrow> tx_create" where
  "adjustment_body show_dec account_id category_id old_balance target_balance reason today =
     (let delta = target_balance - old_balance;
          d0 = ''Balance adjustment: '' @ show_dec old_balance @ '' -> '' @ show_dec target_balance;
          d1 = (case reason of Some r \<Rightarrow> if r = [] then d0 else d0 @ '' ('' @ r @ '')'' | None \<Rightarrow> d0)
      in \<lparr>tc_account_id = account_id, tc_category_id = category_id,
          tc_description = py_strip (take 255 d1),
          tc_amount = (if delta > 0 then delta else - delta),
          tc_type = (if delta > 0 then INCOME else EXPENSE),
          tc_status = SETTLED, tc_date = today, tc_settled_date = None\<rparr>)"

text \<open>The result is the row, the old and new balance and the delta. The audit row staged in
  the same transaction is not part of the store.\<close>

definition adjust_account_balance ::
  "(decimal \<Rightarrow> string) \<Rightarrow> store \<Rightarrow> int \<Rightarrow> int \<Rightarrow> decimal \<Rightarrow> string option \<Rightarrow> date
     \<Rightarrow> (store \<times> transaction \<times> decimal \<times> decimal \<times> decimal) result" where
  "adjust_account_balance show_dec s org_id account_id target_balance reason today =
     rbind (get_account_for_update s account_id org_id) (\<lambda>acct.
     let old_balance = acc_balance acct; delta = target_balance - old_balance in
     if delta = 0 then Inl (ConflictError ''No change to apply'')
     else
       case balance_adjustment_category org_id s of (s1, category_id) \<Rightarrow>
         rbind (guard (\<bar>delta\<bar> < 10 ^ 10) (PyValueError ''amount'')) (\<lambda>_.
         rbind (create_transaction_no_commit s1 org_id
             (adjustment_body show_dec account_id category_id old_balance target_balance reason today)
             False True None) (\<lambda>(s2, t).
         rbind (get_account_for_update s2 account_id org_id) (\<lambda>acct2.
         let t' = t\<lparr>tx_settled_date := Some today\<rparr>
         in Inr (put_transaction t' s2, t', old_balance, acc_balance acct2, delta)))))"

section \<open>The audit of a cached balance\<close>

definition reconcile_account :: "store \<Rightarrow> int \<Rightarrow> account \<Rightarrow> decimal \<times> decimal \<times> bool" where
  "reconcile_account s org_id a =
     (let rows = transactions s;
          counted = (\<lambda>ty t. tx_account_id t = acc_id a \<and> tx_org_id t = org_id \<and> tx_type t = ty \<and>
             tx_status t = SETTLED \<and> balance_contribution_filter rows t);
          income = sum_list (map tx_amount (filter (counted INCOME) rows));
          expense = sum_list (map tx_amount (filter (counted EXPENSE) rows));
          computed = acc_opening_balance a + income - expense
      in (acc_balance a, computed, acc_balance a = computed))"

end
