(* ===== verification/BalanceInv.thy ===== *)
theory BalanceInv
  imports Balance
begin

text \<open>
  The invariant of the ledger: the cached \<open>accounts.balance\<close> is the opening balance plus the
  settled rows that \<open>balance_contribution_filter\<close> keeps, on well-formed rows and links.
  \<open>off_by\<close> measures how far each account is from it, so that an operation is followed
  through the moments when a row has been written and its account not yet moved.
\<close>

section \<open>The books\<close>

definition signed :: "transaction_type \<Rightarrow> decimal \<Rightarrow> decimal" where
  "signed ty x = (if ty = INCOME then x else - x)"

definition settled_contribution :: "transaction list \<Rightarrow> int \<Rightarrow> transaction \<Rightarrow> decimal" where
  "settled_contribution rows aid t =
     (if tx_account_id t = aid \<and> tx_status t = SETTLED \<and> balance_contribution_filter rows t
      then signed_amount_expr t else 0)"

definition total :: "transaction list \<Rightarrow> int \<Rightarrow> decimal" where
  "total rows aid = sum_list (map (settled_contribution rows aid) rows)"

definition off_by :: "(int \<Rightarrow> decimal) \<Rightarrow> store \<Rightarrow> bool" where
  "off_by f s \<longleftrightarrow>
     (\<forall>a \<in> set (accounts s).
        acc_balance a = acc_opening_balance a + total (transactions s) (acc_id a) + f (acc_id a))"

definition account_of :: "store \<Rightarrow> int \<Rightarrow> int \<Rightarrow> bool" where
  "account_of s account_id org_id \<longleftrightarrow>
     list_ex (\<lambda>a. acc_id a = account_id \<and> acc_org_id a = org_id) (accounts s)"

definition row_ok :: "store \<Rightarrow> transaction \<Rightarrow> bool" where
  "row_ok s t \<longleftrightarrow>
     account_of s (tx_account_id t) (tx_org_id t) \<and>
     (tx_status t = SETTLED \<longrightarrow> tx_settled_date t \<noteq> None \<and> tx_type t \<noteq> TRANSFER)"

definition ledger_inv :: "store \<Rightarrow> bool" where
  "ledger_inv s \<longleftrightarrow>
     store_wf s \<and> links_wf (transactions s) \<and> list_all (row_ok s) (transactions s) \<and>
     list_all (\<lambda>a. snd (snd (reconcile_account s (acc_org_id a) a))) (accounts s)"

section \<open>The audit counts the contributions\<close>

lemma signed_amount_signed: "signed_amount_expr t = signed (tx_type t) (tx_amount t)"
  by (simp add: signed_amount_expr_def signed_def)

lemma audit_sum:
  fixes g :: "transaction \<Rightarrow> decimal"
  assumes "\<forall>t \<in> set xs. P t \<longrightarrow> Q INCOME t \<or> Q EXPENSE t"
    and "\<forall>t ty. Q ty t \<longrightarrow> P t \<and> tx_type t = ty"
  shows "sum_list (map tx_amount (filter (Q INCOME) xs)) - sum_list (map tx_amount (filter (Q EXPENSE) xs))
    = sum_list (map (\<lambda>t. if P t then signed_amount_expr t else 0) xs)"
  using assms(1)
proof (induction xs)
  case (Cons t xs)
  then have IH: "sum_list (map tx_amount (filter (Q INCOME) xs)) -
      sum_list (map tx_amount (filter (Q EXPENSE) xs)) =
      sum_list (map (\<lambda>t. if P t then signed_amount_expr t else 0) xs)" by simp
  have "Q INCOME t \<Longrightarrow> \<not> Q EXPENSE t"
    using assms(2) by (metis transaction_type.distinct(1))
  moreover have "Q ty t \<Longrightarrow> tx_type t = ty \<and> P t" for ty using assms(2) by blast
  moreover have "P t \<Longrightarrow> Q INCOME t \<or> Q EXPENSE t" using Cons.prems by simp
  ultimately show ?case
    using IH by (auto simp: signed_amount_expr_def algebra_simps)
qed simp

lemma reconcile_account_computed:
  assumes "list_all (row_ok s) (transactions s)" "distinct (map acc_id (accounts s))"
    and "a \<in> set (accounts s)"
  shows "reconcile_account s (acc_org_id a) a =
    (acc_balance a, acc_opening_balance a + total (transactions s) (acc_id a),
     acc_balance a = acc_opening_balance a + total (transactions s) (acc_id a))"
proof -
  let ?P = "\<lambda>t. tx_account_id t = acc_id a \<and> tx_status t = SETTLED \<and>
    balance_contribution_filter (transactions s) t"
  let ?Q = "\<lambda>ty t. tx_account_id t = acc_id a \<and> tx_org_id t = acc_org_id a \<and> tx_type t = ty \<and>
    tx_status t = SETTLED \<and> balance_contribution_filter (transactions s) t"
  have org: "tx_org_id t = acc_org_id a" if "t \<in> set (transactions s)" "?P t" for t
  proof -
    from that assms(1) obtain b where "b \<in> set (accounts s)" "acc_id b = acc_id a" "acc_org_id b = tx_org_id t"
      by (auto simp: list_all_iff row_ok_def account_of_def list_ex_iff)
    then show ?thesis using key_unique[OF assms(2) _ assms(3)] by metis
  qed
  have ty: "tx_type t = INCOME \<or> tx_type t = EXPENSE" if "t \<in> set (transactions s)" "?P t" for t
    using that assms(1) by (cases "tx_type t") (auto simp: list_all_iff row_ok_def)
  have "sum_list (map tx_amount (filter (?Q INCOME) (transactions s))) -
      sum_list (map tx_amount (filter (?Q EXPENSE) (transactions s))) =
      sum_list (map (\<lambda>t. if ?P t then signed_amount_expr t else 0) (transactions s))"
    by (rule audit_sum) (use org ty in blast)+
  then show ?thesis
    by (auto simp: reconcile_account_def Let_def total_def settled_contribution_def[abs_def] algebra_simps)
qed

lemma ledger_inv_iff:
  "ledger_inv s \<longleftrightarrow>
     store_wf s \<and> links_wf (transactions s) \<and> list_all (row_ok s) (transactions s) \<and> off_by (\<lambda>_. 0) s"
proof -
  have "list_all (\<lambda>a. snd (snd (reconcile_account s (acc_org_id a) a))) (accounts s) = off_by (\<lambda>_. 0) s"
    if "store_wf s" "list_all (row_ok s) (transactions s)"
    using that reconcile_account_computed[of s]
    by (auto simp: store_wf_def list_all_iff off_by_def)
  then show ?thesis unfolding ledger_inv_def by blast
qed

section \<open>Moving an account\<close>

definition add_balance :: "int \<Rightarrow> decimal \<Rightarrow> store \<Rightarrow> store" where
  "add_balance aid x s =
     s\<lparr>accounts := update_row acc_id aid (\<lambda>a. a\<lparr>acc_balance := acc_balance a + x\<rparr>) (accounts s)\<rparr>"

lemma add_balance_sel [simp]:
  "transactions (add_balance aid x s) = transactions s"
  "categories (add_balance aid x s) = categories s"
  "templates (add_balance aid x s) = templates s"
  "batches (add_balance aid x s) = batches s"
  "next_id (add_balance aid x s) = next_id s"
  by (simp_all add: add_balance_def)

lemma add_balance_ids [simp]: "map acc_id (accounts (add_balance aid x s)) = map acc_id (accounts s)"
  by (simp add: add_balance_def update_row_keys)

lemma add_balance_wf [simp]: "store_wf (add_balance aid x s) = store_wf s"
  by (simp add: store_wf_def)

lemma add_balance_account_of [simp]: "account_of (add_balance aid x s) i = account_of s i"
proof -
  have ex_map: "list_ex (\<lambda>a. acc_id a = i \<and> acc_org_id a = org) (map f xs) =
      list_ex (\<lambda>a. acc_id a = i \<and> acc_org_id a = org) xs"
    if "\<And>a. acc_id (f a) = acc_id a \<and> acc_org_id (f a) = acc_org_id a" for i org f and xs :: "account list"
    using that by (induction xs) auto
  show ?thesis
  proof (rule ext)
    fix org
    show "account_of (add_balance aid x s) i org = account_of s i org"
      unfolding account_of_def add_balance_def update_row_def store.simps
      by (simp, rule ex_map) simp
  qed
qed

lemma add_balance_row_ok [simp]: "row_ok (add_balance aid x s) = row_ok s"
  by (simp add: row_ok_def fun_eq_iff)

lemma off_by_add_balance:
  "off_by f s \<Longrightarrow> off_by (\<lambda>i. f i + (if i = aid then x else 0)) (add_balance aid x s)"
  by (auto simp: off_by_def add_balance_def set_update_row algebra_simps)

lemma off_by_cong:
  "off_by f s \<Longrightarrow> (\<And>a. a \<in> set (accounts s) \<Longrightarrow> f (acc_id a) = g (acc_id a)) \<Longrightarrow> off_by g s"
  by (auto simp: off_by_def)

lemma off_by_transactions:
  "off_by f s \<Longrightarrow> accounts s' = accounts s \<Longrightarrow>
     (\<And>i. total (transactions s') i = total (transactions s) i + g i) \<Longrightarrow>
     off_by (\<lambda>i. f i - g i) s'"
  by (auto simp: off_by_def)

lemma get_account_Inr:
  assumes "get_account_for_update s aid org = Inr a"
  shows "a \<in> set (accounts s)" "acc_id a = aid" "acc_org_id a = org"
  using assms by (auto simp: get_account_for_update_def find_Some_iff split: option.splits)

lemma put_account_add:
  assumes "distinct (map acc_id (accounts s))" "a \<in> set (accounts s)"
  shows "put_account (a\<lparr>acc_balance := acc_balance a + x\<rparr>) s = add_balance (acc_id a) x s"
proof -
  have "map (\<lambda>r. if acc_id r = acc_id a then a\<lparr>acc_balance := acc_balance a + x\<rparr> else r) (accounts s)
      = map (\<lambda>r. if acc_id r = acc_id a then r\<lparr>acc_balance := acc_balance r + x\<rparr> else r) (accounts s)"
    using key_unique[OF assms(1) _ assms(2)] by (intro map_cong) auto
  then show ?thesis by (simp add: put_account_def add_balance_def update_row_def)
qed

lemma get_account_account_of: "get_account_for_update s aid org = Inr a \<Longrightarrow> account_of s aid org"
  by (auto simp: account_of_def list_ex_iff dest: get_account_Inr)

lemma move_apply:
  assumes "move_on_account apply_balance org aid x ty s = Inr s'" "store_wf s"
  shows "s' = add_balance aid (signed ty x) s" "ty \<noteq> TRANSFER" "account_of s aid org"
proof -
  from assms(1) obtain a a' where a: "get_account_for_update s aid org = Inr a"
    "apply_balance a x ty = Inr a'" "s' = put_account a' s"
    by (auto simp: move_on_account_def rbind_eq_Inr)
  note get = get_account_Inr[OF a(1)]
  have d: "distinct (map acc_id (accounts s))" using assms(2) by (simp add: store_wf_def)
  from a(2) show "ty \<noteq> TRANSFER" by auto
  from a(2) have "a' = a\<lparr>acc_balance := acc_balance a + signed ty x\<rparr>"
    by (cases ty) (auto simp: signed_def)
  with put_account_add[OF d get(1)] get(2) a(3) show "s' = add_balance aid (signed ty x) s" by simp
  show "account_of s aid org" using a(1) by (rule get_account_account_of)
qed

lemma move_revert:
  assumes "move_on_account revert_balance org aid x ty s = Inr s'" "store_wf s"
  shows "s' = add_balance aid (- signed ty x) s" "ty \<noteq> TRANSFER" "account_of s aid org"
proof -
  from assms(1) obtain a a' where a: "get_account_for_update s aid org = Inr a"
    "revert_balance a x ty = Inr a'" "s' = put_account a' s"
    by (auto simp: move_on_account_def rbind_eq_Inr)
  note get = get_account_Inr[OF a(1)]
  have d: "distinct (map acc_id (accounts s))" using assms(2) by (simp add: store_wf_def)
  from a(2) show "ty \<noteq> TRANSFER" by auto
  from a(2) have "a' = a\<lparr>acc_balance := acc_balance a + - signed ty x\<rparr>"
    by (cases ty) (auto simp: signed_def)
  then show "s' = add_balance aid (- signed ty x) s"
    using put_account_add[OF d get(1), of "- signed ty x"] get(2) a(3) by simp
  show "account_of s aid org" using a(1) by (rule get_account_account_of)
qed

lemma bump_account_Inr:
  assumes "bump_account org aid x s = Inr s'" "store_wf s"
  shows "s' = add_balance aid x s" "account_of s aid org"
proof -
  from assms(1) obtain a where a: "get_account_for_update s aid org = Inr a"
    "s' = put_account (a\<lparr>acc_balance := acc_balance a + x\<rparr>) s"
    by (auto simp: bump_account_def rbind_eq_Inr)
  note get = get_account_Inr[OF a(1)]
  have d: "distinct (map acc_id (accounts s))" using assms(2) by (simp add: store_wf_def)
  show "s' = add_balance aid x s" using a(2) put_account_add[OF d get(1)] get(2) by simp
  show "account_of s aid org" using a(1) by (rule get_account_account_of)
qed

section \<open>Totals under row changes\<close>

lemma contribution_filter_append:
  "tx_linked n = None \<Longrightarrow> balance_contribution_filter (rows @ [n]) t = balance_contribution_filter rows t"
  by (auto simp: balance_contribution_filter_def)

lemma total_append_unlinked:
  "tx_linked n = None \<Longrightarrow> total (rows @ [n]) aid = total rows aid + settled_contribution rows aid n"
  by (simp add: total_def settled_contribution_def[abs_def] contribution_filter_append)

text \<open>Rewriting rows one by one: the total is kept when every contribution is.\<close>

lemma total_map_same:
  "(\<And>t. t \<in> set rows \<Longrightarrow> settled_contribution (map f rows) aid (f t) = settled_contribution rows aid t) \<Longrightarrow>
     total (map f rows) aid = total rows aid"
  unfolding total_def by (simp add: comp_def cong: map_cong)

text \<open>A row that keeps its key and its link is invisible to the contribution of any other row.\<close>

lemma contribution_filter_update:
  assumes "\<And>t. t \<in> set rows \<Longrightarrow> tx_id (f t) = tx_id t \<and> tx_linked (f t) = tx_linked t"
  shows "balance_contribution_filter (map f rows) t = balance_contribution_filter rows t"
  using assms by (auto simp: balance_contribution_filter_def list_ex_iff)

lemma total_update_row:
  assumes d: "distinct (map tx_id rows)" and t: "t \<in> set rows"
    and new: "tx_id t' = tx_id t" "tx_linked t' = tx_linked t"
  shows "total (update_row tx_id (tx_id t) (\<lambda>_. t') rows) aid =
    total rows aid - settled_contribution rows aid t + settled_contribution rows aid t'"
proof -
  let ?f = "\<lambda>r. if tx_id r = tx_id t then t' else r"
  have filt: "balance_contribution_filter (map ?f rows) r = balance_contribution_filter rows r" for r
    by (rule contribution_filter_update) (use key_unique[OF d] t new in auto)
  have "total (map ?f rows) aid = sum_list (map (\<lambda>r. settled_contribution rows aid (?f r)) rows)"
    by (simp add: total_def settled_contribution_def[abs_def] filt comp_def)
  also have "\<dots> = sum_list (map (settled_contribution rows aid) rows)
      - settled_contribution rows aid t + settled_contribution rows aid (?f t)"
    by (rule sum_list_change[OF d t]) auto
  finally show ?thesis by (simp add: update_row_def total_def)
qed

text \<open>Which links a contribution can see: its own and its partner's.\<close>

lemma contribution_filter_links:
  assumes "\<And>t. t \<in> set rows \<Longrightarrow> tx_id (f t) = tx_id t"
    and "tx_recon u = tx_recon t" "tx_id u = tx_id t"
    and "tx_linked t = None \<or> (\<exists>p \<in> set rows. tx_linked t = Some (tx_id p) \<and> tx_linked p = Some (tx_id t))
       \<longleftrightarrow> tx_linked u = None \<or> (\<exists>p \<in> set rows. tx_linked u = Some (tx_id p) \<and> tx_linked (f p) = Some (tx_id t))"
  shows "balance_contribution_filter (map f rows) u = balance_contribution_filter rows t"
  using assms by (auto simp: balance_contribution_filter_def list_ex_iff)

end
