(* ===== verification/BalanceOps.thy ===== *)
theory BalanceOps
  imports BalanceInv
begin

text \<open>
  The balances along an operation. \<open>books f s\<close> is the ledger invariant with account \<open>i\<close> off
  by \<open>f i\<close>; each step an operation can take (move an account, add a row, rewrite a row, link
  two rows, clear a link) is one lemma about it, and an operation ends with every account
  off by zero.
\<close>

section \<open>One step at a time\<close>

definition books :: "(int \<Rightarrow> decimal) \<Rightarrow> store \<Rightarrow> bool" where
  "books f s \<longleftrightarrow>
     store_wf s \<and> links_wf (transactions s) \<and> list_all (row_ok s) (transactions s) \<and> off_by f s"

lemma ledger_inv_books: "ledger_inv s \<longleftrightarrow> books (\<lambda>_. 0) s"
  by (simp add: ledger_inv_iff books_def)

lemma booksD:
  assumes "books f s"
  shows "store_wf s" "links_wf (transactions s)" "off_by f s"
    "distinct (map tx_id (transactions s))" "distinct (map acc_id (accounts s))"
    "t \<in> set (transactions s) \<Longrightarrow> row_ok s t" "t \<in> set (transactions s) \<Longrightarrow> tx_id t < next_id s"
  using assms by (auto simp: books_def store_wf_def list_all_iff)

lemma books_cong:
  "books f s \<Longrightarrow> (\<And>a. a \<in> set (accounts s) \<Longrightarrow> f (acc_id a) = g (acc_id a)) \<Longrightarrow> books g s"
  by (auto simp: books_def intro: off_by_cong)

lemma books_eq: "books f s \<Longrightarrow> f = g \<Longrightarrow> books g s"
  by simp

lemma books_add_balance:
  "books f s \<Longrightarrow> books (\<lambda>i. f i + (if i = aid then x else 0)) (add_balance aid x s)"
  by (auto simp: books_def intro: off_by_add_balance)

lemma links_wf_append:
  "links_wf rows \<Longrightarrow> tx_linked t = None \<Longrightarrow> links_wf (rows @ [t])"
  by (auto simp: links_wf_iff)

lemma add_transaction_sel [simp]:
  "transactions (add_transaction t s) = transactions s @ [t]"
  "accounts (add_transaction t s) = accounts s"
  "categories (add_transaction t s) = categories s"
  "templates (add_transaction t s) = templates s"
  "batches (add_transaction t s) = batches s"
  "next_id (add_transaction t s) = next_id s + 1"
  by (simp_all add: add_transaction_def)

lemma account_of_cong:
  assumes "accounts s' = accounts s"
  shows "account_of s' = account_of s"
  unfolding account_of_def[abs_def] assms ..


lemma row_ok_cong:
  assumes "accounts s' = accounts s"
  shows "row_ok s' = row_ok s"
  using account_of_cong[OF assms] by (simp add: row_ok_def[abs_def])

lemma books_add_row:
  assumes b: "books f s"
    and t: "tx_id t = next_id s" "tx_linked t = None" "row_ok s t"
  shows "books (\<lambda>i. f i - settled_contribution (transactions s) i t) (add_transaction t s)"
proof -
  have "next_id s \<notin> tx_id ` set (transactions s)" using booksD(7)[OF b] by fastforce
  then have "store_wf (add_transaction t s)"
    using b t(1) by (auto simp: books_def store_wf_def list_all_iff)
  moreover have "list_all (row_ok (add_transaction t s)) (transactions s @ [t])"
    using b t(3) by (simp add: books_def row_ok_cong[of "add_transaction t s" s])
  moreover have "off_by (\<lambda>i. f i - settled_contribution (transactions s) i t) (add_transaction t s)"
    by (rule off_by_transactions[OF booksD(3)[OF b]]) (simp_all add: total_append_unlinked t(2))
  ultimately show ?thesis
    using booksD(2)[OF b] t(2) by (simp add: books_def links_wf_append)
qed

lemma put_transaction_sel [simp]:
  "transactions (put_transaction t s) = update_row tx_id (tx_id t) (\<lambda>_. t) (transactions s)"
  "accounts (put_transaction t s) = accounts s"
  "categories (put_transaction t s) = categories s"
  "templates (put_transaction t s) = templates s"
  "batches (put_transaction t s) = batches s"
  "next_id (put_transaction t s) = next_id s"
  by (simp_all add: put_transaction_def)

lemma map_id_update_row:
  "map tx_id (update_row tx_id (tx_id t) (\<lambda>_. t) rows) = map tx_id rows"
  by (induction rows) (auto simp: update_row_def)

lemma put_transaction_wf [simp]: "store_wf (put_transaction t s) = store_wf s"
proof -
  have "list_all (\<lambda>r. tx_id r < n) rows = list_all (\<lambda>i. i < n) (map tx_id rows)" for n rows
    by (simp add: list_all_iff)
  from this[of "next_id s" "update_row tx_id (tx_id t) (\<lambda>_. t) (transactions s)"]
    this[of "next_id s" "transactions s"]
  show ?thesis unfolding store_wf_def put_transaction_sel map_id_update_row by simp
qed

lemma links_wf_map:
  assumes "links_wf rows"
    and "\<And>t. t \<in> set rows \<Longrightarrow> tx_id (f t) = tx_id t \<and> tx_org_id (f t) = tx_org_id t \<and>
      (tx_linked (f t) = tx_linked t \<or> tx_linked (f t) = None)"
  shows "links_wf (map f rows)"
  using assms by (fastforce simp: links_wf_iff)

lemma books_put_row:
  assumes b: "books f s" and t: "t \<in> set (transactions s)"
    and new: "tx_id t' = tx_id t" "tx_org_id t' = tx_org_id t" "tx_linked t' = tx_linked t" "row_ok s t'"
  shows "books (\<lambda>i. f i + settled_contribution (transactions s) i t - settled_contribution (transactions s) i t')
    (put_transaction t' s)"
proof -
  note uniq = key_unique[OF booksD(4)[OF b] _ t]
  have "links_wf (map (\<lambda>r. if tx_id r = tx_id t then t' else r) (transactions s))"
    by (rule links_wf_map[OF booksD(2)[OF b]]) (use uniq new in auto)
  moreover have "list_all (row_ok s) (map (\<lambda>r. if tx_id r = tx_id t then t' else r) (transactions s))"
    using b new(4) by (auto simp: books_def list_all_iff)
  moreover have "off_by (\<lambda>i. f i - (settled_contribution (transactions s) i t' - settled_contribution (transactions s) i t))
      (put_transaction t' s)"
    by (rule off_by_transactions[OF booksD(3)[OF b]])
       (simp_all add: new(1) total_update_row[OF booksD(4)[OF b] t new(1,3)])
  ultimately show ?thesis
    using b new(1)
    by (simp add: books_def update_row_def row_ok_cong[of "put_transaction t' s" s] algebra_simps)
qed

lemma books_add_category:
  assumes "books f s" "cat_id c = next_id s"
  shows "books f (s\<lparr>categories := categories s @ [c], next_id := next_id s + 1\<rparr>)"
proof -
  let ?s = "s\<lparr>categories := categories s @ [c], next_id := next_id s + 1\<rparr>"
  have "store_wf ?s"
    using assms by (fastforce simp: books_def store_wf_def list_all_iff)
  then show ?thesis
    using assms by (simp add: books_def off_by_def row_ok_cong[of ?s s])
qed

section \<open>Linking and unlinking\<close>

text \<open>Two unlinked rows become each other's partner: no contribution changes. A row that was
  matched one-way onto either of them still finds no way back.\<close>

definition relink :: "transaction \<Rightarrow> transaction \<Rightarrow> transaction \<Rightarrow> transaction" where
  "relink e i r = (if tx_id r = tx_id e then e else if tx_id r = tx_id i then i else r)"

lemma put_two:
  "tx_id e \<noteq> tx_id i \<Longrightarrow>
     transactions (put_transaction i (put_transaction e s)) = map (relink e i) (transactions s)"
  by (auto simp: update_row_def relink_def)

lemma settled_contribution_cong:
  assumes "tx_account_id u = tx_account_id t" "tx_status u = tx_status t" "tx_type u = tx_type t"
    "tx_amount u = tx_amount t"
    "balance_contribution_filter rows' u = balance_contribution_filter rows t"
  shows "settled_contribution rows' aid u = settled_contribution rows aid t"
  using assms by (simp add: settled_contribution_def signed_amount_expr_def)

lemma books_relink:
  assumes b: "books f s" and e: "e \<in> set (transactions s)" and i: "i \<in> set (transactions s)"
    and ne: "tx_id e \<noteq> tx_id i"
    and new: "tx_id e' = tx_id e" "tx_id i' = tx_id i"
    and row: "row_ok s e'" "row_ok s i'"
    and lnk: "links_wf (map (relink e' i') (transactions s))"
    and same: "\<And>aid r. r \<in> set (transactions s) \<Longrightarrow>
      settled_contribution (map (relink e' i') (transactions s)) aid (relink e' i' r) =
      settled_contribution (transactions s) aid r"
  shows "books f (put_transaction i' (put_transaction e' s))"
proof -
  have ne': "tx_id e' \<noteq> tx_id i'" using ne new by simp
  have "off_by (\<lambda>i. f i - 0) (put_transaction i' (put_transaction e' s))"
  proof (rule off_by_transactions[OF booksD(3)[OF b]])
    show "total (transactions (put_transaction i' (put_transaction e' s))) aid = total (transactions s) aid + 0"
      for aid unfolding put_two[OF ne'] using total_map_same[OF same] by simp
  qed simp
  moreover have "list_all (row_ok s) (map (relink e' i') (transactions s))"
    using b row by (auto simp: books_def list_all_iff relink_def)
  moreover have "store_wf (put_transaction i' (put_transaction e' s))"
    using booksD(1)[OF b] by simp
  ultimately show ?thesis
    using lnk unfolding books_def put_two[OF ne']
    by (simp add: row_ok_cong[of "put_transaction i' (put_transaction e' s)" s])
qed

text \<open>The columns a balance reads, apart from the link.\<close>

definition same_money :: "transaction \<Rightarrow> transaction \<Rightarrow> bool" where
  "same_money u t \<longleftrightarrow>
     tx_id u = tx_id t \<and> tx_org_id u = tx_org_id t \<and> tx_account_id u = tx_account_id t \<and>
     tx_amount u = tx_amount t \<and> tx_type u = tx_type t \<and> tx_status u = tx_status t \<and>
     tx_recon u = tx_recon t \<and> tx_settled_date u = tx_settled_date t"

lemma same_money_row_ok: "same_money u t \<Longrightarrow> row_ok s u = row_ok s t"
  by (simp add: same_money_def row_ok_def)

lemma relink_sel [simp]:
  "same_money e' e \<Longrightarrow> same_money i' i \<Longrightarrow> tx_id e \<noteq> tx_id i \<Longrightarrow> relink e' i' e = e'"
  "same_money e' e \<Longrightarrow> same_money i' i \<Longrightarrow> tx_id e \<noteq> tx_id i \<Longrightarrow> relink e' i' i = i'"
  by (auto simp: relink_def same_money_def)

lemma relink_other:
  "same_money e' e \<Longrightarrow> same_money i' i \<Longrightarrow> tx_id r \<noteq> tx_id e \<Longrightarrow> tx_id r \<noteq> tx_id i \<Longrightarrow> relink e' i' r = r"
  by (auto simp: relink_def same_money_def)

lemma relink_id:
  "same_money e' e \<Longrightarrow> same_money i' i \<Longrightarrow> tx_id (relink e' i' r) = tx_id r"
  by (auto simp: relink_def same_money_def)

lemma relink_cases:
  assumes "distinct (map tx_id rows)" "e \<in> set rows" "i \<in> set rows" "r \<in> set rows"
  shows "r = e \<or> r = i \<or> (tx_id r \<noteq> tx_id e \<and> tx_id r \<noteq> tx_id i)"
  using key_unique[OF assms(1,4)] assms(2,3) by blast

lemma books_link:
  assumes b: "books f s" and e: "e \<in> set (transactions s)" and i: "i \<in> set (transactions s)"
    and ne: "tx_id e \<noteq> tx_id i" and org: "tx_org_id e = tx_org_id i"
    and sm: "same_money e' e" "same_money i' i"
    and free: "tx_linked e = None" "tx_linked i = None"
    and lnk: "tx_linked e' = Some (tx_id i)" "tx_linked i' = Some (tx_id e)"
  shows "books f (put_transaction i' (put_transaction e' s))"
proof (rule books_relink[OF b e i ne])
  note d = booksD(4)[OF b]
  let ?f = "relink e' i'" and ?rows = "transactions s"
  show "tx_id e' = tx_id e" "tx_id i' = tx_id i" using sm by (simp_all add: same_money_def)
  show "row_ok s e'" "row_ok s i'"
    using booksD(6)[OF b e] booksD(6)[OF b i] sm by (simp_all add: same_money_row_ok)
  have fid: "tx_id (?f r) = tx_id r" "tx_org_id (?f r) = tx_org_id r" if "r \<in> set ?rows" for r
    using relink_cases[OF d e i that] relink_id[OF sm] relink_other[OF sm] sm ne
    by (auto simp: same_money_def)
  show "links_wf (map ?f ?rows)"
    unfolding links_wf_iff
  proof (intro ballI allI impI)
    fix t x assume t: "t \<in> set (map ?f ?rows)" "tx_linked t = Some x"
    then obtain r where r: "r \<in> set ?rows" "t = ?f r" by auto
    from relink_cases[OF d e i r(1)]
    have "x \<noteq> tx_id r \<and> (\<exists>p \<in> set ?rows. tx_id p = x \<and> tx_org_id p = tx_org_id r)"
    proof (elim disjE)
      assume "r = e"
      with t(2) r(2) lnk(1) sm ne i org show ?thesis by auto
    next
      assume "r = i"
      with t(2) r(2) lnk(2) sm ne e org show ?thesis by auto
    next
      assume "tx_id r \<noteq> tx_id e \<and> tx_id r \<noteq> tx_id i"
      then have "tx_linked r = Some x" using t(2) r(2) relink_other[OF sm] by auto
      with links_wfD[OF booksD(2)[OF b] r(1)] show ?thesis by blast
    qed
    then show "x \<noteq> tx_id t \<and> (\<exists>p \<in> set (map ?f ?rows). tx_id p = x \<and> tx_org_id p = tx_org_id t)"
      using r fid by force
  qed
  fix aid r assume r: "r \<in> set ?rows"
  show "settled_contribution (map ?f ?rows) aid (?f r) = settled_contribution ?rows aid r"
    using relink_cases[OF d e i r]
  proof (elim disjE)
    assume "r = e"
    have "balance_contribution_filter (map ?f ?rows) e' = balance_contribution_filter ?rows e"
      by (rule contribution_filter_links) (use fid sm free lnk i ne in \<open>auto simp: same_money_def\<close>)
    then show ?thesis
      using \<open>r = e\<close> sm ne by (simp, intro settled_contribution_cong) (auto simp: same_money_def)
  next
    assume "r = i"
    have "balance_contribution_filter (map ?f ?rows) i' = balance_contribution_filter ?rows i"
      by (rule contribution_filter_links) (use fid sm free lnk e ne in \<open>auto simp: same_money_def\<close>)
    then show ?thesis
      using \<open>r = i\<close> sm ne by (simp, intro settled_contribution_cong) (auto simp: same_money_def)
  next
    assume o: "tx_id r \<noteq> tx_id e \<and> tx_id r \<noteq> tx_id i"
    have "tx_linked (?f p) = Some (tx_id r) \<longleftrightarrow> tx_linked p = Some (tx_id r)" if "p \<in> set ?rows" for p
      using relink_cases[OF d e i that] relink_other[OF sm] o free lnk sm ne by auto
    then have "balance_contribution_filter (map ?f ?rows) r = balance_contribution_filter ?rows r"
      by (intro contribution_filter_links) (use fid in auto)
    then show ?thesis
      using o relink_other[OF sm] by (simp, intro settled_contribution_cong) auto
  qed
qed

text \<open>Clearing both sides of a reciprocal link: again no contribution changes.\<close>

lemma books_unlink:
  assumes b: "books f s" and e: "e \<in> set (transactions s)" and i: "i \<in> set (transactions s)"
    and ne: "tx_id e \<noteq> tx_id i"
    and sm: "same_money e' e" "same_money i' i"
    and lnk: "tx_linked e = Some (tx_id i)" "tx_linked i = Some (tx_id e)"
    and free: "tx_linked e' = None" "tx_linked i' = None"
  shows "books f (put_transaction i' (put_transaction e' s))"
proof (rule books_relink[OF b e i ne])
  note d = booksD(4)[OF b]
  let ?f = "relink e' i'" and ?rows = "transactions s"
  show "tx_id e' = tx_id e" "tx_id i' = tx_id i" using sm by (simp_all add: same_money_def)
  show "row_ok s e'" "row_ok s i'"
    using booksD(6)[OF b e] booksD(6)[OF b i] sm by (simp_all add: same_money_row_ok)
  have fid: "tx_id (?f r) = tx_id r" "tx_org_id (?f r) = tx_org_id r"
    "tx_linked (?f r) = tx_linked r \<or> tx_linked (?f r) = None" if "r \<in> set ?rows" for r
    using relink_cases[OF d e i that] relink_id[OF sm] relink_other[OF sm] sm ne free
    by (auto simp: same_money_def)
  show "links_wf (map ?f ?rows)"
  proof (rule links_wf_map[OF booksD(2)[OF b]])
    fix t assume "t \<in> set ?rows"
    from fid[OF this] show "tx_id (?f t) = tx_id t \<and> tx_org_id (?f t) = tx_org_id t \<and>
      (tx_linked (?f t) = tx_linked t \<or> tx_linked (?f t) = None)" by blast
  qed
  fix aid r assume r: "r \<in> set ?rows"
  show "settled_contribution (map ?f ?rows) aid (?f r) = settled_contribution ?rows aid r"
    using relink_cases[OF d e i r]
  proof (elim disjE)
    assume "r = e"
    have "balance_contribution_filter (map ?f ?rows) e' = balance_contribution_filter ?rows e"
      by (rule contribution_filter_links) (use fid sm free lnk i in \<open>auto simp: same_money_def\<close>)
    then show ?thesis
      using \<open>r = e\<close> sm ne by (simp, intro settled_contribution_cong) (auto simp: same_money_def)
  next
    assume "r = i"
    have "balance_contribution_filter (map ?f ?rows) i' = balance_contribution_filter ?rows i"
      by (rule contribution_filter_links) (use fid sm free lnk e in \<open>auto simp: same_money_def\<close>)
    then show ?thesis
      using \<open>r = i\<close> sm ne by (simp, intro settled_contribution_cong) (auto simp: same_money_def)
  next
    assume o: "tx_id r \<noteq> tx_id e \<and> tx_id r \<noteq> tx_id i"
    have "tx_linked (?f p) = Some (tx_id r) \<longleftrightarrow> tx_linked p = Some (tx_id r)" if "p \<in> set ?rows" for p
      using relink_cases[OF d e i that] relink_other[OF sm] o free lnk sm ne by auto
    then have "balance_contribution_filter (map ?f ?rows) r = balance_contribution_filter ?rows r"
      by (intro contribution_filter_links) (use fid in auto)
    then show ?thesis
      using o relink_other[OF sm] by (simp, intro settled_contribution_cong) auto
  qed
qed

end
