(* ===== verification/BalanceKeep.thy ===== *)
theory BalanceKeep
  imports BalanceOps
begin

text \<open>
  Each operation of the create, pair and adjust paths, followed step by step with the lemmas
  of \<open>BalanceOps\<close>: what it leaves the books at, and hence that the ledger invariant is kept.
\<close>

section \<open>Creating a row\<close>

lemma unlinked_contribution:
  "tx_linked t = None \<Longrightarrow> \<not> reverted t \<Longrightarrow>
     settled_contribution rows aid t =
       (if tx_account_id t = aid \<and> tx_status t = SETTLED then signed (tx_type t) (tx_amount t) else 0)"
  by (simp add: settled_contribution_def balance_contribution_filter_def signed_amount_signed)

lemma validate_account_Inr: "validate_account s aid org = Inr u \<longleftrightarrow> account_of s aid org"
  by (simp add: validate_account_def account_of_def)

lemma create_no_commit_Inr:
  assumes "create_transaction_no_commit s org body imp adj fitid = Inr (s', t)" "books f s"
  shows "books f s'"
    and "t \<in> set (transactions s')" "tx_linked t = None" "tx_id t = next_id s"
    and "tx_account_id t = tc_account_id body" "tx_org_id t = org" "tx_status t = tc_status body"
    and "tx_type t = tc_type body" "tx_amount t = tc_amount body" "tx_recon t = accepted"
    and "tc_status body = SETTLED \<Longrightarrow>
      accounts s' = accounts (add_balance (tc_account_id body) (signed (tc_type body) (tc_amount body)) s)"
proof -
  let ?x = "if tc_status body = SETTLED then signed (tc_type body) (tc_amount body) else 0"
  from assms(1) obtain s1 where s1: "s' = add_transaction t s1" "account_of s (tc_account_id body) org"
    "if tc_status body = SETTLED then move_on_account apply_balance org (tc_account_id body) (tc_amount body)
       (tc_type body) s = Inr s1 else s1 = s"
    and t: "tx_id t = next_id s1" "tx_linked t = None" "tx_account_id t = tc_account_id body"
      "tx_org_id t = org" "tx_status t = tc_status body" "tx_type t = tc_type body"
      "tx_amount t = tc_amount body" "tx_recon t = accepted"
      "tc_status body = SETTLED \<longrightarrow> tx_settled_date t \<noteq> None"
    by (auto simp: create_transaction_no_commit_def rbind_eq_Inr validate_account_Inr Let_def
        split: if_splits option.splits)
  have wf: "store_wf s" using assms(2) by (rule booksD)
  have add: "tc_status body = SETTLED \<Longrightarrow>
      s1 = add_balance (tc_account_id body) ?x s \<and> tc_type body \<noteq> TRANSFER"
    using s1(3) move_apply[OF _ wf] by simp
  have b1: "books (\<lambda>i. f i + (if i = tc_account_id body then ?x else 0)) s1"
  proof (cases "tc_status body = SETTLED")
    case True
    with add books_add_balance[OF assms(2)] show ?thesis by simp
  next
    case False
    with s1(3) assms(2) show ?thesis by simp
  qed
  have nid: "next_id s1 = next_id s" and ok1: "row_ok s1 = row_ok s"
    using s1(3) add by (cases "tc_status body = SETTLED"; simp)+
  have ok: "row_ok s1 t" unfolding ok1 using t s1(2) add by (auto simp: row_ok_def)
  have "settled_contribution (transactions s1) i t = (if i = tc_account_id body then ?x else 0)" for i
    using t by (auto simp: unlinked_contribution)
  with books_add_row[OF b1 t(1,2) ok] show "books f s'" unfolding s1(1) by simp
  show "t \<in> set (transactions s')" unfolding s1(1) by simp
  show "tx_linked t = None" "tx_id t = next_id s" "tx_account_id t = tc_account_id body" "tx_org_id t = org"
    "tx_status t = tc_status body" "tx_type t = tc_type body" "tx_amount t = tc_amount body" "tx_recon t = accepted"
    using t nid by simp_all
  show "tc_status body = SETTLED \<Longrightarrow>
      accounts s' = accounts (add_balance (tc_account_id body) (signed (tc_type body) (tc_amount body)) s)"
    using add s1(1) by simp
qed

section \<open>Pairing and unpairing\<close>

lemma transfer_category_books: "books f s \<Longrightarrow> books f (fst (transfer_category org s))"
  by (auto simp: transfer_category_def intro: books_add_category split: option.splits)

lemma transfer_category_sel [simp]:
  "transactions (fst (transfer_category org s)) = transactions s"
  "accounts (fst (transfer_category org s)) = accounts s"
  by (auto simp: transfer_category_def split: option.splits)

lemma link_pairE:
  assumes "link_pair s loaded e i recat cat = Inr (s', e', i')"
  obtains s1 c where "link_pair_check s loaded e i = Inr ()" "s1 = s \<or> s1 = fst (transfer_category (tx_org_id e) s)"
    "s' = put_transaction i' (put_transaction e' s1)"
    "e' = (case c of None \<Rightarrow> e | Some c \<Rightarrow> e\<lparr>tx_category_id := c\<rparr>)\<lparr>tx_linked := Some (tx_id i)\<rparr>"
    "i' = (case c of None \<Rightarrow> i | Some c \<Rightarrow> i\<lparr>tx_category_id := c\<rparr>)\<lparr>tx_linked := Some (tx_id e)\<rparr>"
proof -
  from assms obtain s1 c where ck: "link_pair_check s loaded e i = Inr ()"
    and s1: "(if recat then case cat of None \<Rightarrow> (case transfer_category (tx_org_id e) s of (s', c) \<Rightarrow> Inr (s', Some c))
       | Some c \<Rightarrow> rbind (validate_transfer_category s c (tx_org_id e)) (\<lambda>_. Inr (s, Some c))
       else Inr (s, None)) = Inr (s1, c)"
    and res: "s' = put_transaction i' (put_transaction e' s1)"
      "e' = (case c of None \<Rightarrow> e | Some c \<Rightarrow> e\<lparr>tx_category_id := c\<rparr>)\<lparr>tx_linked := Some (tx_id i)\<rparr>"
      "i' = (case c of None \<Rightarrow> i | Some c \<Rightarrow> i\<lparr>tx_category_id := c\<rparr>)\<lparr>tx_linked := Some (tx_id e)\<rparr>"
    by (auto simp: link_pair_def rbind_eq_Inr Let_def)
  from s1 have "s1 = s \<or> s1 = fst (transfer_category (tx_org_id e) s)"
    by (auto simp: rbind_eq_Inr split: if_splits option.splits prod.splits)
  with ck res show thesis by (intro that)
qed

lemma link_pair_Inr:
  assumes "link_pair s loaded e i recat cat = Inr (s', e', i')" "books f s"
    and mem: "e \<in> set (transactions s)" "i \<in> set (transactions s)"
  shows "books f s'" "accounts s' = accounts s"
    and "tx_linked e' = Some (tx_id i')" "tx_linked i' = Some (tx_id e')"
    and "same_money e' e" "same_money i' i"
proof -
  from assms(1) obtain s1 c where ck: "link_pair_check s loaded e i = Inr ()"
    and s1': "s1 = s \<or> s1 = fst (transfer_category (tx_org_id e) s)"
    and res: "s' = put_transaction i' (put_transaction e' s1)"
      "e' = (case c of None \<Rightarrow> e | Some c \<Rightarrow> e\<lparr>tx_category_id := c\<rparr>)\<lparr>tx_linked := Some (tx_id i)\<rparr>"
      "i' = (case c of None \<Rightarrow> i | Some c \<Rightarrow> i\<lparr>tx_category_id := c\<rparr>)\<lparr>tx_linked := Some (tx_id e)\<rparr>"
    by (rule link_pairE)
  have b1: "books f s1" using s1' transfer_category_books[OF assms(2)] assms(2) by auto
  have same: "transactions s1 = transactions s" "accounts s1 = accounts s" using s1' by auto
  from ck have c: "tx_org_id e = tx_org_id i" "tx_type e \<noteq> tx_type i" "tx_linked e = None" "tx_linked i = None"
    by (auto simp: link_pair_check_def split: if_splits)
  then have ne: "tx_id e \<noteq> tx_id i"
    using key_unique[OF booksD(4)[OF assms(2)] mem] by auto
  show sm: "same_money e' e" "same_money i' i"
    unfolding res by (auto simp: same_money_def split: option.splits)
  show "books f s'" unfolding res(1)
    by (rule books_link[OF b1 _ _ ne c(1) sm c(3,4)]) (use mem same res in auto)
  show "accounts s' = accounts s" using res(1) same by simp
  show "tx_linked e' = Some (tx_id i')" "tx_linked i' = Some (tx_id e')"
    using sm res(2,3) by (auto simp: same_money_def split: option.splits)
qed

lemma org_row_Some:
  "org_row s org i = Some t \<Longrightarrow> t \<in> set (transactions s) \<and> tx_id t = i \<and> tx_org_id t = org"
  by (auto simp: org_row_def find_Some_iff)

lemma org_row_eq:
  "distinct (map tx_id (transactions s)) \<Longrightarrow>
     org_row s org i = Some t \<longleftrightarrow> t \<in> set (transactions s) \<and> tx_id t = i \<and> tx_org_id t = org"
  unfolding org_row_def by (rule find_key)

lemma pair_keeps:
  assumes "pair_existing_transactions s org eid iid recat cat = Inr (s', e', i')" "ledger_inv s"
  shows "ledger_inv s'"
  using assms link_pair_Inr(1) org_row_Some
  by (fastforce simp: pair_existing_transactions_def ledger_inv_books split: if_splits option.splits)

lemma unpair_keeps:
  assumes "unpair_transactions s org tid ef fb = Inr (s', e', i')" "ledger_inv s"
  shows "ledger_inv s'"
proof -
  from assms(1) obtain t p pid where t: "org_row s org tid = Some t" "tx_linked t = Some pid"
      "org_row s org pid = Some p" "is_reciprocal_pair t (Some p)"
    and res: "s' = put_transaction i' (put_transaction e' s)"
      "e' = (if tx_type t = EXPENSE then t else p)\<lparr>tx_linked := None, tx_category_id := ef\<rparr>"
      "i' = (if tx_type t = EXPENSE then p else t)\<lparr>tx_linked := None, tx_category_id := fb\<rparr>"
    by (auto simp: unpair_transactions_def rbind_eq_Inr Let_def split: option.splits if_splits)
  note mem = org_row_Some[OF t(1)] org_row_Some[OF t(3)]
  from t(4) have r: "tx_linked t = Some (tx_id p)" "tx_linked p = Some (tx_id t)" "tx_id p \<noteq> tx_id t"
    by (auto simp: is_reciprocal_pair_def)
  note b = assms(2)[unfolded ledger_inv_books]
  show ?thesis
    unfolding ledger_inv_books res(1)
    by (rule books_unlink[OF b, of "if tx_type t = EXPENSE then t else p" "if tx_type t = EXPENSE then p else t"])
       (use mem r res(2,3) in \<open>auto simp: same_money_def\<close>)
qed

section \<open>Transfers\<close>

lemma bump_two:
  assumes "rbind (bump_account org a x s) (bump_account org b y) = Inr s'" "store_wf s"
  shows "s' = add_balance b y (add_balance a x s)"
proof -
  from assms(1) obtain s1 where s1: "bump_account org a x s = Inr s1" "bump_account org b y s1 = Inr s'"
    by (auto simp: rbind_eq_Inr)
  from bump_account_Inr[OF s1(1) assms(2)] have "s1 = add_balance a x s" "store_wf s1"
    using assms(2) by simp_all
  with bump_account_Inr[OF s1(2)] show ?thesis by simp
qed

lemma create_transfer_Inr:
  assumes "create_transfer s org body imp = Inr (s', e', i')" "ledger_inv s"
  shows "ledger_inv s'"
    and "tx_linked e' = Some (tx_id i')" "tx_linked i' = Some (tx_id e')"
    and "accounts s' = (if tf_status body = SETTLED
      then accounts (add_balance (tf_to_account_id body) (tf_amount body)
        (add_balance (tf_from_account_id body) (- tf_amount body) s)) else accounts s)"
proof -
  let ?from = "tf_from_account_id body" and ?to = "tf_to_account_id body"
  let ?x = "if tf_status body = SETTLED then tf_amount body else 0"
  from assms(1) obtain s1 cat where acc: "?from \<noteq> ?to" "account_of s ?from org" "account_of s ?to org"
    and r1: "resolve_transfer_category s org (tf_category_id body) = Inr (s1, cat)"
    by (auto simp: create_transfer_def rbind_eq_Inr validate_account_Inr split: if_splits)
  define e where "e = transfer_leg s1 org body ?from cat (transfer_description s org body) EXPENSE imp"
  define i where
    "i = transfer_leg (add_transaction e s1) org body ?to cat (transfer_description s org body) INCOME imp"
  from assms(1) acc r1 obtain s4
    where lp: "link_pair (add_transaction i (add_transaction e s1)) False e i False (Some cat) = Inr (s4, e', i')"
    and fin: "if tf_status body = SETTLED then rbind (bump_account org ?from (- tf_amount body) s4)
       (bump_account org ?to (tf_amount body)) = Inr s' else s' = s4"
    by (auto simp: create_transfer_def rbind_eq_Inr Let_def e_def i_def split: if_splits)
  from r1 have s1: "s1 = s \<or> s1 = fst (transfer_category org s)"
    by (auto simp: resolve_transfer_category_def rbind_eq_Inr split: option.splits)
  have b1: "books (\<lambda>_. 0) s1" and acc1: "accounts s1 = accounts s"
    using s1 transfer_category_books assms(2)[unfolded ledger_inv_books] by auto
  have ok: "row_ok s1 e" "row_ok (add_transaction e s1) i"
    using acc(2,3) account_of_cong[OF acc1] account_of_cong[of "add_transaction e s1" s1]
    unfolding e_def i_def by (simp_all add: row_ok_def transfer_leg_def)
  have leg: "settled_contribution rows a e = (if a = ?from then - ?x else 0)"
     "settled_contribution rows a i = (if a = ?to then ?x else 0)" for rows a
    unfolding e_def i_def by (simp_all add: unlinked_contribution transfer_leg_def signed_def)
  have new: "tx_id e = next_id s1" "tx_linked e = None" "tx_id i = next_id (add_transaction e s1)" "tx_linked i = None"
    by (simp_all add: e_def i_def transfer_leg_def)
  have b2: "books (\<lambda>a. - (if a = ?from then - ?x else 0)) (add_transaction e s1)"
    by (rule books_eq[OF books_add_row[OF b1 new(1,2) ok(1)]]) (simp add: leg)
  have b3: "books (\<lambda>a. - (if a = ?from then - ?x else 0) - (if a = ?to then ?x else 0))
      (add_transaction i (add_transaction e s1))"
    by (rule books_eq[OF books_add_row[OF b2 new(3,4) ok(2)]]) (simp add: leg)
  have mem: "e \<in> set (transactions (add_transaction i (add_transaction e s1)))"
    "i \<in> set (transactions (add_transaction i (add_transaction e s1)))" by simp_all
  note lk = link_pair_Inr[OF lp b3 mem]
  show "tx_linked e' = Some (tx_id i')" "tx_linked i' = Some (tx_id e')" by (rule lk)+
  have wf4: "store_wf s4" and acc4: "accounts s4 = accounts s" using booksD(1)[OF lk(1)] lk(2) acc1 by simp_all
  show "ledger_inv s'"
  proof (cases "tf_status body = SETTLED")
    case True
    with fin wf4 have s': "s' = add_balance ?to ?x (add_balance ?from (- ?x) s4)"
      using bump_two by auto
    show ?thesis
      unfolding ledger_inv_books s'
      by (rule books_eq[OF books_add_balance[OF books_add_balance[OF lk(1)]]]) auto
  next
    case False
    then have "s' = s4" using fin by simp
    then show ?thesis unfolding ledger_inv_books by (simp only:) (rule books_eq[OF lk(1)], auto simp: False)
  qed
  show "accounts s' = (if tf_status body = SETTLED
      then accounts (add_balance ?to (tf_amount body) (add_balance ?from (- tf_amount body) s)) else accounts s)"
    using fin acc4 bump_two[OF _ wf4, of org ?from "- tf_amount body" ?to "tf_amount body" s']
    by (cases "tf_status body = SETTLED") (simp_all add: add_balance_def)
qed

section \<open>Adjusting a balance\<close>

lemma balance_adjustment_category_fst:
  "books f s \<Longrightarrow> books f (fst (balance_adjustment_category org s))"
  "accounts (fst (balance_adjustment_category org s)) = accounts s"
  by (auto simp: balance_adjustment_category_def intro: books_add_category split: option.splits)

lemma adjustment_body_sel [simp]:
  "tc_account_id (adjustment_body sd aid cat old target reason today) = aid"
  "tc_status (adjustment_body sd aid cat old target reason today) = SETTLED"
  "tc_amount (adjustment_body sd aid cat old target reason today) = \<bar>target - old\<bar>"
  "signed (tc_type (adjustment_body sd aid cat old target reason today)) \<bar>target - old\<bar> = target - old"
  by (simp_all add: adjustment_body_def Let_def signed_def)

lemma adjustE:
  assumes "adjust_account_balance show_dec s org aid target reason today = Inr (s', t, old, new, delta)"
  obtains a s1 cat s2 t0 a2 where "get_account_for_update s aid org = Inr a"
      "balance_adjustment_category org s = (s1, cat)"
      "create_transaction_no_commit s1 org (adjustment_body show_dec aid cat (acc_balance a) target reason today)
         False True None = Inr (s2, t0)"
      "get_account_for_update s2 aid org = Inr a2"
      "old = acc_balance a" "delta = target - acc_balance a" "delta \<noteq> 0" "new = acc_balance a2"
      "s' = put_transaction t s2" "t = t0\<lparr>tx_settled_date := Some today\<rparr>"
  using assms by (auto simp: adjust_account_balance_def rbind_eq_Inr Let_def split: if_splits prod.splits)

lemma adjust_Inr:
  assumes "adjust_account_balance show_dec s org aid target reason today = Inr (s', t, old, new, delta)"
    and "ledger_inv s"
  shows "ledger_inv s'" "new = target" "delta = target - old" "delta \<noteq> 0"
    and "tx_amount t = \<bar>delta\<bar>" "tx_status t = SETTLED" "tx_settled_date t = Some today"
    and "t \<in> set (transactions s')"
    and "\<exists>a \<in> set (accounts s'). acc_id a = aid \<and> acc_balance a = target"
proof -
  from assms(1) obtain a s1 cat body s2 t0 a2 where a: "get_account_for_update s aid org = Inr a"
    and d: "old = acc_balance a" "delta = target - acc_balance a" "delta \<noteq> 0"
    and s1: "s1 = fst (balance_adjustment_category org s)"
    and body: "tc_account_id body = aid" "tc_status body = SETTLED"
      "tc_amount body = \<bar>delta\<bar>" "signed (tc_type body) (tc_amount body) = delta"
    and cr: "create_transaction_no_commit s1 org body False True None = Inr (s2, t0)"
    and a2: "get_account_for_update s2 aid org = Inr a2" "new = acc_balance a2"
    and s': "s' = put_transaction t s2" "t = t0\<lparr>tx_settled_date := Some today\<rparr>"
  proof -
    from assms(1) obtain a s1 cat s2 t0 a2 where *: "get_account_for_update s aid org = Inr a"
      "balance_adjustment_category org s = (s1, cat)"
      "create_transaction_no_commit s1 org (adjustment_body show_dec aid cat (acc_balance a) target reason today)
         False True None = Inr (s2, t0)"
      "get_account_for_update s2 aid org = Inr a2"
      "old = acc_balance a" "delta = target - acc_balance a" "delta \<noteq> 0" "new = acc_balance a2"
      "s' = put_transaction t s2" "t = t0\<lparr>tx_settled_date := Some today\<rparr>"
      by (rule adjustE)
    then show thesis by (intro that[OF *(1,5,6,7) _ _ _ _ _ *(3,4,8,9,10)]) simp_all
  qed
  note b = balance_adjustment_category_fst(1)[OF assms(2)[unfolded ledger_inv_books], of org, folded s1]
  have acc1: "accounts s1 = accounts s" using balance_adjustment_category_fst(2) s1 by simp
  note c = create_no_commit_Inr[OF cr b]
  from c(1) have uniq: "distinct (map acc_id (accounts s2))" by (rule booksD)
  have row: "row_ok s2 t"
    using booksD(6)[OF c(1,2)] s'(2) c(7) body by (auto simp: row_ok_def)
  have "settled_contribution (transactions s2) j t = settled_contribution (transactions s2) j t0" for j
    unfolding s'(2) by (rule settled_contribution_cong) (simp_all add: balance_contribution_filter_def)
  with books_put_row[OF c(1,2) _ _ _ row] s' show "ledger_inv s'" by (simp add: ledger_inv_books)
  have "accounts s2 = accounts (add_balance aid delta s)"
    using c(11) body acc1 by (simp add: add_balance_def)
  then have "a\<lparr>acc_balance := acc_balance a + delta\<rparr> \<in> set (accounts s2)"
    using get_account_Inr[OF a] by (auto simp: add_balance_def set_update_row image_iff intro!: bexI[of _ a])
  then have "a2 = a\<lparr>acc_balance := acc_balance a + delta\<rparr>"
    using key_unique[OF uniq get_account_Inr(1)[OF a2(1)]] get_account_Inr[OF a] get_account_Inr[OF a2(1)] by simp
  then show new: "new = target" using a2(2) d by simp
  show "delta = target - old" "delta \<noteq> 0" using d by simp_all
  show "tx_amount t = \<bar>delta\<bar>" "tx_status t = SETTLED" "tx_settled_date t = Some today"
    using c body s'(2) by simp_all
  show "t \<in> set (transactions s')" using c(2) s' by (auto simp: update_row_def image_iff)
  show "\<exists>a \<in> set (accounts s'). acc_id a = aid \<and> acc_balance a = target"
    using get_account_Inr[OF a2(1)] new a2(2) s'(1) by auto
qed

end
