(* ===== verification/Deletion.thy ===== *)
theory Deletion
  imports Batches BalanceKeep
begin

text \<open>
  The delete paths of \<open>services/transaction_service.py\<close>: the settlement plan (which inbound
  referrers are demoted, which batch counters move), the single delete and the bulk delete.
  A Python dict keyed by id is a list of rows with distinct ids in insertion order, a
  counter dict an association list. \<open>DeletionKeep\<close> has the facts about them.
\<close>

section \<open>Counter dictionaries\<close>

text \<open>\<open>d[k] = d.get(k, 0) + 1\<close>\<close>

fun bump :: "int \<Rightarrow> (int \<times> int) list \<Rightarrow> (int \<times> int) list" where
  "bump k [] = [(k, 1)]"
| "bump k ((j, n) # d) = (if j = k then (j, n + 1) # d else (j, n) # bump k d)"

definition tally :: "int list \<Rightarrow> (int \<times> int) list" where
  "tally ks = fold bump ks []"

definition delta_get :: "(int \<times> int) list \<Rightarrow> int \<Rightarrow> int" where
  "delta_get d k = (case map_of d k of None \<Rightarrow> 0 | Some n \<Rightarrow> n)"

section \<open>The settlement plan\<close>

record settlement_plan =
  sp_deleted_ids :: "int list"
  sp_demoted :: "transaction list"
  sp_accepted_delta :: "(int \<times> int) list"
  sp_pending_delta :: "(int \<times> int) list"
  sp_row_delta :: "(int \<times> int) list"
  sp_unlocked_ids :: "int list"

text \<open>The rows a \<open>SELECT ... WHERE id IN (...) ORDER BY id FOR UPDATE\<close> returns, and the row
  \<open>rows.get(r.linked_transaction_id)\<close>.\<close>

definition locked_rows :: "store \<Rightarrow> int \<Rightarrow> int list \<Rightarrow> transaction list" where
  "locked_rows s org_id ids =
     sort_key tx_id (filter (\<lambda>t. tx_id t \<in> set ids \<and> tx_org_id t = org_id) (transactions s))"

definition partner_in :: "transaction list \<Rightarrow> transaction \<Rightarrow> transaction option" where
  "partner_in rows t = (case tx_linked t of None \<Rightarrow> None | Some i \<Rightarrow> row_by tx_id rows i)"

definition batches_of :: "(transaction \<Rightarrow> bool) \<Rightarrow> transaction list \<Rightarrow> int list" where
  "batches_of P rows = List.map_filter tx_import_batch_id (filter P rows)"

definition demotes :: "transaction list \<Rightarrow> int list \<Rightarrow> transaction \<Rightarrow> bool" where
  "demotes rows deleted_ids r \<longleftrightarrow>
     tx_id r \<notin> set deleted_ids \<and>
     (case tx_linked r of None \<Rightarrow> False | Some i \<Rightarrow> i \<in> set deleted_ids) \<and>
     \<not> reverted r \<and>
     \<not> contributes_to_cached_balance r (partner_in rows r)"

definition plan_batch_settlement :: "transaction list \<Rightarrow> int list \<Rightarrow> settlement_plan" where
  "plan_batch_settlement rows deleted_ids =
     (let demoted = filter (demotes rows deleted_ids) rows;
          in_order = sort (remdups deleted_ids);
          gone = List.map_filter (row_by tx_id rows) in_order
      in \<lparr>sp_deleted_ids = deleted_ids, sp_demoted = demoted,
          sp_accepted_delta = tally (batches_of is_accepted gone @ batches_of is_accepted demoted),
          sp_pending_delta = tally (batches_of is_pending gone @ batches_of is_pending demoted),
          sp_row_delta = tally (batches_of (\<lambda>_. True) gone),
          sp_unlocked_ids = filter (\<lambda>i. row_by tx_id rows i = None) in_order\<rparr>)"

section \<open>Performing the plan\<close>

text \<open>\<open>CASE WHEN col - n < 0 THEN 0 ELSE col - n END\<close>\<close>

definition floored :: "int \<Rightarrow> int \<Rightarrow> int" where
  "floored col n = (if n = 0 then col else if col - n < 0 then 0 else col - n)"

definition settle_batch :: "settlement_plan \<Rightarrow> int \<Rightarrow> int \<Rightarrow> store \<Rightarrow> store" where
  "settle_batch plan org_id batch_id s =
     s\<lparr>batches := map (\<lambda>b. if ib_id b = batch_id \<and> ib_org_id b = org_id
        then b\<lparr>ib_accepted_count := floored (ib_accepted_count b) (delta_get (sp_accepted_delta plan) batch_id),
               ib_pending_count := floored (ib_pending_count b) (delta_get (sp_pending_delta plan) batch_id),
               ib_row_count := floored (ib_row_count b) (delta_get (sp_row_delta plan) batch_id)\<rparr>
        else b) (batches s)\<rparr>"

definition close_settled :: "settlement_plan \<Rightarrow> int \<Rightarrow> int \<Rightarrow> store \<Rightarrow> store" where
  "close_settled plan org_id batch_id s =
     (case find_batch s batch_id org_id of
        None \<Rightarrow> s
      | Some b \<Rightarrow> put_batch (fst (close_batch_if_complete s b (sp_deleted_ids plan))) s)"

definition apply_batch_settlement :: "int \<Rightarrow> settlement_plan \<Rightarrow> store \<Rightarrow> store \<times> int list" where
  "apply_batch_settlement org_id plan s =
     (let s1 = fold (\<lambda>r. put_transaction (r\<lparr>tx_recon := rejected\<rparr>)) (sp_demoted plan) s in
      if sp_demoted plan = [] \<and> sp_row_delta plan = [] then (s1, [])
      else
        let touched = sort (remdups (map fst (sp_accepted_delta plan @ sp_pending_delta plan @ sp_row_delta plan)));
            s2 = fold (settle_batch plan org_id) touched s1;
            s3 = fold (close_settled plan org_id) (sort (map fst (sp_pending_delta plan))) s2
        in (s3, map tx_id (sp_demoted plan)))"

text \<open>The SQL \<open>DELETE\<close>, with \<open>ON DELETE SET NULL\<close> on \<open>linked_transaction_id\<close>.\<close>

definition delete_rows :: "int list \<Rightarrow> store \<Rightarrow> store" where
  "delete_rows ids s =
     s\<lparr>transactions := map (\<lambda>t. case tx_linked t of
           None \<Rightarrow> t
         | Some i \<Rightarrow> if i \<in> set ids then t\<lparr>tx_linked := None\<rparr> else t)
        (filter (\<lambda>t. tx_id t \<notin> set ids) (transactions s))\<rparr>"

text \<open>Every affected account is locked first, in ascending order; a missing one refuses.\<close>

primrec lock_accounts :: "store \<Rightarrow> int \<Rightarrow> int list \<Rightarrow> unit result" where
  "lock_accounts s org_id [] = Inr ()"
| "lock_accounts s org_id (a # as) =
     rbind (get_account_for_update s a org_id) (\<lambda>_. lock_accounts s org_id as)"

primrec revert_rows :: "int \<Rightarrow> transaction list \<Rightarrow> store \<Rightarrow> store result" where
  "revert_rows org_id [] s = Inr s"
| "revert_rows org_id (r # rs) s =
     rbind (move_on_account revert_balance org_id (tx_account_id r) (tx_amount r) (tx_type r) s)
       (revert_rows org_id rs)"

definition to_revert :: "transaction list \<Rightarrow> transaction list \<Rightarrow> transaction list" where
  "to_revert rows deleted =
     filter (\<lambda>r. tx_status r = SETTLED \<and> contributes_to_cached_balance r (partner_in rows r)) deleted"

text \<open>The body of the savepoint of both delete paths.\<close>

definition delete_writes ::
  "int \<Rightarrow> transaction list \<Rightarrow> transaction list \<Rightarrow> settlement_plan \<Rightarrow> store \<Rightarrow> (store \<times> int list) result" where
  "delete_writes org_id reverts deleted settlement s =
     rbind (lock_accounts s org_id (sort (remdups (map tx_account_id reverts)))) (\<lambda>_.
     rbind (revert_rows org_id reverts s) (\<lambda>s1.
     case apply_batch_settlement org_id settlement s1 of
       (s2, demoted_ids) \<Rightarrow> Inr (delete_rows (map tx_id deleted) s2, demoted_ids)))"

section \<open>One row\<close>

record delete_plan =
  dp_rows :: "transaction list"
  dp_deleted :: "transaction list"
  dp_reverts :: "transaction list"
  dp_settlement :: settlement_plan

definition inbound_ids :: "store \<Rightarrow> int \<Rightarrow> int list \<Rightarrow> int list" where
  "inbound_ids s org_id ids =
     map tx_id (filter (\<lambda>t. tx_org_id t = org_id \<and> (\<exists>i \<in> set ids. tx_linked t = Some i)) (transactions s))"

definition plan_transaction_delete :: "store \<Rightarrow> int \<Rightarrow> int \<Rightarrow> delete_plan result" where
  "plan_transaction_delete s org_id transaction_id =
     (case org_row s org_id transaction_id of
        None \<Rightarrow> Inl (NotFoundError ''Transaction'')
      | Some preview \<Rightarrow>
          let ids0 = transaction_id # (case tx_linked preview of None \<Rightarrow> [] | Some i \<Rightarrow> [i]);
              inbound = filter (\<lambda>i. i \<notin> set ids0) (inbound_ids s org_id ids0);
              rows = locked_rows s org_id (ids0 @ inbound)
          in case row_by tx_id rows transaction_id of
               None \<Rightarrow> Inl (NotFoundError ''Transaction'')
             | Some tx \<Rightarrow>
                 if tx_is_manual_adjustment tx
                 then Inl (ValidationError ''Manual balance adjustments cannot be deleted'')
                 else
                   let deleted = tx # (case partner_in rows tx of
                          None \<Rightarrow> []
                        | Some p \<Rightarrow> if is_reciprocal_pair tx (Some p) then [p] else [])
                   in Inr \<lparr>dp_rows = rows, dp_deleted = deleted, dp_reverts = to_revert rows deleted,
                           dp_settlement = plan_batch_settlement rows (map tx_id deleted)\<rparr>)"

definition apply_transaction_delete :: "int \<Rightarrow> delete_plan \<Rightarrow> store \<Rightarrow> (store \<times> int list) result" where
  "apply_transaction_delete org_id plan s =
     delete_writes org_id (dp_reverts plan) (dp_deleted plan) (dp_settlement plan) s"

definition delete_transaction :: "store \<Rightarrow> int \<Rightarrow> int \<Rightarrow> (store \<times> int list) result" where
  "delete_transaction s org_id transaction_id =
     rbind (plan_transaction_delete s org_id transaction_id)
       (\<lambda>plan. apply_transaction_delete org_id plan s)"

section \<open>Many rows\<close>

text \<open>\<open>list(dict.fromkeys(ids))\<close>: the first occurrence of each id.\<close>

definition dedupe :: "int list \<Rightarrow> int list" where
  "dedupe ids = rev (remdups (rev ids))"

text \<open>\<open>delete_set[row.id] = row\<close>\<close>

definition dict_put :: "transaction \<Rightarrow> transaction list \<Rightarrow> transaction list" where
  "dict_put r d = (if list_ex (\<lambda>x. tx_id x = tx_id r) d then update_row tx_id (tx_id r) (\<lambda>_. r) d else d @ [r])"

primrec bulk_select ::
  "transaction list \<Rightarrow> int list \<Rightarrow> transaction list \<Rightarrow> int list \<Rightarrow> transaction list \<times> int list" where
  "bulk_select rows [] delete_set skipped_adjustments = (delete_set, skipped_adjustments)"
| "bulk_select rows (rid # rids) delete_set skipped_adjustments =
     (case row_by tx_id rows rid of
        None \<Rightarrow> bulk_select rows rids delete_set skipped_adjustments
      | Some row \<Rightarrow>
          if tx_is_manual_adjustment row
          then bulk_select rows rids delete_set (skipped_adjustments @ [rid])
          else
            let d1 = dict_put row delete_set;
                d2 = (case partner_in rows row of
                        None \<Rightarrow> d1
                      | Some p \<Rightarrow> if is_reciprocal_pair row (Some p) then dict_put p d1 else d1)
            in bulk_select rows rids d2 skipped_adjustments)"

text \<open>The unlocked preview: the requested rows, their link targets and the inbound referrers.\<close>

definition bulk_preview_ids :: "store \<Rightarrow> int \<Rightarrow> int list \<Rightarrow> int list" where
  "bulk_preview_ids s org_id requested =
     (let preview = filter (\<lambda>t. tx_id t \<in> set requested \<and> tx_org_id t = org_id) (transactions s)
      in map tx_id preview @ List.map_filter tx_linked preview)"

definition bulk_delete_transactions ::
  "store \<Rightarrow> int \<Rightarrow> int list \<Rightarrow> (store \<times> int \<times> int list \<times> int list) result" where
  "bulk_delete_transactions s org_id ids =
     (if ids = [] then Inr (s, 0, [], [])
      else
        let requested = dedupe ids;
            ids0 = bulk_preview_ids s org_id requested;
            all_ids_to_lock = ids0 @ inbound_ids s org_id ids0
        in if all_ids_to_lock = [] then Inr (s, 0, requested, [])
           else
             let rows = locked_rows s org_id all_ids_to_lock;
                 missing = filter (\<lambda>i. row_by tx_id rows i = None) requested
             in case bulk_select rows requested [] [] of
                  (delete_set, skipped_adjustments) \<Rightarrow>
                    rbind (delete_writes org_id (to_revert rows delete_set) delete_set
                        (plan_batch_settlement rows (map tx_id delete_set)) s)
                      (\<lambda>(s', demoted_ids).
                        Inr (s', int (length delete_set), missing @ skipped_adjustments, demoted_ids)))"

end
