(* ===== verification/DeletionKeep.thy ===== *)
theory DeletionKeep
  imports Deletion
begin

text \<open>
  Why the delete paths keep the books and the batch counters. \<open>delete_closed\<close> is what both
  lock sets guarantee about the rows to delete; the rest follows one delete through the
  revert, the demotion, the counters, the auto-close and the \<open>DELETE\<close> itself.
\<close>

section \<open>Counter dictionaries count\<close>

lemma delta_get_bump: "delta_get (bump k d) j = delta_get d j + (if j = k then 1 else 0)"
  by (induction k d rule: bump.induct) (auto simp: delta_get_def)

lemma delta_get_fold: "delta_get (fold bump ks d) j = delta_get d j + int (count_list ks j)"
  by (induction ks arbitrary: d) (auto simp: delta_get_bump)

lemma delta_get_tally [simp]: "delta_get (tally ks) j = int (count_list ks j)"
  by (simp add: tally_def delta_get_fold) (simp add: delta_get_def)

lemma keys_bump: "fst ` set (bump k d) = insert k (fst ` set d)"
  by (induction k d rule: bump.induct) auto

lemma keys_tally: "fst ` set (tally ks) = set ks"
proof -
  have "fst ` set (fold bump ks d) = set ks \<union> fst ` set d" for d
    by (induction ks arbitrary: d) (auto simp: keys_bump)
  then show ?thesis by (simp add: tally_def)
qed

lemma count_batches_of: "int (count_list (batches_of P rows) b) = count_rows P b rows"
  by (induction rows) (auto simp: batches_of_def split: option.splits)

section \<open>What the lock sets guarantee\<close>

definition delete_closed :: "transaction list \<Rightarrow> int \<Rightarrow> transaction list \<Rightarrow> transaction list \<Rightarrow> bool" where
  "delete_closed T org rows del \<longleftrightarrow>
     distinct (map tx_id T) \<and> distinct (map tx_id rows) \<and> distinct (map tx_id del) \<and>
     set del \<subseteq> set rows \<and> set rows \<subseteq> set T \<and> (\<forall>r \<in> set rows. tx_org_id r = org) \<and>
     (\<forall>t \<in> set T. \<forall>r \<in> set del. tx_linked t = Some (tx_id r) \<longrightarrow> t \<in> set rows) \<and>
     (\<forall>r \<in> set del. tx_status r = SETTLED \<longrightarrow> (\<forall>p \<in> set T. tx_linked r = Some (tx_id p) \<longrightarrow> p \<in> set rows)) \<and>
     (\<forall>r \<in> set del. \<forall>p \<in> set T. tx_linked r = Some (tx_id p) \<longrightarrow> tx_linked p = Some (tx_id r) \<longrightarrow> p \<in> set del)"

lemma partner_in_eq_link_target:
  assumes "distinct (map tx_id T)" "distinct (map tx_id rows)" "set rows \<subseteq> set T" "links_wf T"
    and t: "t \<in> set T" "\<And>p. p \<in> set T \<Longrightarrow> tx_linked t = Some (tx_id p) \<Longrightarrow> p \<in> set rows"
  shows "partner_in rows t = link_target T t"
proof (cases "tx_linked t")
  case None
  then show ?thesis by (simp add: partner_in_def link_target_def)
next
  case (Some i)
  with link_target_wf[OF assms(4) t(1) assms(1)] obtain p where p: "link_target T t = Some p" "tx_id p = i"
    by blast
  with link_target_Some[OF p(1)] t(2) have "p \<in> set rows" by auto
  then show ?thesis using p Some row_by_distinct[OF assms(2)] by (auto simp: partner_in_def)
qed

lemma contributes_locked:
  assumes "distinct (map tx_id T)" "distinct (map tx_id rows)" "set rows \<subseteq> set T" "links_wf T"
    and "t \<in> set T" "\<And>p. p \<in> set T \<Longrightarrow> tx_linked t = Some (tx_id p) \<Longrightarrow> p \<in> set rows"
  shows "contributes_to_cached_balance t (partner_in rows t) = balance_contribution_filter T t"
  using partner_in_eq_link_target[OF assms] contributes_filter_agree[OF assms(4,1,5)] by simp

section \<open>Reverting\<close>

lemma revert_rows_books:
  assumes "revert_rows org rs s = Inr s'" "books f s"
  shows "books (\<lambda>i. f i - sum_list (map (\<lambda>r. if tx_account_id r = i then signed (tx_type r) (tx_amount r) else 0) rs)) s'
    \<and> transactions s' = transactions s \<and> batches s' = batches s \<and> next_id s' = next_id s"
  using assms
proof (induction rs arbitrary: s f)
  case (Cons r rs)
  from Cons.prems(1) obtain s1 where s1:
    "move_on_account revert_balance org (tx_account_id r) (tx_amount r) (tx_type r) s = Inr s1"
    "revert_rows org rs s1 = Inr s'"
    by (auto simp: rbind_eq_Inr)
  note m = move_revert(1)[OF s1(1) booksD(1)[OF Cons.prems(2)]]
  from Cons.IH[OF s1(2), of "\<lambda>i. f i + (if i = tx_account_id r then - signed (tx_type r) (tx_amount r) else 0)"]
    books_add_balance[OF Cons.prems(2)]
  have "books (\<lambda>i. f i + (if i = tx_account_id r then - signed (tx_type r) (tx_amount r) else 0) -
      sum_list (map (\<lambda>r. if tx_account_id r = i then signed (tx_type r) (tx_amount r) else 0) rs)) s'"
    and "transactions s' = transactions s1 \<and> batches s' = batches s1 \<and> next_id s' = next_id s1"
    by (auto simp: m)
  then show ?case
    by (auto simp: m elim!: books_eq)
qed simp

section \<open>The rows after the delete\<close>

definition demote :: "int list \<Rightarrow> transaction \<Rightarrow> transaction" where
  "demote ids t = (if tx_id t \<in> set ids then t\<lparr>tx_recon := rejected\<rparr> else t)"

definition unlink :: "int list \<Rightarrow> transaction \<Rightarrow> transaction" where
  "unlink ids t = (case tx_linked t of None \<Rightarrow> t
     | Some i \<Rightarrow> if i \<in> set ids then t\<lparr>tx_linked := None\<rparr> else t)"

lemma demote_unlink_sel [simp]:
  "tx_id (demote ids t) = tx_id t" "tx_id (unlink ids t) = tx_id t"
  "tx_linked (demote ids t) = tx_linked t" "tx_recon (unlink ids t) = tx_recon t"
  "tx_recon (demote ids t) = (if tx_id t \<in> set ids then rejected else tx_recon t)"
  "tx_linked (unlink ids t) = (case tx_linked t of None \<Rightarrow> None | Some i \<Rightarrow> if i \<in> set ids then None else Some i)"
  "tx_org_id (demote ids t) = tx_org_id t" "tx_org_id (unlink ids t) = tx_org_id t"
  "tx_account_id (demote ids t) = tx_account_id t" "tx_account_id (unlink ids t) = tx_account_id t"
  "tx_status (demote ids t) = tx_status t" "tx_status (unlink ids t) = tx_status t"
  "tx_type (demote ids t) = tx_type t" "tx_type (unlink ids t) = tx_type t"
  "tx_amount (demote ids t) = tx_amount t" "tx_amount (unlink ids t) = tx_amount t"
  "tx_settled_date (demote ids t) = tx_settled_date t" "tx_settled_date (unlink ids t) = tx_settled_date t"
  "tx_import_batch_id (demote ids t) = tx_import_batch_id t" "tx_import_batch_id (unlink ids t) = tx_import_batch_id t"
  by (auto simp: demote_def unlink_def split: option.splits)

definition rows_after :: "int list \<Rightarrow> int list \<Rightarrow> transaction list \<Rightarrow> transaction list" where
  "rows_after dem del T = map (unlink del) (filter (\<lambda>t. tx_id t \<notin> set del) (map (demote dem) T))"

lemma fold_demote:
  assumes "\<And>d t. d \<in> set ds \<Longrightarrow> t \<in> set (transactions s) \<Longrightarrow> tx_id t = tx_id d \<Longrightarrow>
      t\<lparr>tx_recon := rejected\<rparr> = d\<lparr>tx_recon := rejected\<rparr>"
  shows "fold (\<lambda>r. put_transaction (r\<lparr>tx_recon := rejected\<rparr>)) ds s =
    s\<lparr>transactions := map (demote (map tx_id ds)) (transactions s)\<rparr>"
  using assms
proof (induction ds arbitrary: s)
  case Nil
  then show ?case by (simp add: demote_def[abs_def])
next
  case (Cons d ds)
  let ?s1 = "put_transaction (d\<lparr>tx_recon := rejected\<rparr>) s"
  have step: "?s1 = s\<lparr>transactions := map (demote [tx_id d]) (transactions s)\<rparr>"
    using Cons.prems[of d] by (auto simp: put_transaction_def update_row_def demote_def)
  have "fold (\<lambda>r. put_transaction (r\<lparr>tx_recon := rejected\<rparr>)) ds ?s1 =
      ?s1\<lparr>transactions := map (demote (map tx_id ds)) (transactions ?s1)\<rparr>"
    by (rule Cons.IH) (use Cons.prems step in \<open>auto simp: demote_def\<close>)
  then show ?case
    unfolding step by (simp add: step comp_def) (simp add: demote_def)
qed

lemma rows_after_mem:
  "x \<in> set (rows_after dem del T) \<longleftrightarrow>
     (\<exists>t \<in> set T. tx_id t \<notin> set del \<and> x = unlink del (demote dem t))"
  by (auto simp: rows_after_def)

lemma delete_closed_not_deleted:
  "delete_closed T org rows del \<Longrightarrow> t \<in> set T \<Longrightarrow> tx_id t \<in> tx_id ` set del \<longleftrightarrow> t \<in> set del"
  using key_unique[of tx_id T] by (auto simp: delete_closed_def)

text \<open>A surviving row contributes what it contributed: the referrers that would start to count
  are the demoted ones.\<close>

lemma survivor_contribution:
  assumes c: "delete_closed T org rows del" and l: "links_wf T" and t: "t \<in> set T" "t \<notin> set del"
  defines "ids \<equiv> map tx_id del"
  defines "dem \<equiv> map tx_id (filter (demotes rows ids) rows)"
  shows "settled_contribution (rows_after dem ids T) i (unlink ids (demote dem t)) = settled_contribution T i t"
proof -
  note cd = c[unfolded delete_closed_def]
  have d: "distinct (map tx_id T)" and sub: "set rows \<subseteq> set T" and dr: "distinct (map tx_id rows)" using cd by auto
  have dem: "tx_id t \<in> set dem \<longleftrightarrow> t \<in> set rows \<and> demotes rows ids t"
    using key_unique[OF d _ t(1)] sub by (auto simp: dem_def)
  let ?N = "rows_after dem ids T" and ?u = "unlink ids (demote dem t)"
  have loc: "contributes_to_cached_balance t (partner_in rows t) = balance_contribution_filter T t"
    if "tx_linked t = Some x" "x \<in> set ids" for x
  proof (rule contributes_locked[OF d dr sub l t(1)])
    fix p assume "p \<in> set T" "tx_linked t = Some (tx_id p)"
    moreover from this that have "p \<in> set del"
      using delete_closed_not_deleted[OF c] by (auto simp: ids_def)
    ultimately show "p \<in> set rows" using cd by blast
  qed
  have "balance_contribution_filter ?N ?u = balance_contribution_filter T t"
  proof (cases "tx_linked t")
    case None
    then have "\<not> demotes rows ids t" by (simp add: demotes_def)
    with None dem show ?thesis by (simp add: balance_contribution_filter_def)
  next
    case (Some x)
    show ?thesis
    proof (cases "x \<in> set ids")
      case False
      then have "\<not> demotes rows ids t" using Some by (simp add: demotes_def)
      then have same: "tx_recon ?u = tx_recon t" "tx_linked ?u = Some x" "tx_id ?u = tx_id t"
        using dem Some False by simp_all
      have tid: "tx_id t \<notin> set ids" using delete_closed_not_deleted[OF c t(1)] t(2) by (simp add: ids_def)
      have "(\<exists>p \<in> set ?N. x = tx_id p \<and> tx_linked p = Some (tx_id t)) \<longleftrightarrow>
          (\<exists>p \<in> set T. x = tx_id p \<and> tx_linked p = Some (tx_id t))"
      proof
        assume "\<exists>p \<in> set T. x = tx_id p \<and> tx_linked p = Some (tx_id t)"
        then obtain p where "p \<in> set T" "x = tx_id p" "tx_linked p = Some (tx_id t)" by blast
        then show "\<exists>p \<in> set ?N. x = tx_id p \<and> tx_linked p = Some (tx_id t)"
          using False tid by (intro bexI[of _ "unlink ids (demote dem p)"]) (auto simp: rows_after_mem)
      next
        assume "\<exists>p \<in> set ?N. x = tx_id p \<and> tx_linked p = Some (tx_id t)"
        then obtain q where "q \<in> set T" "x = tx_id q" "tx_linked q = Some (tx_id t)"
          by (auto simp: rows_after_mem split: option.splits if_splits)
        then show "\<exists>p \<in> set T. x = tx_id p \<and> tx_linked p = Some (tx_id t)" by blast
      qed
      then show ?thesis
        using same Some by (simp add: balance_contribution_filter_def list_ex_iff)
    next
      case True
      then obtain r where r: "r \<in> set del" "x = tx_id r" by (auto simp: ids_def)
      with cd t Some have tr: "t \<in> set rows" by blast
      have out: "\<not> balance_contribution_filter T t"
      proof
        assume "balance_contribution_filter T t"
        then obtain p where p: "p \<in> set T" "x = tx_id p" "tx_linked p = Some (tx_id t)"
          by (auto simp: balance_contribution_filter_def Some list_ex_iff)
        from r cd have rT: "r \<in> set T" by auto
        have "p = r" by (rule key_unique[OF d p(1) rT]) (use p r in simp)
        then have "tx_linked r = Some (tx_id t)" using p by simp
        then have "t \<in> set del" using cd r t(1) Some by blast
        with t(2) show False by blast
      qed
      have "tx_id t \<notin> set ids" using delete_closed_not_deleted[OF c t(1)] t(2) by (simp add: ids_def)
      then have "demotes rows ids t \<longleftrightarrow> \<not> reverted t"
        using loc[OF Some True] out Some True by (simp add: demotes_def)
      then have "\<not> balance_contribution_filter ?N ?u"
        using dem tr by (auto simp: balance_contribution_filter_def)
      with out show ?thesis by simp
    qed
  qed
  then show ?thesis by (intro settled_contribution_cong) simp_all
qed

lemma rows_after_links:
  assumes "links_wf T"
  shows "links_wf (rows_after dem ids T)"
  unfolding links_wf_iff
proof (intro ballI allI impI)
  fix u x assume u: "u \<in> set (rows_after dem ids T)" "tx_linked u = Some x"
  then obtain t where t: "t \<in> set T" "u = unlink ids (demote dem t)" "tx_linked t = Some x" "x \<notin> set ids"
    by (auto simp: rows_after_mem split: option.splits if_splits)
  from links_wfD[OF assms t(1,3)] obtain p where p: "p \<in> set T" "tx_id p = x" "tx_org_id p = tx_org_id t" "x \<noteq> tx_id t"
    by blast
  then have "unlink ids (demote dem p) \<in> set (rows_after dem ids T)"
    using t(4) by (auto simp: rows_after_mem)
  then show "x \<noteq> tx_id u \<and> (\<exists>p \<in> set (rows_after dem ids T). tx_id p = x \<and> tx_org_id p = tx_org_id u)"
    using p t(2) by (intro conjI bexI[of _ "unlink ids (demote dem p)"]) simp_all
qed

lemma rows_after_total:
  assumes c: "delete_closed T org rows del" and l: "links_wf T"
  defines "ids \<equiv> map tx_id del"
  defines "dem \<equiv> map tx_id (filter (demotes rows ids) rows)"
  shows "total (rows_after dem ids T) i = total T i - sum_list (map
    (\<lambda>r. if tx_account_id r = i then signed (tx_type r) (tx_amount r) else 0) (to_revert rows del))"
proof -
  note cd = c[unfolded delete_closed_def]
  let ?c = "settled_contribution T i" and ?N = "rows_after dem ids T"
  have kd: "distinct T" "distinct del" "set del \<subseteq> set T" using cd distinct_map by auto
  have "total ?N i = sum_list (map (settled_contribution ?N i \<circ> (\<lambda>t. unlink ids (demote dem t)))
      (filter (\<lambda>t. tx_id t \<notin> set ids) T))"
    unfolding total_def by (simp add: rows_after_def filter_map comp_def del: demote_unlink_sel(1)) (simp add: comp_def)
  also have "\<dots> = sum_list (map ?c (filter (\<lambda>t. t \<notin> set del) T))"
    using survivor_contribution[OF c l] delete_closed_not_deleted[OF c]
    by (intro arg_cong[where f = sum_list] map_cong filter_cong) (auto simp: ids_def dem_def)
  also have "\<dots> = total T i - sum_list (map ?c (filter (\<lambda>t. t \<in> set del) T))"
    using sum_list_filter_split[of ?c T "\<lambda>t. t \<in> set del"] by (simp add: total_def)
  also have "sum_list (map ?c (filter (\<lambda>t. t \<in> set del) T)) = sum_list (map ?c del)"
    unfolding sum_list_if by (rule sum_list_sublist[OF kd])
  also have "sum_list (map ?c del) = sum_list (map
    (\<lambda>r. if tx_account_id r = i then signed (tx_type r) (tx_amount r) else 0) (to_revert rows del))"
    unfolding to_revert_def sum_list_if
  proof (intro arg_cong[where f = sum_list] map_cong refl)
    fix r assume r: "r \<in> set del"
    have "contributes_to_cached_balance r (partner_in rows r) = balance_contribution_filter T r" if "tx_status r = SETTLED"
      by (rule contributes_locked) (use that cd l r in auto)
    then show "?c r = (if tx_status r = SETTLED \<and> contributes_to_cached_balance r (partner_in rows r)
      then if tx_account_id r = i then signed (tx_type r) (tx_amount r) else 0 else 0)"
      by (auto simp: settled_contribution_def signed_amount_signed)
  qed
  finally show ?thesis .
qed

section \<open>The batches after the delete\<close>

lemma gone_rows:
  assumes "distinct (map tx_id rows)" "distinct (map tx_id del)" "set del \<subseteq> set rows"
  defines "gone \<equiv> List.map_filter (row_by tx_id rows) (sort (remdups (map tx_id del)))"
  shows "count_rows P b gone = count_rows P b del"
proof -
  have mem: "row_by tx_id rows i = Some r \<longleftrightarrow> r \<in> set rows \<and> tx_id r = i" for i r
    by (rule row_by_distinct[OF assms(1)])
  have hit: "\<exists>r \<in> set del. row_by tx_id rows i = Some r \<and> tx_id r = i" if "i \<in> tx_id ` set del" for i
    using that assms(3) mem by auto
  have key: "map tx_id (List.map_filter (row_by tx_id rows) js) = js" if "set js \<subseteq> tx_id ` set del" for js
    using that by (induction js) (auto simp: List.map_filter_def dest!: hit)
  have "map tx_id gone = sort (remdups (map tx_id del))"
    unfolding gone_def by (rule key) simp
  then have dg: "distinct gone" using distinct_map[of tx_id gone] by (metis distinct_remdups distinct_sort)
  have "set gone = set del"
  proof -
    have "r \<in> set gone \<longleftrightarrow> r \<in> set del" for r
    proof
      assume "r \<in> set gone"
      then obtain i where "i \<in> tx_id ` set del" "row_by tx_id rows i = Some r"
        by (fastforce simp: gone_def List.map_filter_def)
      with hit[of i] show "r \<in> set del" by auto
    next
      assume "r \<in> set del"
      then have "row_by tx_id rows (tx_id r) = Some r" using assms(3) mem by auto
      with \<open>r \<in> set del\<close> show "r \<in> set gone"
        by (auto simp: gone_def List.map_filter_def image_iff intro!: exI[of _ "tx_id r"] bexI[of _ r])
    qed
    then show ?thesis by blast
  qed
  then show ?thesis
    using dg assms(2) by (simp add: count_rows_sum sum_list_distinct_conv_sum_set distinct_map)
qed

lemma count_rows_after:
  assumes c: "delete_closed T org rows del"
  defines "ids \<equiv> map tx_id del"
  defines "dems \<equiv> filter (demotes rows ids) rows"
  shows "count_rows (\<lambda>t. Q (tx_recon t)) b (rows_after (map tx_id dems) ids T) =
    count_rows (\<lambda>t. Q (tx_recon t)) b T - count_rows (\<lambda>t. Q (tx_recon t)) b del
      - count_rows (\<lambda>t. Q (tx_recon t)) b dems + count_rows (\<lambda>_. Q rejected) b dems"
proof -
  note cd = c[unfolded delete_closed_def]
  let ?g = "\<lambda>t. if tx_import_batch_id t = Some b \<and> Q (tx_recon t) then 1 else (0::int)"
  let ?h = "\<lambda>t. if tx_import_batch_id t = Some b \<and> Q rejected then 1 else (0::int)"
  have kd: "distinct T" "distinct del" "set del \<subseteq> set T" "distinct dems" "set dems \<subseteq> set T"
    using cd by (auto simp: dems_def distinct_map)
  have inj: "tx_id t \<in> tx_id ` set dems \<longleftrightarrow> t \<in> set dems" if "t \<in> set T" for t
    using kd(5) that key_unique[of tx_id T] cd by blast
  have disj: "t \<notin> set del" if "t \<in> set dems" for t
    using that by (auto simp: dems_def demotes_def ids_def)
  have "count_rows (\<lambda>t. Q (tx_recon t)) b (rows_after (map tx_id dems) ids T) =
    sum_list (map (\<lambda>t. if tx_id t \<notin> set ids then ?g (demote (map tx_id dems) t) else 0) T)"
    by (simp add: count_rows_sum rows_after_def filter_map comp_def sum_list_if cong: if_cong)
  also have "\<dots> = sum_list (map (\<lambda>t. ?g t - (if t \<in> set del then ?g t else 0)
      - (if t \<in> set dems then ?g t else 0) + (if t \<in> set dems then ?h t else 0)) T)"
    using delete_closed_not_deleted[OF c] inj disj
    by (intro arg_cong[where f = sum_list] map_cong) (auto simp: ids_def)
  also have "\<dots> = sum_list (map ?g T) - sum_list (map (\<lambda>t. if t \<in> set del then ?g t else 0) T)
      - sum_list (map (\<lambda>t. if t \<in> set dems then ?g t else 0) T)
      + sum_list (map (\<lambda>t. if t \<in> set dems then ?h t else 0) T)"
    by (simp add: sum_list_addf sum_list_subtractf)
  finally show ?thesis
    by (simp add: count_rows_sum sum_list_sublist kd)
qed

definition settled_batch :: "settlement_plan \<Rightarrow> int \<Rightarrow> import_batch \<Rightarrow> import_batch" where
  "settled_batch plan org b =
     (if ib_org_id b = org
      then b\<lparr>ib_accepted_count := floored (ib_accepted_count b) (delta_get (sp_accepted_delta plan) (ib_id b)),
             ib_pending_count := floored (ib_pending_count b) (delta_get (sp_pending_delta plan) (ib_id b)),
             ib_row_count := floored (ib_row_count b) (delta_get (sp_row_delta plan) (ib_id b))\<rparr>
      else b)"

lemma settled_batch_sel [simp]:
  "ib_id (settled_batch plan org b) = ib_id b" "ib_org_id (settled_batch plan org b) = ib_org_id b"
  "ib_status (settled_batch plan org b) = ib_status b"
  by (simp_all add: settled_batch_def)

lemma fold_settle:
  "distinct ks \<Longrightarrow> fold (settle_batch plan org) ks s =
     s\<lparr>batches := map (\<lambda>b. if ib_id b \<in> set ks then settled_batch plan org b else b) (batches s)\<rparr>"
proof (induction ks arbitrary: s)
  case (Cons k ks)
  have "fold (settle_batch plan org) (k # ks) s = fold (settle_batch plan org) ks (settle_batch plan org k s)"
    by simp
  also have "settle_batch plan org k s =
      s\<lparr>batches := map (\<lambda>b. if ib_id b = k then settled_batch plan org b else b) (batches s)\<rparr>"
    by (auto simp: settle_batch_def settled_batch_def)
  also have "fold (settle_batch plan org) ks \<dots> =
      s\<lparr>batches := map (\<lambda>b. if ib_id b \<in> set (k # ks) then settled_batch plan org b else b) (batches s)\<rparr>"
    using Cons by auto
  finally show ?case .
qed simp

text \<open>The columns of a batch apart from its status.\<close>

definition batch_view :: "import_batch \<Rightarrow> int \<times> int \<times> int \<times> int \<times> int" where
  "batch_view b = (ib_id b, ib_org_id b, ib_row_count b, ib_accepted_count b, ib_pending_count b)"

lemma batches_inv_view:
  assumes "batch_view ` set B = batch_view ` set (batches s)"
    and "batches_inv (s\<lparr>batches := B\<rparr>)"
  shows "batches_inv s"
proof (rule batches_invI)
  fix b assume "b \<in> set (batches s)"
  with assms(1) obtain b' where b': "b' \<in> set B" "batch_view b = batch_view b'" by (metis image_iff)
  with batches_invD(1)[OF assms(2), of b'] show "counters_ok (transactions s) b"
    by (simp add: counters_ok_def batch_view_def)
next
  fix t bid assume "t \<in> set (transactions s)" "tx_import_batch_id t = Some bid"
  with batches_invD(2)[OF assms(2), of t bid] obtain b where
    b: "b \<in> set B" "ib_id b = bid" "ib_org_id b = tx_org_id t" by auto
  with assms(1) obtain b' where "b' \<in> set (batches s)" "batch_view b = batch_view b'" by (metis image_iff)
  with b show "\<exists>b \<in> set (batches s). ib_id b = bid \<and> ib_org_id b = tx_org_id t"
    by (auto simp: batch_view_def intro!: bexI[of _ b'])
qed

lemma map_eq_image: "map f xs = map f ys \<Longrightarrow> f ` set ys = f ` set xs"
  by (metis set_map)

text \<open>The auto-close of the delete path recounts nothing when the counters are right already.\<close>

lemma fold_close:
  assumes "distinct (map ib_id (batches s))"
    and "\<And>b. b \<in> set (batches s) \<Longrightarrow> ib_org_id b = org \<Longrightarrow> ib_pending_count b \<le> 0 \<Longrightarrow>
      filter (\<lambda>t. tx_import_batch_id t = Some (ib_id b) \<and> is_pending t \<and> tx_id t \<notin> set (sp_deleted_ids plan))
        (transactions s) = []"
  shows "\<exists>B. fold (close_settled plan org) ks s = s\<lparr>batches := B\<rparr> \<and>
    map batch_view B = map batch_view (batches s)"
  using assms
proof (induction ks arbitrary: s)
  case Nil
  then show ?case by (intro exI[of _ "batches s"]) simp
next
  case (Cons k ks)
  let ?s1 = "close_settled plan org k s"
  have one: "\<exists>B1. ?s1 = s\<lparr>batches := B1\<rparr> \<and> map batch_view B1 = map batch_view (batches s)"
  proof (cases "find_batch s k org")
    case None
    then show ?thesis by (intro exI[of _ "batches s"]) (simp add: close_settled_def)
  next
    case (Some b)
    then have b: "b \<in> set (batches s)" "ib_id b = k" "ib_org_id b = org"
      by (auto simp: find_batch_def find_Some_iff)
    have uniq: "x = b" if "x \<in> set (batches s)" "ib_id x = k" for x
      using key_unique[OF Cons.prems(1) that(1) b(1)] that(2) b(2) by simp
    have "batch_view (fst (close_batch_if_complete s b (sp_deleted_ids plan))) = batch_view b"
      using Cons.prems(2)[OF b(1,3)]
      by (auto simp: close_batch_if_complete_def batch_view_def Let_def)
    then have "map batch_view (batches ?s1) = map batch_view (batches s)"
      using uniq b(2) Some
      by (auto simp: close_settled_def put_batch_def update_row_def batch_view_def intro!: map_cong)
    then show ?thesis
      using Some by (intro exI[of _ "batches ?s1"]) (simp add: close_settled_def put_batch_def)
  qed
  then obtain B1 where B1: "?s1 = s\<lparr>batches := B1\<rparr>" "map batch_view B1 = map batch_view (batches s)" by blast
  have ids: "map ib_id B1 = map ib_id (batches s)"
    using arg_cong[OF B1(2), of "map fst"] by (simp add: batch_view_def comp_def)
  have pend: "filter (\<lambda>t. tx_import_batch_id t = Some (ib_id b) \<and> is_pending t \<and> tx_id t \<notin> set (sp_deleted_ids plan))
        (transactions s) = []" if b: "b \<in> set B1" "ib_org_id b = org" "ib_pending_count b \<le> 0" for b
  proof -
    have "batch_view b \<in> set (map batch_view (batches s))"
      using b(1) unfolding B1(2)[symmetric] by simp
    then obtain b' where "b' \<in> set (batches s)" "batch_view b = batch_view b'" by auto
    with Cons.prems(2)[of b'] b show ?thesis by (simp add: batch_view_def)
  qed
  obtain B where "fold (close_settled plan org) ks ?s1 = ?s1\<lparr>batches := B\<rparr>"
    "map batch_view B = map batch_view (batches ?s1)"
    using Cons.IH[of ?s1] Cons.prems(1) ids pend by (auto simp: B1(1))
  then show ?case using B1 by (intro exI[of _ B]) simp
qed

lemma floored_exact: "0 \<le> c - n \<Longrightarrow> floored c n = c - n"
  by (simp add: floored_def)

lemma plan_sel [simp]:
  "sp_deleted_ids (plan_batch_settlement rows ids) = ids"
  "sp_demoted (plan_batch_settlement rows ids) = filter (demotes rows ids) rows"
  by (simp_all add: plan_batch_settlement_def Let_def)

lemma plan_deltas:
  assumes "distinct (map tx_id rows)" "distinct (map tx_id del)" "set del \<subseteq> set rows"
  defines "plan \<equiv> plan_batch_settlement rows (map tx_id del)"
  shows "delta_get (sp_row_delta plan) b = count_rows (\<lambda>_. True) b del"
    and "delta_get (sp_accepted_delta plan) b = count_rows is_accepted b del + count_rows is_accepted b (sp_demoted plan)"
    and "delta_get (sp_pending_delta plan) b = count_rows is_pending b del + count_rows is_pending b (sp_demoted plan)"
  using gone_rows[OF assms(1-3)]
  by (simp_all add: plan_def plan_batch_settlement_def Let_def count_batches_of)

lemma settled_counters:
  assumes c: "delete_closed (transactions s) org rows del" and inv: "batches_inv s" and wf: "store_wf s"
    and b: "b \<in> set (batches s)"
  defines "ids \<equiv> map tx_id del"
  defines "plan \<equiv> plan_batch_settlement rows ids"
  shows "counters_ok (rows_after (map tx_id (sp_demoted plan)) ids (transactions s)) (settled_batch plan org b)"
proof -
  note cd = c[unfolded delete_closed_def]
  let ?T = "transactions s" and ?dems = "sp_demoted plan"
  have dems: "?dems = filter (demotes rows ids) rows" by (simp add: plan_def)
  note after = count_rows_after[OF c, folded ids_def, folded dems]
  have acc: "count_rows is_accepted x (rows_after (map tx_id ?dems) ids ?T) =
      count_rows is_accepted x ?T - count_rows is_accepted x del - count_rows is_accepted x ?dems" for x
    using after[of "\<lambda>r. r = accepted" x] by (simp add: count_rows_def)
  have pen: "count_rows is_pending x (rows_after (map tx_id ?dems) ids ?T) =
      count_rows is_pending x ?T - count_rows is_pending x del - count_rows is_pending x ?dems" for x
    using after[of "\<lambda>r. r \<in> set PENDING_STATES" x] by (simp add: count_rows_def PENDING_STATES_def)
  have all: "count_rows (\<lambda>_. True) x (rows_after (map tx_id ?dems) ids ?T) =
      count_rows (\<lambda>_. True) x ?T - count_rows (\<lambda>_. True) x del" for x
    using after[of "\<lambda>_. True" x] by simp
  have dr: "distinct (map tx_id rows)" "distinct (map tx_id del)" "set del \<subseteq> set rows" using cd by auto
  note d = plan_deltas[OF dr, folded ids_def, folded plan_def]
  note ok = batches_invD(1)[OF inv b, unfolded counters_ok_def]
  show ?thesis
  proof (cases "ib_org_id b = org")
    case True
    then have "settled_batch plan org b = b\<lparr>
        ib_accepted_count := count_rows is_accepted (ib_id b) (rows_after (map tx_id ?dems) ids ?T),
        ib_pending_count := count_rows is_pending (ib_id b) (rows_after (map tx_id ?dems) ids ?T),
        ib_row_count := count_rows (\<lambda>_. True) (ib_id b) (rows_after (map tx_id ?dems) ids ?T)\<rparr>"
      using acc[of "ib_id b"] pen[of "ib_id b"] all[of "ib_id b"] ok d[of "ib_id b"]
        count_rows_nonneg[of is_accepted "ib_id b" "rows_after (map tx_id ?dems) ids ?T"]
        count_rows_nonneg[of is_pending "ib_id b" "rows_after (map tx_id ?dems) ids ?T"]
        count_rows_nonneg[of "\<lambda>_. True" "ib_id b" "rows_after (map tx_id ?dems) ids ?T"]
      by (simp add: settled_batch_def floored_def del: count_rows_nonneg)
    then show ?thesis by (simp add: counters_ok_def)
  next
    case False
    have ib: "distinct (map ib_id (batches s))" using wf by (simp add: store_wf_def)
    have out: "tx_import_batch_id t \<noteq> Some (ib_id b)" if "t \<in> set rows" for t
    proof
      assume "tx_import_batch_id t = Some (ib_id b)"
      with batches_invD(2)[OF inv, of t "ib_id b"] that cd obtain b' where
        "b' \<in> set (batches s)" "ib_id b' = ib_id b" "ib_org_id b' = org" by auto
      with key_unique[OF ib _ b] False show False by auto
    qed
    have zero: "count_rows P (ib_id b) xs = 0" if "set xs \<subseteq> set rows" for P xs
      using that out by (auto simp: count_rows_def filter_empty_conv)
    have "set ?dems \<subseteq> set rows" by (auto simp: dems)
    then show ?thesis
      using ok False acc pen all zero[of ?dems] zero[of del] dr
      by (simp add: counters_ok_def settled_batch_def)
  qed
qed

lemma settled_batches_inv:
  assumes c: "delete_closed (transactions s) org rows del" and inv: "batches_inv s" and wf: "store_wf s"
  defines "plan \<equiv> plan_batch_settlement rows (map tx_id del)"
  shows "batches_inv (s\<lparr>transactions := rows_after (map tx_id (sp_demoted plan)) (map tx_id del) (transactions s),
    batches := map (settled_batch plan org) (batches s)\<rparr>)"
    (is "batches_inv ?s'")
proof (rule batches_invI)
  fix b assume "b \<in> set (batches ?s')"
  then obtain b0 where "b0 \<in> set (batches s)" "b = settled_batch plan org b0" by auto
  with settled_counters[OF c inv wf] show "counters_ok (transactions ?s') b" by (simp add: plan_def)
next
  fix t bid assume t: "t \<in> set (transactions ?s')" "tx_import_batch_id t = Some bid"
  then obtain t0 where t0: "t0 \<in> set (transactions s)" "tx_import_batch_id t0 = Some bid" "tx_org_id t0 = tx_org_id t"
    by (auto simp: rows_after_mem)
  from batches_invD(2)[OF inv t0(1,2)] t0(3) obtain b where
    "b \<in> set (batches s)" "ib_id b = bid" "ib_org_id b = tx_org_id t" by auto
  then show "\<exists>b \<in> set (batches ?s'). ib_id b = bid \<and> ib_org_id b = tx_org_id t"
    by (intro bexI[of _ "settled_batch plan org b"]) simp_all
qed

text \<open>Batches with the same columns as the settled ones do as well.\<close>

lemma settled_view_inv:
  assumes "batches_inv (s\<lparr>transactions := N, batches := B'\<rparr>)" "map batch_view B = map batch_view B'"
  shows "batches_inv (s\<lparr>transactions := N, batches := B\<rparr>)"
  by (rule batches_inv_view[of B']) (use assms map_eq_image[OF assms(2)] in \<open>simp_all del: list.set_map\<close>)

lemma view_ids:
  assumes "map batch_view B = map batch_view B'"
  shows "map ib_id B = map ib_id B'"
  using arg_cong[OF assms, of "map fst"] by (simp add: batch_view_def comp_def)

definition plan_touched :: "settlement_plan \<Rightarrow> int list" where
  "plan_touched plan =
     sort (remdups (map fst (sp_accepted_delta plan @ sp_pending_delta plan @ sp_row_delta plan)))"

lemma delta_get_not_key: "k \<notin> fst ` set d \<Longrightarrow> delta_get d k = 0"
  by (auto simp: delta_get_def image_iff split: option.splits dest!: map_of_SomeD)

lemma untouched_view:
  assumes "counters_ok T b" "ib_id b \<notin> set (plan_touched plan)"
  shows "batch_view (settled_batch plan org b) = batch_view b"
proof -
  have "delta_get (sp_accepted_delta plan) (ib_id b) = 0" "delta_get (sp_pending_delta plan) (ib_id b) = 0"
    "delta_get (sp_row_delta plan) (ib_id b) = 0"
    using assms(2) by (auto simp: plan_touched_def intro!: delta_get_not_key)
  moreover have "0 \<le> ib_row_count b" "0 \<le> ib_accepted_count b" "0 \<le> ib_pending_count b"
    using assms(1) by (simp_all add: counters_ok_def)
  ultimately show ?thesis by (simp add: settled_batch_def batch_view_def floored_def)
qed

lemma plan_touched_empty:
  assumes "sp_demoted (plan_batch_settlement rows ids) = []" "sp_row_delta (plan_batch_settlement rows ids) = []"
  shows "plan_touched (plan_batch_settlement rows ids) = []"
proof -
  let ?gone = "List.map_filter (row_by tx_id rows) (sort (remdups ids))"
  have "set (batches_of (\<lambda>_. True) ?gone) = {}"
    using assms(2) keys_tally[of "batches_of (\<lambda>_. True) ?gone"] by (simp add: plan_batch_settlement_def Let_def)
  then have "set (batches_of P ?gone) = {}" for P by (auto simp: batches_of_def List.map_filter_def)
  moreover have "filter (demotes rows ids) rows = []" using assms(1) by simp
  ultimately show ?thesis
    by (simp add: plan_touched_def plan_batch_settlement_def Let_def tally_def)
       (simp add: batches_of_def List.map_filter_def)
qed

lemma demoted_rows:
  assumes c: "delete_closed (transactions s) org rows del" and "set ds \<subseteq> set rows"
  shows "fold (\<lambda>r. put_transaction (r\<lparr>tx_recon := rejected\<rparr>)) ds s =
    s\<lparr>transactions := map (demote (map tx_id ds)) (transactions s)\<rparr>"
proof (rule fold_demote)
  fix d t assume "d \<in> set ds" "t \<in> set (transactions s)" "tx_id t = tx_id d"
  moreover from this assms have "d \<in> set (transactions s)" by (auto simp: delete_closed_def)
  ultimately have "t = d" using key_unique[of tx_id "transactions s"] c by (auto simp: delete_closed_def)
  then show "t\<lparr>tx_recon := rejected\<rparr> = d\<lparr>tx_recon := rejected\<rparr>" by simp
qed

lemma settlement_result:
  assumes c: "delete_closed (transactions s) org rows del" and inv: "batches_inv s" and wf: "store_wf s"
  defines "plan \<equiv> plan_batch_settlement rows (map tx_id del)"
  defines "dem \<equiv> map tx_id (sp_demoted plan)"
  shows "\<exists>B. apply_batch_settlement org plan s =
      (s\<lparr>transactions := map (demote dem) (transactions s), batches := B\<rparr>, dem) \<and>
    map batch_view B = map batch_view (map (settled_batch plan org) (batches s))"
proof -
  let ?set = "settled_batch plan org"
  let ?s1 = "s\<lparr>transactions := map (demote dem) (transactions s)\<rparr>"
  have "set (sp_demoted plan) \<subseteq> set rows" by (auto simp: plan_def)
  note s1 = demoted_rows[OF c this, folded dem_def]
  have same: "batch_view (?set b) = batch_view b" if "b \<in> set (batches s)" "ib_id b \<notin> set (plan_touched plan)" for b
    using untouched_view[OF batches_invD(1)[OF inv that(1)] that(2)] .
  show ?thesis
  proof (cases "sp_demoted plan = [] \<and> sp_row_delta plan = []")
    case True
    then have "plan_touched plan = []" using plan_touched_empty by (simp add: plan_def)
    then have view: "map batch_view (batches s) = map batch_view (map ?set (batches s))"
      using same by simp
    have dem0: "dem = []" using True by (simp add: dem_def)
    have "apply_batch_settlement org plan s = (?s1, [])"
      unfolding apply_batch_settlement_def s1 using True by (simp only: Let_def if_True simp_thms)
    then show ?thesis using view by (intro exI[of _ "batches s"]) (simp add: dem0)
  next
    case False
    let ?B2 = "map (\<lambda>b. if ib_id b \<in> set (plan_touched plan) then ?set b else b) (batches s)"
    have s2: "fold (settle_batch plan org) (plan_touched plan) ?s1 = ?s1\<lparr>batches := ?B2\<rparr>"
      by (subst fold_settle) (simp_all add: plan_touched_def)
    have view2: "map batch_view ?B2 = map batch_view (map ?set (batches s))"
      using same by auto
    obtain B where B: "fold (close_settled plan org) (sort (map fst (sp_pending_delta plan))) (?s1\<lparr>batches := ?B2\<rparr>) =
        ?s1\<lparr>batches := B\<rparr>" "map batch_view B = map batch_view ?B2"
    proof -
      have "\<exists>B. fold (close_settled plan org) (sort (map fst (sp_pending_delta plan))) (?s1\<lparr>batches := ?B2\<rparr>) =
        ?s1\<lparr>batches := ?B2\<rparr>\<lparr>batches := B\<rparr> \<and> map batch_view B = map batch_view (batches (?s1\<lparr>batches := ?B2\<rparr>))"
      proof (rule fold_close)
        have "map ib_id ?B2 = map ib_id (batches s)" by (auto simp: comp_def)
        moreover have "batches (?s1\<lparr>batches := ?B2\<rparr>) = ?B2" by simp
        ultimately show "distinct (map ib_id (batches (?s1\<lparr>batches := ?B2\<rparr>)))"
          using wf by (simp only: store_wf_def)
      next
        fix b assume b: "b \<in> set (batches (?s1\<lparr>batches := ?B2\<rparr>))" "ib_pending_count b \<le> 0"
        then have "b \<in> set ?B2" by simp
        then have "batch_view b \<in> set (map batch_view ?B2)" unfolding set_map[of batch_view] by (rule imageI)
        then obtain b0 where b0: "b0 \<in> set (batches s)" "batch_view b = batch_view (?set b0)"
          unfolding view2 by auto
        from settled_counters[OF c inv wf b0(1)] b0(2) b(2)
        have "count_rows is_pending (ib_id b) (rows_after dem (map tx_id del) (transactions s)) \<le> 0"
          by (simp add: counters_ok_def batch_view_def plan_def dem_def)
        then show "filter (\<lambda>t. tx_import_batch_id t = Some (ib_id b) \<and> is_pending t \<and> tx_id t \<notin> set (sp_deleted_ids plan))
            (transactions (?s1\<lparr>batches := ?B2\<rparr>)) = []"
          by (auto simp: count_rows_def rows_after_def filter_empty_conv plan_def)
      qed
      then show thesis using that by (auto simp del: map_map)
    qed
    have "apply_batch_settlement org plan s = (?s1\<lparr>batches := B\<rparr>, dem)"
      unfolding apply_batch_settlement_def s1 Let_def plan_touched_def[symmetric] s2 B(1) dem_def[symmetric]
      by (simp only: False if_False)
    moreover have "map batch_view B = map batch_view (map ?set (batches s))" using B(2) view2 by (rule trans)
    ultimately show ?thesis by (intro exI[of _ B]) (simp del: map_map)
  qed
qed

section \<open>The whole delete\<close>

lemma delete_rows_eq:
  "delete_rows ids (s\<lparr>transactions := map (demote dem) T, batches := B\<rparr>) =
     s\<lparr>transactions := rows_after dem ids T, batches := B\<rparr>"
  by (simp add: delete_rows_def rows_after_def unlink_def[abs_def])

definition db_inv :: "store \<Rightarrow> bool" where
  "db_inv s \<longleftrightarrow> ledger_inv s \<and> batches_inv s"

lemma rows_after_row_ok:
  assumes "list_all (row_ok s) T" "accounts s' = accounts s"
  shows "list_all (row_ok s') (rows_after dem ids T)"
proof -
  have "row_ok s' (unlink ids (demote dem t)) = row_ok s t" for t
    unfolding row_ok_cong[OF assms(2)] by (simp add: row_ok_def)
  then show ?thesis using assms(1) by (auto simp: list_all_iff rows_after_mem)
qed

lemma rows_after_wf:
  assumes "store_wf s" "map ib_id B = map ib_id (batches s)"
  shows "store_wf (s\<lparr>transactions := rows_after dem ids (transactions s), batches := B\<rparr>)"
proof -
  have "map tx_id (rows_after dem ids T) = map tx_id (filter (\<lambda>t. tx_id t \<notin> set ids) T)" for T
    by (simp add: rows_after_def filter_map comp_def)
  moreover have "list_all (\<lambda>b. ib_id b < n) B = list_all (\<lambda>b. ib_id b < n) (batches s)" for n
    using arg_cong[OF assms(2), of "list_all (\<lambda>i. i < n)"] by (simp add: list_all_iff)
  ultimately show ?thesis
    using assms by (auto simp: store_wf_def list_all_iff rows_after_mem distinct_map_filter)
qed

lemma delete_writes_Inr:
  assumes "delete_writes org (to_revert rows del) del (plan_batch_settlement rows (map tx_id del)) s = Inr (s', dem)"
    and inv: "db_inv s" and c: "delete_closed (transactions s) org rows del"
  shows "db_inv s'" "transactions s' = rows_after dem (map tx_id del) (transactions s)"
    "dem = map tx_id (filter (demotes rows (map tx_id del)) rows)"
proof -
  let ?plan = "plan_batch_settlement rows (map tx_id del)"
  let ?dem = "map tx_id (sp_demoted ?plan)"
  let ?out = "\<lambda>i. sum_list (map (\<lambda>r. if tx_account_id r = i then signed (tx_type r) (tx_amount r) else 0) (to_revert rows del))"
  from inv have b: "books (\<lambda>_. 0) s" and bi: "batches_inv s" by (simp_all add: db_inv_def ledger_inv_books)
  from assms(1) obtain s1 where s1: "revert_rows org (to_revert rows del) s = Inr s1"
    and s': "s' = delete_rows (map tx_id del) (fst (apply_batch_settlement org ?plan s1))"
      "dem = snd (apply_batch_settlement org ?plan s1)"
    by (auto simp: delete_writes_def rbind_eq_Inr case_prod_beta)
  from revert_rows_books[OF s1 b] have b1: "books (\<lambda>i. - ?out i) s1"
    and same: "transactions s1 = transactions s" "batches s1 = batches s"
    by (auto elim!: books_eq)
  have c1: "delete_closed (transactions s1) org rows del" using c same by simp
  have bi1: "batches_inv s1" using bi batches_inv_cong[OF same] by simp
  from settlement_result[OF c1 bi1 booksD(1)[OF b1]] obtain B where
    B: "apply_batch_settlement org ?plan s1 =
      (s1\<lparr>transactions := map (demote ?dem) (transactions s1), batches := B\<rparr>, ?dem)"
      "map batch_view B = map batch_view (map (settled_batch ?plan org) (batches s1))"
    by blast
  have s'_eq: "s' = s1\<lparr>transactions := rows_after ?dem (map tx_id del) (transactions s1), batches := B\<rparr>"
    unfolding s'(1) B(1) fst_conv by (rule delete_rows_eq)
  show "dem = map tx_id (filter (demotes rows (map tx_id del)) rows)" using s'(2) B(1) by simp
  then show "transactions s' = rows_after dem (map tx_id del) (transactions s)" by (simp add: s'_eq same)
  have "batches_inv s'"
    unfolding s'_eq by (rule settled_view_inv[OF settled_batches_inv[OF c1 bi1 booksD(1)[OF b1]] B(2)])
  moreover have "books (\<lambda>_. 0) s'"
  proof -
    have ids: "map ib_id B = map ib_id (batches s1)" using view_ids[OF B(2)] by (simp add: comp_def)
    have wf: "store_wf s'" unfolding s'_eq by (rule rows_after_wf[OF booksD(1)[OF b1] ids])
    have acc: "accounts s' = accounts s1" by (simp add: s'_eq)
    have rows: "transactions s' = rows_after ?dem (map tx_id del) (transactions s1)" by (simp add: s'_eq)
    have "off_by (\<lambda>i. - ?out i - (- ?out i)) s'"
      by (rule off_by_transactions[OF booksD(3)[OF b1] acc])
         (simp add: rows rows_after_total[OF c1 booksD(2)[OF b1]])
    then show ?thesis
      using wf rows_after_row_ok[OF _ acc, of "transactions s1"] b1 rows_after_links[OF booksD(2)[OF b1]]
      by (simp add: books_def rows)
  qed
  ultimately show "db_inv s'" by (simp add: db_inv_def ledger_inv_books)
qed

section \<open>The two lock sets\<close>

lemma locked_rows_set [simp]:
  "t \<in> set (locked_rows s org ids) \<longleftrightarrow> t \<in> set (transactions s) \<and> tx_id t \<in> set ids \<and> tx_org_id t = org"
  by (auto simp: locked_rows_def)

lemma locked_rows_distinct:
  assumes "distinct (map tx_id (transactions s))"
  shows "distinct (map tx_id (locked_rows s org ids))"
proof -
  have "distinct (map tx_id (filter P (transactions s)))" for P using assms by (rule distinct_map_filter)
  then show ?thesis unfolding locked_rows_def distinct_map by simp
qed

lemma inbound_ids_set [simp]:
  "i \<in> set (inbound_ids s org ids) \<longleftrightarrow>
     (\<exists>t \<in> set (transactions s). tx_id t = i \<and> tx_org_id t = org \<and> (\<exists>j \<in> set ids. tx_linked t = Some j))"
  by (auto simp: inbound_ids_def)

text \<open>A lock set holds ids, their link targets and everything that points at either.\<close>

lemma delete_closedI:
  assumes wf: "store_wf s" and l: "links_wf (transactions s)"
    and lock: "set ids0 \<union> set (inbound_ids s org ids0) \<subseteq> set ids"
    and del: "distinct (map tx_id del)" "set del \<subseteq> set (transactions s)"
      "\<And>r. r \<in> set del \<Longrightarrow> tx_org_id r = org \<and> tx_id r \<in> set ids0"
    and tgt: "\<And>r i. r \<in> set del \<Longrightarrow> tx_status r = SETTLED \<Longrightarrow> tx_linked r = Some i \<Longrightarrow> i \<in> set ids"
    and mutual: "\<And>r p. r \<in> set del \<Longrightarrow> p \<in> set (transactions s) \<Longrightarrow> tx_linked r = Some (tx_id p) \<Longrightarrow>
        tx_linked p = Some (tx_id r) \<Longrightarrow> p \<in> set del"
  shows "delete_closed (transactions s) org (locked_rows s org ids) del"
proof -
  have d: "distinct (map tx_id (transactions s))" using wf by (simp add: store_wf_def)
  have org: "tx_org_id p = tx_org_id t"
    if "t \<in> set (transactions s)" "p \<in> set (transactions s)" "tx_linked t = Some (tx_id p)" for t p
    using links_wfD(2)[OF l that(1,3)] key_unique[OF d _ that(2)] by auto
  have inb: "t \<in> set (locked_rows s org ids)"
    if "t \<in> set (transactions s)" "r \<in> set del" "tx_linked t = Some (tx_id r)" for t r
  proof -
    have "tx_org_id t = org" using org[OF that(1) _ that(3)] del that(2) by auto
    moreover from this that del(3)[OF that(2)] have "tx_id t \<in> set (inbound_ids s org ids0)" by auto
    then have "tx_id t \<in> set ids" using lock by blast
    ultimately show ?thesis using that(1) by simp
  qed
  have tgt': "p \<in> set (locked_rows s org ids)"
    if "r \<in> set del" "tx_status r = SETTLED" "p \<in> set (transactions s)" "tx_linked r = Some (tx_id p)" for r p
    using org[OF _ that(3,4)] tgt[OF that(1,2,4)] del that by auto
  have sub: "set del \<subseteq> set (locked_rows s org ids)"
  proof
    fix r assume r: "r \<in> set del"
    with del(3)[OF r] lock have "tx_id r \<in> set ids" by blast
    with r del(2,3) show "r \<in> set (locked_rows s org ids)" by auto
  qed
  show ?thesis
    unfolding delete_closed_def
    using d locked_rows_distinct[OF d] del(1) sub inb tgt' mutual
    by (intro conjI ballI impI) (simp_all del: locked_rows_set, auto)
qed

end
