(* ===== verification/DeletePaths.thy ===== *)
theory DeletePaths
  imports DeletionKeep
begin

text \<open>
  The single and the bulk delete build a lock set and a delete set that satisfy
  \<open>delete_closed\<close>, so both keep the ledger and the batch counters.
\<close>

section \<open>One row\<close>

lemma db_invD:
  assumes "db_inv s"
  shows "store_wf s" "links_wf (transactions s)" "distinct (map tx_id (transactions s))" "batches_inv s" "ledger_inv s"
    "books (\<lambda>_. 0) s"
  using assms by (auto simp: db_inv_def ledger_inv_books dest: booksD)

definition pair_of :: "transaction list \<Rightarrow> transaction \<Rightarrow> transaction list" where
  "pair_of rows t = (case partner_in rows t of None \<Rightarrow> []
     | Some p \<Rightarrow> if is_reciprocal_pair t (Some p) then [p] else [])"

lemma pair_of_cases: "pair_of rows t = [] \<or> (\<exists>p. pair_of rows t = [p])"
  by (simp add: pair_of_def split: option.splits)

lemma pair_of_set:
  assumes "distinct (map tx_id rows)"
  shows "p \<in> set (pair_of rows t) \<longleftrightarrow> p \<in> set rows \<and> is_reciprocal_pair t (Some p)"
  using row_by_distinct[OF assms]
  by (auto simp: pair_of_def partner_in_def is_reciprocal_pair_def split: option.splits)
     (metis row_by_Some)+

lemma plan_transaction_delete_Inr:
  assumes "plan_transaction_delete s org tid = Inr plan" "db_inv s"
  obtains t where "org_row s org tid = Some t" "\<not> tx_is_manual_adjustment t"
    "dp_deleted plan = t # pair_of (dp_rows plan) t"
    "dp_reverts plan = to_revert (dp_rows plan) (dp_deleted plan)"
    "dp_settlement plan = plan_batch_settlement (dp_rows plan) (map tx_id (dp_deleted plan))"
    "delete_closed (transactions s) org (dp_rows plan) (dp_deleted plan)"
    "dp_rows plan = locked_rows s org ([tid] @ (case tx_linked t of None \<Rightarrow> [] | Some i \<Rightarrow> [i]) @
       filter (\<lambda>i. i \<notin> set (tid # (case tx_linked t of None \<Rightarrow> [] | Some i \<Rightarrow> [i])))
         (inbound_ids s org (tid # (case tx_linked t of None \<Rightarrow> [] | Some i \<Rightarrow> [i]))))"
proof -
  from assms(1) obtain t where t: "org_row s org tid = Some t"
    by (auto simp: plan_transaction_delete_def split: option.splits)
  define ids0 where "ids0 = tid # (case tx_linked t of None \<Rightarrow> [] | Some i \<Rightarrow> [i])"
  define ids where "ids = ids0 @ filter (\<lambda>i. i \<notin> set ids0) (inbound_ids s org ids0)"
  define rows where "rows = locked_rows s org ids"
  note d = db_invD(3)[OF assms(2)]
  note dr = locked_rows_distinct[OF d, of org ids, folded rows_def]
  note tm = org_row_Some[OF t]
  have "t \<in> set rows" using tm by (simp add: rows_def ids_def ids0_def)
  then have rt: "row_by tx_id rows tid = Some t" using row_by_distinct[OF dr] tm by blast
  from assms(1) t rt have plan: "\<not> tx_is_manual_adjustment t"
    "plan = \<lparr>dp_rows = rows, dp_deleted = t # pair_of rows t, dp_reverts = to_revert rows (t # pair_of rows t),
       dp_settlement = plan_batch_settlement rows (map tx_id (t # pair_of rows t))\<rparr>"
    by (auto simp: plan_transaction_delete_def Let_def pair_of_def rows_def ids_def ids0_def split: if_splits)
  have pr: "p \<in> set (pair_of rows t) \<longleftrightarrow> p \<in> set rows \<and> tx_linked t = Some (tx_id p) \<and> tx_id p \<noteq> tx_id t \<and>
      tx_org_id p = tx_org_id t \<and> tx_linked p = Some (tx_id t)" for p
    unfolding pair_of_set[OF dr] by (auto simp: is_reciprocal_pair_def)
  have "delete_closed (transactions s) org (locked_rows s org ids) (t # pair_of rows t)"
  proof (rule delete_closedI[OF db_invD(1,2)[OF assms(2)], of ids0])
    show "set ids0 \<union> set (inbound_ids s org ids0) \<subseteq> set ids" by (auto simp: ids_def)
    show "distinct (map tx_id (t # pair_of rows t))"
    proof -
      have "tx_id t \<notin> tx_id ` set (pair_of rows t)"
      proof
        assume "tx_id t \<in> tx_id ` set (pair_of rows t)"
        then obtain p where "p \<in> set (pair_of rows t)" "tx_id t = tx_id p" by (rule imageE)
        with pr[of p] show False by metis
      qed
      moreover have "distinct (map tx_id (pair_of rows t))" using pair_of_cases[of rows t] by auto
      ultimately show ?thesis by simp
    qed
    have prD: "p \<in> set (transactions s)" "tx_org_id p = org" "tx_linked t = Some (tx_id p)"
        "tx_linked p = Some (tx_id t)" if "p \<in> set (pair_of rows t)" for p
      using pr[of p] that tm by (simp_all add: rows_def)
    show "set (t # pair_of rows t) \<subseteq> set (transactions s)" using tm prD(1) by auto
    show "tx_org_id r = org \<and> tx_id r \<in> set ids0" if "r \<in> set (t # pair_of rows t)" for r
      using that tm prD(2,3)[of r] by (cases "r = t") (auto simp: ids0_def)
    show "i \<in> set ids" if "r \<in> set (t # pair_of rows t)" "tx_linked r = Some i" for r i
      using that tm prD(4)[of r] by (cases "r = t") (auto simp: ids_def ids0_def)
    show "p \<in> set (t # pair_of rows t)"
      if "r \<in> set (t # pair_of rows t)" "p \<in> set (transactions s)" "tx_linked r = Some (tx_id p)"
        "tx_linked p = Some (tx_id r)" for r p
    proof (cases "r = t")
      case True
      with that have "tx_id p \<noteq> tx_id t" "tx_org_id p = tx_org_id t"
        using links_wfD[OF db_invD(2)[OF assms(2)], of t "tx_id p"] tm key_unique[OF d _ that(2)] by auto
      moreover from True that tm this have "p \<in> set rows"
        by (auto simp: rows_def ids_def ids0_def)
      ultimately have "p \<in> set (pair_of rows t)" using pr[of p] True that by blast
      then show ?thesis by simp
    next
      case False
      with that(1) prD(4)[of r] that(3) have "tx_id p = tx_id t" by auto
      then have "p = t" using key_unique[OF d that(2)] tm by blast
      then show ?thesis by simp
    qed
  qed
  with t plan show thesis
    by (intro that[of t]) (simp_all add: rows_def ids_def ids0_def)
qed

lemma delete_transaction_Inr:
  assumes "delete_transaction s org tid = Inr (s', dem)" "db_inv s"
  shows "db_inv s'"
    and "\<exists>t. org_row s org tid = Some t \<and> \<not> tx_is_manual_adjustment t"
    and "org_row s' org tid = None"
proof -
  from assms(1) obtain plan where plan: "plan_transaction_delete s org tid = Inr plan"
    "delete_writes org (dp_reverts plan) (dp_deleted plan) (dp_settlement plan) s = Inr (s', dem)"
    by (auto simp: delete_transaction_def apply_transaction_delete_def rbind_eq_Inr)
  from plan_transaction_delete_Inr[OF plan(1) assms(2)] obtain t where
    t: "org_row s org tid = Some t" "\<not> tx_is_manual_adjustment t"
      "dp_deleted plan = t # pair_of (dp_rows plan) t"
    and eq: "dp_reverts plan = to_revert (dp_rows plan) (dp_deleted plan)"
      "dp_settlement plan = plan_batch_settlement (dp_rows plan) (map tx_id (dp_deleted plan))"
    and c: "delete_closed (transactions s) org (dp_rows plan) (dp_deleted plan)"
    by metis
  note w = delete_writes_Inr[OF plan(2)[unfolded eq] assms(2) c]
  show "db_inv s'" by (rule w)
  show "\<exists>t. org_row s org tid = Some t \<and> \<not> tx_is_manual_adjustment t" using t by blast
  show "org_row s' org tid = None"
    unfolding org_row_def w(2) find_None_iff
    using org_row_Some[OF t(1)] t(3) by (auto simp: rows_after_mem)
qed

section \<open>Many rows\<close>

lemma dict_put_set:
  assumes "distinct (map tx_id rows)" "set D \<subseteq> set rows" "r \<in> set rows"
  shows "set (dict_put r D) = insert r (set D)"
    and "distinct (map tx_id D) \<Longrightarrow> distinct (map tx_id (dict_put r D))"
proof -
  have same: "x = r" if "x \<in> set D" "tx_id x = tx_id r" for x
    using key_unique[OF assms(1) _ assms(3)] assms(2) that by blast
  have "(if tx_id x = tx_id r then r else x) = x" if "x \<in> set D" for x
    using same[OF that] by metis
  then have "update_row tx_id (tx_id r) (\<lambda>_. r) D = D"
    by (simp add: update_row_def map_idI)
  moreover have "r \<in> set D" if "list_ex (\<lambda>x. tx_id x = tx_id r) D"
    using that same by (auto simp: list_ex_iff)
  ultimately show "set (dict_put r D) = insert r (set D)"
    "distinct (map tx_id D) \<Longrightarrow> distinct (map tx_id (dict_put r D))"
    by (auto simp: dict_put_def list_ex_iff)
qed

definition select_inv :: "transaction list \<Rightarrow> int list \<Rightarrow> transaction list \<Rightarrow> bool" where
  "select_inv rows req D \<longleftrightarrow>
     distinct (map tx_id D) \<and> set D \<subseteq> set rows \<and>
     (\<forall>r \<in> set D. tx_id r \<in> set req \<or> (\<exists>q \<in> set rows. tx_id q \<in> set req \<and> is_reciprocal_pair q (Some r))) \<and>
     (\<forall>r \<in> set D. \<forall>p \<in> set rows. is_reciprocal_pair r (Some p) \<longrightarrow> p \<in> set D)"

lemma reciprocal_unique:
  assumes "distinct (map tx_id rows)" "p \<in> set rows" "q \<in> set rows"
    "is_reciprocal_pair r (Some p)" "is_reciprocal_pair r (Some q)"
  shows "p = q"
  using assms key_unique[OF assms(1-3)] by (auto simp: is_reciprocal_pair_def)

lemma select_inv_step:
  assumes d: "distinct (map tx_id rows)" and D: "select_inv rows req D"
    and r: "r \<in> set rows" "tx_id r \<in> set req"
  defines "D2 \<equiv> (case partner_in rows r of None \<Rightarrow> dict_put r D
     | Some p \<Rightarrow> if is_reciprocal_pair r (Some p) then dict_put p (dict_put r D) else dict_put r D)"
  shows "select_inv rows req D2 \<and> set D2 = insert r (set D \<union> set (pair_of rows r))"
proof -
  note D' = D[unfolded select_inv_def]
  note r1 = dict_put_set[OF d _ r(1), of D]
  have D1: "set (dict_put r D) = insert r (set D)" "distinct (map tx_id (dict_put r D))"
    "set (dict_put r D) \<subseteq> set rows"
    using D' r1 r(1) by auto
  have D2: "set D2 = insert r (set D \<union> set (pair_of rows r))" "distinct (map tx_id D2)"
  proof -
    have "set D2 = insert r (set D \<union> set (pair_of rows r)) \<and> distinct (map tx_id D2)"
    proof (cases "pair_of rows r")
      case Nil
      then have "D2 = dict_put r D" by (auto simp: D2_def pair_of_def split: option.splits if_splits)
      with D1 Nil show ?thesis by simp
    next
      case (Cons p ps)
      then have p: "D2 = dict_put p (dict_put r D)" "ps = []"
        by (auto simp: D2_def pair_of_def split: option.splits if_splits)
      have "p \<in> set rows" using pair_of_set[OF d, of p r] Cons by simp
      from dict_put_set[OF d D1(3) this] D1(1,2) Cons p show ?thesis by auto
    qed
    then show "set D2 = insert r (set D \<union> set (pair_of rows r))" "distinct (map tx_id D2)" by blast+
  qed
  have "select_inv rows req D2"
    unfolding select_inv_def
  proof (intro conjI ballI impI)
    show "distinct (map tx_id D2)" by (rule D2)
    show "set D2 \<subseteq> set rows" using D' r(1) pair_of_set[OF d] by (auto simp: D2(1))
    fix x assume x: "x \<in> set D2"
    show "tx_id x \<in> set req \<or> (\<exists>q \<in> set rows. tx_id q \<in> set req \<and> is_reciprocal_pair q (Some x))"
      using x D' r pair_of_set[OF d] unfolding D2(1) by blast
    fix p assume p: "p \<in> set rows" "is_reciprocal_pair x (Some p)"
    from x have "x = r \<or> x \<in> set D \<or> x \<in> set (pair_of rows r)" unfolding D2(1) by blast
    then show "p \<in> set D2"
    proof (elim disjE)
      assume "x = r"
      then show ?thesis using p pair_of_set[OF d] unfolding D2(1) by blast
    next
      assume "x \<in> set D"
      then show ?thesis using p D' unfolding D2(1) by blast
    next
      assume "x \<in> set (pair_of rows r)"
      then have "is_reciprocal_pair x (Some r)"
        using pair_of_set[OF d] is_reciprocal_pair_sym by blast
      then have "p = r" using reciprocal_unique[OF d p(1) r(1) p(2)] by blast
      then show ?thesis unfolding D2(1) by blast
    qed
  qed
  with D2(1) show ?thesis by blast
qed

lemma bulk_select_inv:
  assumes d: "distinct (map tx_id rows)" and "select_inv rows req D" and "set rids \<subseteq> set req"
    and "bulk_select rows rids D sk = (D', sk')"
  shows "select_inv rows req D' \<and> set D \<subseteq> set D'"
  using assms(2-)
proof (induction rids arbitrary: D sk)
  case (Cons rid rids)
  show ?case
  proof (cases "row_by tx_id rows rid")
    case None
    with Cons show ?thesis by simp
  next
    case (Some row)
    note row = row_by_Some[OF Some]
    show ?thesis
    proof (cases "tx_is_manual_adjustment row")
      case True
      with Some Cons show ?thesis by simp
    next
      case False
      define D2 where "D2 = (case partner_in rows row of None \<Rightarrow> dict_put row D
        | Some p \<Rightarrow> if is_reciprocal_pair row (Some p) then dict_put p (dict_put row D) else dict_put row D)"
      from select_inv_step[OF d Cons.prems(1), of row] row Cons.prems(2)
      have D2: "select_inv rows req D2" "set D \<subseteq> set D2" by (auto simp: D2_def)
      have "bulk_select rows rids D2 sk = (D', sk')"
        using Cons.prems(3) Some False by (simp add: D2_def Let_def)
      with Cons.IH[OF D2(1)] Cons.prems(2) D2(2) show ?thesis by auto
    qed
  qed
qed simp

lemma bulk_closed:
  fixes s :: store and org :: int and req :: "int list"
  assumes "db_inv s"
  defines "ids0 \<equiv> bulk_preview_ids s org req"
  defines "rows \<equiv> locked_rows s org (ids0 @ inbound_ids s org ids0)"
  assumes D: "bulk_select rows req [] [] = (D, sk)"
  shows "delete_closed (transactions s) org rows D" "select_inv rows req D"
    and "i \<in> set req \<Longrightarrow> row_by tx_id rows i = org_row s org i"
proof -
  let ?lock = "ids0 @ inbound_ids s org ids0"
  define preview where "preview = filter (\<lambda>t. tx_id t \<in> set req \<and> tx_org_id t = org) (transactions s)"
  have ids0: "ids0 = map tx_id preview @ List.map_filter tx_linked preview"
    by (simp add: ids0_def bulk_preview_ids_def preview_def Let_def)
  note d = db_invD(3)[OF assms(1)] and l = db_invD(2)[OF assms(1)]
  note dr = locked_rows_distinct[OF d, of org ?lock, folded rows_def]
  have rm: "x \<in> set rows \<longleftrightarrow> x \<in> set (transactions s) \<and> tx_id x \<in> set ?lock \<and> tx_org_id x = org" for x
    by (simp add: rows_def)
  have "select_inv rows req []" by (simp add: select_inv_def)
  from bulk_select_inv[OF dr this _ D] show sel: "select_inv rows req D" by simp
  have pre: "x \<in> set preview" if "x \<in> set rows" "tx_id x \<in> set req" for x
    using that rm by (simp add: preview_def)
  have src: "r \<in> set preview \<or> (\<exists>q \<in> set preview. is_reciprocal_pair q (Some r))" if "r \<in> set D" for r
    using sel that pre unfolding select_inv_def by blast
  have linked: "i \<in> set ids0" if "q \<in> set preview" "tx_linked q = Some i" for q i
    using that by (force simp: ids0 List.map_filter_def)
  have id0: "tx_id r \<in> set ids0" if "r \<in> set D" for r
    using src[OF that] linked by (auto simp: ids0 is_reciprocal_pair_def)
  have tgt: "i \<in> set ?lock" if r: "r \<in> set D" and i: "tx_linked r = Some i" for r i
  proof -
    from src[OF r] have "i \<in> set ids0"
    proof
      assume "r \<in> set preview"
      then show ?thesis using linked i by blast
    next
      assume "\<exists>q \<in> set preview. is_reciprocal_pair q (Some r)"
      then obtain q where "q \<in> set preview" "i = tx_id q" using i by (auto simp: is_reciprocal_pair_def)
      then show ?thesis by (simp add: ids0)
    qed
    then show ?thesis by simp
  qed
  show "delete_closed (transactions s) org rows D"
    unfolding rows_def
  proof (rule delete_closedI[OF db_invD(1,2)[OF assms(1)], of ids0])
    show "set ids0 \<union> set (inbound_ids s org ids0) \<subseteq> set ?lock" by auto
    show "distinct (map tx_id D)" "set D \<subseteq> set (transactions s)"
      using sel rm by (auto simp: select_inv_def)
    show "tx_org_id r = org \<and> tx_id r \<in> set ids0" if "r \<in> set D" for r
      using id0[OF that] sel that rm by (auto simp: select_inv_def)
    show "i \<in> set ?lock" if "r \<in> set D" "tx_linked r = Some i" for r i using tgt that by blast
    show "p \<in> set D" if r: "r \<in> set D" and p: "p \<in> set (transactions s)" and
      lk: "tx_linked r = Some (tx_id p)" "tx_linked p = Some (tx_id r)" for r p
    proof -
      have rT: "r \<in> set rows" "r \<in> set (transactions s)" "tx_org_id r = org"
        using sel r rm by (auto simp: select_inv_def)
      from links_wfD[OF l rT(2) lk(1)] key_unique[OF d _ p] rT(3)
      have "tx_id p \<noteq> tx_id r" "tx_org_id p = org" by auto
      moreover from this tgt[OF r lk(1)] p have "p \<in> set rows" using rm by simp
      ultimately show ?thesis
        using sel r lk rT unfolding select_inv_def is_reciprocal_pair_def by auto
    qed
  qed
  show "row_by tx_id rows i = org_row s org i" if "i \<in> set req"
  proof (cases "org_row s org i")
    case None
    have "row_by tx_id rows i = None"
      unfolding row_by_None using None rm by (auto simp: org_row_def find_None_iff)
    with None show ?thesis by simp
  next
    case (Some t)
    note tm = org_row_Some[OF Some]
    have "t \<in> set rows" using tm that rm by (auto simp: ids0 preview_def)
    then show ?thesis using Some tm row_by_distinct[OF dr] by simp
  qed
qed

lemma bulk_deleteE:
  assumes "bulk_delete_transactions s org ids = Inr (s', n, skip_ids, dem)"
  obtains (idle) "s' = s" "n = 0" "skip_ids = dedupe ids" "bulk_preview_ids s org (dedupe ids) = []"
    | (bulk) rows D sk where
        "rows = locked_rows s org (bulk_preview_ids s org (dedupe ids) @ inbound_ids s org (bulk_preview_ids s org (dedupe ids)))"
        "bulk_select rows (dedupe ids) [] [] = (D, sk)"
        "delete_writes org (to_revert rows D) D (plan_batch_settlement rows (map tx_id D)) s = Inr (s', dem)"
        "n = int (length D)" "skip_ids = filter (\<lambda>i. row_by tx_id rows i = None) (dedupe ids) @ sk"
proof (cases "ids = []")
  case True
  with assms show thesis
    by (intro idle) (simp_all add: bulk_delete_transactions_def dedupe_def bulk_preview_ids_def List.map_filter_def)
next
  case False
  let ?ids0 = "bulk_preview_ids s org (dedupe ids)"
  show thesis
  proof (cases "?ids0 @ inbound_ids s org ?ids0 = []")
    case True
    have "bulk_delete_transactions s org ids = Inr (s, 0, dedupe ids, [])"
      unfolding bulk_delete_transactions_def Let_def by (simp only: True False if_True if_False simp_thms)
    with assms True show thesis by (intro idle) simp_all
  next
    case ne: False
    let ?rows = "locked_rows s org (?ids0 @ inbound_ids s org ?ids0)"
    obtain D sk where D: "bulk_select ?rows (dedupe ids) [] [] = (D, sk)"
      by (cases "bulk_select ?rows (dedupe ids) [] []")
    have "rbind (delete_writes org (to_revert ?rows D) D (plan_batch_settlement ?rows (map tx_id D)) s)
        (\<lambda>(s', d). Inr (s', int (length D), filter (\<lambda>i. row_by tx_id ?rows i = None) (dedupe ids) @ sk, d)) =
      Inr (s', n, skip_ids, dem)"
      using assms unfolding bulk_delete_transactions_def Let_def D by (simp only: False ne if_False prod.case)
    then show thesis by (intro bulk[OF refl D]) (auto simp: rbind_eq_Inr)
  qed
qed

lemma bulk_delete_keeps:
  assumes "bulk_delete_transactions s org ids = Inr (s', n, skip_ids, dem)" "db_inv s"
  shows "db_inv s'"
  using assms(1)
proof (cases rule: bulk_deleteE)
  case idle
  then show ?thesis using assms(2) by simp
next
  case (bulk rows D sk)
  note c = bulk_closed(1)[OF assms(2) bulk(2)[unfolded bulk(1)], folded bulk(1)]
  from delete_writes_Inr(1)[OF bulk(3) assms(2) c] show ?thesis .
qed

end
