(* ===== verification/Cycle.thy ===== *)
theory Cycle
  imports Calendar
begin

text \<open>
  The pure half of \<open>services/billing_service.py\<close>: the billing cycle a day falls in, derived
  from the organisation's cycle day alone. \<open>None\<close> is the \<open>ValueError\<close> or \<open>OverflowError\<close> of a
  date the calendar does not have. The main facts: the window contains the day it was asked
  for, every day of a window has that same window, and consecutive windows leave no gap.
\<close>

section \<open>The windows\<close>

definition snap_to_cycle :: "date \<Rightarrow> int \<Rightarrow> date option" where
  "snap_to_cycle d cycle_day =
     mk_date (year d) (month d) (min cycle_day (days_in_month (year d) (month d)))"

text \<open>\<open>_snap_to_cycle(d + relativedelta(months=n), cycle_day)\<close>\<close>

definition cycle_start_after :: "(int \<Rightarrow> int \<Rightarrow> date \<Rightarrow> date option) \<Rightarrow> int \<Rightarrow> int \<Rightarrow> date \<Rightarrow> date option" where
  "cycle_start_after rd cycle_day n d =
     (case rd 0 n d of None \<Rightarrow> None | Some e \<Rightarrow> snap_to_cycle e cycle_day)"

definition current_cycle_window ::
  "(int \<Rightarrow> int \<Rightarrow> date \<Rightarrow> date option) \<Rightarrow> int \<Rightarrow> date \<Rightarrow> (date \<times> date) option" where
  "current_cycle_window rd cycle_day today =
     (case snap_to_cycle today cycle_day of
        None \<Rightarrow> None
      | Some start0 \<Rightarrow>
     (case (if today < start0 then cycle_start_after rd cycle_day (- 1) today else Some start0) of
        None \<Rightarrow> None
      | Some start \<Rightarrow>
     (case cycle_start_after rd cycle_day 1 start of
        None \<Rightarrow> None
      | Some next_start \<Rightarrow>
          (case prev_day next_start of None \<Rightarrow> None | Some e \<Rightarrow> Some (start, e)))))"

definition next_cycle_window ::
  "(int \<Rightarrow> int \<Rightarrow> date \<Rightarrow> date option) \<Rightarrow> int \<Rightarrow> date \<Rightarrow> (date \<times> date) option" where
  "next_cycle_window rd cycle_day today =
     (case current_cycle_window rd cycle_day today of
        None \<Rightarrow> None
      | Some (cur_start, _) \<Rightarrow>
     (case cycle_start_after rd cycle_day 1 cur_start of
        None \<Rightarrow> None
      | Some next_start \<Rightarrow>
     (case cycle_start_after rd cycle_day 1 next_start of
        None \<Rightarrow> None
      | Some following \<Rightarrow>
          (case prev_day following of None \<Rightarrow> None | Some e \<Rightarrow> Some (next_start, e)))))"

section \<open>Cycle starts\<close>

text \<open>The start of the cycle of a month: the cycle day, or the end of a shorter month.\<close>

definition is_cycle_start :: "int \<Rightarrow> date \<Rightarrow> bool" where
  "is_cycle_start cycle_day d \<longleftrightarrow> day d = min cycle_day (days_in_month (year d) (month d))"

lemma snap_to_cycle_Some:
  assumes "snap_to_cycle d c = Some e"
  shows "month_index e = month_index d" "is_cycle_start c e"
  using assms by (auto simp: snap_to_cycle_def is_cycle_start_def month_index_def)

lemma snap_to_cycle_defined: "1 \<le> c \<Longrightarrow> snap_to_cycle d c \<noteq> None"
  using valid_date[of d] by (auto simp: snap_to_cycle_def mk_date_def valid_ymd_def)

lemma is_cycle_start_unique:
  "is_cycle_start c a \<Longrightarrow> is_cycle_start c b \<Longrightarrow> month_index a = month_index b \<Longrightarrow> a = b"
  by (auto simp: is_cycle_start_def dest!: month_index_eqD intro: date_eqI)

context relativedelta_lib
begin

lemma cycle_start_after_Some:
  assumes "cycle_start_after rd c n d = Some e"
  shows "month_index e = month_index d + n" "is_cycle_start c e"
  using assms rd_Some snap_to_cycle_Some
  by (fastforce simp: cycle_start_after_def split: option.splits)+

lemma current_cycle_window_start:
  assumes "current_cycle_window rd c today = Some (s, e)"
  shows "is_cycle_start c s" "s \<le> today" "month_index today \<le> month_index s + 1"
    and "\<exists>n. cycle_start_after rd c 1 s = Some n \<and> prev_day n = Some e \<and> next_day e = Some n \<and> today < n"
proof -
  from assms obtain s0 n where s0: "snap_to_cycle today c = Some s0"
    and s: "(if today < s0 then cycle_start_after rd c (- 1) today else Some s0) = Some s"
    and n: "cycle_start_after rd c 1 s = Some n" "prev_day n = Some e"
    by (auto simp: current_cycle_window_def split: option.splits)
  note S0 = snap_to_cycle_Some[OF s0] and N = cycle_start_after_Some[OF n(1)]
  show st: "is_cycle_start c s" and "s \<le> today" and "month_index today \<le> month_index s + 1"
    using s S0 cycle_start_after_Some[of c "- 1" today s]
    by (auto split: if_splits intro: less_imp_le[OF date_less_by_month])
  have "today < n"
  proof (cases "today < s0")
    case True
    with s cycle_start_after_Some[of c "- 1" today s] have "month_index s = month_index today - 1" by simp
    with N S0 is_cycle_start_unique[of c n s0] True show ?thesis by simp
  next
    case False
    with s S0 N show ?thesis by (intro date_less_by_month) simp
  qed
  with n next_prev_day[OF n(2)] show "\<exists>n. cycle_start_after rd c 1 s = Some n \<and> prev_day n = Some e \<and> next_day e = Some n \<and> today < n"
    by blast
qed

lemma current_cycle_window_contains:
  "current_cycle_window rd c today = Some (s, e) \<Longrightarrow> s \<le> today \<and> today \<le> e"
  using current_cycle_window_start(2,4) next_day_less_iff
  by (metis linorder_not_less)

text \<open>The window is determined by its start being the last cycle start on or before the day.\<close>

lemma current_cycle_window_same:
  assumes w: "current_cycle_window rd c today = Some (s, e)" and d: "s \<le> d" "d \<le> e" and c: "1 \<le> c"
  shows "current_cycle_window rd c d = Some (s, e)"
proof -
  note W = current_cycle_window_start[OF w]
  from W(4) obtain n where n: "cycle_start_after rd c 1 s = Some n" "next_day e = Some n" and prev: "prev_day n = Some e"
    by blast
  note N = cycle_start_after_Some[OF n(1)]
  have dn: "d < n" using d(2) n(2) next_day_gt by (meson le_less_trans)
  from snap_to_cycle_defined[OF c] obtain d0 where d0: "snap_to_cycle d c = Some d0" by blast
  note D0 = snap_to_cycle_Some[OF d0]
  have m: "month_index s \<le> month_index d" "month_index d \<le> month_index s + 1"
    using date_le_month[OF d(1)] date_le_month[OF less_imp_le[OF dn]] N by simp_all
  show ?thesis
  proof (cases "month_index d = month_index s")
    case True
    then have "d0 = s" using is_cycle_start_unique[OF D0(2) W(1)] D0(1) by simp
    then show ?thesis using leD[OF d(1)] d0 n(1) prev by (simp add: current_cycle_window_def)
  next
    case False
    then have "d0 = n" using is_cycle_start_unique[OF D0(2) N(2)] D0(1) N(1) m by simp
    moreover obtain b where b: "cycle_start_after rd c (- 1) d = Some b"
    proof -
      have "rd 0 (- 1) d \<noteq> None"
        using rd_defined[of d 0 "- 1"] False m month_index_bounds[of s] month_index_bounds[of d] by simp
      then show thesis using that snap_to_cycle_defined[OF c] by (fastforce simp: cycle_start_after_def)
    qed
    moreover have "b = s"
      using cycle_start_after_Some[OF b] is_cycle_start_unique[OF _ W(1)] False m by simp
    ultimately show ?thesis using dn d0 n(1) prev by (simp add: current_cycle_window_def)
  qed
qed

lemma next_cycle_window_adjacent:
  assumes "current_cycle_window rd c today = Some (s, e)" "next_cycle_window rd c today = Some (s', e')"
  shows "next_day e = Some s'" "s' \<le> e'"
proof -
  from current_cycle_window_start(4)[OF assms(1)] obtain n where
    n: "cycle_start_after rd c 1 s = Some n" "next_day e = Some n" by blast
  with assms show "next_day e = Some s'"
    by (auto simp: next_cycle_window_def split: option.splits)
  from assms n(1) obtain f where f: "s' = n" "cycle_start_after rd c 1 n = Some f" "prev_day f = Some e'"
    by (auto simp: next_cycle_window_def split: option.splits)
  have "n < f" using cycle_start_after_Some(1)[OF f(2)] by (intro date_less_by_month) simp
  with f(1,3) prev_day_less_iff show "s' \<le> e'" by blast
qed

lemma next_cycle_window_is_current:
  assumes "current_cycle_window rd c today = Some (s, e)" "next_cycle_window rd c today = Some (s', e')"
    and c: "1 \<le> c" and d: "s' \<le> d" "d \<le> e'"
  shows "current_cycle_window rd c d = Some (s', e')"
proof -
  from current_cycle_window_start(4)[OF assms(1)] assms obtain f where
    n: "cycle_start_after rd c 1 s = Some s'" and f: "cycle_start_after rd c 1 s' = Some f" "prev_day f = Some e'"
    by (auto simp: next_cycle_window_def split: option.splits)
  note N = cycle_start_after_Some[OF n] and F = cycle_start_after_Some[OF f(1)]
  from snap_to_cycle_defined[OF c] obtain s0 where s0: "snap_to_cycle s' c = Some s0" by blast
  have "s0 = s'" using snap_to_cycle_Some[OF s0] is_cycle_start_unique[OF _ N(2)] by simp
  then have "current_cycle_window rd c s' = Some (s', e')"
    using s0 f by (simp add: current_cycle_window_def)
  from current_cycle_window_same[OF this d c] show ?thesis .
qed

end

end
