(* ===== verification/Frontier.thy ===== *)
theory Frontier
  imports Models Cycle
begin

text \<open>
  \<open>services/recurring_filters.py\<close> (when a series is exhausted) and the frontier bounds of
  \<open>services/recurring_service.py\<close> and \<open>services/transaction_service.py\<close>. A \<open>None\<close> of the
  calendar is the \<open>OverflowError\<close> the services let through.
\<close>

section \<open>Exhaustion of a series\<close>

definition remaining_occurrences :: "template \<Rightarrow> int option" where
  "remaining_occurrences r =
     (case r_occurrence_count r of None \<Rightarrow> None | Some n \<Rightarrow> Some (n - r_occurrences_elapsed r))"

definition has_remaining_occurrences :: "template \<Rightarrow> bool" where
  "has_remaining_occurrences r =
     (case remaining_occurrences r of None \<Rightarrow> True | Some rem \<Rightarrow> rem > 0)"

definition active_series_filter :: "template \<Rightarrow> bool" where
  "active_series_filter r \<longleftrightarrow>
     r_is_active r \<and>
     (case r_occurrence_count r of None \<Rightarrow> True | Some n \<Rightarrow> r_occurrences_elapsed r < n)"

lemma active_series_iff: "active_series_filter r \<longleftrightarrow> r_is_active r \<and> has_remaining_occurrences r"
  by (auto simp: active_series_filter_def has_remaining_occurrences_def remaining_occurrences_def
      split: option.splits)

lemma has_remaining_not_exhausted: "has_remaining_occurrences r \<longleftrightarrow> \<not> exhausted (remaining_occurrences r)"
  by (auto simp: has_remaining_occurrences_def exhausted_def split: option.splits)

section \<open>Where a frontier may stand\<close>

definition calendar_error :: service_error where
  "calendar_error = PyValueError ''date value out of range''"

text \<open>A date the calendar does not have is a \<open>ValueError\<close> (or the \<open>OverflowError\<close> of \<open>timedelta\<close>).\<close>

definition date_or_error :: "date option \<Rightarrow> date result" where
  "date_or_error d = (case d of None \<Rightarrow> Inl calendar_error | Some e \<Rightarrow> Inr e)"

lemma date_or_error_Inr [simp]: "date_or_error d = Inr e \<longleftrightarrow> d = Some e"
  by (auto simp: date_or_error_def split: option.splits)

lemma date_or_error_Some [simp]: "date_or_error (Some d) = Inr d"
  by simp

definition frontier_lower_bound ::
  "(int \<Rightarrow> int \<Rightarrow> date \<Rightarrow> date option) \<Rightarrow> store \<Rightarrow> int \<Rightarrow> date \<Rightarrow> date result" where
  "frontier_lower_bound rd s org_id today =
     (let cycle_day = (case row_by o_id (organizations s) org_id of
            None \<Rightarrow> 1 | Some org \<Rightarrow> o_billing_cycle_day org)
      in case current_cycle_window rd cycle_day today of
           None \<Rightarrow> Inl calendar_error
         | Some (p_start, _) \<Rightarrow> Inr p_start)"

definition validate_frontier ::
  "(int \<Rightarrow> int \<Rightarrow> date \<Rightarrow> date option) \<Rightarrow> store \<Rightarrow> int \<Rightarrow> date \<Rightarrow> date \<Rightarrow> date result" where
  "validate_frontier rd s org_id next_due_date today =
     rbind (frontier_lower_bound rd s org_id today) (\<lambda>p_start.
     if next_due_date < p_start
     then Inl (ValidationError ''Next due date cannot be earlier than the billing cycle start'')
     else Inr p_start)"

definition find_template :: "store \<Rightarrow> int \<Rightarrow> int \<Rightarrow> template option" where
  "find_template s recurring_id org_id =
     find (\<lambda>r. r_id r = recurring_id \<and> r_org_id r = org_id) (templates s)"

definition refuse_row_date_at_frontier ::
  "(int \<Rightarrow> int \<Rightarrow> date \<Rightarrow> date option) \<Rightarrow> store \<Rightarrow> int \<Rightarrow> int \<Rightarrow> date \<Rightarrow> date \<Rightarrow> unit result" where
  "refuse_row_date_at_frontier rd s org_id recurring_id new_date today =
     (case find_template s recurring_id org_id of
        None \<Rightarrow> Inr ()
      | Some r \<Rightarrow>
          if \<not> has_remaining_occurrences r then Inr ()
          else
            rbind (if r_is_active r then Inr (r_next_due_date r)
                   else rbind (frontier_lower_bound rd s org_id today)
                          (\<lambda>p_start. Inr (max (r_next_due_date r) p_start))) (\<lambda>bound.
            guard (new_date < bound) (ConflictError ''date must be before the next occurrence'')))"

end
