(* ===== verification/Reconcile.thy ===== *)
theory Reconcile
  imports Batches Balance Frontier
begin

text \<open>
  The reconciliation inbox (\<open>services/reconciliation_service.py\<close>): the state machine of an
  imported row, the edit and match payloads, the balance bookkeeping, the counters of the
  batch and the request handler. \<open>today\<close> is the clock the frontier check reads. The batch
  is held in memory during a request and written back at its end, as the handler does.
\<close>

section \<open>Requests\<close>

record edits =
  ed_description :: "string option"
  ed_amount :: "decimal option"
  ed_date :: "date option"
  ed_category_id :: "int option"

record transition =
  tr_transaction_id :: int
  tr_to_state :: reconciliation_state
  tr_edits :: "edits option"
  tr_match_with :: "int option"

section \<open>The state machine\<close>

fun ALLOWED_TRANSITIONS :: "reconciliation_state \<Rightarrow> reconciliation_state list" where
  "ALLOWED_TRANSITIONS pending_review = [matched, edited, skipped, accepted, rejected]"
| "ALLOWED_TRANSITIONS unmatched = [matched, edited, skipped, accepted, rejected]"
| "ALLOWED_TRANSITIONS matched = [accepted]"
| "ALLOWED_TRANSITIONS edited = [accepted]"
| "ALLOWED_TRANSITIONS accepted = [pending_review]"
| "ALLOWED_TRANSITIONS skipped = []"
| "ALLOWED_TRANSITIONS rejected = []"

definition validate_payload_shape :: "transition \<Rightarrow> unit result" where
  "validate_payload_shape tr =
     (if tr_to_state tr = edited then
        (if tr_edits tr = None then Inl (ValidationError ''EDITED transition requires edits'')
         else if tr_match_with tr \<noteq> None
           then Inl (ValidationError ''EDITED transition does not accept match_with_transaction_id'')
         else Inr ())
      else if tr_to_state tr = matched then
        (if tr_match_with tr = None
           then Inl (ValidationError ''MATCHED transition requires match_with_transaction_id'')
         else if tr_edits tr \<noteq> None then Inl (ValidationError ''MATCHED transition does not accept edits'')
         else Inr ())
      else if tr_edits tr \<noteq> None then Inl (ValidationError ''transition does not accept edits'')
      else if tr_match_with tr \<noteq> None
        then Inl (ValidationError ''transition does not accept match_with_transaction_id'')
      else Inr ())"

definition validate_transition :: "reconciliation_state \<Rightarrow> reconciliation_state \<Rightarrow> unit result" where
  "validate_transition source_state target_state =
     guard (target_state \<in> set (ALLOWED_TRANSITIONS source_state))
       (ConflictError ''reconciliation transition not allowed'')"

section \<open>Payloads\<close>

text \<open>The amount arm: revert the old amount and apply the new one, when it is in the balance.\<close>

definition edit_amount ::
  "store \<Rightarrow> int \<Rightarrow> transaction \<Rightarrow> decimal option \<Rightarrow> bool \<Rightarrow> (store \<times> transaction) result" where
  "edit_amount s org_id tx new_amount source_in_cached_balance =
     (case new_amount of
        None \<Rightarrow> Inr (s, tx)
      | Some x \<Rightarrow>
          if x = tx_amount tx then Inr (s, tx)
          else
            rbind (if tx_status tx = SETTLED \<and> source_in_cached_balance then
                     rbind (get_account_for_update s (tx_account_id tx) org_id) (\<lambda>acct.
                     rbind (revert_balance acct (tx_amount tx) (tx_type tx)) (\<lambda>acct1.
                     rbind (apply_balance acct1 x (tx_type tx)) (\<lambda>acct2.
                     Inr (put_account acct2 s))))
                   else Inr s)
              (\<lambda>s1. Inr (s1, tx\<lparr>tx_amount := x\<rparr>)))"

definition edit_date ::
  "(int \<Rightarrow> int \<Rightarrow> date \<Rightarrow> date option) \<Rightarrow> date \<Rightarrow> store \<Rightarrow> int \<Rightarrow> transaction \<Rightarrow> date option
     \<Rightarrow> transaction result" where
  "edit_date rd today s org_id tx new_date =
     (case new_date of
        None \<Rightarrow> Inr tx
      | Some d \<Rightarrow>
          rbind (case tx_recurring_id tx of
                   None \<Rightarrow> Inr ()
                 | Some r \<Rightarrow> if d \<noteq> tx_date tx then refuse_row_date_at_frontier rd s org_id r d today else Inr ())
            (\<lambda>_.
          let tx1 = tx\<lparr>tx_date := d\<rparr>;
              tx2 = (if tx_status tx = SETTLED then tx1\<lparr>tx_settled_date := Some d\<rparr> else tx1)
          in case tx_settled_date tx2 of
               Some sd \<Rightarrow> if sd < tx_date tx2
                 then Inl (ValidationError ''settled_date must be on or after date'') else Inr tx2
             | None \<Rightarrow> Inr tx2))"

definition apply_edits ::
  "(int \<Rightarrow> int \<Rightarrow> date \<Rightarrow> date option) \<Rightarrow> date \<Rightarrow> store \<Rightarrow> int \<Rightarrow> transaction \<Rightarrow> transition
     \<Rightarrow> transaction option \<Rightarrow> bool \<Rightarrow> (store \<times> transaction) result" where
  "apply_edits rd today s org_id tx tr target source_in_cached_balance =
     (case tr_edits tr of
        None \<Rightarrow> Inr (s, tx)
      | Some ed \<Rightarrow>
          if is_reciprocal_pair tx target
          then Inl (ValidationError ''Cannot edit a transfer leg from the reconciliation inbox'')
          else
            let tx1 = (case ed_description ed of None \<Rightarrow> tx | Some d \<Rightarrow> tx\<lparr>tx_description := d\<rparr>) in
            rbind (case ed_category_id ed of
                     None \<Rightarrow> Inr tx1
                   | Some c \<Rightarrow> rbind (validate_category_for_type s c org_id (tx_type tx))
                                 (\<lambda>_. Inr (tx1\<lparr>tx_category_id := c\<rparr>))) (\<lambda>tx2.
            rbind (edit_amount s org_id tx2 (ed_amount ed) source_in_cached_balance) (\<lambda>(s3, tx3).
            rbind (edit_date rd today s3 org_id tx3 (ed_date ed)) (\<lambda>tx4. Inr (s3, tx4)))))"

text \<open>The match: the row and its target.\<close>

definition apply_match :: "store \<Rightarrow> int \<Rightarrow> transaction \<Rightarrow> transition \<Rightarrow> (transaction \<times> transaction) result" where
  "apply_match s org_id tx tr =
     (case tr_match_with tr of
        None \<Rightarrow> Inl (ValidationError ''MATCHED transition requires match_with_transaction_id'')
      | Some match_id \<Rightarrow>
          if match_id = tx_id tx
          then Inl (ValidationError ''MATCHED target must differ from the transaction itself'')
          else (case org_row s org_id match_id of
             None \<Rightarrow> Inl (NotFoundError ''Match target transaction'')
           | Some target \<Rightarrow>
               if reverted target then Inl (ValidationError ''match against a live transaction instead'')
               else if tx_linked target = Some (tx_id tx)
                 then Inl (ValidationError ''matching in the opposite direction'')
               else if (case tx_linked tx of
                          None \<Rightarrow> False
                        | Some i \<Rightarrow> is_reciprocal_pair tx (org_row s org_id i))
                 then Inl (ValidationError ''Transaction is a transfer leg'')
               else Inr (tx\<lparr>tx_linked := Some match_id\<rparr>, target)))"

section \<open>Balance bookkeeping\<close>

definition apply_balance_for_transition ::
  "store \<Rightarrow> int \<Rightarrow> transaction \<Rightarrow> bool \<Rightarrow> transaction option \<Rightarrow> store result" where
  "apply_balance_for_transition s org_id tx source_in_cached_balance target_partner =
     (if tx_status tx \<noteq> SETTLED then Inr s
      else
        let target_in_cached_balance = contributes_to_cached_balance tx target_partner in
        if source_in_cached_balance = target_in_cached_balance then Inr s
        else if source_in_cached_balance \<and> \<not> target_in_cached_balance
          then move_on_account revert_balance org_id (tx_account_id tx) (tx_amount tx) (tx_type tx) s
          else move_on_account apply_balance org_id (tx_account_id tx) (tx_amount tx) (tx_type tx) s)"

section \<open>One transition\<close>

definition move_counters ::
  "reconciliation_state \<Rightarrow> reconciliation_state \<Rightarrow> import_batch \<Rightarrow> import_batch" where
  "move_counters source_state target_state batch =
     (let sp = source_state \<in> set PENDING_STATES; tp = target_state \<in> set PENDING_STATES;
          sa = source_state = accepted; ta = target_state = accepted;
          b1 = (if sp \<and> \<not> tp then batch\<lparr>ib_pending_count := max 0 (ib_pending_count batch - 1)\<rparr>
                else if \<not> sp \<and> tp then batch\<lparr>ib_pending_count := ib_pending_count batch + 1\<rparr> else batch)
      in if sa \<and> \<not> ta then b1\<lparr>ib_accepted_count := max 0 (ib_accepted_count b1 - 1)\<rparr>
         else if \<not> sa \<and> ta then b1\<lparr>ib_accepted_count := ib_accepted_count b1 + 1\<rparr> else b1)"

definition reconcile_one ::
  "(int \<Rightarrow> int \<Rightarrow> date \<Rightarrow> date option) \<Rightarrow> date \<Rightarrow> int \<Rightarrow> transition \<Rightarrow> store \<times> import_batch
     \<Rightarrow> (store \<times> import_batch) result" where
  "reconcile_one rd today org_id tr sb =
     (case sb of (s, batch) \<Rightarrow>
     rbind (validate_payload_shape tr) (\<lambda>_.
     case org_row s org_id (tr_transaction_id tr) of
       None \<Rightarrow> Inl (NotFoundError ''Transaction'')
     | Some tx \<Rightarrow>
         let source_state = tx_recon tx; target_state = tr_to_state tr in
         if tx_import_batch_id tx \<noteq> Some (ib_id batch)
           then Inl (ValidationError ''transaction does not belong to batch'')
         else if source_state = target_state then Inr (s, batch)
         else
           rbind (validate_transition source_state target_state) (\<lambda>_.
           let source_partner = (case tx_linked tx of None \<Rightarrow> None | Some i \<Rightarrow> org_row s org_id i);
               source_in = contributes_to_cached_balance tx source_partner
           in
           if target_state \<in> set REVERTED_RECONCILIATION_STATES \<and> is_reciprocal_pair tx source_partner
             then Inl (ValidationError ''Cannot skip or reject a transfer leg from the reconciliation inbox'')
           else
             rbind (if target_state = edited then
                      rbind (apply_edits rd today s org_id tx tr source_partner source_in)
                        (\<lambda>(s1, tx1). Inr (s1, tx1, source_partner))
                    else if target_state = matched then
                      rbind (apply_match s org_id tx tr) (\<lambda>(tx1, target). Inr (s, tx1, Some target))
                    else Inr (s, tx, source_partner)) (\<lambda>(s1, tx1, target_partner).
             let tx2 = tx1\<lparr>tx_recon := target_state\<rparr> in
             rbind (apply_balance_for_transition s1 org_id tx2 source_in target_partner) (\<lambda>s2.
             Inr (put_transaction tx2 s2, move_counters source_state target_state batch))))))"

section \<open>The request\<close>

text \<open>One savepoint: the first refusal rolls everything back.\<close>

primrec reconcile_all ::
  "(int \<Rightarrow> int \<Rightarrow> date \<Rightarrow> date option) \<Rightarrow> date \<Rightarrow> int \<Rightarrow> transition list \<Rightarrow> store \<times> import_batch
     \<Rightarrow> (store \<times> import_batch) result" where
  "reconcile_all rd today org_id [] sb = Inr sb"
| "reconcile_all rd today org_id (tr # trs) sb =
     rbind (reconcile_one rd today org_id tr sb) (reconcile_all rd today org_id trs)"

definition reconcile_request ::
  "(int \<Rightarrow> int \<Rightarrow> date \<Rightarrow> date option) \<Rightarrow> date \<Rightarrow> store \<Rightarrow> int \<Rightarrow> int \<Rightarrow> transition list
     \<Rightarrow> (store \<times> import_batch) result" where
  "reconcile_request rd today s org_id batch_id transitions =
     rbind (get_batch_for_update s org_id batch_id) (\<lambda>batch.
     rbind (reconcile_all rd today org_id transitions (s, batch)) (\<lambda>(s1, b1).
     let b2 = fst (close_batch_if_complete s1 b1 []) in Inr (put_batch b2 s1, b2)))"

end
