(* ===== verification/ReconcileKeep.thy ===== *)
theory ReconcileKeep
  imports Reconcile BalanceKeep
begin

text \<open>
  A reconcile request keeps the ledger and the counters of its batch. One transition is
  followed from the row it finds to the row it writes; the match is the only one that
  rewrites the link, and its two guards are what keeps every other row's contribution.
\<close>

section \<open>Rewriting one row, link included\<close>

lemma links_wf_put:
  assumes "links_wf rows" "t \<in> set rows" "distinct (map tx_id rows)"
    and "tx_id t' = tx_id t" "tx_org_id t' = tx_org_id t"
    and "\<And>i. tx_linked t' = Some i \<Longrightarrow> i \<noteq> tx_id t \<and> (\<exists>p \<in> set rows. tx_id p = i \<and> tx_org_id p = tx_org_id t)"
  shows "links_wf (map (\<lambda>r. if tx_id r = tx_id t then t' else r) rows)"
  unfolding links_wf_iff
proof (intro ballI allI impI)
  let ?f = "\<lambda>r. if tx_id r = tx_id t then t' else r"
  fix u x assume u: "u \<in> set (map ?f rows)" "tx_linked u = Some x"
  then obtain r where r: "r \<in> set rows" "u = ?f r" by auto
  have key: "tx_id (?f p) = tx_id p" "p \<in> set rows \<Longrightarrow> tx_org_id (?f p) = tx_org_id p" for p
    using assms(4,5) key_unique[OF assms(3) _ assms(2)] by auto
  have "x \<noteq> tx_id r \<and> (\<exists>p \<in> set rows. tx_id p = x \<and> tx_org_id p = tx_org_id r)"
  proof (cases "tx_id r = tx_id t")
    case True
    then have "r = t" using key_unique[OF assms(3) r(1) assms(2)] by blast
    then show ?thesis using assms(6)[of x] u(2) r(2) by simp
  next
    case False
    then show ?thesis using links_wfD[OF assms(1) r(1)] u(2) r(2) by auto
  qed
  then obtain p where "x \<noteq> tx_id r" "p \<in> set rows" "tx_id p = x" "tx_org_id p = tx_org_id r" by blast
  then show "x \<noteq> tx_id u \<and> (\<exists>p \<in> set (map ?f rows). tx_id p = x \<and> tx_org_id p = tx_org_id u)"
    using key[of r] key[of p] r by (intro conjI bexI[of _ "?f p"]) auto
qed

lemma books_set_row:
  assumes b: "books f s" and t: "t \<in> set (transactions s)"
    and new: "tx_id t' = tx_id t" "tx_org_id t' = tx_org_id t" "row_ok s t'"
    and lnk: "\<And>i. tx_linked t' = Some i \<Longrightarrow>
      i \<noteq> tx_id t \<and> (\<exists>p \<in> set (transactions s). tx_id p = i \<and> tx_org_id p = tx_org_id t)"
    and others: "\<And>r. r \<in> set (transactions s) \<Longrightarrow> tx_id r \<noteq> tx_id t \<Longrightarrow>
      balance_contribution_filter (transactions (put_transaction t' s)) r = balance_contribution_filter (transactions s) r"
  shows "books (\<lambda>i. f i + settled_contribution (transactions s) i t
     - settled_contribution (transactions (put_transaction t' s)) i t') (put_transaction t' s)"
proof -
  note d = booksD(4)[OF b]
  let ?f = "\<lambda>r. if tx_id r = tx_id t then t' else r"
  let ?N = "transactions (put_transaction t' s)"
  have N: "?N = map ?f (transactions s)" by (simp add: update_row_def new(1))
  have "links_wf ?N" unfolding N by (rule links_wf_put[OF booksD(2)[OF b] t d new(1,2) lnk])
  moreover have "list_all (row_ok s) ?N"
    unfolding N using b new(3) by (auto simp: books_def list_all_iff)
  moreover have "total ?N i = total (transactions s) i +
      (settled_contribution ?N i t' - settled_contribution (transactions s) i t)" for i
  proof -
    have "total ?N i = sum_list (map (\<lambda>r. settled_contribution ?N i (?f r)) (transactions s))"
      unfolding total_def N by (simp add: comp_def)
    also have "\<dots> = sum_list (map (settled_contribution (transactions s) i) (transactions s))
        - settled_contribution (transactions s) i t + settled_contribution ?N i (?f t)"
      by (rule sum_list_change[OF d t]) (use others in \<open>auto simp: settled_contribution_def\<close>)
    finally show ?thesis by (simp add: total_def)
  qed
  then have "off_by (\<lambda>i. f i - (settled_contribution ?N i t' - settled_contribution (transactions s) i t)) (put_transaction t' s)"
    by (intro off_by_transactions[OF booksD(3)[OF b]]) simp_all
  ultimately show ?thesis
    using booksD(1)[OF b]
    by (simp add: books_def row_ok_cong[of "put_transaction t' s" s] algebra_simps)
qed

text \<open>A row that changes its link without joining or leaving a mutual pair.\<close>

lemma filter_other_rows:
  assumes d: "distinct (map tx_id (transactions s))" and t: "t \<in> set (transactions s)" and new: "tx_id t' = tx_id t"
    and r: "r \<in> set (transactions s)" "tx_id r \<noteq> tx_id t"
    and mutual: "tx_linked r = Some (tx_id t) \<Longrightarrow>
      tx_linked t' = Some (tx_id r) \<longleftrightarrow> tx_linked t = Some (tx_id r)"
  shows "balance_contribution_filter (transactions (put_transaction t' s)) r = balance_contribution_filter (transactions s) r"
proof -
  let ?f = "\<lambda>x. if tx_id x = tx_id t then t' else x"
  have N: "transactions (put_transaction t' s) = map ?f (transactions s)" by (simp add: update_row_def new)
  have same: "p \<in> set (transactions s) \<Longrightarrow> tx_id p = tx_id t \<Longrightarrow> p = t" for p
    using key_unique[OF d _ t] by blast
  have "(\<exists>p \<in> set (transactions s). tx_linked r = Some (tx_id (?f p)) \<and> tx_linked (?f p) = Some (tx_id r)) \<longleftrightarrow>
      (\<exists>p \<in> set (transactions s). tx_linked r = Some (tx_id p) \<and> tx_linked p = Some (tx_id r))"
  proof (rule bex_cong[OF refl])
    fix p assume p: "p \<in> set (transactions s)"
    show "tx_linked r = Some (tx_id (?f p)) \<and> tx_linked (?f p) = Some (tx_id r) \<longleftrightarrow>
        tx_linked r = Some (tx_id p) \<and> tx_linked p = Some (tx_id r)"
      using same[OF p] mutual new by (cases "tx_id p = tx_id t") auto
  qed
  then show ?thesis
    unfolding N balance_contribution_filter_def list_ex_iff set_map bex_simps(7) by (simp only:)
qed

section \<open>One transition\<close>

text \<open>What the payload step hands over: the row to write, the moved accounts, and the partner
  the balance step looks at.\<close>

lemma edit_amount_Inr:
  assumes "edit_amount s org tx new src = Inr (s', tx')" "store_wf s"
  shows "s' = (if tx_status tx = SETTLED \<and> src
      then add_balance (tx_account_id tx) (signed (tx_type tx) (tx_amount tx') - signed (tx_type tx) (tx_amount tx)) s
      else s) \<or> s' = s \<and> tx_amount tx' = tx_amount tx"
    and "tx' = tx\<lparr>tx_amount := tx_amount tx'\<rparr>"
proof -
  have d: "distinct (map acc_id (accounts s))" using assms(2) by (simp add: store_wf_def)
  show "s' = (if tx_status tx = SETTLED \<and> src
      then add_balance (tx_account_id tx) (signed (tx_type tx) (tx_amount tx') - signed (tx_type tx) (tx_amount tx)) s
      else s) \<or> s' = s \<and> tx_amount tx' = tx_amount tx"
  proof (cases "s' = s \<and> tx_amount tx' = tx_amount tx")
    case False
    with assms(1) obtain x where x: "new = Some x" "x \<noteq> tx_amount tx" "tx' = tx\<lparr>tx_amount := x\<rparr>"
      by (auto simp: edit_amount_def rbind_eq_Inr split: option.splits if_splits)
    show ?thesis
    proof (cases "tx_status tx = SETTLED \<and> src")
      case True
      with assms(1) x obtain a a1 a2 where a: "get_account_for_update s (tx_account_id tx) org = Inr a"
        "revert_balance a (tx_amount tx) (tx_type tx) = Inr a1" "apply_balance a1 x (tx_type tx) = Inr a2"
        "s' = put_account a2 s"
        by (auto simp: edit_amount_def rbind_eq_Inr)
      from a(2,3) have "a2 = a\<lparr>acc_balance := acc_balance a + (signed (tx_type tx) x - signed (tx_type tx) (tx_amount tx))\<rparr>"
        by (cases "tx_type tx") (auto simp: signed_def)
      with put_account_add[OF d get_account_Inr(1)[OF a(1)]] get_account_Inr(2)[OF a(1)] a(4) True x
      show ?thesis by simp
    next
      case False
      with assms(1) x show ?thesis by (auto simp: edit_amount_def)
    qed
  qed simp
  show "tx' = tx\<lparr>tx_amount := tx_amount tx'\<rparr>"
    using assms(1) by (auto simp: edit_amount_def rbind_eq_Inr split: option.splits if_splits)
qed

lemma edit_date_Inr:
  assumes "edit_date rd today s org tx new = Inr tx'"
  shows "tx' = tx\<lparr>tx_date := tx_date tx', tx_settled_date := tx_settled_date tx'\<rparr>"
    and "tx_settled_date tx \<noteq> None \<Longrightarrow> tx_settled_date tx' \<noteq> None"
    and "new \<noteq> None \<Longrightarrow> tx_settled_date tx' = Some sd \<Longrightarrow> tx_date tx' \<le> sd"
  using assms
  by (auto simp: edit_date_def rbind_eq_Inr Let_def not_less split: option.splits if_splits)

lemma apply_edits_Inr:
  assumes "apply_edits rd today s org tx tr target src = Inr (s', tx')" "store_wf s"
  shows "s' = (if tx_status tx = SETTLED \<and> src
      then add_balance (tx_account_id tx) (signed (tx_type tx) (tx_amount tx') - signed (tx_type tx) (tx_amount tx)) s
      else s) \<or> s' = s \<and> tx_amount tx' = tx_amount tx"
    and "tx_id tx' = tx_id tx" "tx_org_id tx' = tx_org_id tx" "tx_account_id tx' = tx_account_id tx"
      "tx_type tx' = tx_type tx" "tx_status tx' = tx_status tx" "tx_linked tx' = tx_linked tx"
      "tx_recon tx' = tx_recon tx" "tx_import_batch_id tx' = tx_import_batch_id tx"
    and "tx_settled_date tx \<noteq> None \<Longrightarrow> tx_settled_date tx' \<noteq> None"
proof -
  have "(s' = (if tx_status tx = SETTLED \<and> src
      then add_balance (tx_account_id tx) (signed (tx_type tx) (tx_amount tx') - signed (tx_type tx) (tx_amount tx)) s
      else s) \<or> s' = s \<and> tx_amount tx' = tx_amount tx) \<and>
    tx_id tx' = tx_id tx \<and> tx_org_id tx' = tx_org_id tx \<and> tx_account_id tx' = tx_account_id tx \<and>
    tx_type tx' = tx_type tx \<and> tx_status tx' = tx_status tx \<and> tx_linked tx' = tx_linked tx \<and>
    tx_recon tx' = tx_recon tx \<and> tx_import_batch_id tx' = tx_import_batch_id tx \<and>
    (tx_settled_date tx \<noteq> None \<longrightarrow> tx_settled_date tx' \<noteq> None)"
  proof (cases "tr_edits tr")
    case None
    with assms(1) show ?thesis by (simp add: apply_edits_def)
  next
    case (Some ed)
    from assms(1) Some obtain tx2 tx3 where
      tx2: "tx2 = (case ed_description ed of None \<Rightarrow> tx | Some d \<Rightarrow> tx\<lparr>tx_description := d\<rparr>) \<or>
        (\<exists>c. tx2 = (case ed_description ed of None \<Rightarrow> tx | Some d \<Rightarrow> tx\<lparr>tx_description := d\<rparr>)\<lparr>tx_category_id := c\<rparr>)"
      and tx3: "edit_amount s org tx2 (ed_amount ed) src = Inr (s', tx3)"
      and tx4: "edit_date rd today s' org tx3 (ed_date ed) = Inr tx'"
      by (auto simp: apply_edits_def rbind_eq_Inr Let_def split: if_splits option.splits)
    note e = edit_amount_Inr[OF tx3 assms(2)] and dt = edit_date_Inr(1,2)[OF tx4]
    have k2: "tx_id tx2 = tx_id tx" "tx_org_id tx2 = tx_org_id tx" "tx_account_id tx2 = tx_account_id tx"
      "tx_type tx2 = tx_type tx" "tx_status tx2 = tx_status tx" "tx_linked tx2 = tx_linked tx"
      "tx_recon tx2 = tx_recon tx" "tx_import_batch_id tx2 = tx_import_batch_id tx"
      "tx_amount tx2 = tx_amount tx" "tx_settled_date tx2 = tx_settled_date tx"
      using tx2 by (auto split: option.splits)
    have k3: "tx_id tx3 = tx_id tx2" "tx_org_id tx3 = tx_org_id tx2" "tx_account_id tx3 = tx_account_id tx2"
      "tx_type tx3 = tx_type tx2" "tx_status tx3 = tx_status tx2" "tx_linked tx3 = tx_linked tx2"
      "tx_recon tx3 = tx_recon tx2" "tx_import_batch_id tx3 = tx_import_batch_id tx2"
      "tx_settled_date tx3 = tx_settled_date tx2"
      by (subst e(2), simp)+
    have k4: "tx_id tx' = tx_id tx3" "tx_org_id tx' = tx_org_id tx3" "tx_account_id tx' = tx_account_id tx3"
      "tx_type tx' = tx_type tx3" "tx_status tx' = tx_status tx3" "tx_linked tx' = tx_linked tx3"
      "tx_recon tx' = tx_recon tx3" "tx_import_batch_id tx' = tx_import_batch_id tx3" "tx_amount tx' = tx_amount tx3"
      by (subst dt(1), simp)+
    show ?thesis using e(1) dt(2) k2 k3 k4 by (simp cong: if_cong)
  qed
  then show "s' = (if tx_status tx = SETTLED \<and> src
      then add_balance (tx_account_id tx) (signed (tx_type tx) (tx_amount tx') - signed (tx_type tx) (tx_amount tx)) s
      else s) \<or> s' = s \<and> tx_amount tx' = tx_amount tx"
    "tx_id tx' = tx_id tx" "tx_org_id tx' = tx_org_id tx" "tx_account_id tx' = tx_account_id tx"
    "tx_type tx' = tx_type tx" "tx_status tx' = tx_status tx" "tx_linked tx' = tx_linked tx"
    "tx_recon tx' = tx_recon tx" "tx_import_batch_id tx' = tx_import_batch_id tx"
    "tx_settled_date tx \<noteq> None \<Longrightarrow> tx_settled_date tx' \<noteq> None"
    by blast+
qed

text \<open>The account moves by the change of the row's contribution.\<close>

lemma transition_balance_books:
  assumes "apply_balance_for_transition s org u src tp = Inr s'" "books f s"
  defines "tgt \<equiv> contributes_to_cached_balance u tp"
  shows "books (\<lambda>i. f i + (if i = tx_account_id u \<and> tx_status u = SETTLED
      then (if tgt then signed (tx_type u) (tx_amount u) else 0) - (if src then signed (tx_type u) (tx_amount u) else 0)
      else 0)) s'"
    and "transactions s' = transactions s" "batches s' = batches s" "row_ok s' = row_ok s"
proof -
  note wf = booksD(1)[OF assms(2)]
  consider (same) "s' = s" "tx_status u \<noteq> SETTLED \<or> src = tgt"
    | (out) "tx_status u = SETTLED" "src" "\<not> tgt"
        "move_on_account revert_balance org (tx_account_id u) (tx_amount u) (tx_type u) s = Inr s'"
    | (enter) "tx_status u = SETTLED" "\<not> src" "tgt"
        "move_on_account apply_balance org (tx_account_id u) (tx_amount u) (tx_type u) s = Inr s'"
    using assms(1) by (auto simp: apply_balance_for_transition_def tgt_def Let_def split: if_splits)
  then have "books (\<lambda>i. f i + (if i = tx_account_id u \<and> tx_status u = SETTLED
      then (if tgt then signed (tx_type u) (tx_amount u) else 0) - (if src then signed (tx_type u) (tx_amount u) else 0)
      else 0)) s' \<and> transactions s' = transactions s \<and> batches s' = batches s \<and> row_ok s' = row_ok s"
  proof cases
    case same
    then show ?thesis by (auto intro!: books_eq[OF assms(2)])
  next
    case out
    have s': "s' = add_balance (tx_account_id u) (- signed (tx_type u) (tx_amount u)) s"
      by (rule move_revert(1)[OF out(4) wf])
    show ?thesis
      unfolding s' by (rule conjI, rule books_eq[OF books_add_balance[OF assms(2)]]) (use out in auto)
  next
    case enter
    have s': "s' = add_balance (tx_account_id u) (signed (tx_type u) (tx_amount u)) s"
      by (rule move_apply(1)[OF enter(4) wf])
    show ?thesis
      unfolding s' by (rule conjI, rule books_eq[OF books_add_balance[OF assms(2)]]) (use enter in auto)
  qed
  then show "books (\<lambda>i. f i + (if i = tx_account_id u \<and> tx_status u = SETTLED
      then (if tgt then signed (tx_type u) (tx_amount u) else 0) - (if src then signed (tx_type u) (tx_amount u) else 0)
      else 0)) s'" "transactions s' = transactions s" "batches s' = batches s" "row_ok s' = row_ok s"
    by blast+
qed

definition same_row :: "transaction \<Rightarrow> transaction \<Rightarrow> bool" where
  "same_row u t \<longleftrightarrow>
     tx_id u = tx_id t \<and> tx_org_id u = tx_org_id t \<and> tx_account_id u = tx_account_id t \<and>
     tx_type u = tx_type t \<and> tx_status u = tx_status t \<and> tx_import_batch_id u = tx_import_batch_id t \<and>
     (tx_settled_date t \<noteq> None \<longrightarrow> tx_settled_date u \<noteq> None)"

lemma same_row_ok: "same_row u t \<Longrightarrow> row_ok s t \<Longrightarrow> row_ok s u"
  by (auto simp: same_row_def row_ok_def)

lemma finish_transition:
  assumes b: "books (\<lambda>i. if i = tx_account_id t then delta else 0) s1"
    and t: "t \<in> set (transactions s1)" and u: "same_row u t"
    and lnk: "\<And>i. tx_linked u = Some i \<Longrightarrow>
      i \<noteq> tx_id t \<and> (\<exists>p \<in> set (transactions s1). tx_id p = i \<and> tx_org_id p = tx_org_id t)"
    and others: "\<And>r. r \<in> set (transactions s1) \<Longrightarrow> tx_id r \<noteq> tx_id t \<Longrightarrow> tx_linked r = Some (tx_id t) \<Longrightarrow>
      tx_linked u = Some (tx_id r) \<longleftrightarrow> tx_linked t = Some (tx_id r)"
    and step: "apply_balance_for_transition s1 org u src tp = Inr s2"
    and src: "src = balance_contribution_filter (transactions s1) t"
    and tgt: "contributes_to_cached_balance u tp = balance_contribution_filter (transactions (put_transaction u s1)) u"
    and delta: "delta = (if tx_status t = SETTLED \<and> src
      then signed (tx_type t) (tx_amount u) - signed (tx_type t) (tx_amount t) else 0)"
    and stay: "tx_amount u = tx_amount t \<or> src = contributes_to_cached_balance u tp"
  shows "books (\<lambda>_. 0) (put_transaction u s2)" "transactions s2 = transactions s1" "batches s2 = batches s1"
proof -
  note st = transition_balance_books[OF step b]
  show rows: "transactions s2 = transactions s1" and bat: "batches s2 = batches s1" by (rule st)+
  have ids: "tx_id u = tx_id t" "tx_org_id u = tx_org_id t" using u by (simp_all add: same_row_def)
  have N: "transactions (put_transaction u s2) = transactions (put_transaction u s1)" by (simp add: rows)
  have t2: "t \<in> set (transactions s2)" using t rows by simp
  have ok: "row_ok s2 u" unfolding st(4) by (rule same_row_ok[OF u booksD(6)[OF b t]])
  note res = books_set_row[OF st(1) t2 ids ok, unfolded N rows, OF lnk]
  have oth: "balance_contribution_filter (transactions (put_transaction u s1)) r = balance_contribution_filter (transactions s1) r"
    if "r \<in> set (transactions s1)" "tx_id r \<noteq> tx_id t" for r
    by (rule filter_other_rows[OF booksD(4)[OF b] t ids(1) that]) (rule others[OF that])
  show "books (\<lambda>_. 0) (put_transaction u s2)"
    by (rule books_eq[OF res[OF _ oth]])
       (use u stay delta src tgt in \<open>auto simp: fun_eq_iff settled_contribution_def signed_amount_signed same_row_def\<close>)
qed

section \<open>The counters of the batch in memory\<close>

lemma move_counters_sel [simp]:
  "ib_id (move_counters a c b) = ib_id b" "ib_org_id (move_counters a c b) = ib_org_id b"
  "ib_row_count (move_counters a c b) = ib_row_count b" "ib_status (move_counters a c b) = ib_status b"
  by (simp_all add: move_counters_def Let_def)

lemma count_rows_pos:
  "t \<in> set rows \<Longrightarrow> tx_import_batch_id t = Some bid \<Longrightarrow> P t \<Longrightarrow> 1 \<le> count_rows P bid rows"
  by (induction rows) (auto intro: order_trans)

lemma counters_step:
  assumes ok: "counters_ok T b" and d: "distinct (map tx_id T)" and t: "t \<in> set T" "tx_import_batch_id t = Some (ib_id b)"
    and u: "tx_id u = tx_id t" "tx_import_batch_id u = Some (ib_id b)"
  shows "counters_ok (update_row tx_id (tx_id t) (\<lambda>_. u) T) (move_counters (tx_recon t) (tx_recon u) b)"
proof -
  have pos: "P t \<Longrightarrow> 1 \<le> count_rows P (ib_id b) T" for P by (rule count_rows_pos[OF t])
  show ?thesis
    using ok pos[of is_accepted] pos[of is_pending]
    by (auto simp: counters_ok_def count_rows_update[OF d t(1) u(1)] t(2) u(2) move_counters_def Let_def)
qed

lemma counters_other:
  assumes "counters_ok T b" "distinct (map tx_id T)" "t \<in> set T" "tx_import_batch_id t = Some bid" "bid \<noteq> ib_id b"
    and "tx_id u = tx_id t" "tx_import_batch_id u = Some bid"
  shows "counters_ok (update_row tx_id (tx_id t) (\<lambda>_. u) T) b"
  using assms by (simp add: counters_ok_def count_rows_update)

text \<open>A request in flight: the store and the batch it has locked.\<close>

definition in_flight :: "int \<Rightarrow> store \<times> import_batch \<Rightarrow> bool" where
  "in_flight org sb \<longleftrightarrow> (case sb of (s, b) \<Rightarrow>
     ledger_inv s \<and> batches_inv (put_batch b s) \<and> ib_org_id b = org \<and>
     (\<exists>b0 \<in> set (batches s). ib_id b0 = ib_id b \<and> ib_org_id b0 = org))"

lemma put_batch_sel [simp]:
  "batches (put_batch b s) = update_row ib_id (ib_id b) (\<lambda>_. b) (batches s)"
  "transactions (put_batch b s) = transactions s" "accounts (put_batch b s) = accounts s"
  "next_id (put_batch b s) = next_id s" "categories (put_batch b s) = categories s"
  "templates (put_batch b s) = templates s"
  by (simp_all add: put_batch_def)

lemma put_batch_wf [simp]: "store_wf (put_batch b s) = store_wf s"
proof -
  have "map ib_id (update_row ib_id (ib_id b) (\<lambda>_. b) B) = map ib_id B" for B
    by (induction B) (auto simp: update_row_def)
  moreover from this have "list_all (\<lambda>b. ib_id b < n) (update_row ib_id (ib_id b) (\<lambda>_. b) B) = list_all (\<lambda>b. ib_id b < n) B" for n B
    by (induction B) (auto simp: update_row_def)
  ultimately show ?thesis by (simp add: store_wf_def)
qed

lemma put_batch_ledger [simp]: "ledger_inv (put_batch b s) = ledger_inv s"
  by (simp add: ledger_inv_iff off_by_def row_ok_cong[of "put_batch b s" s])

lemma in_flight_counters:
  assumes "in_flight org (s, b)"
  shows "counters_ok (transactions s) b"
    and "b' \<in> set (batches s) \<Longrightarrow> ib_id b' \<noteq> ib_id b \<Longrightarrow> counters_ok (transactions s) b'"
  using assms by (force simp: in_flight_def batches_inv_def list_all_iff set_update_row image_iff)+

lemma in_flight_step:
  assumes fl: "in_flight org (s, b)" and t: "t \<in> set (transactions s)" "tx_import_batch_id t = Some (ib_id b)"
    and u: "tx_id u = tx_id t" "tx_import_batch_id u = tx_import_batch_id t" "tx_org_id u = tx_org_id t"
    and s': "transactions s' = update_row tx_id (tx_id t) (\<lambda>_. u) (transactions s)" "batches s' = batches s"
    and led: "ledger_inv s'"
  shows "in_flight org (s', move_counters (tx_recon t) (tx_recon u) b)"
proof -
  let ?b = "move_counters (tx_recon t) (tx_recon u) b"
  have d: "distinct (map tx_id (transactions s))"
    using fl by (auto simp: in_flight_def ledger_inv_books dest: booksD)
  have old: "batches_inv (put_batch b s)" using fl by (simp add: in_flight_def)
  have "batches_inv (put_batch ?b s')"
  proof (rule batches_invI)
    fix c assume "c \<in> set (batches (put_batch ?b s'))"
    then consider "c = ?b" | "c \<in> set (batches s)" "ib_id c \<noteq> ib_id b"
      using s'(2) by (auto simp: set_update_row)
    then show "counters_ok (transactions (put_batch ?b s')) c"
    proof cases
      case 1
      then show ?thesis
        using counters_step[OF in_flight_counters(1)[OF fl] d t u(1)] u(2) t(2) s' by simp
    next
      case 2
      then show ?thesis
        using counters_other[OF in_flight_counters(2)[OF fl 2] d t _ u(1)] u(2) t(2) s' by simp
    qed
  next
    fix r bid assume r: "r \<in> set (transactions (put_batch ?b s'))" "tx_import_batch_id r = Some bid"
    then obtain r0 where r0: "r0 \<in> set (transactions s)" "tx_import_batch_id r0 = Some bid" "tx_org_id r0 = tx_org_id r"
      using t u s' by (auto simp: set_update_row split: if_splits)
    with batches_invD(2)[OF old, of r0 bid] obtain c where
      c: "c \<in> set (batches (put_batch b s))" "ib_id c = bid" "ib_org_id c = tx_org_id r" by auto
    then obtain x where x: "x \<in> set (batches s)" "c = (if ib_id x = ib_id b then b else x)"
      by (auto simp: update_row_def)
    show "\<exists>c \<in> set (batches (put_batch ?b s')). ib_id c = bid \<and> ib_org_id c = tx_org_id r"
    proof (rule bexI)
      show "ib_id (if ib_id x = ib_id b then ?b else x) = bid \<and>
        ib_org_id (if ib_id x = ib_id b then ?b else x) = tx_org_id r"
        using c(2,3) x(2) by (cases "ib_id x = ib_id b") simp_all
      show "(if ib_id x = ib_id b then ?b else x) \<in> set (batches (put_batch ?b s'))"
        using x(1) s'(2) by (auto simp: update_row_def)
    qed
  qed
  then show ?thesis using fl led s'(2) by (simp add: in_flight_def)
qed

section \<open>The handler\<close>

lemma org_row_partner:
  assumes "links_wf (transactions s)" "t \<in> set (transactions s)" "tx_org_id t = org"
  shows "(case tx_linked t of None \<Rightarrow> None | Some i \<Rightarrow> org_row s org i) = link_target (transactions s) t"
  using assms(3) by (auto simp: link_target_def org_row_def split: option.splits)

text \<open>The partner does not see the row's state or amount, only its id and its link.\<close>

lemma contributes_same_link:
  assumes l: "links_wf T" and d: "distinct (map tx_id T)" and t: "t \<in> set T"
    and u: "tx_id u = tx_id t" "tx_linked u = tx_linked t" "tx_org_id u = tx_org_id t"
  shows "contributes_to_cached_balance u (link_target T t) =
    balance_contribution_filter (update_row tx_id (tx_id t) (\<lambda>_. u) T) u"
proof -
  let ?f = "\<lambda>r. if tx_id r = tx_id t then u else r"
  have same: "tx_id (?f r) = tx_id r \<and> tx_linked (?f r) = tx_linked r" if "r \<in> set T" for r
    using key_unique[OF d that t] u by auto
  have "balance_contribution_filter (update_row tx_id (tx_id t) (\<lambda>_. u) T) u = balance_contribution_filter T u"
    unfolding update_row_def by (rule contribution_filter_update) (use same in blast)
  moreover have "balance_contribution_filter T u \<longleftrightarrow> \<not> reverted u \<and>
      contributes_to_cached_balance (t\<lparr>tx_recon := accepted\<rparr>) (link_target T t)"
  proof -
    have "contributes_to_cached_balance (t\<lparr>tx_recon := accepted\<rparr>) (link_target T t) =
        (tx_linked t = None \<or> (\<exists>p \<in> set T. tx_linked t = Some (tx_id p) \<and> tx_linked p = Some (tx_id t)))"
    proof (cases "tx_linked t")
      case (Some i)
      with link_target_wf[OF l t d] obtain p where p: "link_target T t = Some p" "tx_id p = i" by blast
      have "(\<exists>q \<in> set T. i = tx_id q \<and> tx_linked q = Some (tx_id t)) \<longleftrightarrow> tx_linked p = Some (tx_id t)"
        using link_target_Some[OF p(1)] p(2) key_unique[OF d] by metis
      then show ?thesis using Some p by (simp add: contributes_to_cached_balance_def)
    qed (simp add: contributes_to_cached_balance_def)
    then show ?thesis using u by (simp add: balance_contribution_filter_def list_ex_iff)
  qed
  moreover have "contributes_to_cached_balance u (link_target T t) \<longleftrightarrow> \<not> reverted u \<and>
      contributes_to_cached_balance (t\<lparr>tx_recon := accepted\<rparr>) (link_target T t)"
    using u by (simp add: contributes_to_cached_balance_def split: option.splits)
  ultimately show ?thesis by blast
qed

text \<open>A transition that leaves the link alone.\<close>

lemma transition_keeps_link:
  assumes b: "books (\<lambda>i. if i = tx_account_id t then delta else 0) s1"
    and t: "t \<in> set (transactions s1)" "tx_org_id t = org" and u: "same_row u t" "tx_linked u = tx_linked t"
    and step: "apply_balance_for_transition s1 org u src (link_target (transactions s1) t) = Inr s2"
    and src: "src = balance_contribution_filter (transactions s1) t"
    and delta: "delta = (if tx_status t = SETTLED \<and> src
      then signed (tx_type t) (tx_amount u) - signed (tx_type t) (tx_amount t) else 0)"
    and stay: "tx_amount u = tx_amount t \<or> src = contributes_to_cached_balance u (link_target (transactions s1) t)"
  shows "books (\<lambda>_. 0) (put_transaction u s2) \<and> transactions s2 = transactions s1 \<and> batches s2 = batches s1"
proof -
  have id: "tx_id u = tx_id t" "tx_org_id u = tx_org_id t" using u by (simp_all add: same_row_def)
  note fin = finish_transition[OF b t(1) u(1) _ _ step src _ delta stay]
  have tgt: "contributes_to_cached_balance u (link_target (transactions s1) t) =
      balance_contribution_filter (transactions (put_transaction u s1)) u"
    using contributes_same_link[OF booksD(2)[OF b] booksD(4)[OF b] t(1) id(1) u(2) id(2)] by (simp add: id)
  have "i \<noteq> tx_id t \<and> (\<exists>p \<in> set (transactions s1). tx_id p = i \<and> tx_org_id p = tx_org_id t)"
    if "tx_linked u = Some i" for i
    using links_wfD[OF booksD(2)[OF b] t(1)] that u(2) by simp
  from fin[OF this _ tgt] show ?thesis using u(2) by simp
qed

lemma apply_match_Inr:
  assumes "apply_match s org t tr = Inr (u, p)"
  shows "p \<in> set (transactions s)" "tx_org_id p = org" "tx_id p \<noteq> tx_id t"
    "u = t\<lparr>tx_linked := Some (tx_id p)\<rparr>" "tx_linked p \<noteq> Some (tx_id t)"
    "\<And>i. tx_linked t = Some i \<Longrightarrow> \<not> is_reciprocal_pair t (org_row s org i)"
  using assms by (auto simp: apply_match_def split: option.splits if_splits dest!: org_row_Some)

lemma match_keeps:
  assumes m: "apply_match s org t tr = Inr (u1, p)" and b: "books (\<lambda>_. 0) s"
    and t: "t \<in> set (transactions s)" "tx_org_id t = org"
    and step: "apply_balance_for_transition s org (u1\<lparr>tx_recon := matched\<rparr>) src (Some p) = Inr s2"
    and src: "src = balance_contribution_filter (transactions s) t"
  shows "books (\<lambda>_. 0) (put_transaction (u1\<lparr>tx_recon := matched\<rparr>) s2) \<and>
    transactions s2 = transactions s \<and> batches s2 = batches s"
proof -
  let ?u = "u1\<lparr>tx_recon := matched\<rparr>" and ?T = "transactions s"
  note M = apply_match_Inr[OF m] and d = booksD(4)[OF b] and l = booksD(2)[OF b]
  have u: "tx_id ?u = tx_id t" "tx_linked ?u = Some (tx_id p)" "same_row ?u t" "tx_amount ?u = tx_amount t"
    by (simp_all add: M(4) same_row_def)
  have lnk: "i \<noteq> tx_id t \<and> (\<exists>q \<in> set ?T. tx_id q = i \<and> tx_org_id q = tx_org_id t)" if "tx_linked ?u = Some i" for i
    using that u(2) M(1-3) t(2) by auto
  have others: "tx_linked ?u = Some (tx_id r) \<longleftrightarrow> tx_linked t = Some (tx_id r)"
    if r: "r \<in> set ?T" "tx_id r \<noteq> tx_id t" "tx_linked r = Some (tx_id t)" for r
  proof -
    have "tx_linked ?u \<noteq> Some (tx_id r)"
    proof
      assume "tx_linked ?u = Some (tx_id r)"
      then have "p = r" using u(2) key_unique[OF d M(1) r(1)] by simp
      with r(3) M(5) show False by simp
    qed
    moreover have "tx_linked t \<noteq> Some (tx_id r)"
    proof
      assume a: "tx_linked t = Some (tx_id r)"
      from links_wfD(2)[OF l t(1) a] key_unique[OF d _ r(1)] have "tx_org_id r = org" using t(2) by auto
      then have "org_row s org (tx_id r) = Some r"
        using r(1) org_row_eq[OF d] by simp
      with M(6)[OF a] a r \<open>tx_org_id r = org\<close> t(2) show False by (simp add: is_reciprocal_pair_def)
    qed
    ultimately show ?thesis by blast
  qed
  have tgt: "contributes_to_cached_balance ?u (Some p) = balance_contribution_filter (transactions (put_transaction ?u s)) ?u"
  proof -
    have "\<not> (\<exists>q \<in> set (transactions (put_transaction ?u s)). tx_id p = tx_id q \<and> tx_linked q = Some (tx_id t))"
      using M(3,5) u(1) key_unique[OF d _ M(1)] by (auto simp: set_update_row split: if_splits)
    then have "\<not> balance_contribution_filter (transactions (put_transaction ?u s)) ?u"
      using u(1,2) by (auto simp: balance_contribution_filter_def list_ex_iff simp del: put_transaction_sel)
    moreover have "\<not> contributes_to_cached_balance ?u (Some p)"
      using u(1,2) M(5) by (simp add: contributes_to_cached_balance_def)
    ultimately show ?thesis by blast
  qed
  have b0: "books (\<lambda>i. if i = tx_account_id t then 0 else 0) s" using b by simp
  have "0 = (if tx_status t = SETTLED \<and> src
      then signed (tx_type t) (tx_amount ?u) - signed (tx_type t) (tx_amount t) else 0)"
    unfolding u(4) by simp
  note fin = finish_transition[OF b0 t(1) u(3) lnk others step src tgt this disjI1[OF u(4)]]
  show ?thesis using fin by blast
qed

lemma edit_keeps:
  assumes e: "apply_edits rd today s org t tr (link_target (transactions s) t) src = Inr (s1, u1)"
    and b: "books (\<lambda>_. 0) s" and t: "t \<in> set (transactions s)" "tx_org_id t = org" "\<not> reverted t"
    and step: "apply_balance_for_transition s1 org (u1\<lparr>tx_recon := edited\<rparr>) src (link_target (transactions s) t) = Inr s2"
    and src: "src = balance_contribution_filter (transactions s) t"
  shows "books (\<lambda>_. 0) (put_transaction (u1\<lparr>tx_recon := edited\<rparr>) s2) \<and>
    transactions s2 = transactions s \<and> batches s2 = batches s"
proof -
  let ?u = "u1\<lparr>tx_recon := edited\<rparr>"
  let ?delta = "if tx_status t = SETTLED \<and> src
    then signed (tx_type t) (tx_amount u1) - signed (tx_type t) (tx_amount t) else 0"
  note E = apply_edits_Inr[OF e booksD(1)[OF b]]
  have b1: "books (\<lambda>i. if i = tx_account_id t then ?delta else 0) s1 \<and> transactions s1 = transactions s \<and> batches s1 = batches s"
    using E(1)
  proof
    assume "s1 = (if tx_status t = SETTLED \<and> src
      then add_balance (tx_account_id t) (signed (tx_type t) (tx_amount u1) - signed (tx_type t) (tx_amount t)) s else s)"
    then show ?thesis
      using books_add_balance[OF b, of "tx_account_id t" "signed (tx_type t) (tx_amount u1) - signed (tx_type t) (tx_amount t)"] b
      by (cases "tx_status t = SETTLED \<and> src") (auto elim!: books_eq)
  next
    assume "s1 = s \<and> tx_amount u1 = tx_amount t"
    then show ?thesis by (auto intro!: books_eq[OF b])
  qed
  have u: "same_row ?u t" "tx_linked ?u = tx_linked t" using E by (simp_all add: same_row_def)
  have "contributes_to_cached_balance ?u (link_target (transactions s) t) =
      contributes_to_cached_balance t (link_target (transactions s) t)"
    using t(3) E by (simp add: contributes_to_cached_balance_def split: option.splits)
  also have "\<dots> = src" using contributes_filter_agree[OF booksD(2)[OF b] booksD(4)[OF b] t(1)] src by simp
  finally have stay: "src = contributes_to_cached_balance ?u (link_target (transactions s1) t)" using b1 by simp
  from transition_keeps_link[of t ?delta s1 org ?u src s2] b1 t u step src stay show ?thesis
    by (simp cong: if_cong)
qed

lemma reconcile_one_Inr:
  assumes "reconcile_one rd today org tr (s, b) = Inr (s', b')" "in_flight org (s, b)"
  shows "in_flight org (s', b')"
    and "\<exists>t. org_row s org (tr_transaction_id tr) = Some t \<and>
      (tr_to_state tr = tx_recon t \<and> s' = s \<or>
       tr_to_state tr \<in> set (ALLOWED_TRANSITIONS (tx_recon t)) \<and>
       (\<exists>u. tx_recon u = tr_to_state tr \<and> same_row u t \<and>
         transactions s' = update_row tx_id (tx_id t) (\<lambda>_. u) (transactions s)))"
proof -
  have led: "ledger_inv s" and orgb: "ib_org_id b = org" using assms(2) by (simp_all add: in_flight_def)
  then have b0: "books (\<lambda>_. 0) s" by (simp add: ledger_inv_books)
  note l = booksD(2)[OF b0] and d = booksD(4)[OF b0]
  from assms(1) obtain t where t: "org_row s org (tr_transaction_id tr) = Some t"
    by (auto simp: reconcile_one_def rbind_eq_Inr split: option.splits)
  note tm = org_row_Some[OF t]
  from tm have tmem: "t \<in> set (transactions s)" and torg: "tx_org_id t = org" by simp_all
  let ?src = "contributes_to_cached_balance t (link_target (transactions s) t)"
  have src: "?src = balance_contribution_filter (transactions s) t"
    using contributes_filter_agree[OF l d] tm by blast
  note part = org_row_partner[OF l, of t org]
  have goal: "in_flight org (s', b') \<and> (\<exists>t. org_row s org (tr_transaction_id tr) = Some t \<and>
      (tr_to_state tr = tx_recon t \<and> s' = s \<or>
       tr_to_state tr \<in> set (ALLOWED_TRANSITIONS (tx_recon t)) \<and>
       (\<exists>u. tx_recon u = tr_to_state tr \<and> same_row u t \<and>
         transactions s' = update_row tx_id (tx_id t) (\<lambda>_. u) (transactions s))))"
  proof (cases "tx_recon t = tr_to_state tr")
    case True
    with assms t show ?thesis
      by (auto simp: reconcile_one_def rbind_eq_Inr Let_def split: if_splits)
  next
    case False
    from assms(1) t False tm obtain s1 u1 tp s2 where
      bt: "tx_import_batch_id t = Some (ib_id b)" and
      al: "tr_to_state tr \<in> set (ALLOWED_TRANSITIONS (tx_recon t))" and
      pay: "(if tr_to_state tr = edited then
                rbind (apply_edits rd today s org t tr (link_target (transactions s) t) ?src)
                  (\<lambda>(s1, tx1). Inr (s1, tx1, link_target (transactions s) t))
              else if tr_to_state tr = matched then
                rbind (apply_match s org t tr) (\<lambda>(tx1, target). Inr (s, tx1, Some target))
              else Inr (s, t, link_target (transactions s) t)) = Inr (s1, u1, tp)" and
      step: "apply_balance_for_transition s1 org (u1\<lparr>tx_recon := tr_to_state tr\<rparr>) ?src tp = Inr s2" and
      res: "s' = put_transaction (u1\<lparr>tx_recon := tr_to_state tr\<rparr>) s2"
        "b' = move_counters (tx_recon t) (tr_to_state tr) b"
      by (auto simp: reconcile_one_def rbind_eq_Inr Let_def validate_transition_def part split: if_splits)
    let ?u = "u1\<lparr>tx_recon := tr_to_state tr\<rparr>"
    have kept: "books (\<lambda>_. 0) s' \<and> transactions s2 = transactions s \<and> batches s2 = batches s \<and> same_row ?u t"
    proof -
      consider (ed) "tr_to_state tr = edited" | (ma) "tr_to_state tr = matched"
        | (plain) "tr_to_state tr \<noteq> edited" "tr_to_state tr \<noteq> matched" by blast
      then show ?thesis
      proof cases
        case ed
        with pay have e: "apply_edits rd today s org t tr (link_target (transactions s) t) ?src = Inr (s1, u1)"
          and tp: "tp = link_target (transactions s) t" by (auto simp: rbind_eq_Inr)
        have "\<not> reverted t" using al ed by (cases "tx_recon t") auto
        moreover have "apply_balance_for_transition s1 org (u1\<lparr>tx_recon := edited\<rparr>) ?src
            (link_target (transactions s) t) = Inr s2" using step unfolding ed tp .
        ultimately have "books (\<lambda>_. 0) (put_transaction (u1\<lparr>tx_recon := edited\<rparr>) s2) \<and>
            transactions s2 = transactions s \<and> batches s2 = batches s"
          using edit_keeps[OF e b0 tmem torg _ _ src] by blast
        moreover have "same_row ?u t"
          using apply_edits_Inr(2-10)[OF e booksD(1)[OF b0]] by (simp add: same_row_def)
        ultimately show ?thesis unfolding res(1) ed by blast
      next
        case ma
        with pay obtain p where m: "apply_match s org t tr = Inr (u1, p)" and tp: "tp = Some p" "s1 = s"
          by (auto simp: rbind_eq_Inr)
        have "apply_balance_for_transition s org (u1\<lparr>tx_recon := matched\<rparr>) ?src (Some p) = Inr s2"
          using step unfolding ma tp .
        from match_keeps[OF m b0 tmem torg this src] have
          "books (\<lambda>_. 0) (put_transaction (u1\<lparr>tx_recon := matched\<rparr>) s2) \<and>
            transactions s2 = transactions s \<and> batches s2 = batches s" .
        moreover have "same_row ?u t" by (simp add: apply_match_Inr(4)[OF m] same_row_def)
        ultimately show ?thesis unfolding res(1) ma by blast
      next
        case plain
        with pay have p: "s1 = s" "u1 = t" "tp = link_target (transactions s) t" by auto
        have z: "books (\<lambda>i. if i = tx_account_id t then 0 else 0) s" using b0 by simp
        have u: "same_row ?u t" "tx_linked ?u = tx_linked t" "tx_amount ?u = tx_amount t"
          by (simp_all add: p same_row_def)
        have z2: "0 = (if tx_status t = SETTLED \<and> ?src
            then signed (tx_type t) (tx_amount ?u) - signed (tx_type t) (tx_amount t) else 0)"
          unfolding u(3) by simp
        have "apply_balance_for_transition s org ?u ?src (link_target (transactions s) t) = Inr s2"
          using step p by simp
        from transition_keeps_link[OF z tmem torg u(1,2) this src z2 disjI1[OF u(3)]] u(1)
        show ?thesis unfolding res(1) by blast
      qed
    qed
    then have rows: "transactions s' = update_row tx_id (tx_id t) (\<lambda>_. ?u) (transactions s)"
      "batches s' = batches s" by (simp_all add: res(1) same_row_def)
    have "in_flight org (s', move_counters (tx_recon t) (tx_recon ?u) b)"
      by (rule in_flight_step[OF assms(2) _ bt _ _ _ rows])
         (use tm kept in \<open>simp_all add: same_row_def ledger_inv_books\<close>)
    moreover have "\<exists>u. tx_recon u = tr_to_state tr \<and> same_row u t \<and>
         transactions s' = update_row tx_id (tx_id t) (\<lambda>_. u) (transactions s)"
      using rows(1) kept by (intro exI[of _ ?u]) simp
    ultimately show ?thesis using t al res(2) by auto
  qed
  from goal show "in_flight org (s', b')" by blast
  from goal show "\<exists>t. org_row s org (tr_transaction_id tr) = Some t \<and>
      (tr_to_state tr = tx_recon t \<and> s' = s \<or>
       tr_to_state tr \<in> set (ALLOWED_TRANSITIONS (tx_recon t)) \<and>
       (\<exists>u. tx_recon u = tr_to_state tr \<and> same_row u t \<and>
         transactions s' = update_row tx_id (tx_id t) (\<lambda>_. u) (transactions s)))" by blast
qed

lemma reconcile_all_keeps:
  "reconcile_all rd today org trs sb = Inr sb' \<Longrightarrow> in_flight org sb \<Longrightarrow> in_flight org sb'"
proof (induction trs arbitrary: sb)
  case (Cons tr trs)
  then obtain sb1 where "reconcile_one rd today org tr sb = Inr sb1" "reconcile_all rd today org trs sb1 = Inr sb'"
    by (auto simp: rbind_eq_Inr)
  with Cons reconcile_one_Inr(1) show ?case by (metis surj_pair)
qed simp

lemma reconcile_request_Inr:
  assumes "reconcile_request rd today s org bid trs = Inr (s', b')"
    and "ledger_inv s" "batches_inv s"
  shows "ledger_inv s'" "batches_inv s'" "b' \<in> set (batches s')" "ib_pending_count b' = 0 \<longrightarrow> ib_status b' = BatchClosed"
proof -
  from assms(1) obtain b s1 b1 where b: "find_batch s bid org = Some b"
    and all: "reconcile_all rd today org trs (s, b) = Inr (s1, b1)"
    and res: "b' = fst (close_batch_if_complete s1 b1 [])" "s' = put_batch b' s1"
    by (auto simp: reconcile_request_def get_batch_for_update_def rbind_eq_Inr Let_def split: option.splits)
  have bm: "b \<in> set (batches s)" "ib_id b = bid" "ib_org_id b = org"
    using b by (auto simp: find_batch_def find_Some_iff)
  have db: "distinct (map ib_id (batches s))"
    using assms(2) by (simp add: ledger_inv_iff store_wf_def)
  have "put_batch b s = s"
    using update_row_same[OF db bm(1)] by (simp add: put_batch_def)
  then have "in_flight org (s, b)" using assms(2,3) bm by (auto simp: in_flight_def)
  from reconcile_all_keeps[OF all this] have fl: "in_flight org (s1, b1)" .
  note c = close_batch_ok[OF in_flight_counters(1)[OF fl], folded res(1)]
  show "ledger_inv s'" using fl by (simp add: res(2) in_flight_def)
  from fl obtain b0 where b0: "b0 \<in> set (batches s1)" "ib_id b0 = ib_id b1" by (auto simp: in_flight_def)
  show "b' \<in> set (batches s')" using b0 c(3) by (auto simp: res(2) set_update_row image_iff)
  show "ib_pending_count b' = 0 \<longrightarrow> ib_status b' = BatchClosed"
    using c(2,5) batch_status.exhaust[of "ib_status b1"]
    by (auto simp: res(1) close_batch_if_complete_def Let_def split: if_splits)
  have old: "batches_inv (put_batch b1 s1)" using fl by (simp add: in_flight_def)
  show "batches_inv s'"
  proof (rule batches_invI)
    fix x assume "x \<in> set (batches s')"
    then consider "x = b'" | "x \<in> set (batches s1)" "ib_id x \<noteq> ib_id b1"
      using c(3) by (auto simp: res(2) set_update_row)
    then show "counters_ok (transactions s') x"
      using c(1) in_flight_counters(2)[OF fl] by cases (simp_all add: res(2))
  next
    fix t i assume "t \<in> set (transactions s')" "tx_import_batch_id t = Some i"
    with batches_invD(2)[OF old, of t i] obtain x where
      "x \<in> set (batches s1)" "ib_id (if ib_id x = ib_id b1 then b1 else x) = i"
      "ib_org_id (if ib_id x = ib_id b1 then b1 else x) = tx_org_id t"
      by (auto simp: res(2) update_row_def)
    then show "\<exists>y \<in> set (batches s'). ib_id y = i \<and> ib_org_id y = tx_org_id t"
      using c(3,4) by (intro bexI[of _ "if ib_id x = ib_id b1 then b' else x"]) (auto simp: res(2) update_row_def)
  qed
qed

end
