(* ===== verification/BatchKeep.thy ===== *)
theory BatchKeep
  imports DeletePaths ReconcileKeep
begin

text \<open>
  The counters of the import batches only read three columns of the rows that belong to a
  batch; the create, pair and adjust paths leave those alone.
\<close>

definition batch_cols :: "transaction list \<Rightarrow> (int option \<times> reconciliation_state \<times> int) list" where
  "batch_cols rows = map (\<lambda>t. (tx_import_batch_id t, tx_recon t, tx_org_id t))
     (filter (\<lambda>t. tx_import_batch_id t \<noteq> None) rows)"

definition same_batches :: "store \<Rightarrow> store \<Rightarrow> bool" where
  "same_batches s' s \<longleftrightarrow> batch_cols (transactions s') = batch_cols (transactions s) \<and> batches s' = batches s"

lemma same_batches_refl [simp]: "same_batches s s"
  by (simp add: same_batches_def)

lemma same_batches_trans: "same_batches s2 s1 \<Longrightarrow> same_batches s1 s \<Longrightarrow> same_batches s2 s"
  by (simp add: same_batches_def)

lemma count_rows_cols:
  "count_rows (\<lambda>t. Q (tx_recon t)) b rows =
     int (length (filter (\<lambda>(x, r, o'). x = Some b \<and> Q r) (batch_cols rows)))"
  by (induction rows) (auto simp: batch_cols_def)

lemma batches_inv_cols:
  assumes "same_batches s' s" "batches_inv s"
  shows "batches_inv s'"
proof -
  have cols: "batch_cols (transactions s') = batch_cols (transactions s)" and B: "batches s' = batches s"
    using assms(1) by (simp_all add: same_batches_def)
  have cnt: "count_rows (\<lambda>t. Q (tx_recon t)) b (transactions s') = count_rows (\<lambda>t. Q (tx_recon t)) b (transactions s)"
    for Q b by (simp only: count_rows_cols cols)
  have "counters_ok (transactions s') b" if "b \<in> set (batches s')" for b
    using batches_invD(1)[OF assms(2), of b] that B cnt[of "\<lambda>_. True"] cnt[of "\<lambda>r. r = accepted"]
      cnt[of "\<lambda>r. r \<in> set PENDING_STATES"]
    by (simp add: counters_ok_def)
  moreover have "\<exists>b \<in> set (batches s'). ib_id b = bid \<and> ib_org_id b = tx_org_id t"
    if t: "t \<in> set (transactions s')" "tx_import_batch_id t = Some bid" for t bid
  proof -
    have "(tx_import_batch_id t, tx_recon t, tx_org_id t) \<in> set (batch_cols (transactions s'))"
      using t by (force simp: batch_cols_def)
    then obtain u where "u \<in> set (transactions s)" "tx_import_batch_id u = Some bid" "tx_org_id u = tx_org_id t"
      using t(2) unfolding cols by (auto simp: batch_cols_def)
    with batches_invD(2)[OF assms(2), of u bid] B show ?thesis by auto
  qed
  ultimately show ?thesis by (rule batches_invI)
qed

lemma batch_cols_add: "tx_import_batch_id t = None \<Longrightarrow> same_batches (add_transaction t s) s"
  by (simp add: same_batches_def batch_cols_def)

lemma batch_cols_put:
  assumes "distinct (map tx_id (transactions s))" "t \<in> set (transactions s)" "tx_id u = tx_id t"
    "tx_import_batch_id u = tx_import_batch_id t" "tx_recon u = tx_recon t" "tx_org_id u = tx_org_id t"
  shows "same_batches (put_transaction u s) s"
proof -
  let ?f = "\<lambda>r. if tx_id r = tx_id t then u else r"
  have "(tx_import_batch_id (?f r), tx_recon (?f r), tx_org_id (?f r)) = (tx_import_batch_id r, tx_recon r, tx_org_id r)"
    if "r \<in> set (transactions s)" for r
    using key_unique[OF assms(1) that assms(2)] assms by auto
  then have "batch_cols (map ?f xs) = batch_cols xs" if "set xs \<subseteq> set (transactions s)" for xs
    using that by (induction xs) (auto simp: batch_cols_def)
  then show ?thesis using assms(3) by (simp add: same_batches_def update_row_def)
qed

lemma add_balance_same_batches [simp]: "same_batches (add_balance a x s) s"
  by (simp add: same_batches_def)

section \<open>The operations\<close>

lemma create_no_commit_batches:
  assumes "create_transaction_no_commit s org body imp adj fitid = Inr (s', t)" "store_wf s"
  shows "same_batches s' s" "tx_import_batch_id t = None"
proof -
  from assms(1) obtain s1 where s1: "s' = add_transaction t s1" "tx_import_batch_id t = None"
    "s1 = s \<or> move_on_account apply_balance org (tc_account_id body) (tc_amount body) (tc_type body) s = Inr s1"
    by (auto simp: create_transaction_no_commit_def rbind_eq_Inr Let_def split: if_splits option.splits)
  have "same_batches s1 s" using s1(3)
  proof
    assume "move_on_account apply_balance org (tc_account_id body) (tc_amount body) (tc_type body) s = Inr s1"
    from move_apply(1)[OF this assms(2)] show ?thesis by simp
  qed simp
  with batch_cols_add[OF s1(2)] show "same_batches s' s" "tx_import_batch_id t = None"
    using s1 same_batches_trans by blast+
qed

lemma transfer_category_batches [simp]: "same_batches (fst (transfer_category org s)) s"
  by (auto simp: transfer_category_def same_batches_def split: option.splits)

lemma put_two_batches:
  assumes "distinct (map tx_id (transactions s))" "e \<in> set (transactions s)" "i \<in> set (transactions s)"
    and "tx_id e' = tx_id e" "tx_import_batch_id e' = tx_import_batch_id e" "tx_recon e' = tx_recon e" "tx_org_id e' = tx_org_id e"
    and "tx_id i' = tx_id i" "tx_import_batch_id i' = tx_import_batch_id i" "tx_recon i' = tx_recon i" "tx_org_id i' = tx_org_id i"
    and "tx_id e \<noteq> tx_id i"
  shows "same_batches (put_transaction i' (put_transaction e' s)) s"
proof -
  have d: "distinct (map tx_id (transactions (put_transaction e' s)))"
    using map_id_update_row[of e' "transactions s"] assms(1) by simp
  have "i \<in> set (transactions (put_transaction e' s))"
    using assms(3,4,12) by (auto simp: set_update_row image_iff intro!: bexI[of _ i])
  from same_batches_trans[OF batch_cols_put[OF d this assms(8-11)] batch_cols_put[OF assms(1,2,4-7)]]
  show ?thesis .
qed

lemma link_pair_batches:
  assumes "link_pair s loaded e i recat cat = Inr (s', e', i')" "store_wf s"
    and mem: "e \<in> set (transactions s)" "i \<in> set (transactions s)"
  shows "same_batches s' s"
proof -
  from assms(1) obtain s1 c where ck: "link_pair_check s loaded e i = Inr ()"
    and s1: "s1 = s \<or> s1 = fst (transfer_category (tx_org_id e) s)"
    and res: "s' = put_transaction i' (put_transaction e' s1)"
      "e' = (case c of None \<Rightarrow> e | Some c \<Rightarrow> e\<lparr>tx_category_id := c\<rparr>)\<lparr>tx_linked := Some (tx_id i)\<rparr>"
      "i' = (case c of None \<Rightarrow> i | Some c \<Rightarrow> i\<lparr>tx_category_id := c\<rparr>)\<lparr>tx_linked := Some (tx_id e)\<rparr>"
    by (rule link_pairE)
  have d: "distinct (map tx_id (transactions s))" using assms(2) by (simp add: store_wf_def)
  from ck have "tx_type e \<noteq> tx_type i" by (auto simp: link_pair_check_def split: if_splits)
  then have ne: "tx_id e \<noteq> tx_id i" using key_unique[OF d mem] by auto
  have T: "transactions s1 = transactions s" using s1 by auto
  have "same_batches (put_transaction i' (put_transaction e' s1)) s1"
    by (rule put_two_batches[of _ e i]) (use d mem ne T in \<open>auto simp: res(2,3) split: option.splits\<close>)
  moreover have "same_batches s1 s" using s1 by auto
  ultimately show ?thesis unfolding res(1) by (rule same_batches_trans)
qed

lemma pair_db:
  assumes "pair_existing_transactions s org eid iid recat cat = Inr (s', e', i')" "db_inv s"
  shows "db_inv s'"
proof -
  from assms(1) obtain e i where ei: "org_row s org eid = Some e" "org_row s org iid = Some i"
    "link_pair s True e i recat cat = Inr (s', e', i')"
    by (auto simp: pair_existing_transactions_def split: if_splits option.splits)
  have "same_batches s' s"
    using link_pair_batches[OF ei(3) db_invD(1)[OF assms(2)]] org_row_Some[OF ei(1)] org_row_Some[OF ei(2)] by blast
  then show ?thesis
    using pair_keeps[OF assms(1)] assms(2) batches_inv_cols by (auto simp: db_inv_def)
qed

lemma unpair_db:
  assumes "unpair_transactions s org tid ef fb = Inr (s', e', i')" "db_inv s"
  shows "db_inv s'"
proof -
  from assms(1) obtain t p pid where t: "org_row s org tid = Some t" "tx_linked t = Some pid"
      "org_row s org pid = Some p" "is_reciprocal_pair t (Some p)"
    and res: "s' = put_transaction i' (put_transaction e' s)"
      "e' = (if tx_type t = EXPENSE then t else p)\<lparr>tx_linked := None, tx_category_id := ef\<rparr>"
      "i' = (if tx_type t = EXPENSE then p else t)\<lparr>tx_linked := None, tx_category_id := fb\<rparr>"
    by (auto simp: unpair_transactions_def rbind_eq_Inr Let_def split: option.splits if_splits)
  have "same_batches s' s"
    unfolding res(1)
    by (rule put_two_batches[of _ "if tx_type t = EXPENSE then t else p" "if tx_type t = EXPENSE then p else t"])
       (use org_row_Some[OF t(1)] org_row_Some[OF t(3)] t(4) res(2,3) db_invD(3)[OF assms(2)]
         in \<open>auto simp: is_reciprocal_pair_def\<close>)
  then show ?thesis
    using unpair_keeps[OF assms(1)] assms(2) batches_inv_cols by (auto simp: db_inv_def)
qed

lemma create_db:
  assumes "create_transaction s org body imp = Inr (s', t)" "db_inv s"
  shows "db_inv s'"
proof -
  from assms(1) have c: "create_transaction_no_commit s org body imp False None = Inr (s', t)"
    by (auto simp: create_transaction_def split: if_splits)
  show ?thesis
    using c assms(2) create_no_commit_Inr(1) create_no_commit_batches(1) batches_inv_cols db_invD(1)[OF assms(2)]
    unfolding db_inv_def ledger_inv_books by blast
qed

lemma adjust_db:
  assumes "adjust_account_balance show_dec s org aid target reason today = Inr (s', t, old, new, delta)" "db_inv s"
  shows "db_inv s'"
proof -
  from assms(1) obtain a s1 cat s2 t0 a2 where ac: "get_account_for_update s aid org = Inr a"
      and s1: "balance_adjustment_category org s = (s1, cat)"
      "create_transaction_no_commit s1 org (adjustment_body show_dec aid cat (acc_balance a) target reason today)
         False True None = Inr (s2, t0)"
      and "get_account_for_update s2 aid org = Inr a2"
      "old = acc_balance a" "delta = target - acc_balance a" "delta \<noteq> 0" "new = acc_balance a2"
      and res: "s' = put_transaction t s2" "t = t0\<lparr>tx_settled_date := Some today\<rparr>"
    by (rule adjustE)
  have b1: "books (\<lambda>_. 0) s1"
    using balance_adjustment_category_fst(1)[OF db_invD(6)[OF assms(2)], of org] s1(1) by simp
  have "same_batches s1 s"
    using s1(1) by (auto simp: balance_adjustment_category_def same_batches_def split: option.splits)
  moreover have "same_batches s2 s1" using create_no_commit_batches(1)[OF s1(2) booksD(1)[OF b1]] .
  moreover have "same_batches s' s2"
    unfolding res(1) using create_no_commit_Inr(1,2)[OF s1(2) b1] res(2)
    by (intro batch_cols_put[of s2 t0]) (auto dest: booksD)
  ultimately have "same_batches s' s" using same_batches_trans by blast
  then show ?thesis
    using adjust_Inr(1)[OF assms(1)] assms(2) batches_inv_cols by (auto simp: db_inv_def)
qed

lemma transfer_db:
  assumes "create_transfer s org body imp = Inr (s', e', i')" "db_inv s"
  shows "db_inv s'"
proof -
  let ?from = "tf_from_account_id body" and ?to = "tf_to_account_id body"
  from assms(1) obtain s1 cat where
    r1: "resolve_transfer_category s org (tf_category_id body) = Inr (s1, cat)"
    by (auto simp: create_transfer_def rbind_eq_Inr split: if_splits)
  then have s1: "s1 = s \<or> s1 = fst (transfer_category org s)"
    by (auto simp: resolve_transfer_category_def rbind_eq_Inr split: option.splits)
  define e where "e = transfer_leg s1 org body ?from cat (transfer_description s org body) EXPENSE imp"
  define i where
    "i = transfer_leg (add_transaction e s1) org body ?to cat (transfer_description s org body) INCOME imp"
  let ?s3 = "add_transaction i (add_transaction e s1)"
  from assms(1) r1 obtain s4 where lp: "link_pair ?s3 False e i False (Some cat) = Inr (s4, e', i')"
    and fin: "if tf_status body = SETTLED then rbind (bump_account org ?from (- tf_amount body) s4)
       (bump_account org ?to (tf_amount body)) = Inr s' else s' = s4"
    by (auto simp: create_transfer_def rbind_eq_Inr Let_def e_def i_def split: if_splits)
  have b1: "same_batches s1 s" using s1 by auto
  have leg: "tx_import_batch_id e = None" "tx_import_batch_id i = None" by (simp_all add: e_def i_def transfer_leg_def)
  have b3: "same_batches ?s3 s"
    using same_batches_trans[OF batch_cols_add[OF leg(2)] same_batches_trans[OF batch_cols_add[OF leg(1)] b1]] .
  have wf1: "store_wf s1" using s1 transfer_category_books[OF db_invD(6)[OF assms(2)]] db_invD(1)[OF assms(2)]
    by (auto dest: booksD)
  have ids: "tx_id e = next_id s1" "tx_id i = next_id s1 + 1" by (simp_all add: e_def i_def transfer_leg_def)
  have wf3: "store_wf ?s3" using wf1 ids by (fastforce simp: store_wf_def list_all_iff)
  have "same_batches s4 ?s3" by (rule link_pair_batches[OF lp wf3]) simp_all
  moreover have "same_batches s' s4"
  proof (cases "tf_status body = SETTLED")
    case True
    have "same_batches x s4" if "bump_account org a y z = Inr x" "same_batches z s4" for a y z x
      using that by (auto simp: bump_account_def put_account_def rbind_eq_Inr same_batches_def)
    then show ?thesis using fin True by (auto simp: rbind_eq_Inr)
  qed (use fin in simp)
  ultimately have "same_batches s' s" using b3 same_batches_trans by blast
  then show ?thesis
    using create_transfer_Inr(1)[OF assms(1)] assms(2) batches_inv_cols by (auto simp: db_inv_def)
qed

end
