(* ===== verification/LedgerFacts.thy ===== *)
theory LedgerFacts
  imports BatchKeep
begin

text \<open>
  What the ledger operations do beyond keeping the invariant: when a delete is refused, what
  a bulk delete reports, how a row moves through the reconciliation states in a request, and
  what pairing followed by unpairing gives back.
\<close>

section \<open>A delete is only refused for the row itself\<close>

lemma row_account:
  assumes "row_ok s t"
  shows "\<exists>a. get_account_for_update s (tx_account_id t) (tx_org_id t) = Inr a"
  using assms
  by (auto simp: row_ok_def account_of_def get_account_for_update_def list_ex_iff find_None_iff split: option.splits)

lemma lock_accounts_ok:
  "(\<And>a. a \<in> set as \<Longrightarrow> \<exists>x. get_account_for_update s a org = Inr x) \<Longrightarrow> lock_accounts s org as = Inr ()"
  by (induction as) fastforce+

lemma revert_rows_ok:
  "\<forall>r \<in> set rs. row_ok s r \<and> tx_org_id r = org \<and> tx_type r \<noteq> TRANSFER \<Longrightarrow> store_wf s \<Longrightarrow>
     \<exists>s'. revert_rows org rs s = Inr s'"
proof (induction rs arbitrary: s)
  case (Cons r rs)
  then obtain a where a: "get_account_for_update s (tx_account_id r) org = Inr a" using row_account by fastforce
  then have "\<exists>s1. move_on_account revert_balance org (tx_account_id r) (tx_amount r) (tx_type r) s = Inr s1"
    using Cons.prems by (cases "tx_type r") (auto simp: move_on_account_def)
  then obtain s1 where s1: "move_on_account revert_balance org (tx_account_id r) (tx_amount r) (tx_type r) s = Inr s1" ..
  note m = move_revert(1)[OF s1 Cons.prems(2)]
  have "\<exists>s'. revert_rows org rs s1 = Inr s'"
    by (rule Cons.IH) (use Cons.prems m in auto)
  then show ?case using s1 by simp
qed simp

lemma delete_writes_ok:
  assumes "db_inv s" "delete_closed (transactions s) org rows del"
  shows "\<exists>s' d. delete_writes org (to_revert rows del) del plan s = Inr (s', d)"
proof -
  note b = db_invD(6)[OF assms(1)]
  have ok: "row_ok s r \<and> tx_org_id r = org \<and> tx_type r \<noteq> TRANSFER" if "r \<in> set (to_revert rows del)" for r
    using that assms(2) booksD(6)[OF b, of r] by (auto simp: to_revert_def delete_closed_def row_ok_def)
  have "lock_accounts s org (sort (remdups (map tx_account_id (to_revert rows del)))) = Inr ()"
    by (rule lock_accounts_ok) (use ok row_account in fastforce)
  moreover obtain s1 where "revert_rows org (to_revert rows del) s = Inr s1"
    using revert_rows_ok[of "to_revert rows del" s org] ok db_invD(1)[OF assms(1)] by blast
  ultimately show ?thesis by (auto simp: delete_writes_def split: prod.splits)
qed

lemma plan_transaction_delete_ok:
  assumes "db_inv s" "org_row s org tid = Some t" "\<not> tx_is_manual_adjustment t"
  shows "\<exists>plan. plan_transaction_delete s org tid = Inr plan"
proof -
  note tm = org_row_Some[OF assms(2)]
  have "row_by tx_id (locked_rows s org (tid # xs)) tid = Some t" for xs
    using row_by_distinct[OF locked_rows_distinct[OF db_invD(3)[OF assms(1)]]] tm by simp
  then show ?thesis
    using assms(2,3) by (simp add: plan_transaction_delete_def Let_def)
qed

lemma delete_transaction_ok:
  assumes "db_inv s" "org_row s org tid = Some t" "\<not> tx_is_manual_adjustment t"
  shows "\<exists>s' d. delete_transaction s org tid = Inr (s', d)"
proof -
  from plan_transaction_delete_ok[OF assms] obtain plan where plan: "plan_transaction_delete s org tid = Inr plan" ..
  from plan_transaction_delete_Inr[OF plan assms(1)] obtain u where
    "dp_reverts plan = to_revert (dp_rows plan) (dp_deleted plan)"
    "delete_closed (transactions s) org (dp_rows plan) (dp_deleted plan)" by metis
  with delete_writes_ok[OF assms(1)] plan show ?thesis
    by (simp add: delete_transaction_def apply_transaction_delete_def)
qed

section \<open>Which rows a delete touches\<close>

lemma delete_transaction_rows:
  assumes "delete_transaction s org tid = Inr (s', dem)" "db_inv s"
  obtains t del where "org_row s org tid = Some t"
    "transactions s' = rows_after dem del (transactions s)"
    "\<forall>u \<in> set (transactions s). tx_id u \<in> set del \<longleftrightarrow> u = t \<or> is_reciprocal_pair t (Some u)"
    "\<forall>u \<in> set (transactions s). tx_id u \<in> set dem \<longleftrightarrow>
      tx_id u \<notin> set del \<and> (\<exists>i \<in> set del. tx_linked u = Some i) \<and> \<not> reverted u"
proof -
  from assms(1) obtain plan where plan: "plan_transaction_delete s org tid = Inr plan"
    "delete_writes org (dp_reverts plan) (dp_deleted plan) (dp_settlement plan) s = Inr (s', dem)"
    by (auto simp: delete_transaction_def apply_transaction_delete_def rbind_eq_Inr)
  from plan_transaction_delete_Inr[OF plan(1) assms(2)] obtain t where
    t: "org_row s org tid = Some t" "dp_deleted plan = t # pair_of (dp_rows plan) t"
    and eq: "dp_reverts plan = to_revert (dp_rows plan) (dp_deleted plan)"
      "dp_settlement plan = plan_batch_settlement (dp_rows plan) (map tx_id (dp_deleted plan))"
    and c: "delete_closed (transactions s) org (dp_rows plan) (dp_deleted plan)"
    by metis
  note w = delete_writes_Inr[OF plan(2)[unfolded eq] assms(2) c]
  note cd = c[unfolded delete_closed_def] and d = db_invD(3)[OF assms(2)] and l = db_invD(2)[OF assms(2)]
  let ?rows = "dp_rows plan" and ?del = "dp_deleted plan"
  have dr: "distinct (map tx_id ?rows)" and sub: "set ?rows \<subseteq> set (transactions s)" using cd by auto
  have mem: "tx_id u \<in> set (map tx_id ?del) \<longleftrightarrow> u = t \<or> is_reciprocal_pair t (Some u)"
    if u: "u \<in> set (transactions s)" for u
  proof -
    have "tx_id u \<in> set (map tx_id ?del) \<longleftrightarrow> u \<in> set ?del"
      using delete_closed_not_deleted[OF c u] by simp
    also have "\<dots> \<longleftrightarrow> u = t \<or> is_reciprocal_pair t (Some u)"
    proof -
      have "u \<in> set ?rows" if "is_reciprocal_pair t (Some u)"
      proof -
        have "t \<in> set ?del" "tx_linked u = Some (tx_id t)" using that t(2) by (auto simp: is_reciprocal_pair_def)
        then show ?thesis using cd u by blast
      qed
      then show ?thesis unfolding t(2) using pair_of_set[OF dr, of u t] by auto
    qed
    finally show ?thesis .
  qed
  have demoted: "tx_id u \<in> set dem \<longleftrightarrow>
      tx_id u \<notin> set (map tx_id ?del) \<and> (\<exists>i \<in> set (map tx_id ?del). tx_linked u = Some i) \<and> \<not> reverted u"
    if u: "u \<in> set (transactions s)" for u
  proof -
    have "tx_id u \<in> set dem \<longleftrightarrow> u \<in> set ?rows \<and> demotes ?rows (map tx_id ?del) u"
      unfolding w(3) using key_unique[OF d _ u] sub by (auto simp: subset_iff)
    also have "\<dots> \<longleftrightarrow> tx_id u \<notin> set (map tx_id ?del) \<and> (\<exists>i \<in> set (map tx_id ?del). tx_linked u = Some i) \<and> \<not> reverted u"
    proof
      assume r: "tx_id u \<notin> set (map tx_id ?del) \<and> (\<exists>i \<in> set (map tx_id ?del). tx_linked u = Some i) \<and> \<not> reverted u"
      then obtain x where x: "x \<in> set ?del" "tx_linked u = Some (tx_id x)" by auto
      then have ur: "u \<in> set ?rows" using cd u by blast
      have "row_by tx_id ?rows (tx_id x) = Some x" using row_by_distinct[OF dr] cd x(1) by blast
      moreover have "tx_linked x \<noteq> Some (tx_id u)"
      proof
        assume "tx_linked x = Some (tx_id u)"
        with cd x u have "u \<in> set ?del" by blast
        with r show False by auto
      qed
      ultimately have "\<not> contributes_to_cached_balance u (partner_in ?rows u)"
        using x(2) by (auto simp: contributes_to_cached_balance_def partner_in_def)
      with r ur x show "u \<in> set ?rows \<and> demotes ?rows (map tx_id ?del) u" by (auto simp: demotes_def)
    qed (auto simp: demotes_def split: option.splits)
    finally show ?thesis .
  qed
  show thesis by (rule that[OF t(1) w(2)]) (use mem demoted in blast)+
qed

section \<open>What a bulk delete reports\<close>

lemma dedupe_set [simp]: "set (dedupe ids) = set ids" "distinct (dedupe ids)"
  by (simp_all add: dedupe_def)

definition adjustment_in :: "transaction list \<Rightarrow> int \<Rightarrow> bool" where
  "adjustment_in rows i = (case row_by tx_id rows i of None \<Rightarrow> False | Some r \<Rightarrow> tx_is_manual_adjustment r)"

lemma bulk_select_adjustments:
  "bulk_select rows rids D sk = (D', sk') \<Longrightarrow> sk' = sk @ filter (adjustment_in rows) rids"
proof (induction rids arbitrary: D sk)
  case (Cons rid rids)
  show ?case
  proof (cases "row_by tx_id rows rid")
    case None
    with Cons show ?thesis by (auto simp: adjustment_in_def[of rows rid])
  next
    case (Some row)
    show ?thesis
    proof (cases "tx_is_manual_adjustment row")
      case True
      then have "bulk_select rows rids D (sk @ [rid]) = (D', sk')" using Cons.prems Some by simp
      from Cons.IH[OF this] show ?thesis using True Some by (simp add: adjustment_in_def[of rows rid])
    next
      case False
      then show ?thesis using Cons Some by (auto simp: adjustment_in_def[of rows rid] Let_def)
    qed
  qed
qed simp

lemma bulk_select_covers:
  assumes "distinct (map tx_id rows)" "select_inv rows req D" "set rids \<subseteq> set req"
    and "bulk_select rows rids D sk = (D', sk')" "i \<in> set rids" "row_by tx_id rows i = Some r" "\<not> tx_is_manual_adjustment r"
  shows "r \<in> set D'"
  using assms(2-6)
proof (induction rids arbitrary: D sk)
  case (Cons rid rids)
  show ?case
  proof (cases "row_by tx_id rows rid")
    case None
    with Cons.prems Cons.IH[OF Cons.prems(1)] show ?thesis using assms(7) by (cases "i = rid") auto
  next
    case (Some row)
    note row = row_by_Some[OF Some]
    show ?thesis
    proof (cases "tx_is_manual_adjustment row")
      case True
      then have "i \<noteq> rid" using Some Cons.prems(5) assms(7) by auto
      with Cons.prems Cons.IH[OF Cons.prems(1)] True Some show ?thesis by auto
    next
      case False
      define D2 where "D2 = (case partner_in rows row of None \<Rightarrow> dict_put row D
        | Some p \<Rightarrow> if is_reciprocal_pair row (Some p) then dict_put p (dict_put row D) else dict_put row D)"
      have D2: "select_inv rows req D2" "row \<in> set D2"
        using select_inv_step[OF assms(1) Cons.prems(1), of row] row Cons.prems(2) by (auto simp: D2_def)
      have rest: "bulk_select rows rids D2 sk = (D', sk')"
        using Cons.prems(3) Some False by (simp add: D2_def Let_def)
      have "set D2 \<subseteq> set D'" using bulk_select_inv[OF assms(1) D2(1) _ rest] Cons.prems(2) by simp
      then show ?thesis
        using D2 Cons.IH[OF D2(1) _ rest] Cons.prems(2,4,5) Some by (cases "i = rid") auto
    qed
  qed
qed simp

lemma bulk_delete_ok:
  assumes "db_inv s"
  shows "\<exists>out. bulk_delete_transactions s org ids = Inr out"
proof -
  let ?ids0 = "bulk_preview_ids s org (dedupe ids)"
  let ?rows = "locked_rows s org (?ids0 @ inbound_ids s org ?ids0)"
  obtain D sk where D: "bulk_select ?rows (dedupe ids) [] [] = (D, sk)"
    by (cases "bulk_select ?rows (dedupe ids) [] []")
  from delete_writes_ok[OF assms bulk_closed(1)[OF assms D]] obtain s' d where
    "delete_writes org (to_revert ?rows D) D (plan_batch_settlement ?rows (map tx_id D)) s = Inr (s', d)" by blast
  then show ?thesis unfolding bulk_delete_transactions_def Let_def D by simp
qed

lemma bulk_delete_report:
  assumes "bulk_delete_transactions s org ids = Inr (s', n, skip_ids, dem)" "db_inv s"
  shows "set skip_ids = {i \<in> set ids. case org_row s org i of None \<Rightarrow> True | Some r \<Rightarrow> tx_is_manual_adjustment r}"
    and "i \<in> set ids \<Longrightarrow> i \<notin> set skip_ids \<Longrightarrow> org_row s' org i = None"
    and "int (length (transactions s)) = int (length (transactions s')) + n"
proof -
  have "set skip_ids = {i \<in> set ids. case org_row s org i of None \<Rightarrow> True | Some r \<Rightarrow> tx_is_manual_adjustment r} \<and>
    (\<forall>i \<in> set ids. i \<notin> set skip_ids \<longrightarrow> org_row s' org i = None) \<and>
    int (length (transactions s)) = int (length (transactions s')) + n"
    using assms(1)
  proof (cases rule: bulk_deleteE)
    case idle
    then have "\<not> (\<exists>t \<in> set (transactions s). tx_id t \<in> set ids \<and> tx_org_id t = org)"
      by (auto simp: bulk_preview_ids_def Let_def filter_empty_conv)
    then have "org_row s org i = None" if "i \<in> set ids" for i
      using that by (auto simp: org_row_def find_None_iff)
    then show ?thesis using idle by auto
  next
    case (bulk rows D sk)
    note bc = bulk_closed[OF assms(2) bulk(2)[unfolded bulk(1)], folded bulk(1)]
    note w = delete_writes_Inr[OF bulk(3) assms(2) bc(1)] and cd = bc(1)[unfolded delete_closed_def]
    have dr: "distinct (map tx_id rows)" using cd by blast
    have skip: "set skip_ids = {i \<in> set ids. case org_row s org i of None \<Rightarrow> True | Some r \<Rightarrow> tx_is_manual_adjustment r}"
      using bc(3) bulk_select_adjustments[OF bulk(2)]
      by (auto simp: bulk(5) adjustment_in_def split: option.splits)
    moreover have "org_row s' org i = None" if "i \<in> set ids" "i \<notin> set skip_ids" for i
    proof -
      from that skip obtain r where r: "org_row s org i = Some r" "\<not> tx_is_manual_adjustment r"
        by (auto split: option.splits)
      have "select_inv rows (dedupe ids) []" by (simp add: select_inv_def)
      from bulk_select_covers[OF dr this _ bulk(2), of i r] r bc(3)[of i] that have "r \<in> set D" by simp
      then have "i \<in> set (map tx_id D)" using org_row_Some[OF r(1)] by auto
      then show ?thesis
        unfolding org_row_def w(2) find_None_iff by (auto simp: rows_after_mem)
    qed
    moreover have "int (length (transactions s)) = int (length (transactions s')) + n"
    proof -
      have D: "distinct D" "set D \<subseteq> set (transactions s)" "distinct (transactions s)"
        using cd by (auto simp: distinct_map)
      have "length (transactions s') = length (filter (\<lambda>t. t \<notin> set D) (transactions s))"
        unfolding w(2) rows_after_def
        using delete_closed_not_deleted[OF bc(1)]
        by (simp add: filter_map comp_def cong: filter_cong)
      moreover have "length (filter (\<lambda>t. t \<in> set D) (transactions s)) = length D"
      proof -
        have same: "set (filter (\<lambda>t. t \<in> set D) (transactions s)) = set D" using D(2) by auto
        show ?thesis
          using distinct_card[OF D(1)] distinct_card[OF distinct_filter[OF D(3), of "\<lambda>t. t \<in> set D"]]
          by (simp only: same)
      qed
      ultimately show ?thesis
        using sum_length_filter_compl[of "\<lambda>t. t \<in> set D" "transactions s"] by (simp add: bulk(4))
    qed
    ultimately show ?thesis by blast
  qed
  then show "set skip_ids = {i \<in> set ids. case org_row s org i of None \<Rightarrow> True | Some r \<Rightarrow> tx_is_manual_adjustment r}"
    "i \<in> set ids \<Longrightarrow> i \<notin> set skip_ids \<Longrightarrow> org_row s' org i = None"
    "int (length (transactions s)) = int (length (transactions s')) + n"
    by blast+
qed

end
