(* ===== verification/Recurring.thy ===== *)
theory Recurring
  imports Deletion Frontier
begin

text \<open>
  \<open>services/recurring_service.py\<close>, the engine of a series: creating a template, writing one
  occurrence, materialising the next one early, skipping one, the auto-settle sweep, the
  catch-up generation of everything due in the current cycle, and the removal of what a
  stopped or deleted series has pending. Editing a series is in \<open>SeriesEdit\<close>. A template row
  locked for update is read once and carried by the loop; each pass writes it back.
\<close>

section \<open>Creating a template\<close>

record recurring_create =
  rc_account_id :: int
  rc_category_id :: int
  rc_description :: string
  rc_amount :: decimal
  rc_type :: transaction_type
  rc_to_account_id :: "int option"
  rc_frequency :: frequency
  rc_next_due_date :: date
  rc_auto_settle :: bool
  rc_occurrence_count :: "int option"

definition find_account :: "store \<Rightarrow> int \<Rightarrow> int \<Rightarrow> account option" where
  "find_account s account_id org_id =
     find (\<lambda>a. acc_id a = account_id \<and> acc_org_id a = org_id) (accounts s)"

definition UNSUPPORTED_TRANSFER_SOURCE_SLUGS :: "string list" where
  "UNSUPPORTED_TRANSFER_SOURCE_SLUGS = [''credit_card'', ''loan'']"

definition refuse_card_or_loan_source :: "string option \<Rightarrow> unit result" where
  "refuse_card_or_loan_source slug =
     guard (case slug of None \<Rightarrow> True | Some x \<Rightarrow> x \<notin> set UNSUPPORTED_TRANSFER_SOURCE_SLUGS)
       (ValidationError ''A recurring transfer cannot come from a credit card or loan account.'')"

definition validate_transfer_accounts ::
  "store \<Rightarrow> int \<Rightarrow> transaction_type \<Rightarrow> int \<Rightarrow> int option \<Rightarrow> unit result" where
  "validate_transfer_accounts s org_id series_type account_id to_account_id =
     (if series_type \<noteq> TRANSFER
      then guard (to_account_id = None) (ValidationError ''Only a transfer has a destination account'')
      else (case to_account_id of
        None \<Rightarrow> Inl (ValidationError ''A transfer needs a destination account'')
      | Some to_id \<Rightarrow>
          if to_id = account_id
          then Inl (ValidationError ''Source and destination accounts must be different'')
          else (case (find_account s account_id org_id, find_account s to_id org_id) of
            (Some a, Some b) \<Rightarrow>
              rbind (guard (acc_is_active a \<and> acc_is_active b)
                (ValidationError ''A recurring transfer needs two active accounts'')) (\<lambda>_.
              rbind (refuse_card_or_loan_source (acc_type_slug a)) (\<lambda>_.
              guard (acc_currency a = acc_currency b)
                (ValidationError ''Transfer accounts must have the same currency'')))
          | _ \<Rightarrow> Inl (ValidationError ''Invalid account''))))"

definition create_recurring ::
  "(int \<Rightarrow> int \<Rightarrow> date \<Rightarrow> date option) \<Rightarrow> store \<Rightarrow> int \<Rightarrow> recurring_create \<Rightarrow> date
     \<Rightarrow> (store \<times> template) result" where
  "create_recurring rd s org_id body today =
     rbind (validate_account s (rc_account_id body) org_id) (\<lambda>_.
     rbind (validate_category_for_type s (rc_category_id body) org_id (rc_type body)) (\<lambda>_.
     rbind (validate_transfer_accounts s org_id (rc_type body) (rc_account_id body) (rc_to_account_id body)) (\<lambda>_.
     rbind (validate_frontier rd s org_id (rc_next_due_date body) today) (\<lambda>_.
     let r = \<lparr>r_id = next_id s, r_org_id = org_id, r_account_id = rc_account_id body,
           r_to_account_id = rc_to_account_id body, r_category_id = rc_category_id body,
           r_description = rc_description body, r_amount = rc_amount body, r_type = rc_type body,
           r_frequency = rc_frequency body, r_next_due_date = rc_next_due_date body,
           r_auto_settle = rc_auto_settle body, r_is_active = True,
           r_occurrence_count = rc_occurrence_count body, r_occurrences_elapsed = 0,
           r_last_spent_date = None\<rparr>
     in Inr (s\<lparr>templates := templates s @ [r], next_id := next_id s + 1\<rparr>, r)))))"

definition put_template :: "template \<Rightarrow> store \<Rightarrow> store" where
  "put_template r s = s\<lparr>templates := update_row r_id (r_id r) (\<lambda>_. r) (templates s)\<rparr>"

section \<open>One occurrence\<close>

text \<open>\<open>None\<close> is the \<open>OverflowError\<close> of the calendar.\<close>

definition advance_frontier ::
  "(int \<Rightarrow> int \<Rightarrow> date \<Rightarrow> date option) \<Rightarrow> template \<Rightarrow> date \<Rightarrow> template option" where
  "advance_frontier rd r due =
     (case advance_date rd due (r_frequency r) of
        None \<Rightarrow> None
      | Some d \<Rightarrow> Some (r\<lparr>r_next_due_date := d, r_occurrences_elapsed := r_occurrences_elapsed r + 1,
          r_last_spent_date := Some due\<rparr>))"

definition occurrence_row ::
  "store \<Rightarrow> int \<Rightarrow> template \<Rightarrow> date \<Rightarrow> transaction_status \<Rightarrow> bool \<Rightarrow> int \<Rightarrow> transaction_type
     \<Rightarrow> transaction" where
  "occurrence_row s org_id r due status was_skipped account_id leg_type =
     \<lparr>tx_id = next_id s, tx_org_id = org_id, tx_account_id = account_id,
      tx_category_id = r_category_id r, tx_description = r_description r, tx_amount = r_amount r,
      tx_type = leg_type, tx_status = status, tx_linked = None, tx_recurring_id = Some (r_id r),
      tx_recurring_origin_id = (if r_type r = TRANSFER then Some (r_id r) else None),
      tx_date = due, tx_settled_date = (if status = SETTLED then Some due else None),
      tx_is_imported = False, tx_import_batch_id = None,
      tx_recon = (if was_skipped then skipped else accepted), tx_fitid = None,
      tx_is_manual_adjustment = False\<rparr>"

text \<open>The balance of every row written as settled is moved.\<close>

primrec apply_rows :: "int \<Rightarrow> transaction list \<Rightarrow> store \<Rightarrow> store result" where
  "apply_rows org_id [] s = Inr s"
| "apply_rows org_id (t # ts) s =
     rbind (move_on_account apply_balance org_id (tx_account_id t) (tx_amount t) (tx_type t) s)
       (apply_rows org_id ts)"

definition create_occurrence ::
  "store \<Rightarrow> int \<Rightarrow> template \<Rightarrow> date \<Rightarrow> date \<Rightarrow> bool \<Rightarrow> bool \<Rightarrow> (store \<times> transaction) result" where
  "create_occurrence s org_id r due today settle was_skipped =
     (let status = (if settle \<and> r_auto_settle r \<and> due \<le> today then SETTLED else PENDING) in
      if r_type r = TRANSFER then
        (case r_to_account_id r of
           None \<Rightarrow> Inl (PyValueError ''account_id cannot be null'')
         | Some to_id \<Rightarrow>
             let e = occurrence_row s org_id r due status was_skipped (r_account_id r) EXPENSE;
                 s1 = add_transaction e s;
                 i = occurrence_row s1 org_id r due status was_skipped to_id INCOME;
                 s2 = add_transaction i s1
             in rbind (link_pair s2 False e i False None) (\<lambda>(s3, e', i').
                rbind (if status = SETTLED then apply_rows org_id (sort_key tx_account_id [e', i']) s3
                       else Inr s3) (\<lambda>s4. Inr (s4, e'))))
      else
        let t = occurrence_row s org_id r due status was_skipped (r_account_id r) (r_type r);
            s1 = add_transaction t s
        in rbind (if status = SETTLED then apply_rows org_id [t] s1 else Inr s1) (\<lambda>s2. Inr (s2, t)))"

definition occurrence_exists :: "store \<Rightarrow> int \<Rightarrow> int \<Rightarrow> date \<Rightarrow> bool" where
  "occurrence_exists s org_id recurring_id due \<longleftrightarrow>
     list_ex (\<lambda>t. tx_org_id t = org_id \<and> tx_recurring_id t = Some recurring_id \<and> tx_date t = due)
       (transactions s)"

definition materialise_next ::
  "(int \<Rightarrow> int \<Rightarrow> date \<Rightarrow> date option) \<Rightarrow> store \<Rightarrow> int \<Rightarrow> int \<Rightarrow> date \<Rightarrow> bool \<Rightarrow> date
     \<Rightarrow> (store \<times> transaction) result" where
  "materialise_next rd s org_id recurring_id occurrence_date was_skipped today =
     (case find_template s recurring_id org_id of
        None \<Rightarrow> Inl (NotFoundError ''Recurring transaction'')
      | Some r \<Rightarrow>
     rbind (guard (r_next_due_date r = occurrence_date)
       (ConflictError ''The next occurrence is another date'')) (\<lambda>_.
     rbind (guard (r_is_active r) (ConflictError ''This recurring transaction is stopped.'')) (\<lambda>_.
     rbind (guard (has_remaining_occurrences r)
       (ConflictError ''This recurring transaction has no occurrences left.'')) (\<lambda>_.
     rbind (frontier_lower_bound rd s org_id today) (\<lambda>p_start.
     rbind (guard (p_start \<le> r_next_due_date r)
       (ConflictError ''The next occurrence is before the current billing cycle'')) (\<lambda>_.
     let due = r_next_due_date r in
     rbind (guard (\<not> occurrence_exists s org_id (r_id r) due)
       (ConflictError ''The occurrence already exists'')) (\<lambda>_.
     rbind (create_occurrence s org_id r due today False was_skipped) (\<lambda>(s1, t).
     case advance_frontier rd r due of
       None \<Rightarrow> Inl calendar_error
     | Some r' \<Rightarrow> Inr (put_template r' s1, t)))))))))"

definition skip_occurrence :: "store \<Rightarrow> int \<Rightarrow> int \<Rightarrow> (store \<times> transaction) result" where
  "skip_occurrence s org_id transaction_id =
     (case org_row s org_id transaction_id of
        None \<Rightarrow> Inl (NotFoundError ''Transaction'')
      | Some t \<Rightarrow>
     rbind (guard (tx_recurring_id t \<noteq> None) (ConflictError ''Only a recurring occurrence can be skipped.'')) (\<lambda>_.
     rbind (guard (tx_status t = PENDING) (ConflictError ''Only a pending occurrence can be skipped.'')) (\<lambda>_.
     rbind (guard (tx_recon t = accepted) (ConflictError ''This transaction is already reconciled'')) (\<lambda>_.
     rbind (guard (tx_import_batch_id t = None) (ConflictError ''An imported transaction cannot be skipped.'')) (\<lambda>_.
     rbind (guard (tx_linked t = None) (ConflictError ''A linked transaction cannot be skipped; unlink it first.'')) (\<lambda>_.
     rbind (guard (\<not> list_ex (\<lambda>u. tx_org_id u = org_id \<and> tx_linked u = Some (tx_id t)) (transactions s))
       (ConflictError ''Another transaction is linked to this one; unlink it before skipping.'')) (\<lambda>_.
     let t' = t\<lparr>tx_recon := skipped\<rparr> in Inr (put_transaction t' s, t'))))))))"

section \<open>The auto-settle sweep\<close>

definition template_by_id :: "store \<Rightarrow> int \<Rightarrow> template option" where
  "template_by_id s i = row_by r_id (templates s) i"

definition due_auto_rows :: "store \<Rightarrow> int \<Rightarrow> date \<Rightarrow> transaction list" where
  "due_auto_rows s org_id today =
     sort_key tx_id (filter (\<lambda>t. tx_org_id t = org_id \<and> tx_status t = PENDING \<and>
       effective_period_date_expr t \<le> today \<and>
       (case tx_recurring_id t of
          None \<Rightarrow> False
        | Some i \<Rightarrow> (case template_by_id s i of None \<Rightarrow> False | Some r \<Rightarrow> r_auto_settle r)) \<and>
       non_reverted_transaction_filter (transactions s) t) (transactions s))"

text \<open>What one row of the sweep adds: both legs when it is the expense leg of a pair that is
  due whole, nothing when it is the other leg or its partner is still to come, itself otherwise.\<close>

definition settle_unit :: "store \<Rightarrow> transaction list \<Rightarrow> transaction \<Rightarrow> transaction list list" where
  "settle_unit s rows t =
     (let partner = partner_in rows t in
      if is_reciprocal_pair t partner
      then (case partner of None \<Rightarrow> [] | Some p \<Rightarrow> if tx_type t = EXPENSE then [[t, p]] else [])
      else
        let other = partner_in (transactions s) t in
        if tx_linked t \<noteq> None \<and> is_reciprocal_pair t other \<and>
           (case other of None \<Rightarrow> False | Some p \<Rightarrow> tx_status p = PENDING \<and> \<not> reverted p)
        then [] else [[t]])"

definition due_auto_settle_units :: "store \<Rightarrow> int \<Rightarrow> date \<Rightarrow> transaction list list" where
  "due_auto_settle_units s org_id today =
     (let rows = due_auto_rows s org_id today in concat (map (settle_unit s rows) rows))"

definition settle_row :: "int \<Rightarrow> transaction \<Rightarrow> store \<Rightarrow> store result" where
  "settle_row org_id t s =
     (let t' = t\<lparr>tx_status := SETTLED, tx_settled_date := Some (effective_period_date_expr t)\<rparr> in
      rbind (move_on_account apply_balance org_id (tx_account_id t) (tx_amount t) (tx_type t) s)
        (\<lambda>s1. Inr (put_transaction t' s1)))"

primrec settle_rows :: "int \<Rightarrow> transaction list \<Rightarrow> store \<Rightarrow> store result" where
  "settle_rows org_id [] s = Inr s"
| "settle_rows org_id (t # ts) s = rbind (settle_row org_id t s) (settle_rows org_id ts)"

definition settle_due_auto :: "store \<Rightarrow> int \<Rightarrow> date \<Rightarrow> (store \<times> int) result" where
  "settle_due_auto s org_id today =
     (let units = due_auto_settle_units s org_id today in
      rbind (lock_accounts s org_id (sort (remdups (map tx_account_id (concat units))))) (\<lambda>_.
      rbind (settle_rows org_id (concat units) s) (\<lambda>s1. Inr (s1, int (length units)))))"

section \<open>Generation\<close>

definition MAX_CATCHUP_ITERATIONS :: nat where
  "MAX_CATCHUP_ITERATIONS = 500"

record generation =
  g_created :: int
  g_created_settled :: int
  g_backfilled :: "date list"

text \<open>The catch-up loop of one template. The first argument is the number of passes the cap
  leaves; running out of it is the logged \<open>break\<close>.\<close>

primrec catch_up ::
  "nat \<Rightarrow> (int \<Rightarrow> int \<Rightarrow> date \<Rightarrow> date option) \<Rightarrow> int \<Rightarrow> date \<Rightarrow> date \<Rightarrow> date
     \<Rightarrow> template \<Rightarrow> store \<times> generation \<Rightarrow> (store \<times> generation) result" where
  "catch_up 0 rd org_id today period_end p_start r sg = Inr sg"
| "catch_up (Suc n) rd org_id today period_end p_start r sg =
     (case sg of (s, g) \<Rightarrow>
      let due = r_next_due_date r in
      if \<not> due \<le> period_end \<or> \<not> has_remaining_occurrences r then Inr (s, g)
      else if occurrence_exists s org_id (r_id r) due then
        (case advance_frontier rd r due of
           None \<Rightarrow> Inl calendar_error
         | Some r' \<Rightarrow> catch_up n rd org_id today period_end p_start r' (put_template r' s, g))
      else
        rbind (create_occurrence s org_id r due today True False) (\<lambda>(s1, t).
        case advance_frontier rd r due of
          None \<Rightarrow> Inl calendar_error
        | Some r' \<Rightarrow>
            catch_up n rd org_id today period_end p_start r'
              (put_template r' s1,
               g\<lparr>g_created := g_created g + 1,
                 g_created_settled := g_created_settled g + (if tx_status t = SETTLED then 1 else 0),
                 g_backfilled := g_backfilled g @ (if due < p_start then [due] else [])\<rparr>)))"

primrec catch_up_all ::
  "(int \<Rightarrow> int \<Rightarrow> date \<Rightarrow> date option) \<Rightarrow> int \<Rightarrow> date \<Rightarrow> date \<Rightarrow> date
     \<Rightarrow> template list \<Rightarrow> store \<times> generation \<Rightarrow> (store \<times> generation) result" where
  "catch_up_all rd org_id today period_end p_start [] sg = Inr sg"
| "catch_up_all rd org_id today period_end p_start (r # rs) sg =
     rbind (catch_up MAX_CATCHUP_ITERATIONS rd org_id today period_end p_start r sg)
       (catch_up_all rd org_id today period_end p_start rs)"

record generation_report =
  gr_generated :: int
  gr_settled :: int
  gr_pending :: int
  gr_backfilled :: int
  gr_period_end :: date

definition due_templates :: "store \<Rightarrow> int \<Rightarrow> date \<Rightarrow> template list" where
  "due_templates s org_id period_end =
     filter (\<lambda>r. r_org_id r = org_id \<and> active_series_filter r \<and> r_next_due_date r \<le> period_end) (templates s)"

definition generate_due_transactions ::
  "(int \<Rightarrow> int \<Rightarrow> date \<Rightarrow> date option) \<Rightarrow> store \<Rightarrow> int \<Rightarrow> date \<Rightarrow> (store \<times> generation_report) result" where
  "generate_due_transactions rd s org_id today =
     (let cycle_day = (case row_by o_id (organizations s) org_id of
            None \<Rightarrow> 1 | Some org \<Rightarrow> o_billing_cycle_day org)
      in case current_cycle_window rd cycle_day today of
           None \<Rightarrow> Inl calendar_error
         | Some (_, period_end) \<Rightarrow>
     rbind (frontier_lower_bound rd s org_id today) (\<lambda>p_start.
     rbind (settle_due_auto s org_id today) (\<lambda>(s1, settled_now).
     rbind (catch_up_all rd org_id today period_end p_start (due_templates s1 org_id period_end)
         (s1, \<lparr>g_created = 0, g_created_settled = 0, g_backfilled = []\<rparr>)) (\<lambda>(s2, g).
     Inr (s2, \<lparr>gr_generated = g_created g, gr_settled = g_created_settled g + settled_now,
        gr_pending = g_created g - g_created_settled g, gr_backfilled = int (length (g_backfilled g)),
        gr_period_end = period_end\<rparr>)))))"

section \<open>Stopping and deleting a series\<close>

record pending_removal_plan =
  pr_rows :: "transaction list"
  pr_doomed :: "transaction list"
  pr_settlement :: "settlement_plan option"

definition pending_of_series :: "int \<Rightarrow> date \<Rightarrow> transaction \<Rightarrow> bool" where
  "pending_of_series recurring_id today t \<longleftrightarrow>
     tx_recurring_id t = Some recurring_id \<and> tx_status t = PENDING \<and> today \<le> tx_date t"

text \<open>A pending leg whose partner survives is kept: a pair is never split.\<close>

definition splits_pair :: "transaction list \<Rightarrow> transaction list \<Rightarrow> transaction \<Rightarrow> bool" where
  "splits_pair rows doomed t \<longleftrightarrow>
     is_reciprocal_pair t (partner_in rows t) \<and> tx_linked t \<notin> Some ` tx_id ` set doomed"

definition plan_pending_removal :: "store \<Rightarrow> int \<Rightarrow> int \<Rightarrow> date \<Rightarrow> pending_removal_plan" where
  "plan_pending_removal s org_id recurring_id today =
     (let candidate_ids = map tx_id (filter (\<lambda>t. tx_org_id t = org_id \<and>
            pending_of_series recurring_id today t) (transactions s))
      in if candidate_ids = [] then \<lparr>pr_rows = [], pr_doomed = [], pr_settlement = None\<rparr>
      else
        let referrer_ids = filter (\<lambda>i. i \<notin> set candidate_ids) (inbound_ids s org_id candidate_ids);
            rows = locked_rows s org_id (candidate_ids @ referrer_ids);
            doomed0 = filter (pending_of_series recurring_id today) rows;
            doomed = filter (\<lambda>t. \<not> splits_pair rows doomed0 t) doomed0
        in if doomed = [] then \<lparr>pr_rows = rows, pr_doomed = [], pr_settlement = None\<rparr>
           else \<lparr>pr_rows = rows, pr_doomed = doomed,
                 pr_settlement = Some (plan_batch_settlement rows (map tx_id doomed))\<rparr>)"

definition remove_pending_transactions ::
  "store \<Rightarrow> int \<Rightarrow> int \<Rightarrow> date \<Rightarrow> store \<times> int \<times> int list" where
  "remove_pending_transactions s org_id recurring_id today =
     (let plan = plan_pending_removal s org_id recurring_id today in
      case pr_settlement plan of
        None \<Rightarrow> (s, 0, [])
      | Some settlement \<Rightarrow>
          (case apply_batch_settlement org_id settlement s of
             (s1, demoted_ids) \<Rightarrow>
               (delete_rows (map tx_id (pr_doomed plan)) s1, int (length (pr_doomed plan)), demoted_ids)))"

definition clear_series :: "int \<Rightarrow> transaction \<Rightarrow> transaction" where
  "clear_series recurring_id t =
     (if tx_recurring_id t = Some recurring_id then t\<lparr>tx_recurring_id := None\<rparr> else t)"

definition stop_recurring :: "store \<Rightarrow> int \<Rightarrow> int \<Rightarrow> date \<Rightarrow> (store \<times> int \<times> int list) result" where
  "stop_recurring s org_id recurring_id today =
     (case find_template s recurring_id org_id of
        None \<Rightarrow> Inl (NotFoundError ''Recurring transaction'')
      | Some r \<Rightarrow>
          (case remove_pending_transactions (put_template (r\<lparr>r_is_active := False\<rparr>) s) org_id recurring_id today of
             (s1, removed, demoted_ids) \<Rightarrow>
               Inr (s1\<lparr>transactions := map (\<lambda>t. if tx_org_id t = org_id then clear_series recurring_id t else t)
                      (transactions s1)\<rparr>, removed, demoted_ids)))"

text \<open>The foreign key of the surviving rows is \<open>ON DELETE SET NULL\<close>.\<close>

definition delete_recurring :: "store \<Rightarrow> int \<Rightarrow> int \<Rightarrow> date \<Rightarrow> (store \<times> int \<times> int list) result" where
  "delete_recurring s org_id recurring_id today =
     (case find_template s recurring_id org_id of
        None \<Rightarrow> Inl (NotFoundError ''Recurring transaction'')
      | Some r \<Rightarrow>
          (case remove_pending_transactions s org_id recurring_id today of
             (s1, removed, demoted_ids) \<Rightarrow>
               Inr (s1\<lparr>templates := filter (\<lambda>r. r_id r \<noteq> recurring_id) (templates s1),
                      transactions := map (clear_series recurring_id) (transactions s1)\<rparr>,
                    removed, demoted_ids)))"

end
