(* ===== verification/SeriesEdit.thy ===== *)
theory SeriesEdit
  imports Recurring
begin

text \<open>
  Editing a series. From \<open>services/recurring_service.py\<close>: \<open>update_recurring\<close>, the re-anchoring
  walk of a resumed template, the guard on a moved frontier and the sync of a transfer's
  pending pairs. From \<open>services/transaction_service.py\<close>: the pending siblings a series edit may
  rewrite, the plan of a "this and future" date move, and the propagation of changed fields.
  Selections lock their rows in the code; the sequential model reads them once.
\<close>

section \<open>Day arithmetic\<close>

text \<open>\<open>date.toordinal\<close>, the subtraction of two dates, and the addition of a signed number of days;
  \<open>None\<close> is the \<open>OverflowError\<close>.\<close>

definition toordinal :: "date \<Rightarrow> int" where
  "toordinal d =
     (let y = year d - 1 in
      365 * y + y div 4 - y div 100 + y div 400 + sum_list (map (days_in_month (year d)) [1 .. month d - 1]) + day d)"

primrec minus_days :: "nat \<Rightarrow> date \<Rightarrow> date option" where
  "minus_days 0 d = Some d"
| "minus_days (Suc n) d = (case prev_day d of None \<Rightarrow> None | Some e \<Rightarrow> minus_days n e)"

definition add_days :: "int \<Rightarrow> date \<Rightarrow> date option" where
  "add_days n d = (if 0 \<le> n then plus_days (nat n) d else minus_days (nat (- n)) d)"

section \<open>The siblings an edit may rewrite\<close>

definition series_sync_targets ::
  "store \<Rightarrow> int \<Rightarrow> int \<Rightarrow> transaction_type option \<Rightarrow> int option \<Rightarrow> date option \<Rightarrow> transaction list" where
  "series_sync_targets s org_id recurring_id type_filter exclude_id after =
     sort_key tx_date (sort_key tx_id (filter (\<lambda>t.
        tx_recurring_id t = Some recurring_id \<and> tx_org_id t = org_id \<and> tx_status t = PENDING \<and>
        tx_linked t = None \<and> \<not> reverted t \<and>
        \<not> list_ex (\<lambda>u. tx_org_id u = org_id \<and> tx_linked u = Some (tx_id t)) (transactions s) \<and>
        (case type_filter of None \<Rightarrow> True | Some ty \<Rightarrow> tx_type t = ty) \<and>
        (case exclude_id of None \<Rightarrow> True | Some i \<Rightarrow> tx_id t \<noteq> i) \<and>
        (case after of None \<Rightarrow> True | Some d \<Rightarrow> d < tx_date t)) (transactions s)))"

record series_date_move =
  sm_moves :: "(int \<times> date \<times> date option) list"
  sm_next_due_date :: date
  sm_last_spent_date :: date

text \<open>The walk of the old grid up to the frontier, and of the new grid for as many steps.\<close>

function walk_to ::
  "(int \<Rightarrow> int \<Rightarrow> date \<Rightarrow> date option) \<Rightarrow> frequency \<Rightarrow> date \<Rightarrow> date \<Rightarrow> (date list \<times> date) option" where
  "walk_to rd freq frontier d =
     (if d < frontier then
        (case next_occurrence rd d freq of
           None \<Rightarrow> None
         | Some nxt \<Rightarrow> map_option (\<lambda>(ds, e). (d # ds, e)) (walk_to rd freq frontier nxt))
      else Some ([], d))"
  by pat_completeness auto
termination
  by (relation "measure (\<lambda>(rd, freq, frontier, d). days_left d)")
     (auto intro: days_left_less next_occurrence_gt)

declare walk_to.simps [simp del]

primrec walk_steps ::
  "(int \<Rightarrow> int \<Rightarrow> date \<Rightarrow> date option) \<Rightarrow> frequency \<Rightarrow> nat \<Rightarrow> date \<Rightarrow> date list option" where
  "walk_steps rd freq 0 d = Some []"
| "walk_steps rd freq (Suc n) d =
     (case advance_date rd d freq of
        None \<Rightarrow> None
      | Some e \<Rightarrow> map_option ((#) e) (walk_steps rd freq n e))"

text \<open>A pending row's expected settlement keeps its offset from the row's own date.\<close>

definition move_row :: "(date \<times> date) list \<Rightarrow> transaction \<Rightarrow> (int \<times> date \<times> date option) list result" where
  "move_row slot t =
     (case map_of slot (tx_date t) of
        None \<Rightarrow> Inr []
      | Some new \<Rightarrow>
          (case tx_settled_date t of
             None \<Rightarrow> Inr [(tx_id t, new, None)]
           | Some sd \<Rightarrow>
               (case add_days (toordinal new - toordinal (tx_date t)) sd of
                  None \<Rightarrow> Inl calendar_error
                | Some sd' \<Rightarrow> Inr [(tx_id t, new, Some sd')])))"

primrec move_rows :: "(date \<times> date) list \<Rightarrow> transaction list \<Rightarrow> (int \<times> date \<times> date option) list result" where
  "move_rows slot [] = Inr []"
| "move_rows slot (t # ts) =
     rbind (move_row slot t) (\<lambda>m. rbind (move_rows slot ts) (\<lambda>ms. Inr (m @ ms)))"

definition plan_series_date_move ::
  "(int \<Rightarrow> int \<Rightarrow> date \<Rightarrow> date option) \<Rightarrow> store \<Rightarrow> int \<Rightarrow> template \<Rightarrow> int \<Rightarrow> date \<Rightarrow> date \<Rightarrow> transaction_type
     \<Rightarrow> date \<Rightarrow> series_date_move result" where
  "plan_series_date_move rd s org_id r row_id old_date new_date type today =
     (let freq = r_frequency r in
      case (advance_date rd old_date freq, advance_date rd new_date freq) of
        (Some after_old, Some after_new) \<Rightarrow>
     (rbind (guard (new_date < after_old \<and> old_date < after_new)
       (ValidationError ''Move it by less than one period'')) (\<lambda>_.
     rbind (frontier_lower_bound rd s org_id today) (\<lambda>p_start.
     rbind (guard (p_start \<le> new_date)
       (ValidationError ''A date applied to future occurrences cannot be earlier than the cycle start'')) (\<lambda>_.
     case walk_to rd freq (r_next_due_date r) after_old of
       None \<Rightarrow> Inl calendar_error
     | Some (old_grid, d) \<Rightarrow>
     rbind (guard (d = r_next_due_date r)
       (ValidationError ''This occurrence is not on the schedule of its series'')) (\<lambda>_.
     case walk_steps rd freq (length old_grid) new_date of
       None \<Rightarrow> Inl calendar_error
     | Some new_grid \<Rightarrow>
     let last_spent = (if new_grid = [] then new_date else last new_grid) in
     case advance_date rd last_spent freq of
       None \<Rightarrow> Inl calendar_error
     | Some new_frontier \<Rightarrow>
     rbind (move_rows (zip old_grid new_grid)
         (series_sync_targets s org_id (r_id r) (Some type) (Some row_id) (Some old_date))) (\<lambda>moves.
     let staying = map tx_date (filter (\<lambda>t. tx_org_id t = org_id \<and> tx_recurring_id t = Some (r_id r) \<and>
           tx_id t \<noteq> row_id \<and> tx_id t \<notin> set (map fst moves)) (transactions s));
         landing = new_date # map (fst \<circ> snd) moves
     in rbind (guard (\<not> list_ex (\<lambda>d. d \<in> set staying) landing)
          (ConflictError ''The series already has a transaction on that date'')) (\<lambda>_.
        rbind (guard (list_all (\<lambda>d. d < new_frontier) (staying @ landing))
          (ConflictError ''The series has a transaction on or after its moved next occurrence'')) (\<lambda>_.
        Inr \<lparr>sm_moves = moves, sm_next_due_date = new_frontier, sm_last_spent_date = last_spent\<rparr>))))))))
      | _ \<Rightarrow> Inl calendar_error)"

section \<open>Propagating changed fields\<close>

record series_fields =
  sf_description :: "string option"
  sf_category_id :: "int option"
  sf_tx_type :: transaction_type
  sf_account_id :: "int option"
  sf_description_was :: "string option"
  sf_category_was :: "int option"
  sf_account_was :: "int option"
  sf_amount :: "decimal option"
  sf_amount_was :: "decimal option"
  sf_amount_after :: "date option"
  sf_exclude_id :: "int option"
  sf_date_move :: "series_date_move option"

definition update_rows :: "(transaction \<Rightarrow> bool) \<Rightarrow> (transaction \<Rightarrow> transaction) \<Rightarrow> store \<Rightarrow> store" where
  "update_rows sel f s = s\<lparr>transactions := map (\<lambda>t. if sel t then f t else t) (transactions s)\<rparr>"

definition update_templates :: "(template \<Rightarrow> bool) \<Rightarrow> (template \<Rightarrow> template) \<Rightarrow> store \<Rightarrow> store" where
  "update_templates sel f s = s\<lparr>templates := map (\<lambda>r. if sel r then f r else r) (templates s)\<rparr>"

definition pending_sibling :: "int \<Rightarrow> int \<Rightarrow> transaction \<Rightarrow> bool" where
  "pending_sibling org_id recurring_id t \<longleftrightarrow>
     tx_recurring_id t = Some recurring_id \<and> tx_org_id t = org_id \<and> tx_status t = PENDING"

definition this_template :: "int \<Rightarrow> int \<Rightarrow> template \<Rightarrow> bool" where
  "this_template org_id recurring_id r \<longleftrightarrow> r_id r = recurring_id \<and> r_org_id r = org_id"

definition propagate_description :: "int \<Rightarrow> int \<Rightarrow> series_fields \<Rightarrow> store \<Rightarrow> store" where
  "propagate_description org_id rid fs s =
     (case sf_description fs of None \<Rightarrow> s | Some v \<Rightarrow>
        (let s1 = update_templates (this_template org_id rid) (\<lambda>r. r\<lparr>r_description := v\<rparr>) s in
         if sf_description_was fs = None
         then update_rows (pending_sibling org_id rid) (\<lambda>t. t\<lparr>tx_description := v\<rparr>) s1 else s1))"

definition propagate_category :: "int \<Rightarrow> int \<Rightarrow> series_fields \<Rightarrow> store \<Rightarrow> store" where
  "propagate_category org_id rid fs s =
     (case sf_category_id fs of None \<Rightarrow> s | Some v \<Rightarrow>
        (let s1 = update_templates (\<lambda>r. this_template org_id rid r \<and> r_type r = sf_tx_type fs) (\<lambda>r. r\<lparr>r_category_id := v\<rparr>) s in
         if sf_category_was fs = None
         then update_rows (\<lambda>t. pending_sibling org_id rid t \<and> tx_type t = sf_tx_type fs \<and> tx_linked t = None)
                (\<lambda>t. t\<lparr>tx_category_id := v\<rparr>) s1 else s1))"

definition propagate_account :: "int \<Rightarrow> int \<Rightarrow> series_fields \<Rightarrow> store \<Rightarrow> store" where
  "propagate_account org_id rid fs s =
     (case sf_account_id fs of None \<Rightarrow> s | Some v \<Rightarrow>
        (let s1 = update_templates (\<lambda>r. this_template org_id rid r \<and> r_type r \<noteq> TRANSFER) (\<lambda>r. r\<lparr>r_account_id := v\<rparr>) s in
         if sf_account_was fs = None
         then update_rows (\<lambda>t. pending_sibling org_id rid t \<and> tx_linked t = None) (\<lambda>t. t\<lparr>tx_account_id := v\<rparr>) s1
         else s1))"

definition propagate_template_values :: "int \<Rightarrow> int \<Rightarrow> series_fields \<Rightarrow> store \<Rightarrow> store" where
  "propagate_template_values org_id rid fs s =
     update_templates (this_template org_id rid)
       (\<lambda>r. (case sf_date_move fs of None \<Rightarrow> id | Some m \<Rightarrow>
               (\<lambda>r. r\<lparr>r_next_due_date := sm_next_due_date m, r_last_spent_date := Some (sm_last_spent_date m)\<rparr>))
            (case sf_amount fs of None \<Rightarrow> r | Some v \<Rightarrow> r\<lparr>r_amount := v\<rparr>)) s"

definition write_targets ::
  "int \<Rightarrow> transaction list \<Rightarrow> (transaction \<Rightarrow> transaction) \<Rightarrow> store \<Rightarrow> store" where
  "write_targets org_id targets f =
     update_rows (\<lambda>t. tx_id t \<in> set (map tx_id targets) \<and> tx_org_id t = org_id) f"

definition propagate_amount :: "int \<Rightarrow> int \<Rightarrow> series_fields \<Rightarrow> store \<Rightarrow> store" where
  "propagate_amount org_id rid fs s =
     (case sf_amount fs of None \<Rightarrow> s | Some v \<Rightarrow>
        write_targets org_id
          (filter (\<lambda>t. Some (tx_amount t) = sf_amount_was fs)
             (series_sync_targets s org_id rid (Some (sf_tx_type fs)) (sf_exclude_id fs) (sf_amount_after fs)))
          (\<lambda>t. t\<lparr>tx_amount := v\<rparr>) s)"

text \<open>The template call's guarded sync: only rows still holding the old value follow.\<close>

definition guarded_field ::
  "int \<Rightarrow> transaction list \<Rightarrow> 'v option \<Rightarrow> 'v option \<Rightarrow> ('v \<Rightarrow> transaction \<Rightarrow> bool)
     \<Rightarrow> ('v \<Rightarrow> transaction \<Rightarrow> transaction) \<Rightarrow> store \<Rightarrow> store" where
  "guarded_field org_id targets v was sel f s =
     (case (v, was) of
        (Some new, Some old) \<Rightarrow> write_targets org_id (filter (sel old) targets) (f new) s
      | _ \<Rightarrow> s)"

definition guarded_sync :: "int \<Rightarrow> int \<Rightarrow> series_fields \<Rightarrow> store \<Rightarrow> store" where
  "guarded_sync org_id rid fs s =
     (let targets = series_sync_targets s org_id rid None None None in
      guarded_field org_id targets (sf_account_id fs) (sf_account_was fs)
        (\<lambda>was t. tx_account_id t = was) (\<lambda>v t. t\<lparr>tx_account_id := v\<rparr>)
      (guarded_field org_id targets (sf_category_id fs) (sf_category_was fs)
        (\<lambda>was t. tx_category_id t = was \<and> tx_type t = sf_tx_type fs) (\<lambda>v t. t\<lparr>tx_category_id := v\<rparr>)
      (guarded_field org_id targets (sf_description fs) (sf_description_was fs)
        (\<lambda>was t. tx_description t = was) (\<lambda>v t. t\<lparr>tx_description := v\<rparr>) s)))"

definition apply_move :: "int \<Rightarrow> int \<times> date \<times> date option \<Rightarrow> store \<Rightarrow> store" where
  "apply_move org_id m =
     (case m of (i, new_date, new_settled) \<Rightarrow>
        update_rows (\<lambda>t. tx_id t = i \<and> tx_org_id t = org_id)
          (\<lambda>t. t\<lparr>tx_date := new_date, tx_settled_date := new_settled\<rparr>))"

definition propagate_fields_to_series :: "int \<Rightarrow> int \<Rightarrow> series_fields \<Rightarrow> store \<Rightarrow> store" where
  "propagate_fields_to_series org_id rid fs s =
     (let s1 = propagate_account org_id rid fs
                 (propagate_category org_id rid fs (propagate_description org_id rid fs s));
          s2 = (if sf_amount fs \<noteq> None \<or> sf_date_move fs \<noteq> None
                then propagate_template_values org_id rid fs s1 else s1);
          s3 = guarded_sync org_id rid fs (propagate_amount org_id rid fs s2)
      in (case sf_date_move fs of None \<Rightarrow> s3 | Some m \<Rightarrow> fold (apply_move org_id) (sm_moves m) s3))"

section \<open>A transfer's pending pairs\<close>

definition pending_legs :: "store \<Rightarrow> int \<Rightarrow> int \<Rightarrow> transaction list" where
  "pending_legs s org_id recurring_id =
     sort_key tx_id (filter (\<lambda>t.
       tx_org_id t = org_id \<and> tx_recurring_id t = Some recurring_id \<and> tx_status t = PENDING \<and>
       tx_linked t \<noteq> None \<and> \<not> reverted t \<and>
       \<not> list_ex (\<lambda>u. tx_org_id u = org_id \<and> tx_linked u = Some (tx_id t) \<and> Some (tx_id u) \<noteq> tx_linked t)
          (transactions s)) (transactions s))"

text \<open>\<open>r0\<close> is the template before the edit, \<open>r\<close> after it. Amount and category follow per pair, the
  name per leg, the accounts on their own leg and never onto the partner's account.\<close>

definition sync_amount :: "template \<Rightarrow> template \<Rightarrow> transaction \<times> transaction \<Rightarrow> transaction \<times> transaction" where
  "sync_amount r0 r = (\<lambda>(e, i).
     if tx_amount e = tx_amount i \<and> tx_amount i = r_amount r0
     then (e\<lparr>tx_amount := r_amount r\<rparr>, i\<lparr>tx_amount := r_amount r\<rparr>) else (e, i))"

definition sync_category :: "template \<Rightarrow> template \<Rightarrow> transaction \<times> transaction \<Rightarrow> transaction \<times> transaction" where
  "sync_category r0 r = (\<lambda>(e, i).
     if tx_category_id e = tx_category_id i \<and> tx_category_id i = r_category_id r0
     then (e\<lparr>tx_category_id := r_category_id r\<rparr>, i\<lparr>tx_category_id := r_category_id r\<rparr>) else (e, i))"

definition sync_name :: "template \<Rightarrow> template \<Rightarrow> transaction \<Rightarrow> transaction" where
  "sync_name r0 r leg =
     (if tx_description leg = r_description r0 then leg\<lparr>tx_description := r_description r\<rparr> else leg)"

definition sync_source :: "template \<Rightarrow> template \<Rightarrow> transaction \<times> transaction \<Rightarrow> transaction \<times> transaction" where
  "sync_source r0 r = (\<lambda>(e, i).
     if tx_account_id e = r_account_id r0 \<and> r_account_id r \<noteq> tx_account_id i
     then (e\<lparr>tx_account_id := r_account_id r\<rparr>, i) else (e, i))"

definition sync_destination :: "template \<Rightarrow> template \<Rightarrow> transaction \<times> transaction \<Rightarrow> transaction \<times> transaction" where
  "sync_destination r0 r = (\<lambda>(e, i).
     case r_to_account_id r of
       None \<Rightarrow> (e, i)
     | Some dest \<Rightarrow> if Some (tx_account_id i) = r_to_account_id r0 \<and> dest \<noteq> tx_account_id e
                    then (e, i\<lparr>tx_account_id := dest\<rparr>) else (e, i))"

definition sync_legs :: "template \<Rightarrow> template \<Rightarrow> transaction \<times> transaction \<Rightarrow> transaction \<times> transaction" where
  "sync_legs r0 r legs =
     sync_destination r0 r (sync_source r0 r
       (map_prod (sync_name r0 r) (sync_name r0 r) (sync_category r0 r (sync_amount r0 r legs))))"

definition sync_pair :: "template \<Rightarrow> template \<Rightarrow> int list \<Rightarrow> int \<Rightarrow> store \<Rightarrow> store" where
  "sync_pair r0 r leg_ids leg_id s =
     (case row_by tx_id (transactions s) leg_id of
        None \<Rightarrow> s
      | Some e \<Rightarrow>
          (case tx_linked e of
             None \<Rightarrow> s
           | Some j \<Rightarrow>
               (case (if j \<in> set leg_ids then row_by tx_id (transactions s) j else None) of
                  None \<Rightarrow> s
                | Some i \<Rightarrow>
                    if tx_type e \<noteq> EXPENSE \<or> \<not> is_reciprocal_pair e (Some i) then s
                    else (case sync_legs r0 r (e, i) of (e', i') \<Rightarrow> put_transaction i' (put_transaction e' s)))))"

definition sync_pending_transfer_pairs :: "store \<Rightarrow> int \<Rightarrow> template \<Rightarrow> template \<Rightarrow> store result" where
  "sync_pending_transfer_pairs s org_id r0 r =
     rbind (refuse_card_or_loan_source
       (case find_account s (r_account_id r) org_id of None \<Rightarrow> None | Some a \<Rightarrow> acc_type_slug a)) (\<lambda>_.
     let ids = map tx_id (pending_legs s org_id (r_id r)) in
     Inr (fold (sync_pair r0 r ids) ids s))"

section \<open>The frontier of an edited template\<close>

text \<open>The last occurrence the series spent; a template that spent before the column existed is
  bounded by the day before the frontier it replaces.\<close>

definition spent_dates :: "template \<Rightarrow> date \<Rightarrow> date list result" where
  "spent_dates r old_next_due =
     (case r_last_spent_date r of
        Some d \<Rightarrow> Inr [d]
      | None \<Rightarrow> if r_occurrences_elapsed r \<noteq> 0
                then (case prev_day old_next_due of None \<Rightarrow> Inl calendar_error | Some d \<Rightarrow> Inr [d])
                else Inr [])"

definition clears_bound ::
  "(int \<Rightarrow> int \<Rightarrow> date \<Rightarrow> date option) \<Rightarrow> template \<Rightarrow> date \<Rightarrow> date \<Rightarrow> unit result" where
  "clears_bound rd r old_next_due bound =
     (case advance_date rd bound (r_frequency r) of
        None \<Rightarrow> Inl calendar_error
      | Some floor_date \<Rightarrow>
          let new = r_next_due_date r in
          if bound < new \<and> (floor_date \<le> new \<or> old_next_due \<le> new) then Inr ()
          else (case next_day bound of
                  None \<Rightarrow> Inl calendar_error
                | Some _ \<Rightarrow> Inl (ConflictError ''The next due date does not clear the series'')))"

definition check_frontier_clears_series ::
  "(int \<Rightarrow> int \<Rightarrow> date \<Rightarrow> date option) \<Rightarrow> store \<Rightarrow> int \<Rightarrow> template \<Rightarrow> date \<Rightarrow> unit result" where
  "check_frontier_clears_series rd s org_id r old_next_due =
     rbind (spent_dates r old_next_due) (\<lambda>spent.
     let dates = map tx_date (filter (\<lambda>t. tx_org_id t = org_id \<and> tx_recurring_id t = Some (r_id r)) (transactions s)) @ spent
     in if dates = [] then Inr () else clears_bound rd r old_next_due (Max (set dates)))"

definition MAX_FRONTIER_ADVANCE_STEPS :: nat where
  "MAX_FRONTIER_ADVANCE_STEPS = 1200"

text \<open>The first argument is the number of steps the cap leaves; running out of it is the logged
  \<open>break\<close>, which leaves the frontier where it got to.\<close>

primrec reanchor_walk ::
  "nat \<Rightarrow> (int \<Rightarrow> int \<Rightarrow> date \<Rightarrow> date option) \<Rightarrow> date \<Rightarrow> template \<Rightarrow> template result" where
  "reanchor_walk 0 rd p_start r = Inr r"
| "reanchor_walk (Suc n) rd p_start r =
     (if r_next_due_date r < p_start
      then (case advance_date rd (r_next_due_date r) (r_frequency r) of
              None \<Rightarrow> Inl calendar_error
            | Some d \<Rightarrow> reanchor_walk n rd p_start (r\<lparr>r_next_due_date := d\<rparr>))
      else Inr r)"

definition reanchor_frontier_on_resume ::
  "(int \<Rightarrow> int \<Rightarrow> date \<Rightarrow> date option) \<Rightarrow> store \<Rightarrow> int \<Rightarrow> template \<Rightarrow> date \<Rightarrow> template result" where
  "reanchor_frontier_on_resume rd s org_id r today =
     rbind (frontier_lower_bound rd s org_id today) (\<lambda>p_start.
     reanchor_walk MAX_FRONTIER_ADVANCE_STEPS rd p_start r)"

section \<open>Editing a template\<close>

text \<open>\<open>ru_occurrence_count\<close> tells an omitted key (\<open>None\<close>) from an explicit null (\<open>Some None\<close>).\<close>

record recurring_update =
  ru_account_id :: "int option"
  ru_to_account_id :: "int option"
  ru_category_id :: "int option"
  ru_description :: "string option"
  ru_amount :: "decimal option"
  ru_type :: "transaction_type option"
  ru_frequency :: "frequency option"
  ru_next_due_date :: "date option"
  ru_auto_settle :: "bool option"
  ru_is_active :: "bool option"
  ru_occurrence_count :: "int option option"

definition given :: "'a option \<Rightarrow> 'a \<Rightarrow> 'a" where
  "given v old = (case v of None \<Rightarrow> old | Some x \<Rightarrow> x)"

definition with_accounts :: "recurring_update \<Rightarrow> template \<Rightarrow> template" where
  "with_accounts body r =
     r\<lparr>r_account_id := given (ru_account_id body) (r_account_id r),
       r_to_account_id := (case ru_to_account_id body of None \<Rightarrow> r_to_account_id r | Some i \<Rightarrow> Some i)\<rparr>"

definition with_fields :: "recurring_update \<Rightarrow> template \<Rightarrow> template" where
  "with_fields body r =
     r\<lparr>r_description := given (ru_description body) (r_description r),
       r_amount := given (ru_amount body) (r_amount r),
       r_frequency := given (ru_frequency body) (r_frequency r),
       r_next_due_date := given (ru_next_due_date body) (r_next_due_date r),
       r_auto_settle := given (ru_auto_settle body) (r_auto_settle r),
       r_is_active := given (ru_is_active body) (r_is_active r),
       r_occurrence_count := given (ru_occurrence_count body) (r_occurrence_count r)\<rparr>"

definition with_type_and_category ::
  "store \<Rightarrow> int \<Rightarrow> recurring_update \<Rightarrow> template \<Rightarrow> template result" where
  "with_type_and_category s org_id body r =
     rbind (guard (\<not> (ru_type body \<noteq> None \<and> ru_type body \<noteq> Some (r_type r) \<and> r_type r = TRANSFER))
       (ValidationError ''A recurring transfer cannot change type. Stop it and create a new series.'')) (\<lambda>_.
     if ru_type body \<noteq> None \<or> ru_category_id body \<noteq> None
     then
       let ty = given (ru_type body) (r_type r); cid = given (ru_category_id body) (r_category_id r) in
       rbind (validate_category_for_type s cid org_id ty) (\<lambda>_.
       Inr (r\<lparr>r_type := ty, r_category_id := cid\<rparr>))
     else Inr r)"

definition changed :: "'a \<Rightarrow> 'a \<Rightarrow> 'a option" where
  "changed old new = (if new \<noteq> old then Some new else None)"

text \<open>The fields of an edited template its pending occurrences follow.\<close>

definition template_sync_fields :: "template \<Rightarrow> template \<Rightarrow> series_fields" where
  "template_sync_fields r0 r =
     \<lparr>sf_description = changed (r_description r0) (r_description r),
      sf_category_id = (if r_type r = r_type r0 then changed (r_category_id r0) (r_category_id r) else None),
      sf_tx_type = r_type r0,
      sf_account_id = changed (r_account_id r0) (r_account_id r),
      sf_description_was = Some (r_description r0), sf_category_was = Some (r_category_id r0),
      sf_account_was = Some (r_account_id r0),
      sf_amount = changed (r_amount r0) (r_amount r), sf_amount_was = Some (r_amount r0),
      sf_amount_after = None, sf_exclude_id = None, sf_date_move = None\<rparr>"

definition edited_template ::
  "(int \<Rightarrow> int \<Rightarrow> date \<Rightarrow> date option) \<Rightarrow> store \<Rightarrow> int \<Rightarrow> template \<Rightarrow> recurring_update \<Rightarrow> date
     \<Rightarrow> template result" where
  "edited_template rd s org_id r0 body today =
     rbind (case ru_account_id body of None \<Rightarrow> Inr () | Some a \<Rightarrow> validate_account s a org_id) (\<lambda>_.
     let r1 = with_accounts body r0 in
     rbind (if ru_account_id body \<noteq> None \<or> ru_to_account_id body \<noteq> None
            then validate_transfer_accounts s org_id (r_type r1) (r_account_id r1) (r_to_account_id r1)
            else Inr ()) (\<lambda>_.
     rbind (with_type_and_category s org_id body (with_fields body r1)) (\<lambda>r2.
     let resumed_by_activation = (ru_is_active body = Some True \<and> \<not> r_is_active r0);
         unexhausted = (has_remaining_occurrences r2 \<and> \<not> has_remaining_occurrences r0)
     in rbind (if resumed_by_activation \<or> unexhausted
               then reanchor_frontier_on_resume rd s org_id r2 today else Inr r2) (\<lambda>r3.
     rbind (if ru_next_due_date body \<noteq> None \<or> ru_frequency body \<noteq> None
            then validate_frontier rd s org_id (r_next_due_date r3) today else Inr today) (\<lambda>_.
     rbind (if ru_next_due_date body \<noteq> None \<and> r_next_due_date r3 \<noteq> r_next_due_date r0
            then check_frontier_clears_series rd s org_id r3 (r_next_due_date r0) else Inr ()) (\<lambda>_.
     Inr r3))))))"

definition update_recurring ::
  "(int \<Rightarrow> int \<Rightarrow> date \<Rightarrow> date option) \<Rightarrow> store \<Rightarrow> int \<Rightarrow> int \<Rightarrow> recurring_update \<Rightarrow> date
     \<Rightarrow> (store \<times> template) result" where
  "update_recurring rd s org_id recurring_id body today =
     (case find_template s recurring_id org_id of
        None \<Rightarrow> Inl (NotFoundError ''Recurring transaction'')
      | Some r0 \<Rightarrow>
     rbind (edited_template rd s org_id r0 body today) (\<lambda>r.
     let fs = template_sync_fields r0 r;
         s1 = put_template r s;
         s2 = (if sf_amount fs \<noteq> None \<or> sf_description fs \<noteq> None \<or> sf_category_id fs \<noteq> None \<or> sf_account_id fs \<noteq> None
               then propagate_fields_to_series org_id recurring_id fs s1 else s1)
     in rbind (if r_type r = TRANSFER \<and>
                  (sf_amount fs \<noteq> None \<or> sf_description fs \<noteq> None \<or> sf_account_id fs \<noteq> None \<or>
                   r_category_id r \<noteq> r_category_id r0 \<or> r_to_account_id r \<noteq> r_to_account_id r0)
               then sync_pending_transfer_pairs s2 org_id r0 r else Inr s2) (\<lambda>s3.
     Inr (s3, r))))"

end
