(* ===== verification/TxUpdate.thy ===== *)
theory TxUpdate
  imports SeriesEdit
begin

text \<open>
  \<open>services/transaction_service.py\<close>: editing one transaction (\<open>update_transaction\<close>, with the
  mirror onto a transfer partner, the gated balance moves and the "this and future" scope) and
  promoting a transaction into a series (\<open>promote_to_recurring\<close>). Learning a category rule
  after the commit is not modelled. \<open>today\<close> is \<open>date.today()\<close>.
\<close>

section \<open>The request\<close>

text \<open>\<open>tu_settled_date\<close> tells an omitted key (\<open>None\<close>) from an explicit null (\<open>Some None\<close>).\<close>

record tx_update =
  tu_account_id :: "int option"
  tu_category_id :: "int option"
  tu_description :: "string option"
  tu_amount :: "decimal option"
  tu_type :: "transaction_type option"
  tu_status :: "transaction_status option"
  tu_settled_date :: "date option option"
  tu_date :: "date option"
  tu_future :: bool

definition body_settled_date :: "tx_update \<Rightarrow> date option" where
  "body_settled_date body = (case tu_settled_date body of None \<Rightarrow> None | Some d \<Rightarrow> d)"

section \<open>The guards before any write\<close>

text \<open>The locked row, the row its link names and the reciprocal partner.\<close>

definition linked_row :: "store \<Rightarrow> int \<Rightarrow> transaction \<Rightarrow> transaction option" where
  "linked_row s org_id t = (case tx_linked t of None \<Rightarrow> None | Some i \<Rightarrow> org_row s org_id i)"

definition pair_partner :: "store \<Rightarrow> int \<Rightarrow> transaction \<Rightarrow> transaction option" where
  "pair_partner s org_id t =
     (if is_reciprocal_pair t (linked_row s org_id t) then linked_row s org_id t else None)"

definition row_guards ::
  "(int \<Rightarrow> int \<Rightarrow> date \<Rightarrow> date option) \<Rightarrow> store \<Rightarrow> int \<Rightarrow> tx_update \<Rightarrow> transaction \<Rightarrow> date \<Rightarrow> unit result" where
  "row_guards rd s org_id body t today =
     rbind (guard (\<not> tx_is_manual_adjustment t)
       (ValidationError ''Manual balance adjustments cannot be edited'')) (\<lambda>_.
     let moved = (case tu_date body of None \<Rightarrow> False | Some d \<Rightarrow> d \<noteq> tx_date t) in
     rbind (guard (\<not> (moved \<and> tx_recurring_id t \<noteq> None \<and> reverted t))
       (ValidationError ''The date of a skipped or rejected transaction cannot be changed'')) (\<lambda>_.
     rbind (case (tu_date body, tx_recurring_id t) of
              (Some d, Some rid) \<Rightarrow>
                if d \<noteq> tx_date t \<and> \<not> tu_future body
                then refuse_row_date_at_frontier rd s org_id rid d today else Inr ()
            | _ \<Rightarrow> Inr ()) (\<lambda>_.
     guard (\<not> (tx_linked t \<noteq> None \<and> linked_row s org_id t = None))
       (ConflictError ''Transaction state changed; refresh and retry''))))"

definition currency_of :: "store \<Rightarrow> int \<Rightarrow> string option" where
  "currency_of s account_id = map_option acc_currency (row_by acc_id (accounts s) account_id)"

definition leg_guards :: "store \<Rightarrow> int \<Rightarrow> tx_update \<Rightarrow> transaction \<Rightarrow> transaction option \<Rightarrow> unit result" where
  "leg_guards s org_id body t partner =
     (case partner of
        None \<Rightarrow>
          (case tu_account_id body of
             None \<Rightarrow> Inr ()
           | Some a \<Rightarrow> if a \<noteq> tx_account_id t then validate_account s a org_id else Inr ())
      | Some p \<Rightarrow>
          rbind (guard (tu_type body = None) (ValidationError ''Type is immutable on transfer legs'')) (\<lambda>_.
          case tu_account_id body of
            None \<Rightarrow> Inr ()
          | Some a \<Rightarrow>
              (case find_account s a org_id of
                 None \<Rightarrow> Inl (ValidationError ''Account not found'')
               | Some acc \<Rightarrow>
                   rbind (guard (acc_id acc \<noteq> tx_account_id p)
                     (ValidationError ''Account must differ from the account of the partner'')) (\<lambda>_.
                   guard (Some (acc_currency acc) = currency_of s (tx_account_id p))
                     (ValidationError ''New account currency must match the currency of the partner'')))))"

text \<open>"This and future": the template and, when the date moves, the plan for its siblings.\<close>

definition future_scope ::
  "(int \<Rightarrow> int \<Rightarrow> date \<Rightarrow> date option) \<Rightarrow> store \<Rightarrow> int \<Rightarrow> tx_update \<Rightarrow> transaction \<Rightarrow> date
     \<Rightarrow> (template \<times> series_date_move option) option result" where
  "future_scope rd s org_id body t today =
     (if \<not> tu_future body then Inr None
      else case tx_recurring_id t of
        None \<Rightarrow> Inl (ValidationError ''Only a recurring transaction can apply a change to its future occurrences'')
      | Some rid \<Rightarrow>
     rbind (guard (tx_status t = PENDING)
       (ValidationError ''Only a pending occurrence can apply a change to its future occurrences'')) (\<lambda>_.
     rbind (guard (\<not> reverted t)
       (ValidationError ''A skipped or rejected occurrence cannot apply a change to its future occurrences'')) (\<lambda>_.
     rbind (guard (tx_linked t = None)
       (ValidationError ''A linked transaction cannot apply a change to its future occurrences'')) (\<lambda>_.
     rbind (guard (tu_type body = None \<or> tu_type body = Some (tx_type t))
       (ValidationError ''A type change applies to this occurrence only'')) (\<lambda>_.
     case find_template s rid org_id of
       None \<Rightarrow> Inl (PyValueError ''No row was found when one was required'')
     | Some r \<Rightarrow>
     rbind (guard (r_type r = tx_type t)
       (ValidationError ''The type of this occurrence differs from its series'')) (\<lambda>_.
     case tu_date body of
       None \<Rightarrow> Inr (Some (r, None))
     | Some d \<Rightarrow>
         if d = tx_date t then Inr (Some (r, None))
         else rbind (plan_series_date_move rd s org_id r (tx_id t) (tx_date t) d (tx_type t) today)
                (\<lambda>m. Inr (Some (r, Some m)))))))))"

section \<open>The edited rows\<close>

definition apply_field_updates :: "tx_update \<Rightarrow> transaction \<Rightarrow> transaction" where
  "apply_field_updates body t =
     t\<lparr>tx_description := given (tu_description body) (tx_description t),
       tx_amount := given (tu_amount body) (tx_amount t),
       tx_type := given (tu_type body) (tx_type t),
       tx_date := given (tu_date body) (tx_date t)\<rparr>"

definition settled_after :: "tx_update \<Rightarrow> transaction \<Rightarrow> date \<Rightarrow> date option" where
  "settled_after body t today =
     (if given (tu_status body) (tx_status t) = SETTLED then
        (case body_settled_date body of
           Some d \<Rightarrow> Some d
         | None \<Rightarrow> if tx_status t \<noteq> SETTLED then Some today else tx_settled_date t)
      else
        (case tu_settled_date body of
           Some d \<Rightarrow> d
         | None \<Rightarrow> if tu_status body \<noteq> None \<and> tx_status t = SETTLED then None else tx_settled_date t))"

definition edited_row :: "tx_update \<Rightarrow> transaction \<Rightarrow> date \<Rightarrow> transaction" where
  "edited_row body t today =
     (apply_field_updates body t)
       \<lparr>tx_category_id := given (tu_category_id body) (tx_category_id t),
        tx_account_id := given (tu_account_id body) (tx_account_id t),
        tx_status := given (tu_status body) (tx_status t),
        tx_settled_date := settled_after body t today\<rparr>"

text \<open>The category, the expected settlement and the amount mirror onto the partner.\<close>

definition mirrored_settlement ::
  "tx_update \<Rightarrow> transaction \<Rightarrow> transaction \<Rightarrow> transaction \<Rightarrow> transaction result" where
  "mirrored_settlement body t u p =
     (if tu_settled_date body \<noteq> None \<and> tx_status u = PENDING \<and> tx_status p = PENDING \<and>
         tx_settled_date u \<noteq> tx_settled_date t
      then rbind (guard (case tx_settled_date u of None \<Rightarrow> True | Some d \<Rightarrow> tx_date p \<le> d)
             (ValidationError ''settled_date must be on or after the date of the other leg'')) (\<lambda>_.
           Inr (p\<lparr>tx_settled_date := tx_settled_date u\<rparr>))
      else Inr p)"

definition mirrored_partner ::
  "tx_update \<Rightarrow> transaction \<Rightarrow> transaction \<Rightarrow> transaction \<Rightarrow> transaction result" where
  "mirrored_partner body t u p =
     rbind (mirrored_settlement body t u (p\<lparr>tx_category_id := given (tu_category_id body) (tx_category_id p)\<rparr>)) (\<lambda>p1.
     Inr (p1\<lparr>tx_amount := given (tu_amount body) (tx_amount p1)\<rparr>))"

definition shifted_settlement ::
  "tx_update \<Rightarrow> transaction \<Rightarrow> transaction \<Rightarrow> bool \<Rightarrow> transaction result" where
  "shifted_settlement body t u moving =
     (case tx_settled_date t of
        Some old \<Rightarrow>
          if moving \<and> tx_status u = PENDING \<and> body_settled_date body \<in> {None, Some old}
          then (case add_days (toordinal (tx_date u) - toordinal (tx_date t)) old of
                  None \<Rightarrow> Inl calendar_error
                | Some d \<Rightarrow> Inr (u\<lparr>tx_settled_date := Some d\<rparr>))
          else Inr u
      | None \<Rightarrow> Inr u)"

definition date_order :: "transaction \<Rightarrow> unit result" where
  "date_order u =
     guard (case tx_settled_date u of None \<Rightarrow> True | Some d \<Rightarrow> tx_date u \<le> d)
       (ValidationError ''settled_date must be on or after date'')"

definition edited_rows ::
  "tx_update \<Rightarrow> transaction \<Rightarrow> transaction option \<Rightarrow> bool \<Rightarrow> date
     \<Rightarrow> (transaction \<times> transaction option) result" where
  "edited_rows body t partner moving today =
     (let u = edited_row body t today in
      rbind (case partner of
               None \<Rightarrow> Inr None
             | Some p \<Rightarrow> rbind (mirrored_partner body t u p) (\<lambda>q. Inr (Some q))) (\<lambda>partner'.
      rbind (shifted_settlement body t u moving) (\<lambda>u'.
      rbind (date_order u') (\<lambda>_. Inr (u', partner')))))"

section \<open>The balances\<close>

definition locked_accounts :: "tx_update \<Rightarrow> transaction \<Rightarrow> transaction option \<Rightarrow> int list" where
  "locked_accounts body t partner =
     sort (remdups
       ((if tx_status t = SETTLED \<or> given (tu_status body) (tx_status t) = SETTLED
         then [tx_account_id t, given (tu_account_id body) (tx_account_id t)] else []) @
        (case partner of
           None \<Rightarrow> []
         | Some p \<Rightarrow> if tu_amount body \<noteq> None \<and> tx_status p = SETTLED then [tx_account_id p] else [])))"

definition move_if ::
  "bool \<Rightarrow> (account \<Rightarrow> decimal \<Rightarrow> transaction_type \<Rightarrow> account result) \<Rightarrow> int \<Rightarrow> transaction \<Rightarrow> store \<Rightarrow> store result" where
  "move_if c f org_id t s =
     (if c then move_on_account f org_id (tx_account_id t) (tx_amount t) (tx_type t) s else Inr s)"

definition move_balances ::
  "store \<Rightarrow> int \<Rightarrow> tx_update \<Rightarrow> transaction \<Rightarrow> transaction \<Rightarrow> transaction option \<Rightarrow> transaction option
     \<Rightarrow> transaction option \<Rightarrow> store result" where
  "move_balances s org_id body t u linked partner partner' =
     (let counts = contributes_to_cached_balance t linked;
          mirrors = (\<lambda>p. tu_amount body \<noteq> None \<and> tx_status p = SETTLED \<and> contributes_to_cached_balance p (Some t))
      in rbind (move_if (tx_status t = SETTLED \<and> counts) revert_balance org_id t s) (\<lambda>s1.
         rbind (case partner of None \<Rightarrow> Inr s1 | Some p \<Rightarrow> move_if (mirrors p) revert_balance org_id p s1) (\<lambda>s2.
         rbind (move_if (tx_status u = SETTLED \<and> counts) apply_balance org_id u s2) (\<lambda>s3.
         case (partner, partner') of
           (Some p, Some q) \<Rightarrow> move_if (mirrors p) apply_balance org_id q s3
         | _ \<Rightarrow> Inr s3))))"

definition pair_invariants :: "store \<Rightarrow> transaction \<Rightarrow> transaction \<Rightarrow> unit result" where
  "pair_invariants s u p =
     rbind (guard (tx_org_id u = tx_org_id p) (ValidationError ''Pair org mismatch after edit'')) (\<lambda>_.
     rbind (guard (tx_account_id u \<noteq> tx_account_id p) (ValidationError ''Pair on same account after edit'')) (\<lambda>_.
     rbind (guard (\<bar>tx_amount u\<bar> = \<bar>tx_amount p\<bar>) (ValidationError ''Pair amount mismatch after edit'')) (\<lambda>_.
     rbind (guard ({tx_type u, tx_type p} = {EXPENSE, INCOME}) (ValidationError ''Pair must have opposite types after edit'')) (\<lambda>_.
     guard (currency_of s (tx_account_id u) = currency_of s (tx_account_id p))
       (ValidationError ''Pair currencies differ after edit'')))))"

section \<open>The edit\<close>

definition occurrence_sync_fields ::
  "tx_update \<Rightarrow> transaction \<Rightarrow> transaction \<Rightarrow> (template \<times> series_date_move option) option \<Rightarrow> series_fields" where
  "occurrence_sync_fields body t u scope =
     \<lparr>sf_description = (if tu_description body \<noteq> None then changed (tx_description t) (tx_description u) else None),
      sf_category_id = (if tu_category_id body \<noteq> None then changed (tx_category_id t) (tx_category_id u) else None),
      sf_tx_type = tx_type u,
      sf_account_id = (if tu_account_id body \<noteq> None then changed (tx_account_id t) (tx_account_id u) else None),
      sf_description_was = None, sf_category_was = None, sf_account_was = None,
      sf_amount = (if scope \<noteq> None then changed (tx_amount t) (tx_amount u) else None),
      sf_amount_was = map_option (\<lambda>p. r_amount (fst p)) scope,
      sf_amount_after = Some (tx_date t), sf_exclude_id = Some (tx_id u),
      sf_date_move = (case scope of None \<Rightarrow> None | Some p \<Rightarrow> snd p)\<rparr>"

definition sync_series ::
  "int \<Rightarrow> tx_update \<Rightarrow> transaction \<Rightarrow> transaction \<Rightarrow> (template \<times> series_date_move option) option \<Rightarrow> store \<Rightarrow> store" where
  "sync_series org_id body t u scope s =
     (case tx_recurring_id u of
        None \<Rightarrow> s
      | Some rid \<Rightarrow>
          let fs = occurrence_sync_fields body t u scope in
          if sf_description fs \<noteq> None \<or> sf_category_id fs \<noteq> None \<or> sf_account_id fs \<noteq> None \<or>
             sf_amount fs \<noteq> None \<or> sf_date_move fs \<noteq> None
          then propagate_fields_to_series org_id rid fs s else s)"

definition check_categories ::
  "store \<Rightarrow> int \<Rightarrow> tx_update \<Rightarrow> transaction \<Rightarrow> transaction option \<Rightarrow> unit result" where
  "check_categories s org_id body t partner =
     (let cid = given (tu_category_id body) (tx_category_id t); ty = given (tu_type body) (tx_type t) in
      rbind (if tu_category_id body \<noteq> None \<or> tu_type body \<noteq> None
             then validate_category_for_type s cid org_id ty else Inr ()) (\<lambda>_.
      if partner \<noteq> None \<and> tu_category_id body \<noteq> None then validate_transfer_category s cid org_id else Inr ()))"

definition put_partner :: "transaction option \<Rightarrow> store \<Rightarrow> store" where
  "put_partner q s = (case q of None \<Rightarrow> s | Some p \<Rightarrow> put_transaction p s)"

definition update_transaction ::
  "(int \<Rightarrow> int \<Rightarrow> date \<Rightarrow> date option) \<Rightarrow> store \<Rightarrow> int \<Rightarrow> int \<Rightarrow> tx_update \<Rightarrow> date
     \<Rightarrow> (store \<times> transaction) result" where
  "update_transaction rd s org_id transaction_id body today =
     rbind (guard (tu_type body \<noteq> Some TRANSFER) (HTTP422 ''Input should be income or expense'')) (\<lambda>_.
     case org_row s org_id transaction_id of
        None \<Rightarrow> Inl (NotFoundError ''Transaction'')
      | Some t \<Rightarrow>
     rbind (row_guards rd s org_id body t today) (\<lambda>_.
     let linked = linked_row s org_id t; partner = pair_partner s org_id t in
     rbind (leg_guards s org_id body t partner) (\<lambda>_.
     rbind (future_scope rd s org_id body t today) (\<lambda>scope.
     rbind (check_categories s org_id body t partner) (\<lambda>_.
     rbind (lock_accounts s org_id (locked_accounts body t partner)) (\<lambda>_.
     let moving = (case scope of None \<Rightarrow> False | Some p \<Rightarrow> snd p \<noteq> None) in
     rbind (edited_rows body t partner moving today) (\<lambda>(u, partner').
     rbind (move_balances s org_id body t u linked partner partner') (\<lambda>s1.
     let s2 = put_partner partner' (put_transaction u s1) in
     rbind (case partner' of None \<Rightarrow> Inr () | Some q \<Rightarrow> pair_invariants s2 u q) (\<lambda>_.
     Inr (sync_series org_id body t u scope s2, u))))))))))"

section \<open>Promoting a transaction\<close>

record promote_request =
  pm_frequency :: frequency
  pm_next_due_date :: date
  pm_auto_settle :: bool
  pm_occurrence_count :: "int option"

definition promote_to_recurring ::
  "(int \<Rightarrow> int \<Rightarrow> date \<Rightarrow> date option) \<Rightarrow> store \<Rightarrow> int \<Rightarrow> int \<Rightarrow> promote_request \<Rightarrow> date
     \<Rightarrow> (store \<times> transaction) result" where
  "promote_to_recurring rd s org_id transaction_id body today =
     rbind (validate_frontier rd s org_id (pm_next_due_date body) today) (\<lambda>_.
     case org_row s org_id transaction_id of
       None \<Rightarrow> Inl (NotFoundError ''Transaction'')
     | Some t \<Rightarrow>
     rbind (guard (tx_linked t = None) (ValidationError ''Cannot make a linked transaction recurring'')) (\<lambda>_.
     rbind (guard (\<not> reverted t) (ValidationError ''Cannot make a skipped or rejected transaction recurring.'')) (\<lambda>_.
     rbind (guard (\<not> tx_is_manual_adjustment t)
       (ValidationError ''Cannot promote a manual balance adjustment to recurring'')) (\<lambda>_.
     rbind (guard (tx_recurring_id t = None)
       (ValidationError ''Transaction is already linked to a recurring template'')) (\<lambda>_.
     let before = (pm_next_due_date body \<le> tx_date t);
         r = \<lparr>r_id = next_id s, r_org_id = org_id, r_account_id = tx_account_id t, r_to_account_id = None,
           r_category_id = tx_category_id t, r_description = tx_description t, r_amount = tx_amount t,
           r_type = tx_type t, r_frequency = pm_frequency body, r_next_due_date = pm_next_due_date body,
           r_auto_settle = pm_auto_settle body, r_is_active = True,
           r_occurrence_count = pm_occurrence_count body,
           r_occurrences_elapsed = (if before then 0 else 1),
           r_last_spent_date = (if before then None else Some (tx_date t))\<rparr>;
         u = t\<lparr>tx_recurring_id := Some (r_id r)\<rparr>
     in Inr (put_transaction u (s\<lparr>templates := templates s @ [r], next_id := next_id s + 1\<rparr>), u))))))"

end
