(* ===== verification/Transfers.thy ===== *)
theory Transfers
  imports TxUpdate
begin

text \<open>
  \<open>services/transaction_service.py\<close>: creating the missing leg of a transfer
  (\<open>convert_and_create_leg\<close>), and the detectors that propose pairs and flag duplicates, one row
  at a time and batched over a whole file.
\<close>

section \<open>Creating the missing leg\<close>

definition convert_guards :: "store \<Rightarrow> int \<Rightarrow> transaction \<Rightarrow> int \<Rightarrow> unit result" where
  "convert_guards s org_id source destination_account_id =
     rbind (guard (tx_linked source = None) (ValidationError ''Source row is already a transfer leg'')) (\<lambda>_.
     rbind (guard (tx_recurring_id source = None)
       (ValidationError ''Recurring rows cannot be converted to transfer legs'')) (\<lambda>_.
     rbind (guard (\<not> tx_is_manual_adjustment source)
       (ValidationError ''Cannot convert a manual balance adjustment to a transfer leg'')) (\<lambda>_.
     rbind (guard (\<not> reverted source)
       (ValidationError ''This row was skipped or rejected in import review'')) (\<lambda>_.
     rbind (guard (tx_account_id source \<noteq> destination_account_id)
       (ValidationError ''Source and destination accounts must differ'')) (\<lambda>_.
     case find_account s destination_account_id org_id of
       None \<Rightarrow> Inl (NotFoundError ''Account'')
     | Some dst \<Rightarrow>
         (case find_account s (tx_account_id source) org_id of
            None \<Rightarrow> Inl (PyValueError ''no attribute currency'')
          | Some src \<Rightarrow> guard (acc_currency src = acc_currency dst)
              (ValidationError ''Source and destination accounts must have the same currency'')))))))"

definition partner_leg :: "store \<Rightarrow> int \<Rightarrow> transaction \<Rightarrow> int \<Rightarrow> transaction" where
  "partner_leg s org_id source destination_account_id =
     \<lparr>tx_id = next_id s, tx_org_id = org_id, tx_account_id = destination_account_id,
      tx_category_id = tx_category_id source, tx_description = tx_description source,
      tx_amount = tx_amount source, tx_type = (if tx_type source = EXPENSE then INCOME else EXPENSE),
      tx_status = tx_status source, tx_linked = None, tx_recurring_id = None, tx_recurring_origin_id = None,
      tx_date = tx_date source, tx_settled_date = tx_settled_date source, tx_is_imported = False,
      tx_import_batch_id = None, tx_recon = accepted, tx_fitid = None, tx_is_manual_adjustment = False\<rparr>"

definition convert_and_create_leg ::
  "store \<Rightarrow> int \<Rightarrow> int \<Rightarrow> int \<Rightarrow> bool \<Rightarrow> int option \<Rightarrow> (store \<times> transaction \<times> transaction) result" where
  "convert_and_create_leg s org_id source_tx_id destination_account_id recategorize transfer_category_id =
     (case org_row s org_id source_tx_id of
        None \<Rightarrow> Inl (NotFoundError ''Transaction'')
      | Some source \<Rightarrow>
     rbind (convert_guards s org_id source destination_account_id) (\<lambda>_.
     rbind (lock_accounts s org_id [min (tx_account_id source) destination_account_id,
                                    max (tx_account_id source) destination_account_id]) (\<lambda>_.
     let partner = partner_leg s org_id source destination_account_id;
         s1 = add_transaction partner s
     in
     rbind (if tx_status partner = SETTLED
            then move_on_account apply_balance org_id destination_account_id (tx_amount partner) (tx_type partner) s1
            else Inr s1) (\<lambda>s2.
     if tx_type source = EXPENSE
     then link_pair s2 True source partner recategorize transfer_category_id
     else link_pair s2 True partner source recategorize transfer_category_id))))"

section \<open>The detectors\<close>

definition opposite_type :: "transaction_type \<Rightarrow> transaction_type" where
  "opposite_type ty = (if ty = EXPENSE then INCOME else EXPENSE)"

definition DETECTOR_WINDOW :: int where
  "DETECTOR_WINDOW = 3"

text \<open>\<open>date - window\<close> and \<open>date + window\<close>, either of which may overflow.\<close>

definition window :: "date \<Rightarrow> (date \<times> date) result" where
  "window d =
     (case (add_days (- DETECTOR_WINDOW) d, add_days DETECTOR_WINDOW d) of
        (Some a, Some b) \<Rightarrow> Inr (a, b)
      | _ \<Rightarrow> Inl calendar_error)"

text \<open>\<open>rows.sort(key=lambda r: (abs((r.date - date).days), r.id))\<close>, then the cap.\<close>

definition closest :: "date \<Rightarrow> nat \<Rightarrow> transaction list \<Rightarrow> transaction list" where
  "closest d cap rows =
     take cap (sort_key (\<lambda>t. \<bar>toordinal (tx_date t) - toordinal d\<bar>) (sort_key tx_id rows))"

text \<open>The part of the two queries that does not depend on the row looked for.\<close>

definition pairable :: "store \<Rightarrow> int \<Rightarrow> int \<Rightarrow> string \<Rightarrow> transaction \<Rightarrow> bool" where
  "pairable s org_id account_id_excluded currency t \<longleftrightarrow>
     tx_org_id t = org_id \<and> tx_account_id t \<noteq> account_id_excluded \<and> tx_status t = SETTLED \<and>
     tx_linked t = None \<and> tx_recurring_id t = None \<and> \<not> tx_is_manual_adjustment t \<and>
     currency_of s (tx_account_id t) = Some currency"

definition linked_leg :: "store \<Rightarrow> int \<Rightarrow> int \<Rightarrow> string \<Rightarrow> transaction \<Rightarrow> bool" where
  "linked_leg s org_id account_id currency t \<longleftrightarrow>
     tx_org_id t = org_id \<and> tx_account_id t = account_id \<and> tx_linked t \<noteq> None \<and>
     \<not> tx_is_manual_adjustment t \<and> currency_of s (tx_account_id t) = Some currency"

definition find_match_candidates ::
  "store \<Rightarrow> int \<Rightarrow> transaction_type \<Rightarrow> decimal \<Rightarrow> int \<Rightarrow> date \<Rightarrow> string \<Rightarrow> transaction list result" where
  "find_match_candidates s org_id source_type amount account_id_excluded d currency =
     rbind (window d) (\<lambda>(a, b).
     Inr (closest d 25 (filter (\<lambda>t. pairable s org_id account_id_excluded currency t \<and>
       tx_type t = opposite_type source_type \<and> tx_amount t = amount \<and> a \<le> tx_date t \<and> tx_date t \<le> b)
       (transactions s))))"

definition find_duplicate_of_linked_leg ::
  "store \<Rightarrow> int \<Rightarrow> int \<Rightarrow> decimal \<Rightarrow> transaction_type \<Rightarrow> date \<Rightarrow> string \<Rightarrow> transaction list result" where
  "find_duplicate_of_linked_leg s org_id account_id amount ty d currency =
     rbind (window d) (\<lambda>(a, b).
     Inr (closest d 10 (filter (\<lambda>t. linked_leg s org_id account_id currency t \<and>
       tx_type t = ty \<and> tx_amount t = amount \<and> a \<le> tx_date t \<and> tx_date t \<le> b)
       (transactions s))))"

section \<open>The batched detectors\<close>

type_synonym detector_key = "transaction_type \<times> decimal \<times> date"

definition row_slice ::
  "transaction list \<Rightarrow> (transaction_type \<Rightarrow> transaction_type) \<Rightarrow> nat \<Rightarrow> detector_key
     \<Rightarrow> (detector_key \<times> transaction list) result" where
  "row_slice fetched type_for cap key =
     (case key of (key_type, amount, d) \<Rightarrow>
        let group_rows = filter (\<lambda>t. (tx_type t, tx_amount t) = (type_for key_type, amount)) fetched in
        rbind (if group_rows = [] then Inr [] else
                 rbind (window d) (\<lambda>(a, b). Inr (filter (\<lambda>t. a \<le> tx_date t \<and> tx_date t \<le> b) group_rows)))
          (\<lambda>rows. Inr (key, closest d cap rows)))"

primrec per_row_slice ::
  "transaction list \<Rightarrow> (transaction_type \<Rightarrow> transaction_type) \<Rightarrow> nat \<Rightarrow> detector_key list
     \<Rightarrow> (detector_key \<times> transaction list) list result" where
  "per_row_slice fetched type_for cap [] = Inr []"
| "per_row_slice fetched type_for cap (k # ks) =
     rbind (row_slice fetched type_for cap k) (\<lambda>x.
     rbind (per_row_slice fetched type_for cap ks) (\<lambda>xs. Inr (x # xs)))"

text \<open>One query for the union of the keys, then the split. \<open>keys\<close> lists the set of keys once each.\<close>

definition detector_batch ::
  "store \<Rightarrow> (transaction \<Rightarrow> bool) \<Rightarrow> (transaction_type \<Rightarrow> transaction_type) \<Rightarrow> nat \<Rightarrow> detector_key list
     \<Rightarrow> (detector_key \<times> transaction list) list result" where
  "detector_batch s sel type_for cap keys =
     (if keys = [] then Inr []
      else
        let dates = set (map (snd \<circ> snd) keys) in
        case (add_days (- DETECTOR_WINDOW) (Min dates), add_days DETECTOR_WINDOW (Max dates)) of
          (Some a, Some b) \<Rightarrow>
            per_row_slice (filter (\<lambda>t. sel t \<and>
                tx_type t \<in> set (map (type_for \<circ> fst) keys) \<and> tx_amount t \<in> set (map (fst \<circ> snd) keys) \<and>
                a \<le> tx_date t \<and> tx_date t \<le> b) (transactions s)) type_for cap keys
        | _ \<Rightarrow> Inl calendar_error)"

definition find_match_candidates_batch ::
  "store \<Rightarrow> int \<Rightarrow> int \<Rightarrow> string \<Rightarrow> detector_key list \<Rightarrow> (detector_key \<times> transaction list) list result" where
  "find_match_candidates_batch s org_id account_id_excluded currency keys =
     detector_batch s (pairable s org_id account_id_excluded currency) opposite_type 25 keys"

definition find_duplicate_of_linked_leg_batch ::
  "store \<Rightarrow> int \<Rightarrow> int \<Rightarrow> string \<Rightarrow> detector_key list \<Rightarrow> (detector_key \<times> transaction list) list result" where
  "find_duplicate_of_linked_leg_batch s org_id account_id currency keys =
     detector_batch s (linked_leg s org_id account_id currency) (\<lambda>ty. ty) 10 keys"

end
