(* ===== verification/RecurringKeep.thy ===== *)
theory RecurringKeep
  imports Recurring BatchKeep
begin

text \<open>
  Why the series engine keeps the ledger. \<open>series_inv\<close> is what it needs of the rest of the
  program: a template names accounts of its organisation, and the two legs of a pair have
  opposite types (otherwise the auto-settle sweep would settle a pair twice).
\<close>

section \<open>What a step leaves alone\<close>

definition frame :: "store \<Rightarrow> store \<Rightarrow> bool" where
  "frame s' s \<longleftrightarrow>
     templates s' = templates s \<and> organizations s' = organizations s \<and> account_of s' = account_of s"

lemma frame_refl [simp]: "frame s s"
  by (simp add: frame_def)

lemma frame_trans [trans]: "frame s2 s1 \<Longrightarrow> frame s1 s \<Longrightarrow> frame s2 s"
  by (simp add: frame_def)

lemma frame_add_balance [simp]: "frame (add_balance i x s) s"
  by (simp add: frame_def fun_eq_iff) (simp add: add_balance_def)

lemma frame_steps [simp]:
  "frame (add_transaction t s) s"
  "frame (put_transaction t s) s"
  "frame (put_batch b s) s"
  by (simp_all add: frame_def account_of_def[abs_def] add_transaction_def put_transaction_def put_batch_def)

definition template_ok :: "store \<Rightarrow> template \<Rightarrow> bool" where
  "template_ok s r \<longleftrightarrow>
     account_of s (r_account_id r) (r_org_id r) \<and>
     (case r_to_account_id r of None \<Rightarrow> True | Some i \<Rightarrow> account_of s i (r_org_id r))"

definition typed_legs :: "transaction \<Rightarrow> transaction \<Rightarrow> bool" where
  "typed_legs t p \<longleftrightarrow> (tx_type t = EXPENSE \<and> tx_type p = INCOME) \<or> (tx_type t = INCOME \<and> tx_type p = EXPENSE)"

definition mutual :: "transaction \<Rightarrow> transaction \<Rightarrow> bool" where
  "mutual t p \<longleftrightarrow> tx_linked t = Some (tx_id p) \<and> tx_linked p = Some (tx_id t)"

definition pairs_typed :: "transaction list \<Rightarrow> bool" where
  "pairs_typed rows \<longleftrightarrow> list_all (\<lambda>t. tx_type t \<noteq> TRANSFER \<and> list_all (\<lambda>p. mutual t p \<longrightarrow> typed_legs t p) rows) rows"

definition series_inv :: "store \<Rightarrow> bool" where
  "series_inv s \<longleftrightarrow> list_all (template_ok s) (templates s) \<and> pairs_typed (transactions s)"

lemma pairs_typedD:
  "pairs_typed rows \<Longrightarrow> t \<in> set rows \<Longrightarrow> p \<in> set rows \<Longrightarrow> mutual t p \<Longrightarrow> typed_legs t p"
  by (simp add: pairs_typed_def list_all_iff)

lemma pairs_typed_type: "pairs_typed rows \<Longrightarrow> t \<in> set rows \<Longrightarrow> tx_type t \<noteq> TRANSFER"
  by (simp add: pairs_typed_def list_all_iff)

lemma template_ok_cong: "account_of s' = account_of s \<Longrightarrow> template_ok s' = template_ok s"
  by (simp add: template_ok_def fun_eq_iff cong: option.case_cong)

lemma frame_templates: "frame s' s \<Longrightarrow> list_all (template_ok s) (templates s) \<Longrightarrow> list_all (template_ok s') (templates s')"
  using template_ok_cong[of s' s] by (simp add: frame_def)

section \<open>Writing one occurrence\<close>

lemma apply_rows_Inr:
  assumes "apply_rows org ts s = Inr s'" "books f s"
  shows "books (\<lambda>i. f i + sum_list (map (\<lambda>t. if tx_account_id t = i then signed (tx_type t) (tx_amount t) else 0) ts)) s'
    \<and> transactions s' = transactions s \<and> batches s' = batches s \<and> next_id s' = next_id s
    \<and> frame s' s \<and> (\<forall>t \<in> set ts. tx_type t \<noteq> TRANSFER)"
  using assms
proof (induction ts arbitrary: s f)
  case (Cons t ts)
  from Cons.prems(1) obtain s1 where s1:
    "move_on_account apply_balance org (tx_account_id t) (tx_amount t) (tx_type t) s = Inr s1"
    "apply_rows org ts s1 = Inr s'"
    by (auto simp: rbind_eq_Inr)
  note m = move_apply(1,2)[OF s1(1) booksD(1)[OF Cons.prems(2)]]
  have b: "books (\<lambda>i. f i + (if i = tx_account_id t then signed (tx_type t) (tx_amount t) else 0)) s1"
    unfolding m(1) by (rule books_add_balance[OF Cons.prems(2)])
  note IH = Cons.IH[OF s1(2) b]
  have "frame s' s" using IH frame_trans[of s' s1 s] by (simp add: m(1))
  moreover have "books (\<lambda>i. f i + sum_list (map (\<lambda>t. if tx_account_id t = i then signed (tx_type t) (tx_amount t) else 0) (t # ts))) s'"
    by (rule books_eq[OF conjunct1[OF IH]]) auto
  ultimately show ?case using IH m by simp
qed simp

text \<open>The rows of an occurrence: one unlinked row, or two legs that name each other.\<close>

definition occurrence_rows :: "template \<Rightarrow> date \<Rightarrow> transaction_status \<Rightarrow> bool \<Rightarrow> int \<Rightarrow> transaction list \<Rightarrow> bool" where
  "occurrence_rows r due status was_skipped first_id rows \<longleftrightarrow>
     (\<forall>u \<in> set rows. tx_recurring_id u = Some (r_id r) \<and> tx_date u = due \<and> tx_org_id u = r_org_id r \<and>
        tx_import_batch_id u = None \<and> tx_status u = status \<and> tx_amount u = r_amount r \<and>
        first_id \<le> tx_id u \<and> tx_recon u = (if was_skipped then skipped else accepted)) \<and>
     (if r_type r = TRANSFER
      then \<exists>e i. rows = [e, i] \<and> mutual e i \<and> tx_type e = EXPENSE \<and> tx_type i = INCOME \<and> tx_id e \<noteq> tx_id i
      else \<exists>t. rows = [t] \<and> tx_linked t = None \<and> tx_type t = r_type r)"

lemma occurrence_row_sel [simp]:
  "tx_id (occurrence_row s org r due st sk a ty) = next_id s"
  "tx_org_id (occurrence_row s org r due st sk a ty) = org"
  "tx_account_id (occurrence_row s org r due st sk a ty) = a"
  "tx_amount (occurrence_row s org r due st sk a ty) = r_amount r"
  "tx_type (occurrence_row s org r due st sk a ty) = ty"
  "tx_status (occurrence_row s org r due st sk a ty) = st"
  "tx_linked (occurrence_row s org r due st sk a ty) = None"
  "tx_recurring_id (occurrence_row s org r due st sk a ty) = Some (r_id r)"
  "tx_date (occurrence_row s org r due st sk a ty) = due"
  "tx_settled_date (occurrence_row s org r due st sk a ty) = (if st = SETTLED then Some due else None)"
  "tx_import_batch_id (occurrence_row s org r due st sk a ty) = None"
  "tx_recon (occurrence_row s org r due st sk a ty) = (if sk then skipped else accepted)"
  by (simp_all add: occurrence_row_def)

lemma occurrence_contribution:
  "settled_contribution rows i (occurrence_row s org r due st sk a ty) =
     (if a = i \<and> st = SETTLED \<and> \<not> sk then signed ty (r_amount r) else 0)"
  by (simp add: settled_contribution_def balance_contribution_filter_def signed_amount_signed)

lemma link_pair_plain:
  assumes "link_pair s loaded e i False cat = Inr (s', e', i')"
  shows "s' = put_transaction i' (put_transaction e' s)"
    "e' = e\<lparr>tx_linked := Some (tx_id i)\<rparr>" "i' = i\<lparr>tx_linked := Some (tx_id e)\<rparr>"
  using assms by (auto simp: link_pair_def rbind_eq_Inr Let_def)

lemma create_occurrence_Inr:
  assumes c: "create_occurrence s org r due today settle sk = Inr (s', t)"
    and b: "books (\<lambda>_. 0) s" and ok: "template_ok s r" "r_org_id r = org" and ns: "\<not> (settle \<and> sk)"
  defines "st \<equiv> (if settle \<and> r_auto_settle r \<and> due \<le> today then SETTLED else PENDING)"
  obtains rows where "transactions s' = transactions s @ rows" "hd rows = t" "occurrence_rows r due st sk (next_id s) rows"
    "books (\<lambda>_. 0) s'" "frame s' s" "batches s' = batches s" "next_id s < next_id s'"
    "st = PENDING \<Longrightarrow> accounts s' = accounts s"
proof (cases "r_type r = TRANSFER")
  case False
  let ?t = "occurrence_row s org r due st sk (r_account_id r) (r_type r)"
  let ?s1 = "add_transaction ?t s"
  from c False have t: "t = ?t" and fin: "if st = SETTLED then apply_rows org [?t] ?s1 = Inr s' else s' = ?s1"
    by (auto simp: create_occurrence_def Let_def rbind_eq_Inr st_def split: if_splits)
  have row: "row_ok s ?t" using ok False by (simp add: row_ok_def template_ok_def)
  have nsk: "\<not> sk" if "st = SETTLED" using that ns by (auto simp: st_def split: if_splits)
  have b1: "books (\<lambda>i. 0 - settled_contribution (transactions s) i ?t) ?s1"
    by (rule books_add_row[OF b _ _ row]) simp_all
  have fin': "books (\<lambda>_. 0) s' \<and> transactions s' = transactions s @ [?t] \<and> frame s' s \<and> batches s' = batches s
    \<and> next_id s < next_id s' \<and> (st = PENDING \<longrightarrow> accounts s' = accounts s)"
  proof (cases "st = SETTLED")
    case True
    with fin have "apply_rows org [?t] ?s1 = Inr s'" by simp
    note a = apply_rows_Inr[OF this b1]
    have "books (\<lambda>_. 0) s'" by (rule books_eq[OF conjunct1[OF a]]) (use nsk[OF True] True in \<open>auto simp: occurrence_contribution fun_eq_iff\<close>)
    with a True show ?thesis using frame_trans[of s' ?s1 s] by simp
  next
    case False
    with fin have "s' = ?s1" by simp
    moreover have "books (\<lambda>_. 0) ?s1" by (rule books_eq[OF b1]) (use False in \<open>simp add: occurrence_contribution\<close>)
    ultimately show ?thesis by simp
  qed
  have "occurrence_rows r due st sk (next_id s) [?t]" using False ok by (simp add: occurrence_rows_def)
  with fin' t show thesis by (intro that[of "[?t]"]) auto
next
  case True
  from c True obtain to_id where to: "r_to_account_id r = Some to_id"
    by (auto simp: create_occurrence_def Let_def split: option.splits if_splits)
  define e where "e = occurrence_row s org r due st sk (r_account_id r) EXPENSE"
  define i where "i = occurrence_row (add_transaction e s) org r due st sk to_id INCOME"
  let ?s2 = "add_transaction i (add_transaction e s)"
  from c True to obtain s3 i' where lp: "link_pair ?s2 False e i False None = Inr (s3, t, i')"
    and fin: "if st = SETTLED then apply_rows org (sort_key tx_account_id [t, i']) s3 = Inr s' else s' = s3"
    by (auto simp: create_occurrence_def Let_def rbind_eq_Inr st_def e_def i_def split: if_splits)
  have nsk: "\<not> sk" if "st = SETTLED" using that ns by (auto simp: st_def split: if_splits)
  let ?x = "if st = SETTLED then r_amount r else 0"
  have row: "row_ok s e" "row_ok (add_transaction e s) i"
    using ok to account_of_cong[of "add_transaction e s" s]
    by (simp_all add: row_ok_def template_ok_def e_def i_def)
  have leg: "settled_contribution rows a e = (if a = r_account_id r then - ?x else 0)"
     "settled_contribution rows a i = (if a = to_id then ?x else 0)" for rows a
    unfolding e_def i_def using nsk by (auto simp: occurrence_contribution signed_def)
  have new: "tx_id e = next_id s" "tx_linked e = None" "tx_id i = next_id (add_transaction e s)" "tx_linked i = None"
    by (simp_all add: e_def i_def)
  have b2: "books (\<lambda>a. - (if a = r_account_id r then - ?x else 0)) (add_transaction e s)"
    by (rule books_eq[OF books_add_row[OF b new(1,2) row(1)]]) (simp add: leg)
  have b3: "books (\<lambda>a. - (if a = r_account_id r then - ?x else 0) - (if a = to_id then ?x else 0)) ?s2"
    by (rule books_eq[OF books_add_row[OF b2 new(3,4) row(2)]]) (simp add: leg)
  have mem: "e \<in> set (transactions ?s2)" "i \<in> set (transactions ?s2)" by simp_all
  note lk = link_pair_Inr[OF lp b3 mem]
  note res = link_pair_plain[OF lp]
  have fresh: "tx_id x < next_id s" if "x \<in> set (transactions s)" for x using booksD(7)[OF b that] .
  have ids: "tx_id t = next_id s" "tx_id i' = next_id s + 1" using new res by simp_all
  have old: "map (relink t i') (transactions s) = transactions s"
    by (rule map_idI) (use fresh ids in \<open>fastforce simp: relink_def\<close>)
  have "transactions s3 = map (relink t i') (transactions ?s2)"
    unfolding res(1) by (rule put_two) (simp add: ids)
  also have "\<dots> = transactions s @ [relink t i' e, relink t i' i]" by (simp add: old)
  also have "\<dots> = transactions s @ [t, i']" using ids new by (simp add: relink_def)
  finally have T3: "transactions s3 = transactions s @ [t, i']" .
  have rows: "occurrence_rows r due st sk (next_id s) [t, i']"
    using True ok new by (simp add: occurrence_rows_def mutual_def res(2,3)) (simp add: e_def i_def)
  have f3: "frame s3 s" unfolding res(1)
    by (rule frame_trans[OF frame_steps(2) frame_trans[OF frame_steps(2) frame_trans[OF frame_steps(1) frame_steps(1)]]])
  have s3: "batches s3 = batches s" "next_id s < next_id s3" "accounts s3 = accounts s" by (simp_all add: res(1))
  have legs: "tx_account_id t = r_account_id r" "tx_account_id i' = to_id" "tx_type t = EXPENSE" "tx_type i' = INCOME"
    "tx_amount t = r_amount r" "tx_amount i' = r_amount r"
    by (simp_all add: res(2,3) e_def i_def)
  have "books (\<lambda>_. 0) s' \<and> transactions s' = transactions s @ [t, i'] \<and> frame s' s \<and> batches s' = batches s
    \<and> next_id s < next_id s' \<and> (st = PENDING \<longrightarrow> accounts s' = accounts s)"
  proof (cases "st = SETTLED")
    case True
    with fin have "apply_rows org (sort_key tx_account_id [t, i']) s3 = Inr s'" by simp
    note a = apply_rows_Inr[OF this lk(1)]
    have "books (\<lambda>_. 0) s'" by (rule books_eq[OF conjunct1[OF a]]) (auto simp: True legs signed_def fun_eq_iff)
    with a True s3 T3 show ?thesis using frame_trans[OF _ f3, of s'] by simp
  next
    case False
    with fin have "s' = s3" by simp
    moreover have "books (\<lambda>_. 0) s3" by (rule books_eq[OF lk(1)]) (auto simp: False)
    ultimately show ?thesis using T3 f3 s3 by simp
  qed
  with rows show thesis by (intro that[of "[t, i']"]) auto
qed

section \<open>The invariant of the series engine\<close>

definition full_inv :: "store \<Rightarrow> bool" where
  "full_inv s \<longleftrightarrow> db_inv s \<and> series_inv s"

lemma full_invD:
  assumes "full_inv s"
  shows "db_inv s" "books (\<lambda>_. 0) s" "batches_inv s" "pairs_typed (transactions s)" "store_wf s"
    "links_wf (transactions s)" "distinct (map tx_id (transactions s))"
    "r \<in> set (templates s) \<Longrightarrow> template_ok s r"
proof -
  show db: "db_inv s" using assms by (simp add: full_inv_def)
  show "books (\<lambda>_. 0) s" "batches_inv s" "store_wf s" "links_wf (transactions s)" "distinct (map tx_id (transactions s))"
    using db_invD(6,4,1,2,3)[OF db] .
  show "pairs_typed (transactions s)" using assms by (simp add: full_inv_def series_inv_def)
  show "r \<in> set (templates s) \<Longrightarrow> template_ok s r" using assms by (simp add: full_inv_def series_inv_def list_all_iff)
qed

lemma full_invI:
  "books (\<lambda>_. 0) s \<Longrightarrow> batches_inv s \<Longrightarrow> list_all (template_ok s) (templates s) \<Longrightarrow>
     pairs_typed (transactions s) \<Longrightarrow> full_inv s"
  by (simp add: full_inv_def db_inv_def ledger_inv_books series_inv_def)

lemma pairs_typed_append:
  assumes "pairs_typed T" "links_wf T" "\<And>t. t \<in> set T \<Longrightarrow> tx_id t < n" "\<And>u. u \<in> set N \<Longrightarrow> n \<le> tx_id u"
    and "pairs_typed N"
  shows "pairs_typed (T @ N)"
proof -
  have cross: "\<not> mutual t p \<and> \<not> mutual p t" if "t \<in> set T" "p \<in> set N" for t p
    using links_wfD(2)[OF assms(2) that(1)] assms(3,4) that(2) by (fastforce simp: mutual_def)
  then show ?thesis
    using assms(1,5) by (auto simp: pairs_typed_def list_all_iff)
qed

lemma occurrence_rows_typed: "occurrence_rows r due st sk n rows \<Longrightarrow> pairs_typed rows"
  by (auto simp: occurrence_rows_def pairs_typed_def typed_legs_def mutual_def split: if_splits)

lemma batch_cols_append:
  "\<forall>u \<in> set rows. tx_import_batch_id u = None \<Longrightarrow> transactions s' = transactions s @ rows \<Longrightarrow>
     batches s' = batches s \<Longrightarrow> same_batches s' s"
  by (simp add: same_batches_def batch_cols_def)

lemma create_occurrence_full:
  assumes c: "create_occurrence s org r due today settle sk = Inr (s', t)"
    and inv: "full_inv s" and ok: "template_ok s r" "r_org_id r = org" and ns: "\<not> (settle \<and> sk)"
  shows "full_inv s'" "template_ok s' = template_ok s" "templates s' = templates s"
proof -
  from create_occurrence_Inr[OF c full_invD(2)[OF inv] ok ns] obtain rows st where
    T: "transactions s' = transactions s @ rows" "occurrence_rows r due st sk (next_id s) rows"
    and b: "books (\<lambda>_. 0) s'" and fr: "frame s' s" and B: "batches s' = batches s" by metis
  show tok: "template_ok s' = template_ok s" using fr by (intro template_ok_cong) (simp add: frame_def)
  show tem: "templates s' = templates s" using fr by (simp add: frame_def)
  have new: "next_id s \<le> tx_id u \<and> tx_import_batch_id u = None" if "u \<in> set rows" for u
    using T(2) that by (simp add: occurrence_rows_def)
  have "pairs_typed (transactions s')"
    unfolding T(1) by (rule pairs_typed_append[OF full_invD(4,6)[OF inv], of "next_id s"])
      (use booksD(7)[OF full_invD(2)[OF inv]] new occurrence_rows_typed[OF T(2)] in auto)
  moreover have "batches_inv s'"
    by (rule batches_inv_cols[OF batch_cols_append full_invD(3)[OF inv]]) (use T B new in auto)
  moreover have "list_all (template_ok s') (templates s')"
    unfolding tok tem using inv by (simp add: full_inv_def series_inv_def)
  ultimately show "full_inv s'" using b by (intro full_invI)
qed

lemma put_template_sel [simp]:
  "transactions (put_template r s) = transactions s" "accounts (put_template r s) = accounts s"
  "batches (put_template r s) = batches s" "next_id (put_template r s) = next_id s"
  "organizations (put_template r s) = organizations s" "categories (put_template r s) = categories s"
  "templates (put_template r s) = update_row r_id (r_id r) (\<lambda>_. r) (templates s)"
  by (simp_all add: put_template_def)

lemma put_template_wf [simp]: "store_wf (put_template r s) = store_wf s"
proof -
  have ids: "map r_id (update_row r_id (r_id r) (\<lambda>_. r) R) = map r_id R" for R
    by (induction R) (auto simp: update_row_def)
  moreover have "list_all (\<lambda>b. r_id b < n) R = list_all (\<lambda>i. i < n) (map r_id R)" for n R
    by (simp add: list_all_iff)
  ultimately show ?thesis unfolding store_wf_def put_template_sel by metis
qed

lemma put_template_inv:
  assumes "full_inv s" "template_ok s r"
  shows "full_inv (put_template r s)"
proof -
  have ac: "account_of (put_template r s) = account_of s" by (rule account_of_cong) simp
  have ro: "row_ok (put_template r s) = row_ok s" by (rule row_ok_cong) simp
  have "list_all (template_ok s) (update_row r_id (r_id r) (\<lambda>_. r) (templates s))"
    using assms by (auto simp: full_inv_def series_inv_def list_all_iff update_row_def)
  moreover have "batches_inv (put_template r s)"
    using full_invD(3)[OF assms(1)] batches_inv_cong[of "put_template r s" s] by simp
  moreover have "books (\<lambda>_. 0) (put_template r s)"
    using full_invD(2)[OF assms(1)] by (simp add: books_def ro off_by_def)
  ultimately show ?thesis
    using full_invD(4)[OF assms(1)] by (intro full_invI) (simp_all add: template_ok_cong[OF ac])
qed

lemma advance_frontier_Some:
  assumes "advance_frontier rd r due = Some r'"
  shows "r_id r' = r_id r" "r_org_id r' = r_org_id r" "template_ok s r' = template_ok s r" "r_type r' = r_type r"
    "advance_date rd due (r_frequency r) = Some (r_next_due_date r')" "r_frequency r' = r_frequency r"
    "r_occurrences_elapsed r' = r_occurrences_elapsed r + 1" "r_occurrence_count r' = r_occurrence_count r"
    "r_is_active r' = r_is_active r" "r_last_spent_date r' = Some due" "r_auto_settle r' = r_auto_settle r"
  using assms by (auto simp: advance_frontier_def template_ok_def split: option.splits)

section \<open>The catch-up loop\<close>

lemma catch_up_keeps:
  assumes "catch_up n rd org today pe ps r (s, g) = Inr (s', g')"
    and "full_inv s" "template_ok s r" "r_org_id r = org"
  shows "full_inv s'"
  using assms
proof (induction n arbitrary: r s g)
  case (Suc n)
  let ?due = "r_next_due_date r"
  show ?case
  proof (cases "\<not> ?due \<le> pe \<or> \<not> has_remaining_occurrences r")
    case True
    with Suc.prems(1,2) show ?thesis by (auto simp: Let_def)
  next
    case go: False
    show ?thesis
    proof (cases "occurrence_exists s org (r_id r) ?due")
      case True
      with go Suc.prems(1) obtain r' where r': "advance_frontier rd r ?due = Some r'"
        "catch_up n rd org today pe ps r' (put_template r' s, g) = Inr (s', g')"
        by (auto simp: Let_def split: option.splits)
      note a = advance_frontier_Some[OF r'(1)]
      have "template_ok (put_template r' s) r'"
        using Suc.prems(3) a(3) template_ok_cong[OF account_of_cong[of "put_template r' s" s]] by simp
      with Suc.IH[OF r'(2) put_template_inv[OF Suc.prems(2)]] Suc.prems(3,4) a show ?thesis by simp
    next
      case False
      with go Suc.prems(1) obtain s1 t r' g1 where c: "create_occurrence s org r ?due today True False = Inr (s1, t)"
        and r': "advance_frontier rd r ?due = Some r'"
        "catch_up n rd org today pe ps r' (put_template r' s1, g1) = Inr (s', g')"
        by (auto simp: Let_def rbind_eq_Inr split: option.splits)
      note a = advance_frontier_Some[OF r'(1)] and f = create_occurrence_full[OF c Suc.prems(2,3,4)]
      have ok1: "template_ok s1 r'" using Suc.prems(3) a(3) f(2) by simp
      then have "template_ok (put_template r' s1) r'"
        using template_ok_cong[OF account_of_cong[of "put_template r' s1" s1]] by simp
      with Suc.IH[OF r'(2) put_template_inv[OF f(1) ok1]] Suc.prems(4) a show ?thesis by simp
    qed
  qed
qed simp

end
