(* ===== verification/SweepKeep.thy ===== *)
theory SweepKeep
  imports RecurringKeep
begin

text \<open>
  The auto-settle sweep and the generation run keep the invariant. The point of the sweep is
  that no row is settled twice: a pair that is due whole is one unit, emitted by its expense
  leg only, and a leg waiting for its partner is in no unit.
\<close>

section \<open>Rewriting a row of the invariant\<close>

lemma pairs_typed_map:
  assumes "pairs_typed rows"
    and "\<And>t. t \<in> set rows \<Longrightarrow> tx_id (f t) = tx_id t \<and> tx_type (f t) = tx_type t \<and>
      (tx_linked (f t) = tx_linked t \<or> tx_linked (f t) = None)"
  shows "pairs_typed (map f rows)"
proof -
  have "typed_legs (f t) (f p)" if "t \<in> set rows" "p \<in> set rows" "mutual (f t) (f p)" for t p
  proof -
    have "mutual t p" using that assms(2)[OF that(1)] assms(2)[OF that(2)] by (auto simp: mutual_def)
    with pairs_typedD[OF assms(1) that(1,2)] show ?thesis
      using assms(2)[OF that(1)] assms(2)[OF that(2)] by (simp add: typed_legs_def)
  qed
  moreover have "tx_type (f t) \<noteq> TRANSFER" if "t \<in> set rows" for t
    using pairs_typed_type[OF assms(1) that] assms(2)[OF that] by simp
  ultimately show ?thesis by (auto simp: pairs_typed_def list_all_iff)
qed

lemma update_row_map: "update_row tx_id i (\<lambda>_. u) rows = map (\<lambda>r. if tx_id r = i then u else r) rows"
  by (simp add: update_row_def)

lemma pairs_typed_put:
  assumes "pairs_typed (transactions s)" "distinct (map tx_id (transactions s))" "t \<in> set (transactions s)"
    and "tx_id u = tx_id t" "tx_type u = tx_type t" "tx_linked u = tx_linked t \<or> tx_linked u = None"
  shows "pairs_typed (transactions (put_transaction u s))"
  unfolding put_transaction_sel update_row_map
  by (rule pairs_typed_map[OF assms(1)]) (use key_unique[OF assms(2) _ assms(3)] assms(4-6) in auto)

lemma batch_cols_put_none:
  assumes "distinct (map tx_id (transactions s))" "t \<in> set (transactions s)" "tx_id u = tx_id t"
    "tx_import_batch_id u = None" "tx_import_batch_id t = None"
  shows "same_batches (put_transaction u s) s"
proof -
  let ?f = "\<lambda>r. if tx_id r = tx_id t then u else r"
  have "batch_cols (map ?f xs) = batch_cols xs" if "set xs \<subseteq> set (transactions s)" for xs
    using that by (induction xs) (auto simp: batch_cols_def assms(4,5) dest: key_unique[OF assms(1) _ assms(2)])
  then show ?thesis using assms(3) by (simp add: same_batches_def update_row_def)
qed

section \<open>Settling a list of rows\<close>

definition settleable :: "store \<Rightarrow> transaction \<Rightarrow> bool" where
  "settleable s t \<longleftrightarrow>
     t \<in> set (transactions s) \<and> tx_status t = PENDING \<and> balance_contribution_filter (transactions s) t"

definition settled :: "transaction \<Rightarrow> transaction" where
  "settled t = t\<lparr>tx_status := SETTLED, tx_settled_date := Some (effective_period_date_expr t)\<rparr>"

lemma settled_sel [simp]:
  "tx_id (settled t) = tx_id t" "tx_org_id (settled t) = tx_org_id t" "tx_linked (settled t) = tx_linked t"
  "tx_type (settled t) = tx_type t" "tx_amount (settled t) = tx_amount t" "tx_account_id (settled t) = tx_account_id t"
  "tx_recon (settled t) = tx_recon t" "tx_import_batch_id (settled t) = tx_import_batch_id t"
  "tx_status (settled t) = SETTLED" "tx_settled_date (settled t) \<noteq> None" "tx_recurring_id (settled t) = tx_recurring_id t"
  "tx_date (settled t) = tx_date t"
  by (simp_all add: settled_def)

lemma settle_row_Inr:
  assumes c: "settle_row org t s = Inr s'" and inv: "full_inv s" and t: "settleable s t"
  shows "full_inv s'" "transactions s' = map (\<lambda>r. if tx_id r = tx_id t then settled t else r) (transactions s)" "frame s' s"
    "batches s' = batches s"
proof -
  from c obtain s1 where s1: "move_on_account apply_balance org (tx_account_id t) (tx_amount t) (tx_type t) s = Inr s1"
    "s' = put_transaction (settled t) s1"
    by (auto simp: settle_row_def settled_def rbind_eq_Inr Let_def)
  note b = full_invD(2)[OF inv] and d = full_invD(7)[OF inv]
  note m = move_apply[OF s1(1) full_invD(5)[OF inv]]
  have tm: "t \<in> set (transactions s1)" and pend: "tx_status t = PENDING"
    and filt: "balance_contribution_filter (transactions s) t" using t m(1) by (simp_all add: settleable_def)
  have rows: "transactions s1 = transactions s" by (simp add: m(1))
  have ok: "row_ok s1 (settled t)"
    using booksD(6)[OF b] tm m(2) by (simp add: m(1) row_ok_def)
  have b1: "books (\<lambda>i. 0 + (if i = tx_account_id t then signed (tx_type t) (tx_amount t) else 0)) s1"
    unfolding m(1) by (rule books_add_balance[OF b])
  have f': "balance_contribution_filter (transactions s) (settled t)"
    using filt by (simp add: balance_contribution_filter_def)
  have "books (\<lambda>_. 0) s'"
    unfolding s1(2)
    by (rule books_eq[OF books_put_row[OF b1 tm _ _ _ ok]])
       (auto simp: fun_eq_iff settled_contribution_def rows pend f' signed_amount_signed)
  moreover show fr: "frame s' s" unfolding s1(2) m(1) using frame_trans[OF frame_steps(2) frame_add_balance] .
  moreover show "transactions s' = map (\<lambda>r. if tx_id r = tx_id t then settled t else r) (transactions s)"
    by (simp add: s1(2) rows update_row_map)
  moreover show "batches s' = batches s" by (simp add: s1(2) m(1))
  moreover have "same_batches s' s"
    using batch_cols_put[of s1 t "settled t"] d tm by (simp add: s1(2) m(1) same_batches_def)
  then have "batches_inv s'" using batches_inv_cols full_invD(3)[OF inv] by blast
  moreover have "pairs_typed (transactions s')"
    unfolding s1(2) by (rule pairs_typed_put[of s1 t]) (use full_invD(4)[OF inv] d tm rows in simp_all)
  moreover have "list_all (template_ok s') (templates s')"
    using frame_templates[OF fr] inv by (simp add: full_inv_def series_inv_def)
  ultimately show "full_inv s'" by (intro full_invI)
qed

lemma settle_rows_keeps:
  assumes "settle_rows org ts s = Inr s'" "full_inv s" "\<forall>t \<in> set ts. settleable s t" "distinct (map tx_id ts)"
  shows "full_inv s' \<and> frame s' s \<and>
    transactions s' = map (\<lambda>r. if tx_id r \<in> tx_id ` set ts then settled r else r) (transactions s)"
  using assms
proof (induction ts arbitrary: s)
  case (Cons t ts)
  from Cons.prems(1) obtain s1 where s1: "settle_row org t s = Inr s1" "settle_rows org ts s1 = Inr s'"
    by (auto simp: rbind_eq_Inr)
  note d = full_invD(7)[OF Cons.prems(2)]
  have tt: "settleable s t" using Cons.prems(3) by simp
  note st = settle_row_Inr[OF s1(1) Cons.prems(2) tt]
  let ?f = "\<lambda>r. if tx_id r = tx_id t then settled t else r"
  have idf: "tx_id (?f r) = tx_id r" "r \<in> set (transactions s) \<Longrightarrow> tx_linked (?f r) = tx_linked r" for r
    using key_unique[OF d, of r t] tt by (auto simp: settleable_def)
  have rest: "settleable s1 u" if u: "u \<in> set ts" for u
  proof -
    have "tx_id u \<in> tx_id ` set ts" using u by blast
    then have "tx_id u \<noteq> tx_id t" using Cons.prems(4) by auto
    moreover have "settleable s u" using Cons.prems(3) u by simp
    moreover have "balance_contribution_filter (transactions s1) u = balance_contribution_filter (transactions s) u"
      unfolding st(2) by (rule contribution_filter_update) (use idf in blast)
    ultimately show ?thesis by (auto simp: settleable_def st(2) image_iff)
  qed
  have "distinct (map tx_id ts)" using Cons.prems(4) by simp
  from Cons.IH[OF s1(2) st(1) _ this] rest have IH: "full_inv s'" "frame s' s1"
    "transactions s' = map (\<lambda>r. if tx_id r \<in> tx_id ` set ts then settled r else r) (transactions s1)" by blast+
  have "transactions s' = map (\<lambda>r. if tx_id r \<in> tx_id ` set (t # ts) then settled r else r) (transactions s)"
    unfolding IH(3) st(2)
    using Cons.prems(4) key_unique[OF d, of _ t] tt by (auto simp: settleable_def)
  with IH frame_trans[OF IH(2) st(3)] show ?case by blast
qed simp

section \<open>The units of the sweep\<close>

lemma due_auto_rows_set [simp]:
  "t \<in> set (due_auto_rows s org today) \<longleftrightarrow>
     t \<in> set (transactions s) \<and> tx_org_id t = org \<and> tx_status t = PENDING \<and>
     effective_period_date_expr t \<le> today \<and>
     (\<exists>i r. tx_recurring_id t = Some i \<and> template_by_id s i = Some r \<and> r_auto_settle r) \<and>
     balance_contribution_filter (transactions s) t"
  by (auto simp: due_auto_rows_def non_reverted_transaction_filter_def split: option.splits)

lemma due_auto_rows_distinct:
  assumes "distinct (map tx_id (transactions s))"
  shows "distinct (map tx_id (due_auto_rows s org today))"
proof -
  have "distinct (map tx_id (filter P (transactions s)))" for P using assms by (rule distinct_map_filter)
  then show ?thesis unfolding due_auto_rows_def distinct_map by simp
qed

text \<open>The rows one row of the sweep adds.\<close>

lemma settle_unit_rows:
  assumes "distinct (map tx_id rows)" "t \<in> set rows"
  shows "concat (settle_unit s rows t) = [] \<or> concat (settle_unit s rows t) = [t] \<and> \<not> is_reciprocal_pair t (partner_in rows t) \<or>
    (\<exists>p. p \<in> set rows \<and> mutual t p \<and> tx_id p \<noteq> tx_id t \<and> tx_type t = EXPENSE \<and> partner_in rows t = Some p \<and>
      concat (settle_unit s rows t) = [t, p])"
proof (cases "is_reciprocal_pair t (partner_in rows t)")
  case True
  then obtain p where p: "partner_in rows t = Some p" by (auto simp: is_reciprocal_pair_def split: option.splits)
  then have "p \<in> set rows" by (auto simp: partner_in_def split: option.splits dest: row_by_Some)
  with p True show ?thesis by (auto simp: settle_unit_def Let_def is_reciprocal_pair_def mutual_def)
qed (auto simp: settle_unit_def Let_def)

lemma distinct_concat_map_key:
  assumes "distinct xs" "\<And>x. x \<in> set xs \<Longrightarrow> distinct (map key (f x))"
    and "\<And>x y. x \<in> set xs \<Longrightarrow> y \<in> set xs \<Longrightarrow> x \<noteq> y \<Longrightarrow> key ` set (f x) \<inter> key ` set (f y) = {}"
  shows "distinct (map key (concat (map f xs)))"
  using assms
proof (induction xs)
  case (Cons x xs)
  have "key ` set (f x) \<inter> key ` set (f y) = {}" if "y \<in> set xs" for y
    using Cons.prems(1) that by (intro Cons.prems(3)) auto
  then have "key ` set (f x) \<inter> key ` set (concat (map f xs)) = {}" by auto
  with Cons show ?case by simp
qed simp

lemma concat_units: "concat (concat (map f xs)) = concat (map (\<lambda>x. concat (f x)) xs)"
  by (induction xs) simp_all

lemma sweep_units_ok:
  assumes inv: "full_inv s" and ts_def: "ts = concat (due_auto_settle_units s org today)"
  shows "distinct (map tx_id ts)" "\<forall>t \<in> set ts. t \<in> set (due_auto_rows s org today)" "\<forall>t \<in> set ts. settleable s t"
proof -
  let ?rows = "due_auto_rows s org today"
  note d = full_invD(7)[OF inv]
  have dr: "distinct (map tx_id ?rows)" using due_auto_rows_distinct[OF d] .
  define f where "f t = concat (settle_unit s ?rows t)" for t
  note unit = settle_unit_rows[OF dr, of _ s, folded f_def]
  have ts: "ts = concat (map f ?rows)"
    by (simp add: ts_def due_auto_settle_units_def Let_def concat_units f_def[abs_def])
  have typed: "tx_type p = INCOME" if "t \<in> set ?rows" "p \<in> set ?rows" "mutual t p" "tx_type t = EXPENSE" for t p
    using pairs_typedD[OF full_invD(4)[OF inv] _ _ that(3)] that(1,2,4) by (auto simp: typed_legs_def)
  have pin: "partner_in ?rows t = Some p" if "t \<in> set ?rows" "p \<in> set ?rows" "mutual t p" for t p
    using row_by_distinct[OF dr, of "tx_id p" p] that by (auto simp: partner_in_def mutual_def)
  have rec: "is_reciprocal_pair t (Some p)" if "t \<in> set ?rows" "p \<in> set ?rows" "mutual t p" "tx_id p \<noteq> tx_id t" for t p
    using that by (auto simp: is_reciprocal_pair_def mutual_def)
  have who: "x = t \<and> (is_reciprocal_pair t (partner_in ?rows t) \<longrightarrow> tx_type t = EXPENSE) \<or>
      x \<in> set ?rows \<and> mutual t x \<and> tx_id x \<noteq> tx_id t \<and> tx_type t = EXPENSE" if "t \<in> set ?rows" "x \<in> set (f t)" for t x
    using unit[OF that(1)] that(2) by auto
  have disj: "x \<noteq> y" if t: "t \<in> set ?rows" "u \<in> set ?rows" "t \<noteq> u" and xy: "x \<in> set (f t)" "y \<in> set (f u)" for t u x y
  proof
    assume eq: "x = y"
    from who[OF t(1) xy(1)] who[OF t(2) xy(2)[folded eq]] t(3)
    consider "x = t" "is_reciprocal_pair t (partner_in ?rows t) \<longrightarrow> tx_type t = EXPENSE" "mutual u t" "tx_id t \<noteq> tx_id u" "tx_type u = EXPENSE"
      | "x = u" "is_reciprocal_pair u (partner_in ?rows u) \<longrightarrow> tx_type u = EXPENSE" "mutual t u" "tx_id u \<noteq> tx_id t" "tx_type t = EXPENSE"
      | "mutual t x" "mutual u x" by blast
    then show False
    proof cases
      case 1
      then have "mutual t u" by (simp add: mutual_def)
      with 1 t rec[OF t(1,2)] pin[OF t(1,2)] typed[OF t(2,1)] show False by auto
    next
      case 2
      then have "mutual u t" by (simp add: mutual_def)
      with 2 t rec[OF t(2,1)] pin[OF t(2,1)] typed[OF t(1,2)] show False by auto
    next
      case 3
      then have "tx_id t = tx_id u" by (simp add: mutual_def)
      with key_unique[OF dr t(1,2)] t(3) show False by blast
    qed
  qed
  have sub: "x \<in> set ?rows" if "t \<in> set ?rows" "x \<in> set (f t)" for t x using who[OF that] that(1) by blast
  show "distinct (map tx_id ts)"
    unfolding ts
  proof (rule distinct_concat_map_key)
    show "distinct ?rows" using dr by (simp add: distinct_map)
    show "distinct (map tx_id (f t))" if "t \<in> set ?rows" for t
      using unit[OF that] by auto
    show "tx_id ` set (f t) \<inter> tx_id ` set (f u) = {}" if "t \<in> set ?rows" "u \<in> set ?rows" "t \<noteq> u" for t u
      using disj[OF that] key_unique[OF dr sub[OF that(1)] sub[OF that(2)]] by blast
  qed
  show rows: "\<forall>t \<in> set ts. t \<in> set ?rows" unfolding ts set_concat set_map using sub by blast
  have "settleable s t" if "t \<in> set ?rows" for t
    using that unfolding due_auto_rows_set settleable_def by blast
  with rows show "\<forall>t \<in> set ts. settleable s t" by blast
qed

lemma settle_due_auto_Inr:
  assumes "settle_due_auto s org today = Inr (s', n)" "full_inv s"
  shows "full_inv s'" "frame s' s"
    "transactions s' = map (\<lambda>r. if tx_id r \<in> tx_id ` set (concat (due_auto_settle_units s org today)) then settled r else r) (transactions s)"
    "n = int (length (due_auto_settle_units s org today))"
proof -
  from assms(1) have r: "settle_rows org (concat (due_auto_settle_units s org today)) s = Inr s'"
    "n = int (length (due_auto_settle_units s org today))"
    by (auto simp: settle_due_auto_def rbind_eq_Inr Let_def)
  note u = sweep_units_ok[OF assms(2) refl, of org today]
  from settle_rows_keeps[OF r(1) assms(2) u(3,1)] r(2)
  show "full_inv s'" "frame s' s"
    "transactions s' = map (\<lambda>r. if tx_id r \<in> tx_id ` set (concat (due_auto_settle_units s org today)) then settled r else r) (transactions s)"
    "n = int (length (due_auto_settle_units s org today))" by blast+
qed

section \<open>The generation run\<close>

lemma catch_up_frame:
  assumes "catch_up n rd org today pe ps r (s, g) = Inr (s', g')" "full_inv s" "template_ok s r" "r_org_id r = org"
  shows "account_of s' = account_of s \<and> organizations s' = organizations s"
  using assms
proof (induction n arbitrary: r s g)
  case (Suc n)
  let ?due = "r_next_due_date r"
  show ?case
  proof (cases "\<not> ?due \<le> pe \<or> \<not> has_remaining_occurrences r")
    case True
    with Suc.prems(1) show ?thesis by (auto simp: Let_def)
  next
    case go: False
    have ac: "account_of (put_template r' s1) = account_of s1" for r' s1 by (rule account_of_cong) simp
    show ?thesis
    proof (cases "occurrence_exists s org (r_id r) ?due")
      case True
      with go Suc.prems(1) obtain r' where r': "advance_frontier rd r ?due = Some r'"
        "catch_up n rd org today pe ps r' (put_template r' s, g) = Inr (s', g')"
        by (auto simp: Let_def split: option.splits)
      note a = advance_frontier_Some[OF r'(1)]
      have "template_ok s r'" using Suc.prems(3) a(3) by simp
      note p = put_template_inv[OF Suc.prems(2) this]
      from Suc.IH[OF r'(2) p] \<open>template_ok s r'\<close> Suc.prems(4) a(2) show ?thesis
        by (simp add: ac template_ok_cong[OF ac])
    next
      case False
      with go Suc.prems(1) obtain s1 t r' g1 where c: "create_occurrence s org r ?due today True False = Inr (s1, t)"
        and r': "advance_frontier rd r ?due = Some r'"
        "catch_up n rd org today pe ps r' (put_template r' s1, g1) = Inr (s', g')"
        by (auto simp: Let_def rbind_eq_Inr split: option.splits)
      note a = advance_frontier_Some[OF r'(1)] and f = create_occurrence_full[OF c Suc.prems(2,3,4)]
      from create_occurrence_Inr[OF c full_invD(2)[OF Suc.prems(2)] Suc.prems(3,4)]
      have fr: "frame s1 s" by (metis (full_types))
      have ok: "template_ok s1 r'" using Suc.prems(3) a(3) f(2) by simp
      note p = put_template_inv[OF f(1) ok]
      from Suc.IH[OF r'(2) p] ok Suc.prems(4) a(2) fr show ?thesis
        by (simp add: ac template_ok_cong[OF ac] frame_def)
    qed
  qed
qed simp

lemma catch_up_all_keeps:
  assumes "catch_up_all rd org today pe ps rs (s, g) = Inr (s', g')" "full_inv s"
    and "\<forall>r \<in> set rs. template_ok s r \<and> r_org_id r = org"
  shows "full_inv s'"
  using assms
proof (induction rs arbitrary: s g)
  case (Cons r rs)
  from Cons.prems(1) obtain s1 g1 where c: "catch_up MAX_CATCHUP_ITERATIONS rd org today pe ps r (s, g) = Inr (s1, g1)"
    "catch_up_all rd org today pe ps rs (s1, g1) = Inr (s', g')"
    by (auto simp: rbind_eq_Inr)
  have ok: "template_ok s r" "r_org_id r = org" using Cons.prems(3) by simp_all
  note k = catch_up_keeps[OF c(1) Cons.prems(2) ok] and f = catch_up_frame[OF c(1) Cons.prems(2) ok]
  then have "template_ok s1 = template_ok s" using template_ok_cong by blast
  with Cons.IH[OF c(2) k] Cons.prems(3) show ?case by simp
qed simp

lemma generate_keeps:
  assumes "generate_due_transactions rd s org today = Inr (s', rep)" "full_inv s"
  shows "full_inv s'"
proof -
  from assms(1) obtain pe ps s1 n g g0 where st: "settle_due_auto s org today = Inr (s1, n)"
    and all: "catch_up_all rd org today pe ps (due_templates s1 org pe) (s1, g0) = Inr (s', g)"
    by (auto simp: generate_due_transactions_def Let_def rbind_eq_Inr split: option.splits)
  note inv = settle_due_auto_Inr(1)[OF st assms(2)]
  show ?thesis
    by (rule catch_up_all_keeps[OF all inv]) (use full_invD(8)[OF inv] in \<open>auto simp: due_templates_def\<close>)
qed

end
