(* ===== verification/SeriesKeep.thy ===== *)
theory SeriesKeep
  imports SweepKeep LedgerFacts
begin

text \<open>
  The ledger operations leave what the series engine needs: they keep the templates and the
  owners of the accounts (\<open>frame\<close>), and every link they write joins an expense to an income.
\<close>

lemma series_frame: "frame s' s \<Longrightarrow> pairs_typed (transactions s') \<Longrightarrow> series_inv s \<Longrightarrow> series_inv s'"
  using frame_templates by (simp add: series_inv_def)

lemma move_frame:
  "move_on_account apply_balance org a x ty s = Inr s' \<Longrightarrow> store_wf s \<Longrightarrow> frame s' s \<and> transactions s' = transactions s"
  "move_on_account revert_balance org a x ty s = Inr s' \<Longrightarrow> store_wf s \<Longrightarrow> frame s' s \<and> transactions s' = transactions s"
  using move_apply(1) move_revert(1) by fastforce+

lemma frame_category [simp]:
  "frame (fst (transfer_category org s)) s" "frame (fst (balance_adjustment_category org s)) s"
  by (auto simp: transfer_category_def balance_adjustment_category_def frame_def account_of_def[abs_def] split: option.splits)

lemma balance_adjustment_category_rows [simp]:
  "transactions (fst (balance_adjustment_category org s)) = transactions s"
  "next_id s \<le> next_id (fst (balance_adjustment_category org s))"
  by (auto simp: balance_adjustment_category_def split: option.splits)

section \<open>Creating\<close>

lemma pairs_typed_add:
  assumes "pairs_typed T" "tx_linked t = None" "tx_type t \<noteq> TRANSFER"
  shows "pairs_typed (T @ [t])"
  using assms by (auto simp: pairs_typed_def list_all_iff mutual_def)

lemma create_no_commit_series:
  assumes "create_transaction_no_commit s org body imp adj fitid = Inr (s', t)" "store_wf s" "pairs_typed (transactions s)"
    "tc_type body \<noteq> TRANSFER"
  shows "frame s' s" "pairs_typed (transactions s')"
proof -
  from assms(1) obtain s1 where s1: "s' = add_transaction t s1" "tx_linked t = None" "tx_type t = tc_type body"
    "s1 = s \<or> move_on_account apply_balance org (tc_account_id body) (tc_amount body) (tc_type body) s = Inr s1"
    by (auto simp: create_transaction_no_commit_def rbind_eq_Inr Let_def split: if_splits option.splits)
  have f: "frame s1 s \<and> transactions s1 = transactions s" using s1(4) move_frame(1)[OF _ assms(2)] by auto
  then show "frame s' s" unfolding s1(1) using frame_trans[OF frame_steps(1)] by blast
  show "pairs_typed (transactions s')" using f pairs_typed_add[OF assms(3) s1(2)] s1(3) assms(4) by (simp add: s1(1))
qed

lemma create_series: "create_transaction s org body imp = Inr (s', t) \<Longrightarrow> full_inv s \<Longrightarrow> series_inv s'"
  using create_no_commit_series[of s org body imp False None s' t] full_invD(4,5)[of s] series_frame[of s' s]
  by (simp add: create_transaction_def full_inv_def split: if_splits)

lemma adjust_series:
  assumes "adjust_account_balance show_dec s org aid target reason today = Inr (s', t, old, new, delta)" "full_inv s"
  shows "series_inv s'"
proof -
  from assms(1) obtain a s1 cat s2 t0 a2 where "get_account_for_update s aid org = Inr a"
      and s1: "balance_adjustment_category org s = (s1, cat)"
      "create_transaction_no_commit s1 org (adjustment_body show_dec aid cat (acc_balance a) target reason today)
         False True None = Inr (s2, t0)"
      and "get_account_for_update s2 aid org = Inr a2"
      "old = acc_balance a" "delta = target - acc_balance a" "delta \<noteq> 0" "new = acc_balance a2"
      and res: "s' = put_transaction t s2" "t = t0\<lparr>tx_settled_date := Some today\<rparr>"
    by (rule adjustE)
  have f1: "frame s1 s" "transactions s1 = transactions s"
    using frame_category(2)[of org s] balance_adjustment_category_rows(1)[of org s] s1(1) by simp_all
  have b1: "books (\<lambda>_. 0) s1"
    using balance_adjustment_category_fst(1)[OF full_invD(2)[OF assms(2)], of org] s1(1) by simp
  have "tc_type (adjustment_body show_dec aid cat (acc_balance a) target reason today) \<noteq> TRANSFER"
    by (simp add: adjustment_body_def Let_def)
  note c = create_no_commit_series[OF s1(2) booksD(1)[OF b1] _ this] and c2 = create_no_commit_Inr(1,2)[OF s1(2) b1]
  have p2: "pairs_typed (transactions s2)" using c(2) f1 full_invD(4)[OF assms(2)] by simp
  have "pairs_typed (transactions s')"
    unfolding res(1) by (rule pairs_typed_put[OF p2 booksD(4)[OF c2(1)] c2(2)]) (simp_all add: res(2))
  moreover have "frame s' s"
    unfolding res(1) using frame_trans[OF frame_steps(2) frame_trans[OF c(1) f1(1)]] f1(2) full_invD(4)[OF assms(2)] by simp
  ultimately show ?thesis using series_frame assms(2) by (simp add: full_inv_def)
qed

section \<open>Linking and unlinking\<close>

lemma pairs_typed_relink:
  assumes p: "pairs_typed T" and d: "distinct (map tx_id T)" and e: "e \<in> set T" and i: "i \<in> set T" and ne: "tx_id e \<noteq> tx_id i"
    and new: "tx_id e' = tx_id e" "tx_id i' = tx_id i" "tx_type e' = EXPENSE" "tx_type i' = INCOME"
    and lnk: "tx_linked e' = Some (tx_id i) \<and> tx_linked i' = Some (tx_id e) \<or> tx_linked e' = None \<and> tx_linked i' = None"
  shows "pairs_typed (map (relink e' i') T)"
proof -
  let ?f = "relink e' i'"
  have cases: "t = e \<and> ?f t = e' \<or> t = i \<and> ?f t = i' \<or> tx_id t \<noteq> tx_id e \<and> tx_id t \<noteq> tx_id i \<and> ?f t = t" if "t \<in> set T" for t
    using relink_cases[OF d e i that] ne new(1,2) by (auto simp: relink_def)
  have "typed_legs (?f t) (?f q)" if tq: "t \<in> set T" "q \<in> set T" and m: "mutual (?f t) (?f q)" for t q
    using cases[OF tq(1)] cases[OF tq(2)]
  proof (elim disjE conjE)
    assume "tx_id t \<noteq> tx_id e" "tx_id t \<noteq> tx_id i" "?f t = t" "tx_id q \<noteq> tx_id e" "tx_id q \<noteq> tx_id i" "?f q = q"
    with m pairs_typedD[OF p tq] show ?thesis by simp
  qed (use m lnk ne new in \<open>auto simp: mutual_def typed_legs_def\<close>)
  moreover have "tx_type (?f t) \<noteq> TRANSFER" if "t \<in> set T" for t
    using cases[OF that] new(3,4) pairs_typed_type[OF p that] by (elim disjE conjE) simp_all
  ultimately show ?thesis unfolding pairs_typed_def list_all_iff set_map by blast
qed

lemma link_pair_series:
  assumes "link_pair s loaded e i recat cat = Inr (s', e', i')" "distinct (map tx_id (transactions s))"
    and mem: "e \<in> set (transactions s)" "i \<in> set (transactions s)" and p: "pairs_typed (transactions s)"
  shows "frame s' s" "pairs_typed (transactions s')"
proof -
  from assms(1) obtain s1 c where ck: "link_pair_check s loaded e i = Inr ()"
    and s1: "s1 = s \<or> s1 = fst (transfer_category (tx_org_id e) s)"
    and res: "s' = put_transaction i' (put_transaction e' s1)"
      "e' = (case c of None \<Rightarrow> e | Some c \<Rightarrow> e\<lparr>tx_category_id := c\<rparr>)\<lparr>tx_linked := Some (tx_id i)\<rparr>"
      "i' = (case c of None \<Rightarrow> i | Some c \<Rightarrow> i\<lparr>tx_category_id := c\<rparr>)\<lparr>tx_linked := Some (tx_id e)\<rparr>"
    by (rule link_pairE)
  from ck have ty: "tx_type e = EXPENSE" "tx_type i = INCOME" by (auto simp: link_pair_check_def split: if_splits)
  then have "e \<noteq> i" by auto
  with key_unique[OF assms(2) mem] have ne: "tx_id e \<noteq> tx_id i" by blast
  have n: "tx_id e' = tx_id e" "tx_id i' = tx_id i" "tx_type e' = EXPENSE" "tx_type i' = INCOME"
    "tx_linked e' = Some (tx_id i)" "tx_linked i' = Some (tx_id e)"
    unfolding res(2,3) using ty by (auto split: option.splits)
  have "frame s1 s" using s1 by auto
  then show "frame s' s"
    unfolding res(1) using frame_trans[OF frame_steps(2) frame_trans[OF frame_steps(2)]] by blast
  have "transactions s1 = transactions s" using s1 by auto
  then have "transactions s' = map (relink e' i') (transactions s)"
    unfolding res(1) using put_two[of e' i' s1] ne n(1,2) by simp
  then show "pairs_typed (transactions s')"
    using pairs_typed_relink[OF p assms(2) mem ne n(1-4)] n(5,6) by simp
qed

lemma pair_series:
  assumes "pair_existing_transactions s org eid iid recat cat = Inr (s', e', i')" "full_inv s"
  shows "series_inv s'"
proof -
  from assms(1) obtain e i where ei: "org_row s org eid = Some e" "org_row s org iid = Some i"
    "link_pair s True e i recat cat = Inr (s', e', i')"
    by (auto simp: pair_existing_transactions_def split: if_splits option.splits)
  from link_pair_series[OF ei(3) full_invD(7)[OF assms(2)] _ _ full_invD(4)[OF assms(2)]] org_row_Some[OF ei(1)] org_row_Some[OF ei(2)]
  show ?thesis using series_frame assms(2) by (simp add: full_inv_def)
qed

lemma unpair_series:
  assumes "unpair_transactions s org tid ef fb = Inr (s', e', i')" "full_inv s"
  shows "series_inv s'"
proof -
  from assms(1) obtain t p pid where t: "org_row s org tid = Some t" "tx_linked t = Some pid"
      "org_row s org pid = Some p" "is_reciprocal_pair t (Some p)"
    and res: "s' = put_transaction i' (put_transaction e' s)"
      "e' = (if tx_type t = EXPENSE then t else p)\<lparr>tx_linked := None, tx_category_id := ef\<rparr>"
      "i' = (if tx_type t = EXPENSE then p else t)\<lparr>tx_linked := None, tx_category_id := fb\<rparr>"
    by (auto simp: unpair_transactions_def rbind_eq_Inr Let_def split: option.splits if_splits)
  note tm = org_row_Some[OF t(1)] and pm = org_row_Some[OF t(3)]
  have m: "mutual t p" "tx_id p \<noteq> tx_id t" using t(4) by (auto simp: is_reciprocal_pair_def mutual_def)
  have legs: "typed_legs t p" using pairs_typedD[OF full_invD(4)[OF assms(2)] _ _ m(1)] tm pm by blast
  let ?e = "if tx_type t = EXPENSE then t else p" and ?i = "if tx_type t = EXPENSE then p else t"
  have n: "tx_id e' = tx_id ?e" "tx_id i' = tx_id ?i" "tx_type e' = EXPENSE" "tx_type i' = INCOME"
    "tx_linked e' = None" "tx_linked i' = None" "tx_id ?e \<noteq> tx_id ?i" "?e \<in> set (transactions s)" "?i \<in> set (transactions s)"
    using legs m tm pm by (auto simp: res(2,3) typed_legs_def)
  have "transactions s' = map (relink e' i') (transactions s)"
    unfolding res(1) by (rule put_two) (use n in simp)
  then have "pairs_typed (transactions s')"
    using pairs_typed_relink[OF full_invD(4,7)[OF assms(2)] n(8,9,7,1,2,3,4)] n(5,6) by simp
  moreover have "frame s' s" unfolding res(1) using frame_trans[OF frame_steps(2) frame_steps(2)] .
  ultimately show ?thesis using series_frame assms(2) by (simp add: full_inv_def)
qed

lemma transfer_series:
  assumes "create_transfer s org body imp = Inr (s', e', i')" "full_inv s"
  shows "series_inv s'"
proof -
  let ?from = "tf_from_account_id body" and ?to = "tf_to_account_id body"
  from assms(1) obtain s1 cat where
    r1: "resolve_transfer_category s org (tf_category_id body) = Inr (s1, cat)"
    by (auto simp: create_transfer_def rbind_eq_Inr split: if_splits)
  then have s1: "s1 = s \<or> s1 = fst (transfer_category org s)"
    by (auto simp: resolve_transfer_category_def rbind_eq_Inr split: option.splits)
  define e where "e = transfer_leg s1 org body ?from cat (transfer_description s org body) EXPENSE imp"
  define i where
    "i = transfer_leg (add_transaction e s1) org body ?to cat (transfer_description s org body) INCOME imp"
  let ?s3 = "add_transaction i (add_transaction e s1)"
  from assms(1) r1 obtain s4 where lp: "link_pair ?s3 False e i False (Some cat) = Inr (s4, e', i')"
    and fin: "if tf_status body = SETTLED then rbind (bump_account org ?from (- tf_amount body) s4)
       (bump_account org ?to (tf_amount body)) = Inr s' else s' = s4"
    by (auto simp: create_transfer_def rbind_eq_Inr Let_def e_def i_def split: if_splits)
  have b1: "books (\<lambda>_. 0) s1" using s1 transfer_category_books full_invD(2)[OF assms(2)] by auto
  have T1: "transactions s1 = transactions s" "frame s1 s" using s1 by auto
  have leg: "tx_linked e = None" "tx_linked i = None" by (simp_all add: e_def i_def transfer_leg_def)
  have ids: "tx_id e = next_id s1" "tx_id i = next_id s1 + 1" by (simp_all add: e_def i_def transfer_leg_def)
  have wf3: "store_wf ?s3" using booksD(1)[OF b1] ids by (fastforce simp: store_wf_def list_all_iff)
  then have d3: "distinct (map tx_id (transactions ?s3))" by (simp only: store_wf_def)
  have "pairs_typed ((transactions s @ [e]) @ [i])"
    by (intro pairs_typed_add full_invD(4)[OF assms(2)] leg) (simp_all add: e_def i_def transfer_leg_def)
  then have p3: "pairs_typed (transactions ?s3)" by (simp add: T1)
  have f3: "frame ?s3 s" using frame_trans[OF frame_steps(1) frame_trans[OF frame_steps(1) T1(2)]] .
  note lk = link_pair_series[OF lp d3 _ _ p3, simplified]
  from lp obtain c where res: "s4 = put_transaction i' (put_transaction e' ?s3)"
    by (auto simp: link_pair_def rbind_eq_Inr Let_def)
  have wf4: "store_wf s4" unfolding res using wf3 by simp
  have "frame s' s4 \<and> transactions s' = transactions s4"
  proof (cases "tf_status body = SETTLED")
    case True
    with fin wf4 have "s' = add_balance ?to (tf_amount body) (add_balance ?from (- tf_amount body) s4)"
      using bump_two by auto
    then show ?thesis using frame_trans[OF frame_add_balance frame_add_balance] by simp
  qed (use fin in simp)
  with lk f3 show ?thesis
    using frame_trans series_frame assms(2) unfolding full_inv_def by metis
qed

section \<open>Deleting\<close>

lemma pairs_typed_filter: "pairs_typed T \<Longrightarrow> pairs_typed (filter P T)"
  by (auto simp: pairs_typed_def list_all_iff)

lemma pairs_typed_rows_after: "pairs_typed T \<Longrightarrow> pairs_typed (rows_after dem ids T)"
  unfolding rows_after_def
  by (intro pairs_typed_map pairs_typed_filter) (auto simp: demote_def unlink_def split: option.splits)

lemma frame_fold:
  assumes "\<And>x s. x \<in> set xs \<Longrightarrow> frame (f x s) s"
  shows "frame (fold f xs s) s"
  using assms
proof (induction xs arbitrary: s)
  case (Cons x xs)
  have "frame (fold f xs (f x s)) (f x s)" using Cons by simp
  with Cons.prems[of x s] frame_trans show ?case by simp
qed simp

lemma frame_settlement: "frame (fst (apply_batch_settlement org plan s)) s"
proof -
  have "frame (settle_batch plan org b s) s" "frame (close_settled plan org b s) s" for b and s :: store
    by (auto simp: settle_batch_def close_settled_def frame_def account_of_def[abs_def] put_batch_def split: option.splits)
  then have f: "frame (fold (settle_batch plan org) xs s) s" "frame (fold (close_settled plan org) xs s) s"
    "frame (fold (\<lambda>r. put_transaction (r\<lparr>tx_recon := rejected\<rparr>)) ds s) s" for xs ds and s :: store
    by (simp_all add: frame_fold)
  show ?thesis
    unfolding apply_batch_settlement_def Let_def
  proof (split if_split, intro conjI impI)
    show "frame (fst (fold (\<lambda>r. put_transaction (r\<lparr>tx_recon := rejected\<rparr>)) (sp_demoted plan) s, [])) s"
      unfolding fst_conv by (rule f(3))
  qed (unfold fst_conv, rule frame_trans[OF f(2) frame_trans[OF f(1) f(3)]])
qed

lemma revert_rows_frame: "revert_rows org rs s = Inr s' \<Longrightarrow> store_wf s \<Longrightarrow> frame s' s \<and> store_wf s'"
proof (induction rs arbitrary: s)
  case (Cons r rs)
  then obtain s1 where s1: "move_on_account revert_balance org (tx_account_id r) (tx_amount r) (tx_type r) s = Inr s1"
    "revert_rows org rs s1 = Inr s'" by (auto simp: rbind_eq_Inr)
  have "store_wf s1" using move_revert(1)[OF s1(1) Cons.prems(2)] Cons.prems(2) by simp
  with Cons.IH[OF s1(2)] move_frame(2)[OF s1(1) Cons.prems(2)] show ?case using frame_trans by blast
qed simp

lemma delete_writes_frame:
  assumes "delete_writes org reverts del plan s = Inr (s', dem)" "store_wf s"
  shows "frame s' s"
proof -
  from assms(1) obtain s1 where s1: "revert_rows org reverts s = Inr s1"
    and s': "s' = delete_rows (map tx_id del) (fst (apply_batch_settlement org plan s1))"
    by (auto simp: delete_writes_def rbind_eq_Inr case_prod_beta)
  have "frame (delete_rows ids x) x" for ids and x :: store
    by (simp add: delete_rows_def frame_def account_of_def[abs_def])
  then show ?thesis
    unfolding s' using frame_settlement revert_rows_frame[OF s1 assms(2)] frame_trans by metis
qed

lemma delete_series:
  assumes "delete_transaction s org tid = Inr (s', dem)" "full_inv s"
  shows "series_inv s'"
proof -
  note db = full_invD(1)[OF assms(2)]
  from assms(1) obtain plan where "plan_transaction_delete s org tid = Inr plan" and plan:
    "delete_writes org (dp_reverts plan) (dp_deleted plan) (dp_settlement plan) s = Inr (s', dem)"
    by (auto simp: delete_transaction_def apply_transaction_delete_def rbind_eq_Inr)
  from delete_transaction_rows[OF assms(1) db] obtain del where "transactions s' = rows_after dem del (transactions s)"
    by metis
  with delete_writes_frame[OF plan full_invD(5)[OF assms(2)]] pairs_typed_rows_after[OF full_invD(4)[OF assms(2)]]
  show ?thesis using series_frame assms(2) by (simp add: full_inv_def)
qed

lemma bulk_series:
  assumes "bulk_delete_transactions s org ids = Inr (s', n, skip_ids, dem)" "full_inv s"
  shows "series_inv s'"
  using assms(1)
proof (cases rule: bulk_deleteE)
  case idle
  then show ?thesis using assms(2) by (simp add: full_inv_def)
next
  case (bulk rows D sk)
  note db = full_invD(1)[OF assms(2)]
  note c = bulk_closed(1)[OF db bulk(2)[unfolded bulk(1)], folded bulk(1)]
  from delete_writes_Inr(2)[OF bulk(3) db c] delete_writes_frame[OF bulk(3) full_invD(5)[OF assms(2)]]
    pairs_typed_rows_after[OF full_invD(4)[OF assms(2)]]
  show ?thesis using series_frame assms(2) by (simp add: full_inv_def)
qed

section \<open>Reconciling\<close>

lemma pairs_typed_oneway:
  assumes p: "pairs_typed T" and d: "distinct (map tx_id T)" and t: "t \<in> set T" and q: "q \<in> set T" "tx_id q \<noteq> tx_id t"
    and u: "tx_id u = tx_id t" "tx_linked u = Some (tx_id q)" "tx_linked q \<noteq> Some (tx_id t)" "tx_type u = tx_type t"
  shows "pairs_typed (map (\<lambda>r. if tx_id r = tx_id t then u else r) T)"
proof -
  let ?f = "\<lambda>r. if tx_id r = tx_id t then u else r"
  have no: "\<not> mutual u (?f x)" "\<not> mutual (?f x) u" if "x \<in> set T" for x
  proof -
    have "tx_linked x \<noteq> Some (tx_id t)" if "tx_id x = tx_id q"
      using key_unique[OF d \<open>x \<in> set T\<close> q(1) that] u(3) by blast
    then show "\<not> mutual u (?f x)" "\<not> mutual (?f x) u" using u q(2) by (auto simp: mutual_def)
  qed
  have "typed_legs (?f x) (?f y)" if xy: "x \<in> set T" "y \<in> set T" "mutual (?f x) (?f y)" for x y
    using no[OF xy(1)] no[OF xy(2)] pairs_typedD[OF p xy(1,2)] xy(3)
    by (cases "tx_id x = tx_id t"; cases "tx_id y = tx_id t") simp_all
  moreover have "tx_type (?f x) \<noteq> TRANSFER" if "x \<in> set T" for x
    using pairs_typed_type[OF p] that t u(4) by simp
  ultimately show ?thesis by (simp only: pairs_typed_def list_all_iff set_map) blast
qed

lemma reconcile_one_series:
  assumes r: "reconcile_one rd today org tr (s, b) = Inr (s', b')" and wf: "store_wf s" and p: "pairs_typed (transactions s)"
  shows "frame s' s \<and> pairs_typed (transactions s')"
proof -
  have d: "distinct (map tx_id (transactions s))" using wf by (simp add: store_wf_def)
  from r obtain t where t: "org_row s org (tr_transaction_id tr) = Some t"
    by (auto simp: reconcile_one_def rbind_eq_Inr split: option.splits)
  note tm = org_row_Some[OF t]
  show ?thesis
  proof (cases "tx_recon t = tr_to_state tr")
    case True
    with r t have "s' = s" by (auto simp: reconcile_one_def rbind_eq_Inr Let_def split: if_splits)
    with p show ?thesis by simp
  next
    case False
    from r t False obtain s1 u1 tp s2 sp src where
      pay: "(if tr_to_state tr = edited then
                rbind (apply_edits rd today s org t tr sp src) (\<lambda>(s1, tx1). Inr (s1, tx1, sp))
              else if tr_to_state tr = matched then
                rbind (apply_match s org t tr) (\<lambda>(tx1, target). Inr (s, tx1, Some target))
              else Inr (s, t, sp)) = Inr (s1, u1, tp)" and
      step: "apply_balance_for_transition s1 org (u1\<lparr>tx_recon := tr_to_state tr\<rparr>) src tp = Inr s2" and
      res: "s' = put_transaction (u1\<lparr>tx_recon := tr_to_state tr\<rparr>) s2"
      by (auto simp: reconcile_one_def rbind_eq_Inr Let_def split: if_splits)
    let ?u = "u1\<lparr>tx_recon := tr_to_state tr\<rparr>"
    have s1: "frame s1 s \<and> transactions s1 = transactions s \<and> store_wf s1 \<and> tx_id u1 = tx_id t \<and>
      tx_type u1 = tx_type t \<and> (tx_linked u1 = tx_linked t \<or>
        (\<exists>q \<in> set (transactions s). tx_linked u1 = Some (tx_id q) \<and> tx_id q \<noteq> tx_id t \<and> tx_linked q \<noteq> Some (tx_id t)))"
    proof (cases "tr_to_state tr = edited")
      case True
      with pay have "apply_edits rd today s org t tr sp src = Inr (s1, u1)" by (auto simp: rbind_eq_Inr)
      note e = apply_edits_Inr[OF this wf]
      show ?thesis using e(1-9) wf by (auto split: if_splits)
    next
      case ne: False
      show ?thesis
      proof (cases "tr_to_state tr = matched")
        case True
        with pay obtain q where "apply_match s org t tr = Inr (u1, q)" "s1 = s" by (auto simp: rbind_eq_Inr)
        with apply_match_Inr[OF this(1)] wf show ?thesis by auto
      next
        case False
        with ne pay wf show ?thesis by auto
      qed
    qed
    then have wf1: "store_wf s1" by blast
    have st: "frame s2 s1 \<and> transactions s2 = transactions s1"
      using step move_frame(1)[OF _ wf1] move_frame(2)[OF _ wf1]
      by (auto simp: apply_balance_for_transition_def Let_def split: if_splits)
    have rows: "transactions s' = map (\<lambda>r. if tx_id r = tx_id t then ?u else r) (transactions s)"
      unfolding res put_transaction_sel update_row_map using s1 st by simp
    have "frame s' s" unfolding res using frame_trans[OF frame_steps(2) frame_trans] st s1 by blast
    moreover have "pairs_typed (transactions s')"
    proof (cases "tx_linked u1 = tx_linked t")
      case True
      have "pairs_typed (transactions (put_transaction ?u s))"
        by (rule pairs_typed_put[OF p d]) (use tm s1 True in auto)
      then show ?thesis unfolding rows put_transaction_sel update_row_map using s1 by simp
    next
      case False
      with s1 obtain q where "q \<in> set (transactions s)" "tx_linked u1 = Some (tx_id q)" "tx_id q \<noteq> tx_id t"
        "tx_linked q \<noteq> Some (tx_id t)" by blast
      then show ?thesis unfolding rows using s1 tm by (intro pairs_typed_oneway[OF p d, of t q]) auto
    qed
    ultimately show ?thesis by blast
  qed
qed

lemma reconcile_all_series:
  "reconcile_all rd today org trs (s, b) = Inr (s', b') \<Longrightarrow> in_flight org (s, b) \<Longrightarrow> pairs_typed (transactions s) \<Longrightarrow>
     frame s' s \<and> pairs_typed (transactions s')"
proof (induction trs arbitrary: s b)
  case (Cons tr trs)
  from Cons.prems(1) obtain s1 b1 where c: "reconcile_one rd today org tr (s, b) = Inr (s1, b1)"
    "reconcile_all rd today org trs (s1, b1) = Inr (s', b')"
    by (auto simp: rbind_eq_Inr)
  have "store_wf s" using Cons.prems(2) by (simp add: in_flight_def ledger_inv_def)
  note one = reconcile_one_series[OF c(1) this Cons.prems(3)] and fl = reconcile_one_Inr(1)[OF c(1) Cons.prems(2)]
  from Cons.IH[OF c(2) fl] one frame_trans show ?case by blast
qed simp

lemma reconcile_series:
  assumes "reconcile_request rd today s org bid trs = Inr (s', b')" "full_inv s"
  shows "series_inv s'"
proof -
  from assms(1) obtain b s1 b1 where b: "find_batch s bid org = Some b"
    and all: "reconcile_all rd today org trs (s, b) = Inr (s1, b1)"
    and s': "s' = put_batch b' s1"
    by (auto simp: reconcile_request_def get_batch_for_update_def rbind_eq_Inr Let_def split: option.splits)
  have bm: "b \<in> set (batches s)" "ib_id b = bid" "ib_org_id b = org"
    using b by (auto simp: find_batch_def find_Some_iff)
  have "distinct (map ib_id (batches s))" using full_invD(5)[OF assms(2)] by (simp add: store_wf_def)
  from update_row_same[OF this bm(1)] have "put_batch b s = s" by (simp add: put_batch_def)
  then have "in_flight org (s, b)"
    using full_invD(1)[OF assms(2)] bm by (auto simp: in_flight_def db_inv_def)
  from reconcile_all_series[OF all this full_invD(4)[OF assms(2)]]
  have "frame s' s \<and> pairs_typed (transactions s')" unfolding s' using frame_trans[OF frame_steps(3)] by simp
  then show ?thesis using series_frame assms(2) unfolding full_inv_def by blast
qed

end
