(* ===== verification/SeriesOps.thy ===== *)
theory SeriesOps
  imports SeriesKeep
begin

text \<open>
  Creating, materialising, skipping, stopping and deleting a series keep the invariant. A
  stop removes a set of pending rows that is closed under transfer partners, so it is a
  delete in the sense of \<open>delete_closed\<close> with nothing to revert.
\<close>

section \<open>Creating and materialising\<close>

lemma add_template_inv:
  assumes inv: "full_inv s" and ok: "template_ok s r" and id: "r_id r = next_id s"
    and s': "s' = s\<lparr>templates := templates s @ [r], next_id := next_id s + 1\<rparr>"
  shows "full_inv s'"
proof -
  have ac: "account_of s' = account_of s" and ro: "row_ok s' = row_ok s"
    by (rule account_of_cong row_ok_cong; simp add: s')+
  have wf: "store_wf s'"
    using full_invD(5)[OF inv] by (fastforce simp: store_wf_def s' id list_all_iff)
  have "books (\<lambda>_. 0) s'"
    using full_invD(2)[OF inv] wf by (simp add: books_def ro off_by_def) (simp add: s')
  moreover have "batches_inv s'" using full_invD(3)[OF inv] batches_inv_cong[of s' s] by (simp add: s')
  moreover have "list_all (template_ok s') (templates s')"
    using inv ok by (simp add: template_ok_cong[OF ac] full_inv_def series_inv_def) (simp add: s')
  ultimately show "full_inv s'" using full_invD(4)[OF inv] by (intro full_invI) (simp_all add: s')
qed

lemma create_recurring_Inr:
  assumes "create_recurring rd s org body today = Inr (s', r)" "full_inv s"
  shows "full_inv s'" "transactions s' = transactions s" "accounts s' = accounts s" "templates s' = templates s @ [r]"
    "r_id r = next_id s" "r_occurrences_elapsed r = 0" "r_next_due_date r = rc_next_due_date body"
proof -
  from assms(1) have acc: "account_of s (rc_account_id body) org"
    and tr: "validate_transfer_accounts s org (rc_type body) (rc_account_id body) (rc_to_account_id body) = Inr ()"
    and s': "s' = s\<lparr>templates := templates s @ [r], next_id := next_id s + 1\<rparr>"
    and r: "r_id r = next_id s" "r_org_id r = org" "r_account_id r = rc_account_id body" "r_to_account_id r = rc_to_account_id body"
      "r_occurrences_elapsed r = 0" "r_next_due_date r = rc_next_due_date body"
    by (auto simp: create_recurring_def rbind_eq_Inr validate_account_Inr Let_def)
  have "account_of s to_id org" if "rc_to_account_id body = Some to_id" for to_id
    using tr that by (auto simp: validate_transfer_accounts_def find_account_def account_of_def list_ex_iff find_Some_iff
        split: if_splits option.splits dest!: nth_mem)
  then have "template_ok s r" using acc by (simp add: template_ok_def r split: option.splits)
  from add_template_inv[OF assms(2) this r(1) s'] show "full_inv s'" .
  show "transactions s' = transactions s" "accounts s' = accounts s" "templates s' = templates s @ [r]"
    "r_id r = next_id s" "r_occurrences_elapsed r = 0" "r_next_due_date r = rc_next_due_date body"
    using r by (simp_all add: s')
qed

lemma find_template_Some:
  "find_template s i org = Some r \<Longrightarrow> r \<in> set (templates s) \<and> r_id r = i \<and> r_org_id r = org"
  by (auto simp: find_template_def find_Some_iff)

lemma materialise_nextE:
  assumes "materialise_next rd s org rid od sk today = Inr (s', t)"
  obtains r s1 r' ps where "find_template s rid org = Some r" "r_next_due_date r = od" "r_is_active r"
    "has_remaining_occurrences r" "frontier_lower_bound rd s org today = Inr ps" "ps \<le> od"
    "\<not> occurrence_exists s org rid od" "create_occurrence s org r od today False sk = Inr (s1, t)"
    "advance_frontier rd r od = Some r'" "s' = put_template r' s1"
proof -
  from assms obtain r where r: "find_template s rid org = Some r"
    by (auto simp: materialise_next_def split: option.splits)
  note id = find_template_Some[OF r]
  from assms r id show thesis
    by (auto simp: materialise_next_def rbind_eq_Inr Let_def split: option.splits if_splits intro: that)
qed

lemma materialise_next_Inr:
  assumes "materialise_next rd s org rid od sk today = Inr (s', t)" "full_inv s"
  shows "full_inv s'"
  using assms(1)
proof (rule materialise_nextE)
  fix r s1 r' ps
  assume r: "find_template s rid org = Some r" and c: "create_occurrence s org r od today False sk = Inr (s1, t)"
    and a: "advance_frontier rd r od = Some r'" and s': "s' = put_template r' s1"
  note id = find_template_Some[OF r]
  have ok: "template_ok s r" using full_invD(8)[OF assms(2)] id by blast
  note f = create_occurrence_full[OF c assms(2) ok] and adv = advance_frontier_Some[OF a]
  show "full_inv s'"
    unfolding s' by (rule put_template_inv) (use f id ok adv in simp_all)
qed

lemma skip_occurrence_Inr:
  assumes "skip_occurrence s org tid = Inr (s', u)"
  obtains t where "org_row s org tid = Some t" "tx_recurring_id t \<noteq> None" "tx_status t = PENDING" "tx_recon t = accepted"
    "tx_import_batch_id t = None" "tx_linked t = None" "\<forall>v \<in> set (transactions s). tx_org_id v = org \<longrightarrow> tx_linked v \<noteq> Some (tx_id t)"
    "u = t\<lparr>tx_recon := skipped\<rparr>" "s' = put_transaction u s"
  using assms by (auto simp: skip_occurrence_def rbind_eq_Inr Let_def list_ex_iff split: option.splits if_splits)

lemma skip_keeps:
  assumes "skip_occurrence s org tid = Inr (s', u)" "full_inv s"
  shows "full_inv s'" "accounts s' = accounts s"
proof -
  from assms(1) obtain t where t: "org_row s org tid = Some t" "tx_recurring_id t \<noteq> None" "tx_status t = PENDING"
    "tx_recon t = accepted" "tx_import_batch_id t = None" "tx_linked t = None"
    "\<forall>v \<in> set (transactions s). tx_org_id v = org \<longrightarrow> tx_linked v \<noteq> Some (tx_id t)" and u: "u = t\<lparr>tx_recon := skipped\<rparr>" and s': "s' = put_transaction u s"
    by (rule skip_occurrence_Inr)
  have tm: "t \<in> set (transactions s)" using org_row_Some[OF t(1)] by blast
  note b = full_invD(2)[OF assms(2)] and d = full_invD(7)[OF assms(2)]
  have "row_ok s u" using booksD(6)[OF b tm] by (simp add: u row_ok_def)
  from books_put_row[OF b tm _ _ _ this] have "books (\<lambda>_. 0) s'"
    unfolding s' by (rule books_eq) (simp_all add: u t(3) settled_contribution_def)
  moreover have "batches_inv s'"
    using batches_inv_cols[OF batch_cols_put_none[OF d tm]] full_invD(3)[OF assms(2)] t(5) by (simp add: u s')
  moreover have "pairs_typed (transactions s')"
    unfolding s' by (rule pairs_typed_put[OF full_invD(4)[OF assms(2)] d tm]) (simp_all add: u)
  moreover have "list_all (template_ok s') (templates s')"
    using frame_templates[of s' s] assms(2) by (simp add: s' full_inv_def series_inv_def)
  ultimately show "full_inv s'" by (intro full_invI)
  show "accounts s' = accounts s" by (simp add: s')
qed

section \<open>Columns nothing of the ledger reads\<close>

text \<open>An edit of a row that the invariants allow: keys, links and states stay, a settled row keeps
  its money, and a pending one may move to another account of its organisation.\<close>

definition ledger_edit :: "store \<Rightarrow> transaction \<Rightarrow> transaction \<Rightarrow> bool" where
  "ledger_edit s u t \<longleftrightarrow>
     tx_id u = tx_id t \<and> tx_org_id u = tx_org_id t \<and> tx_type u = tx_type t \<and> tx_status u = tx_status t \<and>
     tx_linked u = tx_linked t \<and> tx_recon u = tx_recon t \<and> tx_import_batch_id u = tx_import_batch_id t \<and>
     account_of s (tx_account_id u) (tx_org_id u) \<and>
     (tx_status t = SETTLED \<longrightarrow> tx_account_id u = tx_account_id t \<and> tx_amount u = tx_amount t \<and> tx_settled_date u \<noteq> None)"

lemma full_inv_edit_rows:
  assumes inv: "full_inv s"
    and f: "\<And>t. t \<in> set (transactions s) \<Longrightarrow> ledger_edit s (f t) t"
    and s': "s' = s\<lparr>transactions := map f (transactions s), templates := R\<rparr>"
    and R: "distinct (map r_id R)" "r_id ` set R \<subseteq> r_id ` set (templates s)" "list_all (template_ok s) R"
  shows "full_inv s'"
proof -
  note b = full_invD(2)[OF inv]
  let ?T = "transactions s"
  have ac: "account_of s' = account_of s" and ro: "row_ok s' = row_ok s"
    by (rule account_of_cong row_ok_cong; simp add: s')+
  have ids: "map tx_id (map f ?T) = map tx_id ?T" using f by (auto simp: ledger_edit_def)
  have filt: "balance_contribution_filter (map f ?T) t = balance_contribution_filter ?T t" for t
    by (rule contribution_filter_update) (use f in \<open>auto simp: ledger_edit_def\<close>)
  have "settled_contribution (map f ?T) i (f t) = settled_contribution ?T i t" if t: "t \<in> set ?T" for t i
  proof (cases "tx_status t = SETTLED")
    case True
    show ?thesis
    proof (rule settled_contribution_cong)
      have "balance_contribution_filter ?T (f t) = balance_contribution_filter ?T t"
        using f[OF t] by (simp add: balance_contribution_filter_def ledger_edit_def)
      then show "balance_contribution_filter (map f ?T) (f t) = balance_contribution_filter ?T t" using filt by simp
    qed (use f[OF t] True in \<open>auto simp: ledger_edit_def\<close>)
  next
    case False
    then show ?thesis using f[OF t] by (simp add: settled_contribution_def ledger_edit_def)
  qed
  then have tot: "total (map f ?T) i = total ?T i" for i by (rule total_map_same)
  have "store_wf s'"
  proof -
    have "list_all (\<lambda>t. tx_id t < n) (map f ?T) = list_all (\<lambda>i. i < n) (map tx_id (map f ?T))" for n
      by (simp add: list_all_iff)
    then have "list_all (\<lambda>t. tx_id t < n) (map f ?T) = list_all (\<lambda>t. tx_id t < n) ?T" for n
      unfolding ids by (simp add: list_all_iff)
    then show ?thesis
      using full_invD(5)[OF inv] R ids by (auto simp: store_wf_def s' list_all_iff simp del: map_map)
  qed
  moreover have "list_all (row_ok s) (map f ?T)"
  proof -
    have "row_ok s (f t)" if "t \<in> set ?T" for t
      using f[OF that] booksD(6)[OF b that] by (auto simp: row_ok_def ledger_edit_def)
    then show ?thesis by (simp add: list_all_iff)
  qed
  moreover have "links_wf (map f ?T)"
    by (rule links_wf_map[OF booksD(2)[OF b]]) (use f in \<open>auto simp: ledger_edit_def\<close>)
  moreover have "off_by (\<lambda>_. 0) s'" using booksD(3)[OF b] by (simp add: off_by_def s' tot)
  ultimately have "books (\<lambda>_. 0) s'" by (simp add: books_def ro) (simp add: s')
  moreover have cols: "tx_import_batch_id (f t) = tx_import_batch_id t" "tx_recon (f t) = tx_recon t"
    "tx_org_id (f t) = tx_org_id t" if "t \<in> set ?T" for t
    using f[OF that] by (simp_all add: ledger_edit_def)
  have "batch_cols (map f xs) = batch_cols xs" if "set xs \<subseteq> set ?T" for xs
    using that by (induction xs) (auto simp: batch_cols_def cols)
  then have "same_batches s' s" by (simp add: same_batches_def s')
  then have "batches_inv s'" using batches_inv_cols full_invD(3)[OF inv] by blast
  moreover have "pairs_typed (map f ?T)"
    by (rule pairs_typed_map[OF full_invD(4)[OF inv]]) (use f in \<open>auto simp: ledger_edit_def\<close>)
  ultimately show ?thesis using R(3) by (intro full_invI) (simp_all add: template_ok_cong[OF ac], simp_all add: s')
qed

lemma full_inv_map_rows:
  assumes inv: "full_inv s"
    and f: "\<And>t. t \<in> set (transactions s) \<Longrightarrow> same_money (f t) t \<and> tx_linked (f t) = tx_linked t \<and>
      tx_import_batch_id (f t) = tx_import_batch_id t"
    and s': "s' = s\<lparr>transactions := map f (transactions s), templates := R\<rparr>"
    and R: "distinct (map r_id R)" "set R \<subseteq> set (templates s)"
  shows "full_inv s'"
proof (rule full_inv_edit_rows[OF inv _ s' R(1)])
  show "ledger_edit s (f t) t" if "t \<in> set (transactions s)" for t
    using f[OF that] booksD(6)[OF full_invD(2)[OF inv] that]
    by (auto simp: ledger_edit_def same_money_def row_ok_def)
  show "list_all (template_ok s) R" using R(2) full_invD(8)[OF inv] by (auto simp: list_all_iff)
qed (use R(2) in blast)

section \<open>Stopping and deleting\<close>

lemma plan_pending_removal_closed:
  assumes inv: "full_inv s" and plan_def: "plan = plan_pending_removal s org rid today"
  shows "pr_settlement plan = None \<and> pr_doomed plan = [] \<or>
    pr_settlement plan = Some (plan_batch_settlement (pr_rows plan) (map tx_id (pr_doomed plan))) \<and>
    delete_closed (transactions s) org (pr_rows plan) (pr_doomed plan) \<and>
    (\<forall>t \<in> set (pr_doomed plan). pending_of_series rid today t)"
proof (cases "pr_settlement plan")
  case None
  then show ?thesis by (auto simp: plan_def plan_pending_removal_def Let_def split: if_splits)
next
  case (Some st)
  define cand where "cand = map tx_id (filter (\<lambda>t. tx_org_id t = org \<and> pending_of_series rid today t) (transactions s))"
  define ids where "ids = cand @ filter (\<lambda>i. i \<notin> set cand) (inbound_ids s org cand)"
  define rows where "rows = locked_rows s org ids"
  define doomed0 where "doomed0 = filter (pending_of_series rid today) rows"
  define doomed where "doomed = filter (\<lambda>t. \<not> splits_pair rows doomed0 t) doomed0"
  have "plan = (if cand = [] then \<lparr>pr_rows = [], pr_doomed = [], pr_settlement = None\<rparr>
      else if doomed = [] then \<lparr>pr_rows = rows, pr_doomed = [], pr_settlement = None\<rparr>
      else \<lparr>pr_rows = rows, pr_doomed = doomed, pr_settlement = Some (plan_batch_settlement rows (map tx_id doomed))\<rparr>)"
    by (simp only: plan_def plan_pending_removal_def Let_def cand_def ids_def rows_def doomed0_def doomed_def)
  with Some have plan: "pr_rows plan = rows" "pr_doomed plan = doomed" "st = plan_batch_settlement rows (map tx_id doomed)"
    by (simp_all split: if_splits)
  note d = full_invD(7)[OF inv] and l = full_invD(6)[OF inv]
  have dr: "distinct (map tx_id rows)" unfolding rows_def by (rule locked_rows_distinct[OF d])
  have sub: "set doomed \<subseteq> set doomed0" "set doomed0 \<subseteq> set rows" by (auto simp: doomed_def doomed0_def)
  have dm: "r \<in> set (transactions s)" "tx_org_id r = org" "pending_of_series rid today r" "tx_id r \<in> set cand"
    if "r \<in> set doomed0" for r
    using that by (auto simp: doomed0_def rows_def cand_def)
  have inb: "p \<in> set rows" if "p \<in> set (transactions s)" "tx_org_id p = org" "tx_linked p = Some i" "i \<in> set cand" for p i
    using that by (auto simp: rows_def ids_def)
  have mutual: "p \<in> set doomed" if r: "r \<in> set doomed" and p: "p \<in> set (transactions s)"
    and m: "tx_linked r = Some (tx_id p)" "tx_linked p = Some (tx_id r)" for r p
  proof -
    note r0 = dm[OF subsetD[OF sub(1) r]]
    have po: "tx_org_id p = org" "tx_id p \<noteq> tx_id r"
      using links_wfD[OF l r0(1) m(1)] key_unique[OF d _ p] r0(2) by auto
    have pr: "p \<in> set rows" by (rule inb[OF p po(1) m(2) r0(4)])
    have rr: "r \<in> set rows" using r sub by blast
    have part: "partner_in rows r = Some p" "partner_in rows p = Some r"
      using row_by_distinct[OF dr] pr rr m by (auto simp: partner_in_def)
    have rec: "is_reciprocal_pair r (Some p)" "is_reciprocal_pair p (Some r)"
      using m po r0(2) by (auto simp: is_reciprocal_pair_def)
    have "\<not> splits_pair rows doomed0 r" using r by (simp add: doomed_def)
    with part rec m have "tx_id p \<in> tx_id ` set doomed0" by (auto simp: splits_pair_def)
    then obtain q where q: "q \<in> set doomed0" "tx_id q = tx_id p" by (metis imageE)
    have "q = p" by (rule key_unique[OF dr _ pr q(2)]) (use q(1) sub(2) in blast)
    with q(1) have p0: "p \<in> set doomed0" by simp
    moreover have "\<not> splits_pair rows doomed0 p" using m(2) r sub(1) by (auto simp: splits_pair_def)
    ultimately show ?thesis by (simp add: doomed_def)
  qed
  have "delete_closed (transactions s) org rows doomed"
    unfolding rows_def
  proof (rule delete_closedI[OF full_invD(5)[OF inv] l, of cand])
    show "set cand \<union> set (inbound_ids s org cand) \<subseteq> set ids" by (auto simp: ids_def)
    show "distinct (map tx_id doomed)" unfolding doomed_def doomed0_def using dr by (intro distinct_map_filter)
    show "set doomed \<subseteq> set (transactions s)" using sub dm(1) by blast
    show "tx_org_id r = org \<and> tx_id r \<in> set cand" if "r \<in> set doomed" for r using that sub dm(2,4) by blast
    show "i \<in> set ids" if "r \<in> set doomed" "tx_status r = SETTLED" "tx_linked r = Some i" for r i
      using dm(3)[of r] that sub by (auto simp: pending_of_series_def)
    show "p \<in> set doomed" if "r \<in> set doomed" "p \<in> set (transactions s)" "tx_linked r = Some (tx_id p)"
      "tx_linked p = Some (tx_id r)" for r p by (rule mutual[OF that])
  qed
  with Some plan sub dm(3) show ?thesis by auto
qed

lemma fold_accounts:
  assumes "\<And>x s. accounts (f x s) = accounts (s :: store)"
  shows "accounts (fold f xs s) = accounts s"
  by (induction xs arbitrary: s) (simp_all add: assms)

lemma settlement_accounts: "accounts (fst (apply_batch_settlement org plan s)) = accounts s"
proof -
  have "accounts (settle_batch p org b x) = accounts x" "accounts (close_settled p org b x) = accounts x" for p b x
    by (simp_all add: settle_batch_def close_settled_def split: option.splits)
  then show ?thesis by (simp add: apply_batch_settlement_def Let_def fold_accounts)
qed

lemma remove_pending_Inr:
  assumes "remove_pending_transactions s org rid today = (s', n, dem)" and inv: "full_inv s"
    and plan_def: "plan = plan_pending_removal s org rid today"
  shows "full_inv s'" "frame s' s" "n = int (length (pr_doomed plan))"
    "transactions s' = (if pr_settlement plan = None then transactions s
       else rows_after dem (map tx_id (pr_doomed plan)) (transactions s))"
    "accounts s' = accounts s"
proof -
  have res: "full_inv s' \<and> frame s' s \<and> n = int (length (pr_doomed plan)) \<and>
    transactions s' = (if pr_settlement plan = None then transactions s
       else rows_after dem (map tx_id (pr_doomed plan)) (transactions s)) \<and> accounts s' = accounts s"
  proof (cases "pr_settlement plan")
    case None
    with assms(1) plan_pending_removal_closed[OF inv plan_def] inv show ?thesis
      by (simp add: remove_pending_transactions_def Let_def plan_def)
  next
    case (Some st)
    let ?rows = "pr_rows plan" and ?D = "pr_doomed plan"
    from plan_pending_removal_closed[OF inv plan_def] Some
    have c: "delete_closed (transactions s) org ?rows ?D" and st: "st = plan_batch_settlement ?rows (map tx_id ?D)"
      and pend: "\<forall>t \<in> set ?D. pending_of_series rid today t" by auto
    have "to_revert ?rows ?D = []" using pend by (auto simp: to_revert_def pending_of_series_def filter_empty_conv)
    with assms(1) Some have w: "delete_writes org (to_revert ?rows ?D) ?D (plan_batch_settlement ?rows (map tx_id ?D)) s = Inr (s', dem)"
      and n: "n = int (length ?D)"
      by (auto simp: remove_pending_transactions_def delete_writes_def Let_def plan_def st split: prod.splits)
    note dw = delete_writes_Inr[OF w full_invD(1)[OF inv] c] and fr = delete_writes_frame[OF w full_invD(5)[OF inv]]
    have "series_inv s'"
      using series_frame[OF fr] pairs_typed_rows_after[OF full_invD(4)[OF inv]] inv by (simp add: dw(2) full_inv_def)
    moreover have "accounts s' = accounts s"
      using assms(1) Some settlement_accounts[of org st s]
      by (auto simp: remove_pending_transactions_def Let_def plan_def delete_rows_def split: prod.splits)
    ultimately show ?thesis using dw(1,2) fr n Some by (simp add: full_inv_def)
  qed
  then show "full_inv s'" "frame s' s" "n = int (length (pr_doomed plan))"
    "transactions s' = (if pr_settlement plan = None then transactions s
       else rows_after dem (map tx_id (pr_doomed plan)) (transactions s))" "accounts s' = accounts s" by blast+
qed

lemma clear_series_same: "same_money (clear_series rid t) t \<and> tx_linked (clear_series rid t) = tx_linked t \<and>
    tx_import_batch_id (clear_series rid t) = tx_import_batch_id t"
  by (simp add: clear_series_def same_money_def)

lemma stop_recurringE:
  assumes "stop_recurring s org rid today = Inr (s', n, dem)"
  obtains r s1 where "find_template s rid org = Some r"
    "remove_pending_transactions (put_template (r\<lparr>r_is_active := False\<rparr>) s) org rid today = (s1, n, dem)"
    "s' = s1\<lparr>transactions := map (\<lambda>t. if tx_org_id t = org then clear_series rid t else t) (transactions s1)\<rparr>"
  using assms by (auto simp: stop_recurring_def split: option.splits prod.splits)

lemma stop_keeps:
  assumes "stop_recurring s org rid today = Inr (s', n, dem)" "full_inv s"
  shows "full_inv s'" "accounts s' = accounts s"
proof -
  from assms(1) obtain r s1 where r: "find_template s rid org = Some r"
    and rm: "remove_pending_transactions (put_template (r\<lparr>r_is_active := False\<rparr>) s) org rid today = (s1, n, dem)"
    and s': "s' = s1\<lparr>transactions := map (\<lambda>t. if tx_org_id t = org then clear_series rid t else t) (transactions s1)\<rparr>"
    by (rule stop_recurringE)
  have "template_ok s r" using find_template_Some[OF r] full_invD(8)[OF assms(2)] by blast
  then have "template_ok s (r\<lparr>r_is_active := False\<rparr>)" by (simp add: template_ok_def split: option.splits)
  note p = put_template_inv[OF assms(2) this]
  note rp = remove_pending_Inr[OF rm p refl]
  have "distinct (map r_id (templates s1))" using full_invD(5)[OF rp(1)] by (simp add: store_wf_def)
  then show "full_inv s'"
    by (intro full_inv_map_rows[OF rp(1), of "\<lambda>t. if tx_org_id t = org then clear_series rid t else t" _ "templates s1"])
       (use clear_series_same s' in \<open>auto simp: same_money_def\<close>)
  show "accounts s' = accounts s" using rp(5) by (simp add: s')
qed

lemma delete_recurring_keeps:
  assumes "delete_recurring s org rid today = Inr (s', n, dem)" "full_inv s"
  shows "full_inv s'" "accounts s' = accounts s"
proof -
  from assms(1) obtain s1 where rm: "remove_pending_transactions s org rid today = (s1, n, dem)"
    and s': "s' = s1\<lparr>templates := filter (\<lambda>r. r_id r \<noteq> rid) (templates s1), transactions := map (clear_series rid) (transactions s1)\<rparr>"
    by (auto simp: delete_recurring_def split: option.splits prod.splits)
  note rp = remove_pending_Inr[OF rm assms(2) refl]
  have "distinct (map r_id (filter (\<lambda>r. r_id r \<noteq> rid) (templates s1)))"
    using full_invD(5)[OF rp(1)] by (simp add: store_wf_def distinct_map_filter)
  then show "full_inv s'"
    by (intro full_inv_map_rows[OF rp(1), of "clear_series rid" _ "filter (\<lambda>r. r_id r \<noteq> rid) (templates s1)"])
       (use clear_series_same s' in auto)
  show "accounts s' = accounts s" using rp(5) by (simp add: s')
qed

end
