(* ===== verification/SeriesEditKeep.thy ===== *)
theory SeriesEditKeep
  imports SeriesEdit SeriesOps
begin

text \<open>
  Why editing a series keeps the ledger: each write of the propagation and of the pair sync only
  touches pending rows, whose amounts are in no balance, and moves a row only onto an account of
  its organisation.
\<close>

section \<open>Steps that keep the rows' keys\<close>

definition row_keys :: "store \<Rightarrow> (int \<times> int \<times> transaction_status) list" where
  "row_keys s = map (\<lambda>t. (tx_id t, tx_org_id t, tx_status t)) (transactions s)"

definition settled_rows :: "store \<Rightarrow> transaction list" where
  "settled_rows s = filter (\<lambda>t. tx_status t \<noteq> PENDING) (transactions s)"

definition edited_from :: "store \<Rightarrow> store \<Rightarrow> bool" where
  "edited_from s' s \<longleftrightarrow>
     full_inv s' \<and> accounts s' = accounts s \<and> row_keys s' = row_keys s \<and> settled_rows s' = settled_rows s \<and>
     organizations s' = organizations s"

lemma edited_from_refl: "full_inv s \<Longrightarrow> edited_from s s"
  by (simp add: edited_from_def)

lemma edited_from_trans [trans]: "edited_from s2 s1 \<Longrightarrow> edited_from s1 s \<Longrightarrow> edited_from s2 s"
  by (simp add: edited_from_def)

lemma edited_from_account: "edited_from s' s \<Longrightarrow> account_of s' = account_of s"
  unfolding edited_from_def by (rule account_of_cong) (elim conjE)

definition pending_ids :: "store \<Rightarrow> int list \<Rightarrow> bool" where
  "pending_ids s ids \<longleftrightarrow> (\<forall>t \<in> set (transactions s). tx_id t \<in> set ids \<longrightarrow> tx_status t = PENDING)"

lemma pending_ids_keys: "pending_ids s ids \<longleftrightarrow> (\<forall>(i, org, st) \<in> set (row_keys s). i \<in> set ids \<longrightarrow> st = PENDING)"
  by (auto simp: pending_ids_def row_keys_def)

lemma edited_from_pending: "edited_from s' s \<Longrightarrow> pending_ids s' ids = pending_ids s ids"
  by (simp add: pending_ids_keys edited_from_def)

lemma pending_targets:
  assumes "distinct (map tx_id (transactions s))" "\<forall>t \<in> set ts. t \<in> set (transactions s) \<and> tx_status t = PENDING"
  shows "pending_ids s (map tx_id ts)"
proof -
  have "tx_status t = PENDING" if t: "t \<in> set (transactions s)" "u \<in> set ts" "tx_id t = tx_id u" for t u
  proof -
    have "t = u" by (rule key_unique[OF assms(1) t(1) _ t(3)]) (use assms(2) t(2) in blast)
    with assms(2) t(2) show ?thesis by simp
  qed
  then show ?thesis by (auto simp: pending_ids_def)
qed

lemma ledger_edit_refl:
  assumes "full_inv s" "t \<in> set (transactions s)"
  shows "ledger_edit s t t"
  using booksD(6)[OF full_invD(2)[OF assms(1)] assms(2)] by (auto simp: ledger_edit_def row_ok_def)

section \<open>The writes\<close>

lemma update_rows_sel [simp]:
  "transactions (update_rows sel f s) = map (\<lambda>t. if sel t then f t else t) (transactions s)"
  "accounts (update_rows sel f s) = accounts s" "templates (update_rows sel f s) = templates s"
  "organizations (update_rows sel f s) = organizations s"
  by (simp_all add: update_rows_def)

lemma update_templates_sel [simp]:
  "templates (update_templates sel f s) = map (\<lambda>r. if sel r then f r else r) (templates s)"
  "accounts (update_templates sel f s) = accounts s" "transactions (update_templates sel f s) = transactions s"
  "organizations (update_templates sel f s) = organizations s"
  by (simp_all add: update_templates_def)

lemma edit_rows:
  assumes inv: "full_inv s" and f: "\<And>t. t \<in> set (transactions s) \<Longrightarrow> sel t \<Longrightarrow> ledger_edit s (f t) t"
    and pend: "\<And>t. t \<in> set (transactions s) \<Longrightarrow> sel t \<Longrightarrow> tx_status t = PENDING"
  shows "edited_from (update_rows sel f s) s"
proof -
  let ?f = "\<lambda>t. if sel t then f t else t"
  have e: "ledger_edit s (?f t) t" if "t \<in> set (transactions s)" for t
    using f[OF that] ledger_edit_refl[OF inv that] by simp
  have "full_inv (update_rows sel f s)"
  proof (rule full_inv_edit_rows[OF inv e])
    show "update_rows sel f s = s\<lparr>transactions := map ?f (transactions s), templates := templates s\<rparr>"
      by (simp add: update_rows_def)
    show "distinct (map r_id (templates s))" using full_invD(5)[OF inv] by (simp add: store_wf_def)
    show "list_all (template_ok s) (templates s)" using full_invD(8)[OF inv] by (simp add: list_all_iff)
  qed simp_all
  moreover have "row_keys (update_rows sel f s) = row_keys s"
    using e unfolding row_keys_def update_rows_sel by (simp add: ledger_edit_def comp_def)
  moreover have "settled_rows (update_rows sel f s) = settled_rows s"
  proof -
    have "filter (\<lambda>t. tx_status t \<noteq> PENDING) (map ?f xs) = filter (\<lambda>t. tx_status t \<noteq> PENDING) xs"
      if "set xs \<subseteq> set (transactions s)" for xs
      using that
    proof (induction xs)
      case (Cons x xs)
      then have "?f x = x \<or> tx_status (?f x) = PENDING \<and> tx_status x = PENDING"
        using f[of x] pend[of x] by (auto simp: ledger_edit_def)
      with Cons show ?case by auto
    qed simp
    then show ?thesis by (simp add: settled_rows_def)
  qed
  ultimately show ?thesis by (simp add: edited_from_def)
qed

lemma edit_templates:
  assumes inv: "full_inv s"
    and f: "\<And>r. r \<in> set (templates s) \<Longrightarrow> sel r \<Longrightarrow> r_id (f r) = r_id r \<and> template_ok s (f r)"
  shows "edited_from (update_templates sel f s) s"
proof -
  let ?f = "\<lambda>r. if sel r then f r else r"
  have ids: "map r_id (map ?f (templates s)) = map r_id (templates s)" using f by simp
  have "full_inv (update_templates sel f s)"
  proof (rule full_inv_edit_rows[OF inv ledger_edit_refl[OF inv]])
    show "update_templates sel f s = s\<lparr>transactions := map (\<lambda>t. t) (transactions s), templates := map ?f (templates s)\<rparr>"
      by (simp add: update_templates_def)
    show "distinct (map r_id (map ?f (templates s)))"
      unfolding ids using full_invD(5)[OF inv] by (simp add: store_wf_def)
    show "r_id ` set (map ?f (templates s)) \<subseteq> r_id ` set (templates s)"
      by (simp only: set_map[symmetric] ids order_refl)
    show "list_all (template_ok s) (map ?f (templates s))"
      using full_invD(8)[OF inv] f by (auto simp: list_all_iff)
  qed
  then show ?thesis by (simp add: edited_from_def row_keys_def settled_rows_def)
qed

lemma edit_put:
  assumes inv: "full_inv s" and t: "t \<in> set (transactions s)" "tx_status t = PENDING" and u: "ledger_edit s u t"
  shows "edited_from (put_transaction u s) s"
proof -
  have "put_transaction u s = update_rows (\<lambda>x. tx_id x = tx_id u) (\<lambda>_. u) s"
    by (simp add: put_transaction_def update_rows_def update_row_def)
  moreover have "edited_from (update_rows (\<lambda>x. tx_id x = tx_id u) (\<lambda>_. u) s) s"
  proof (rule edit_rows[OF inv])
    fix x assume x: "x \<in> set (transactions s)" "tx_id x = tx_id u"
    have "x = t" by (rule key_unique[OF full_invD(7)[OF inv] x(1) t(1)]) (use x(2) u in \<open>simp add: ledger_edit_def\<close>)
    with u t(2) show "ledger_edit s u x" "tx_status x = PENDING" by simp_all
  qed
  ultimately show ?thesis by simp
qed

text \<open>A change of the fields a pending row may lose: everything but its keys, links and states.\<close>

definition pending_edit :: "store \<Rightarrow> int \<Rightarrow> (transaction \<Rightarrow> transaction) \<Rightarrow> bool" where
  "pending_edit s org f \<longleftrightarrow>
     (\<forall>t. tx_status t = PENDING \<and> tx_org_id t = org \<and> account_of s (tx_account_id t) org \<longrightarrow> ledger_edit s (f t) t)"

lemma pending_edit_fields:
  "pending_edit s org (\<lambda>t. t\<lparr>tx_description := v\<rparr>)"
  "pending_edit s org (\<lambda>t. t\<lparr>tx_category_id := c\<rparr>)"
  "pending_edit s org (\<lambda>t. t\<lparr>tx_amount := x\<rparr>)"
  "pending_edit s org (\<lambda>t. t\<lparr>tx_date := d, tx_settled_date := sd\<rparr>)"
  "account_of s a org \<Longrightarrow> pending_edit s org (\<lambda>t. t\<lparr>tx_account_id := a\<rparr>)"
  by (simp_all add: pending_edit_def ledger_edit_def)

lemma edit_pending_rows:
  assumes inv: "full_inv s" and f: "pending_edit s org f"
    and sel: "\<And>t. t \<in> set (transactions s) \<Longrightarrow> sel t \<Longrightarrow> tx_status t = PENDING \<and> tx_org_id t = org"
  shows "edited_from (update_rows sel f s) s"
proof (rule edit_rows[OF inv])
  fix t assume t: "t \<in> set (transactions s)" "sel t"
  have "account_of s (tx_account_id t) (tx_org_id t)"
    using booksD(6)[OF full_invD(2)[OF inv] t(1)] by (simp add: row_ok_def)
  with f sel[OF t] show "ledger_edit s (f t) t" "tx_status t = PENDING" by (simp_all add: pending_edit_def)
qed

lemma edit_targets:
  assumes "full_inv s" "pending_edit s org f" "pending_ids s (map tx_id ts)"
  shows "edited_from (write_targets org ts f s) s"
  unfolding write_targets_def
  by (rule edit_pending_rows[OF assms(1,2)]) (use assms(3) in \<open>auto simp: pending_ids_def\<close>)

section \<open>The propagation\<close>

definition fields_ok :: "store \<Rightarrow> int \<Rightarrow> series_fields \<Rightarrow> bool" where
  "fields_ok s org fs \<longleftrightarrow>
     (\<forall>a. sf_account_id fs = Some a \<longrightarrow> account_of s a org) \<and>
     (\<forall>m. sf_date_move fs = Some m \<longrightarrow> pending_ids s (map fst (sm_moves m)))"

lemma fields_ok_edits: "edited_from s' s \<Longrightarrow> fields_ok s' org fs = fields_ok s org fs"
  by (simp add: fields_ok_def edited_from_account edited_from_pending)

lemma pending_sibling_row: "pending_sibling org rid t \<Longrightarrow> tx_status t = PENDING \<and> tx_org_id t = org"
  by (simp add: pending_sibling_def)

lemma template_edit_fields:
  assumes "full_inv s" "r \<in> set (templates s)"
  shows "template_ok s (r\<lparr>r_description := v\<rparr>)" "template_ok s (r\<lparr>r_category_id := c\<rparr>)"
    "account_of s a (r_org_id r) \<Longrightarrow> template_ok s (r\<lparr>r_account_id := a\<rparr>)"
  using full_invD(8)[OF assms] by (simp_all add: template_ok_def split: option.splits)

lemma propagate_parts:
  assumes inv: "full_inv s" and ok: "fields_ok s org fs"
  shows "edited_from (propagate_description org rid fs s) s" "edited_from (propagate_category org rid fs s) s"
    "edited_from (propagate_account org rid fs s) s" "edited_from (propagate_template_values org rid fs s) s"
proof -
  let ?td = "\<lambda>v. update_templates (this_template org rid) (\<lambda>r. r\<lparr>r_description := v\<rparr>) s"
  have d: "edited_from (?td v) s" for v by (rule edit_templates[OF inv]) (simp add: template_edit_fields[OF inv])
  have "edited_from (update_rows (pending_sibling org rid) (\<lambda>t. t\<lparr>tx_description := v\<rparr>) (?td v)) (?td v)" for v
    by (rule edit_pending_rows[of _ org]) (use d[of v] in \<open>simp_all add: edited_from_def pending_edit_fields pending_sibling_row\<close>)
  then have "edited_from (update_rows (pending_sibling org rid) (\<lambda>t. t\<lparr>tx_description := v\<rparr>) (?td v)) s" for v
    by (rule edited_from_trans[OF _ d])
  then show "edited_from (propagate_description org rid fs s) s"
    using d edited_from_refl[OF inv] by (simp add: propagate_description_def Let_def split: option.splits)
  let ?tc = "\<lambda>v. update_templates (\<lambda>r. this_template org rid r \<and> r_type r = sf_tx_type fs) (\<lambda>r. r\<lparr>r_category_id := v\<rparr>) s"
    and ?cs = "\<lambda>t. pending_sibling org rid t \<and> tx_type t = sf_tx_type fs \<and> tx_linked t = None"
  have c: "edited_from (?tc v) s" for v by (rule edit_templates[OF inv]) (simp add: template_edit_fields[OF inv])
  have "edited_from (update_rows ?cs (\<lambda>t. t\<lparr>tx_category_id := v\<rparr>) (?tc v)) (?tc v)" for v
    by (rule edit_pending_rows[of _ org]) (use c[of v] in \<open>auto simp: edited_from_def pending_edit_fields pending_sibling_def\<close>)
  then have "edited_from (update_rows ?cs (\<lambda>t. t\<lparr>tx_category_id := v\<rparr>) (?tc v)) s" for v by (rule edited_from_trans[OF _ c])
  then show "edited_from (propagate_category org rid fs s) s"
    using c edited_from_refl[OF inv] by (simp add: propagate_category_def Let_def split: option.splits)
  let ?ta = "\<lambda>v. update_templates (\<lambda>r. this_template org rid r \<and> r_type r \<noteq> TRANSFER) (\<lambda>r. r\<lparr>r_account_id := v\<rparr>) s"
    and ?as = "\<lambda>t. pending_sibling org rid t \<and> tx_linked t = None"
  have a: "edited_from (?ta v) s" if "sf_account_id fs = Some v" for v
    by (rule edit_templates[OF inv])
       (use ok that in \<open>simp add: template_edit_fields[OF inv] this_template_def fields_ok_def\<close>)
  have "edited_from (update_rows ?as (\<lambda>t. t\<lparr>tx_account_id := v\<rparr>) (?ta v)) (?ta v)" if v: "sf_account_id fs = Some v" for v
  proof (rule edit_pending_rows[of _ org])
    have "account_of (?ta v) v org" using ok v edited_from_account[OF a[OF v]] by (simp add: fields_ok_def)
    then show "pending_edit (?ta v) org (\<lambda>t. t\<lparr>tx_account_id := v\<rparr>)" by (rule pending_edit_fields)
  qed (use a[OF v] in \<open>auto simp: edited_from_def pending_sibling_def\<close>)
  then have "edited_from (update_rows ?as (\<lambda>t. t\<lparr>tx_account_id := v\<rparr>) (?ta v)) s" if "sf_account_id fs = Some v" for v
    using edited_from_trans[OF _ a[OF that]] that by blast
  then show "edited_from (propagate_account org rid fs s) s"
    using a edited_from_refl[OF inv] by (simp add: propagate_account_def Let_def split: option.splits)
  have keep: "template_ok s (r\<lparr>r_next_due_date := d, r_last_spent_date := l\<rparr>)" "template_ok s (r\<lparr>r_amount := x\<rparr>)"
    "template_ok s (r\<lparr>r_amount := x, r_next_due_date := d, r_last_spent_date := l\<rparr>)" "template_ok s r"
    if "r \<in> set (templates s)" for r d l x
    using full_invD(8)[OF inv that] by (simp_all add: template_ok_def split: option.splits)
  show "edited_from (propagate_template_values org rid fs s) s"
    unfolding propagate_template_values_def
    by (rule edit_templates[OF inv]) (simp add: keep split: option.splits)
qed

lemma series_targets_set:
  "t \<in> set (series_sync_targets s org rid ty ex after) \<Longrightarrow>
     t \<in> set (transactions s) \<and> tx_status t = PENDING \<and> tx_org_id t = org \<and> tx_linked t = None"
  by (simp add: series_sync_targets_def)

lemma targets_pending:
  assumes "full_inv s"
  shows "pending_ids s (map tx_id (filter P (series_sync_targets s org rid ty ex after)))"
  by (rule pending_targets[OF full_invD(7)[OF assms]]) (use series_targets_set in auto)

lemma propagate_amount_edits:
  assumes "full_inv s" shows "edited_from (propagate_amount org rid fs s) s"
  unfolding propagate_amount_def
  by (cases "sf_amount fs")
     (simp_all add: edited_from_refl[OF assms] edit_targets[OF assms pending_edit_fields(3) targets_pending[OF assms]])

lemma guarded_field_edits:
  assumes p: "\<And>c. pending_ids s (map tx_id (filter (sel c) ts))" and x: "edited_from x s"
    and f: "\<And>a. v = Some a \<Longrightarrow> pending_edit x org (f a)"
  shows "edited_from (guarded_field org ts v was sel f x) s"
proof -
  have "edited_from (write_targets org (filter (sel c) ts) (f a) x) x" if "v = Some a" for a c
    using edit_targets[of x org "f a"] f[OF that] x p edited_from_pending[OF x] by (simp add: edited_from_def)
  then show ?thesis using edited_from_trans[OF _ x] x by (auto simp: guarded_field_def split: option.splits)
qed

lemma guarded_sync_edits:
  assumes inv: "full_inv s" and ok: "fields_ok s org fs"
  shows "edited_from (guarded_sync org rid fs s) s"
proof -
  let ?ts = "series_sync_targets s org rid None None None"
  note step = guarded_field_edits[OF targets_pending[OF inv, of _ org rid None None None]]
  show ?thesis unfolding guarded_sync_def Let_def
  proof (rule step)
    let ?x = "guarded_field org ?ts (sf_category_id fs) (sf_category_was fs)
        (\<lambda>was t. tx_category_id t = was \<and> tx_type t = sf_tx_type fs) (\<lambda>v t. t\<lparr>tx_category_id := v\<rparr>)
      (guarded_field org ?ts (sf_description fs) (sf_description_was fs)
        (\<lambda>was t. tx_description t = was) (\<lambda>v t. t\<lparr>tx_description := v\<rparr>) s)"
    show x: "edited_from ?x s" by (intro step edited_from_refl[OF inv] pending_edit_fields)
    show "pending_edit ?x org (\<lambda>t. t\<lparr>tx_account_id := a\<rparr>)" if "sf_account_id fs = Some a" for a
      by (rule pending_edit_fields(5)) (use ok that edited_from_account[OF x] in \<open>simp add: fields_ok_def\<close>)
  qed
qed

lemma apply_moves_edits:
  assumes "full_inv s" "pending_ids s (map fst ms)"
  shows "edited_from (fold (apply_move org) ms s) s"
  using assms
proof (induction ms arbitrary: s)
  case (Cons m ms)
  obtain i d sd where m: "m = (i, d, sd)" by (cases m) auto
  have e: "edited_from (apply_move org m s) s"
    unfolding m apply_move_def prod.case
    by (rule edit_pending_rows[OF Cons.prems(1) pending_edit_fields(4)]) (use Cons.prems(2) m in \<open>auto simp: pending_ids_def\<close>)
  have "pending_ids s (map fst ms)" using Cons.prems(2) by (simp add: pending_ids_def)
  then have "full_inv (apply_move org m s)" "pending_ids (apply_move org m s) (map fst ms)"
    using e edited_from_pending[OF e] by (simp_all add: edited_from_def)
  from edited_from_trans[OF Cons.IH[OF this] e] show ?case by simp
qed (simp add: edited_from_refl)

lemma propagate_edits:
  assumes inv: "full_inv s" and ok: "fields_ok s org fs"
  shows "edited_from (propagate_fields_to_series org rid fs s) s"
proof -
  have next_step: "edited_from (f x) s" if "edited_from x s" "\<And>y. full_inv y \<Longrightarrow> fields_ok y org fs \<Longrightarrow> edited_from (f y) y" for f x
    using that fields_ok_edits[OF that(1)] ok edited_from_trans by (metis edited_from_def)
  define s1 where "s1 = propagate_account org rid fs (propagate_category org rid fs (propagate_description org rid fs s))"
  define s2 where "s2 = (if sf_amount fs \<noteq> None \<or> sf_date_move fs \<noteq> None then propagate_template_values org rid fs s1 else s1)"
  define s3 where "s3 = guarded_sync org rid fs (propagate_amount org rid fs s2)"
  have 1: "edited_from s1 s" unfolding s1_def
    by (rule next_step[OF next_step[OF propagate_parts(1)[OF inv ok] propagate_parts(2)] propagate_parts(3)])
  have tv: "edited_from (propagate_template_values org rid fs s1) s"
    by (rule next_step[OF 1, of "propagate_template_values org rid fs"]) (rule propagate_parts(4))
  have 2: "edited_from s2 s" unfolding s2_def using 1 tv by simp
  have 3: "edited_from s3 s" unfolding s3_def
    by (rule next_step[OF next_step[OF 2 propagate_amount_edits] guarded_sync_edits])
  have "propagate_fields_to_series org rid fs s =
      (case sf_date_move fs of None \<Rightarrow> s3 | Some m \<Rightarrow> fold (apply_move org) (sm_moves m) s3)"
    unfolding propagate_fields_to_series_def s1_def s2_def s3_def Let_def ..
  moreover have "edited_from (fold (apply_move org) (sm_moves m) s3) s" if "sf_date_move fs = Some m" for m
  proof -
    have "pending_ids s3 (map fst (sm_moves m))" using ok that edited_from_pending[OF 3] by (simp add: fields_ok_def)
    then show ?thesis using apply_moves_edits edited_from_trans[OF _ 3] 3 by (simp add: edited_from_def)
  qed
  ultimately show ?thesis using 3 by (simp split: option.splits)
qed

section \<open>A transfer's pairs\<close>

definition legs_edit :: "store \<Rightarrow> transaction \<times> transaction \<Rightarrow> transaction \<times> transaction \<Rightarrow> bool" where
  "legs_edit s = (\<lambda>(e', i') (e, i). ledger_edit s e' e \<and> ledger_edit s i' i)"

lemma sync_legs_edit:
  assumes st: "tx_status (fst p) = PENDING" "tx_status (snd p) = PENDING"
    and ac: "account_of s (tx_account_id (fst p)) (tx_org_id (fst p))" "account_of s (tx_account_id (snd p)) (tx_org_id (snd p))"
    and r: "template_ok s r" "tx_org_id (fst p) = r_org_id r" "tx_org_id (snd p) = r_org_id r"
  shows "legs_edit s (sync_legs r0 r p) p"
proof -
  have 1: "legs_edit s p p" using st ac by (simp add: legs_edit_def ledger_edit_def case_prod_beta)
  have 2: "legs_edit s (sync_amount r0 r q) p" "legs_edit s (sync_category r0 r q) p"
    "legs_edit s (map_prod (sync_name r0 r) (sync_name r0 r) q) p" if "legs_edit s q p" for q
    using that st
    by (auto simp: legs_edit_def ledger_edit_def sync_amount_def sync_category_def sync_name_def case_prod_beta)
  have src: "legs_edit s (sync_source r0 r q) p" if "legs_edit s q p" for q
    using that st r by (auto simp: legs_edit_def ledger_edit_def sync_source_def case_prod_beta template_ok_def)
  have dst: "legs_edit s (sync_destination r0 r q) p" if "legs_edit s q p" for q
    using that st r by (auto simp: legs_edit_def ledger_edit_def sync_destination_def case_prod_beta template_ok_def split: option.splits)
  show ?thesis unfolding sync_legs_def by (intro dst src 2 1)
qed

lemma sync_pair_edits:
  assumes inv: "full_inv s" and p: "pending_ids s ids" and mem: "i \<in> set ids"
    and org: "\<forall>t \<in> set (transactions s). tx_id t \<in> set ids \<longrightarrow> tx_org_id t = r_org_id r" and ok: "template_ok s r"
  shows "edited_from (sync_pair r0 r ids i s) s"
proof -
  have "edited_from (sync_pair r0 r ids i s) s" if "row_by tx_id (transactions s) i = Some e"
    "tx_linked e = Some j" "j \<in> set ids" "row_by tx_id (transactions s) j = Some q" "tx_type e = EXPENSE"
    "is_reciprocal_pair e (Some q)" for e j q
  proof -
    have e: "e \<in> set (transactions s)" "tx_id e = i" and q: "q \<in> set (transactions s)" "tx_id q = j"
      using row_by_Some[OF that(1)] row_by_Some[OF that(4)] by simp_all
    obtain e' q' where l: "sync_legs r0 r (e, q) = (e', q')" by (metis surj_pair)
    have st: "tx_status e = PENDING" "tx_status q = PENDING" "tx_org_id e = r_org_id r" "tx_org_id q = r_org_id r"
      using p org e q mem that(3) by (auto simp: pending_ids_def)
    have ac: "account_of s (tx_account_id t) (tx_org_id t)" if "t \<in> set (transactions s)" for t
      using booksD(6)[OF full_invD(2)[OF inv] that] by (simp add: row_ok_def)
    have "legs_edit s (sync_legs r0 r (e, q)) (e, q)"
      by (rule sync_legs_edit) (use st ok ac[OF e(1)] ac[OF q(1)] in simp_all)
    then have le: "ledger_edit s e' e" "ledger_edit s q' q" by (simp_all add: l legs_edit_def)
    note e1 = edit_put[OF inv e(1) st(1) le(1)]
    have inv1: "full_inv (put_transaction e' s)" using e1 by (simp add: edited_from_def)
    have "tx_id e' = i" "tx_id e \<noteq> tx_id q"
      using le(1) e(2) that(6) links_wfD(1)[OF full_invD(6)[OF inv] e(1) that(2)] q
      by (auto simp: ledger_edit_def is_reciprocal_pair_def)
    then have q1: "q \<in> set (transactions (put_transaction e' s))"
      using q(1) e(2) by (auto simp: set_update_row image_iff)
    have "ledger_edit (put_transaction e' s) q' q"
      using le(2) unfolding ledger_edit_def edited_from_account[OF e1] .
    from edited_from_trans[OF edit_put[OF inv1 q1 st(2) this] e1] show ?thesis
      using that l by (simp add: sync_pair_def)
  qed
  then show ?thesis using edited_from_refl[OF inv] unfolding sync_pair_def by (simp split: option.splits)
qed

lemma sync_fold_edits:
  assumes "full_inv s" "pending_ids s ids" "set xs \<subseteq> set ids"
    and "\<forall>t \<in> set (transactions s). tx_id t \<in> set ids \<longrightarrow> tx_org_id t = r_org_id r" "template_ok s r"
  shows "edited_from (fold (sync_pair r0 r ids) xs s) s"
  using assms
proof (induction xs arbitrary: s)
  case (Cons x xs)
  have x: "x \<in> set ids" "set xs \<subseteq> set ids" using Cons.prems(3) by simp_all
  note e = sync_pair_edits[OF Cons.prems(1,2) x(1) Cons.prems(4,5), of r0]
  let ?s = "sync_pair r0 r ids x s"
  have keys: "(\<forall>t \<in> set (transactions y). tx_id t \<in> set ids \<longrightarrow> tx_org_id t = r_org_id r) \<longleftrightarrow>
      (\<forall>(i, org, st) \<in> set (row_keys y). i \<in> set ids \<longrightarrow> org = r_org_id r)" for y
    by (auto simp: row_keys_def)
  have "full_inv ?s" "pending_ids ?s ids" "template_ok ?s r"
    "\<forall>t \<in> set (transactions ?s). tx_id t \<in> set ids \<longrightarrow> tx_org_id t = r_org_id r"
    using e edited_from_pending[OF e] template_ok_cong[OF edited_from_account[OF e]] Cons.prems(2,4,5)
    unfolding keys by (simp_all add: edited_from_def)
  from edited_from_trans[OF Cons.IH[OF this(1,2) x(2) this(4,3)] e] show ?case by simp
qed (simp add: edited_from_refl)

lemma sync_pairs_edits:
  assumes c: "sync_pending_transfer_pairs s org r0 r = Inr s'" and inv: "full_inv s"
    and ok: "template_ok s r" "r_org_id r = org"
  shows "edited_from s' s"
proof -
  let ?legs = "pending_legs s org (r_id r)"
  have legs: "\<forall>t \<in> set ?legs. t \<in> set (transactions s) \<and> tx_status t = PENDING" by (simp add: pending_legs_def)
  have s': "s' = fold (sync_pair r0 r (map tx_id ?legs)) (map tx_id ?legs) s"
    using c by (auto simp: sync_pending_transfer_pairs_def rbind_eq_Inr Let_def)
  have "\<forall>t \<in> set (transactions s). tx_id t \<in> set (map tx_id ?legs) \<longrightarrow> tx_org_id t = r_org_id r"
  proof (intro ballI impI)
    fix t assume t: "t \<in> set (transactions s)" "tx_id t \<in> set (map tx_id ?legs)"
    then obtain u where u: "u \<in> set ?legs" "tx_id t = tx_id u" by auto
    have "t = u" by (rule key_unique[OF full_invD(7)[OF inv] t(1) _ u(2)]) (use legs u(1) in blast)
    with u(1) ok(2) show "tx_org_id t = r_org_id r" by (simp add: pending_legs_def)
  qed
  from sync_fold_edits[OF inv pending_targets[OF full_invD(7)[OF inv] legs] order_refl this ok(1)] show ?thesis
    by (simp only: s')
qed

section \<open>The edited template\<close>

text \<open>The re-anchoring walk moves nothing but the frontier, along the template's own grid.\<close>

lemma reanchor_walk_Inr:
  assumes "reanchor_walk n rd p_start r = Inr r'"
  shows "\<exists>d. r' = r\<lparr>r_next_due_date := d\<rparr>"
  using assms
proof (induction n arbitrary: r)
  case 0
  have "r = r\<lparr>r_next_due_date := r_next_due_date r\<rparr>" by simp
  with 0 show ?case by (metis reanchor_walk.simps(1) sum.inject(2))
next
  case (Suc n)
  show ?case
  proof (cases "r_next_due_date r < p_start")
    case True
    with Suc.prems obtain d where "reanchor_walk n rd p_start (r\<lparr>r_next_due_date := d\<rparr>) = Inr r'"
      by (auto split: option.splits)
    from Suc.IH[OF this] show ?thesis by auto
  next
    case False
    with Suc.prems have "r' = r\<lparr>r_next_due_date := r_next_due_date r\<rparr>" by simp
    then show ?thesis by blast
  qed
qed

definition same_owner :: "template \<Rightarrow> template \<Rightarrow> bool" where
  "same_owner r r0 \<longleftrightarrow> r_id r = r_id r0 \<and> r_org_id r = r_org_id r0"

lemma validate_transfer_accounts_Inr:
  assumes "validate_transfer_accounts s org ty a dest = Inr u"
  shows "case dest of None \<Rightarrow> ty \<noteq> TRANSFER | Some i \<Rightarrow> ty = TRANSFER \<and> i \<noteq> a \<and> account_of s i org \<and> account_of s a org"
  using assms
  by (auto simp: validate_transfer_accounts_def find_account_def account_of_def list_ex_iff find_Some_iff
      split: if_splits option.splits dest!: nth_mem)

lemma with_accounts_ok:
  assumes ok: "template_ok s r0"
    and a: "case ru_account_id body of None \<Rightarrow> True | Some i \<Rightarrow> account_of s i (r_org_id r0)"
    and v: "ru_account_id body \<noteq> None \<or> ru_to_account_id body \<noteq> None \<Longrightarrow>
      validate_transfer_accounts s (r_org_id r0) (r_type (with_accounts body r0)) (r_account_id (with_accounts body r0))
        (r_to_account_id (with_accounts body r0)) = Inr ()"
  shows "template_ok s (with_accounts body r0)"
proof -
  have "case r_to_account_id (with_accounts body r0) of None \<Rightarrow> True | Some i \<Rightarrow> account_of s i (r_org_id r0)"
  proof (cases "ru_account_id body \<noteq> None \<or> ru_to_account_id body \<noteq> None")
    case True
    from validate_transfer_accounts_Inr[OF v[OF True]] show ?thesis by (simp split: option.splits)
  next
    case False
    with ok show ?thesis by (simp add: with_accounts_def template_ok_def)
  qed
  moreover have "account_of s (given (ru_account_id body) (r_account_id r0)) (r_org_id r0)"
    using a ok by (simp add: given_def template_ok_def split: option.splits)
  ultimately show ?thesis by (simp add: template_ok_def with_accounts_def cong: option.case_cong)
qed

lemma with_type_and_category_Inr:
  "with_type_and_category s org body r = Inr r' \<Longrightarrow>
     template_ok s r' = template_ok s r \<and> same_owner r' r \<and> r_next_due_date r' = r_next_due_date r \<and>
     (r_type r = TRANSFER \<longrightarrow> r_type r' = TRANSFER)"
  by (auto simp: with_type_and_category_def rbind_eq_Inr Let_def same_owner_def template_ok_def given_def split: if_splits option.splits)

lemma with_fields_ok: "template_ok s (with_fields body r) = template_ok s r" "same_owner (with_fields body r) r"
  by (simp_all add: with_fields_def template_ok_def same_owner_def cong: option.case_cong)

lemma edited_template_Inr:
  assumes e: "edited_template rd s org r0 body today = Inr r" and ok: "template_ok s r0" and org: "r_org_id r0 = org"
  shows "template_ok s r" "same_owner r r0"
proof -
  let ?r1 = "with_accounts body r0"
  from e obtain r2 where acc: "case ru_account_id body of None \<Rightarrow> True | Some i \<Rightarrow> account_of s i org"
    and v: "ru_account_id body \<noteq> None \<or> ru_to_account_id body \<noteq> None \<Longrightarrow>
      validate_transfer_accounts s org (r_type ?r1) (r_account_id ?r1) (r_to_account_id ?r1) = Inr ()"
    and r2: "with_type_and_category s org body (with_fields body ?r1) = Inr r2"
    and r: "r = r2 \<or> reanchor_frontier_on_resume rd s org r2 today = Inr r"
    by (auto simp: edited_template_def rbind_eq_Inr Let_def validate_account_Inr split: option.splits if_splits)
  have 1: "template_ok s ?r1" by (rule with_accounts_ok[OF ok]) (use acc v org in \<open>simp_all cong: option.case_cong\<close>)
  have o1: "same_owner ?r1 r0" by (simp add: same_owner_def with_accounts_def)
  note w = with_type_and_category_Inr[OF r2]
  have "\<exists>d. r = r2\<lparr>r_next_due_date := d\<rparr>"
  proof (cases "r = r2")
    case True
    then show ?thesis by (intro exI[of _ "r_next_due_date r2"]) simp
  next
    case False
    with r obtain ps where "reanchor_walk MAX_FRONTIER_ADVANCE_STEPS rd ps r2 = Inr r"
      by (auto simp: reanchor_frontier_on_resume_def rbind_eq_Inr)
    then show ?thesis by (rule reanchor_walk_Inr)
  qed
  then obtain d where d: "r = r2\<lparr>r_next_due_date := d\<rparr>" by blast
  have "template_ok s r = template_ok s r2" by (simp add: d template_ok_def cong: option.case_cong)
  with w 1 with_fields_ok(1)[of s body ?r1] show "template_ok s r" by simp
  show "same_owner r r0" using w o1 with_fields_ok(2)[of body ?r1] by (simp add: d same_owner_def)
qed

section \<open>The whole edit\<close>

lemma update_recurringE:
  assumes "update_recurring rd s org rid body today = Inr (s', r)"
  obtains r0 s2 where "find_template s rid org = Some r0" "edited_template rd s org r0 body today = Inr r"
    "s2 = put_template r s \<or> s2 = propagate_fields_to_series org rid (template_sync_fields r0 r) (put_template r s)"
    "s' = s2 \<or> sync_pending_transfer_pairs s2 org r0 r = Inr s'"
  using assms by (auto simp: update_recurring_def rbind_eq_Inr Let_def split: option.splits if_splits)

lemma put_template_edits:
  assumes "full_inv s" "template_ok s r"
  shows "edited_from (put_template r s) s"
  using put_template_inv[OF assms] by (simp add: edited_from_def row_keys_def settled_rows_def put_template_def)

lemma update_recurring_edits:
  assumes u: "update_recurring rd s org rid body today = Inr (s', r)" and inv: "full_inv s"
  shows "edited_from s' s"
proof -
  from u obtain r0 s2 where r0: "find_template s rid org = Some r0" and e: "edited_template rd s org r0 body today = Inr r"
    and s2: "s2 = put_template r s \<or> s2 = propagate_fields_to_series org rid (template_sync_fields r0 r) (put_template r s)"
    and s': "s' = s2 \<or> sync_pending_transfer_pairs s2 org r0 r = Inr s'" by (rule update_recurringE)
  note id = find_template_Some[OF r0]
  have ok0: "template_ok s r0" using id full_invD(8)[OF inv] by blast
  note ok = edited_template_Inr[OF e ok0 conjunct2[OF conjunct2[OF id]]]
  have ro: "r_org_id r = org" using ok(2) id by (simp add: same_owner_def)
  note p = put_template_edits[OF inv ok(1)]
  let ?s1 = "put_template r s" and ?fs = "template_sync_fields r0 r"
  have "fields_ok ?s1 org ?fs"
    using ok(1) ro unfolding fields_ok_def edited_from_account[OF p]
    by (simp add: template_sync_fields_def changed_def template_ok_def)
  moreover have "full_inv ?s1" using p by (simp add: edited_from_def)
  ultimately have "edited_from (propagate_fields_to_series org rid ?fs ?s1) s" using edited_from_trans[OF propagate_edits p] by blast
  with s2 p have 2: "edited_from s2 s" by blast
  have inv2: "full_inv s2" using 2 by (simp add: edited_from_def)
  have "template_ok s2 r" using ok(1) template_ok_cong[OF edited_from_account[OF 2]] by simp
  from s' show ?thesis
  proof
    assume "sync_pending_transfer_pairs s2 org r0 r = Inr s'"
    from edited_from_trans[OF sync_pairs_edits[OF this inv2 \<open>template_ok s2 r\<close> ro] 2] show ?thesis .
  qed (use 2 in simp)
qed

end
