(* ===== verification/TxUpdateKeep.thy ===== *)
theory TxUpdateKeep
  imports TxUpdate SeriesEditKeep
begin

text \<open>
  Why editing a transaction keeps every invariant. Each of the two edited rows is reverted and
  re-applied under one gate, whether its amount is in the cached balance, which the edit cannot
  change; so the balance of an account moves by exactly the change of the rows' contributions.
  The series sync that follows is the one of \<open>SeriesEditKeep\<close>.
\<close>

section \<open>Gated moves\<close>

definition moved_by :: "bool \<Rightarrow> transaction \<Rightarrow> int \<Rightarrow> decimal" where
  "moved_by c t i = (if c \<and> i = tx_account_id t then signed (tx_type t) (tx_amount t) else 0)"

definition same_rows :: "store \<Rightarrow> store \<Rightarrow> bool" where
  "same_rows s' s \<longleftrightarrow> transactions s' = transactions s \<and> batches s' = batches s \<and> frame s' s"

lemma same_rows_trans: "same_rows s2 s1 \<Longrightarrow> same_rows s1 s \<Longrightarrow> same_rows s2 s"
  using frame_trans by (auto simp: same_rows_def)

lemma move_if_apply:
  assumes "move_if c apply_balance org t s = Inr s'" "books f s"
  shows "books (\<lambda>i. f i + moved_by c t i) s'" "same_rows s' s"
proof -
  have "s' = add_balance (tx_account_id t) (signed (tx_type t) (tx_amount t)) s" if c
    using assms(1) that move_apply(1)[OF _ booksD(1)[OF assms(2)]] by (simp add: move_if_def)
  moreover have "s' = s" if "\<not> c" using assms(1) that by (simp add: move_if_def)
  ultimately show "books (\<lambda>i. f i + moved_by c t i) s'" "same_rows s' s"
    using books_add_balance[OF assms(2), of "tx_account_id t" "signed (tx_type t) (tx_amount t)"] assms(2)
    by (cases c; simp add: moved_by_def same_rows_def)+
qed

lemma move_if_revert:
  assumes "move_if c revert_balance org t s = Inr s'" "books f s"
  shows "books (\<lambda>i. f i - moved_by c t i) s'" "same_rows s' s"
proof -
  have "books (\<lambda>i. f i - moved_by c t i) s' \<and> same_rows s' s"
  proof (cases c)
    case True
    then have s': "s' = add_balance (tx_account_id t) (- signed (tx_type t) (tx_amount t)) s"
      using assms(1) move_revert(1)[OF _ booksD(1)[OF assms(2)]] by (simp add: move_if_def)
    have "books (\<lambda>i. f i - moved_by c t i) s'"
      unfolding s' by (rule books_eq[OF books_add_balance[OF assms(2)]]) (simp add: True moved_by_def fun_eq_iff)
    then show ?thesis by (simp add: s' same_rows_def)
  next
    case False
    with assms show ?thesis by (simp add: move_if_def moved_by_def same_rows_def)
  qed
  then show "books (\<lambda>i. f i - moved_by c t i) s'" "same_rows s' s" by simp_all
qed

definition opt_moved :: "bool \<Rightarrow> transaction option \<Rightarrow> int \<Rightarrow> decimal" where
  "opt_moved c p i = (case p of None \<Rightarrow> 0 | Some p \<Rightarrow> moved_by c p i)"

definition mirror_gate :: "tx_update \<Rightarrow> transaction \<Rightarrow> transaction option \<Rightarrow> bool" where
  "mirror_gate body t partner =
     (case partner of None \<Rightarrow> False
      | Some p \<Rightarrow> tu_amount body \<noteq> None \<and> tx_status p = SETTLED \<and> contributes_to_cached_balance p (Some t))"

lemma move_balances_books:
  assumes m: "move_balances s org body t u linked partner partner' = Inr s'" and b: "books (\<lambda>_. 0) s"
    and p: "partner = None \<longleftrightarrow> partner' = None"
  shows "books (\<lambda>i. moved_by (tx_status u = SETTLED \<and> contributes_to_cached_balance t linked) u i
          - moved_by (tx_status t = SETTLED \<and> contributes_to_cached_balance t linked) t i
          + opt_moved (mirror_gate body t partner) partner' i - opt_moved (mirror_gate body t partner) partner i) s'"
    "same_rows s' s"
proof -
  let ?c = "contributes_to_cached_balance t linked" and ?g = "mirror_gate body t partner"
  let ?B = "\<lambda>i. moved_by (tx_status u = SETTLED \<and> ?c) u i - moved_by (tx_status t = SETTLED \<and> ?c) t i
      + opt_moved ?g partner' i - opt_moved ?g partner i"
  have "books ?B s' \<and> same_rows s' s"
  proof (cases partner)
    case None
    then have pn: "partner' = None" using p by simp
    with m None obtain s1 where s1: "move_if (tx_status t = SETTLED \<and> ?c) revert_balance org t s = Inr s1"
      and s3: "move_if (tx_status u = SETTLED \<and> ?c) apply_balance org u s1 = Inr s'"
      by (auto simp: move_balances_def Let_def rbind_eq_Inr)
    note a1 = move_if_revert[OF s1 b]
    note a2 = move_if_apply[OF s3 a1(1)]
    from a2(1) have "books ?B s'" by (rule books_eq) (simp add: None pn opt_moved_def)
    with same_rows_trans[OF a2(2) a1(2)] show ?thesis by simp
  next
    case (Some q)
    then obtain q' where q': "partner' = Some q'" using p by (cases partner') simp_all
    with m Some obtain s1 s2 s3 where s1: "move_if (tx_status t = SETTLED \<and> ?c) revert_balance org t s = Inr s1"
      and s2: "move_if ?g revert_balance org q s1 = Inr s2" and s3: "move_if (tx_status u = SETTLED \<and> ?c) apply_balance org u s2 = Inr s3"
      and s4: "move_if ?g apply_balance org q' s3 = Inr s'"
      by (auto simp: move_balances_def mirror_gate_def Let_def rbind_eq_Inr)
    note a1 = move_if_revert[OF s1 b]
    note a2 = move_if_revert[OF s2 a1(1)]
    note a3 = move_if_apply[OF s3 a2(1)]
    note a4 = move_if_apply[OF s4 a3(1)]
    from a4(1) have "books ?B s'" by (rule books_eq) (simp add: Some q' opt_moved_def fun_eq_iff)
    with same_rows_trans[OF a4(2) same_rows_trans[OF a3(2) same_rows_trans[OF a2(2) a1(2)]]] show ?thesis by simp
  qed
  then show "books ?B s'" "same_rows s' s" by simp_all
qed

section \<open>What an edit leaves of a row\<close>

definition same_key :: "transaction \<Rightarrow> transaction \<Rightarrow> bool" where
  "same_key u t \<longleftrightarrow>
     tx_id u = tx_id t \<and> tx_org_id u = tx_org_id t \<and> tx_linked u = tx_linked t \<and> tx_recon u = tx_recon t \<and>
     tx_import_batch_id u = tx_import_batch_id t \<and> tx_recurring_id u = tx_recurring_id t"

lemma edited_row_sel [simp]:
  "same_key (edited_row body t today) t"
  "tx_type (edited_row body t today) = given (tu_type body) (tx_type t)"
  "tx_account_id (edited_row body t today) = given (tu_account_id body) (tx_account_id t)"
  "tx_amount (edited_row body t today) = given (tu_amount body) (tx_amount t)"
  "tx_status (edited_row body t today) = given (tu_status body) (tx_status t)"
  "tx_category_id (edited_row body t today) = given (tu_category_id body) (tx_category_id t)"
  "tx_description (edited_row body t today) = given (tu_description body) (tx_description t)"
  "tx_date (edited_row body t today) = given (tu_date body) (tx_date t)"
  "tx_settled_date (edited_row body t today) = settled_after body t today"
  by (simp_all add: edited_row_def apply_field_updates_def same_key_def)

lemma settled_after_SETTLED:
  "given (tu_status body) (tx_status t) = SETTLED \<Longrightarrow> row_ok s t \<Longrightarrow> settled_after body t today \<noteq> None"
  by (auto simp: settled_after_def row_ok_def split: option.splits)

lemma shifted_settlement_Inr:
  assumes "shifted_settlement body t u moving = Inr u'"
  obtains d where "u' = u\<lparr>tx_settled_date := d\<rparr>" "tx_status u = SETTLED \<longrightarrow> d = tx_settled_date u"
  using assms that[of "tx_settled_date u"]
  by (auto simp: shifted_settlement_def split: option.splits if_splits)

lemma edited_rows_Inr:
  assumes "edited_rows body t partner moving today = Inr (u, partner')"
  shows "\<exists>d. u = (edited_row body t today)\<lparr>tx_settled_date := d\<rparr> \<and> (tx_status u = SETTLED \<longrightarrow> d = settled_after body t today) \<and>
      (case d of None \<Rightarrow> True | Some x \<Rightarrow> tx_date u \<le> x)"
    "partner = None \<longleftrightarrow> partner' = None"
    "partner = Some p \<Longrightarrow> partner' = Some q \<Longrightarrow>
       q = p\<lparr>tx_category_id := given (tu_category_id body) (tx_category_id p), tx_settled_date := tx_settled_date q,
         tx_amount := given (tu_amount body) (tx_amount p)\<rparr> \<and> (tx_status p = SETTLED \<longrightarrow> tx_settled_date q = tx_settled_date p)"
proof -
  from assms obtain u1 where u1: "shifted_settlement body t (edited_row body t today) moving = Inr u1"
    and o: "date_order u1 = Inr ()" and u: "u = u1"
    and p': "(case partner of None \<Rightarrow> Inr None | Some p \<Rightarrow>
        rbind (mirrored_partner body t (edited_row body t today) p) (\<lambda>q. Inr (Some q))) = Inr partner'"
    by (auto simp: edited_rows_def rbind_eq_Inr Let_def)
  from u1 obtain d where "u1 = (edited_row body t today)\<lparr>tx_settled_date := d\<rparr>"
      "tx_status (edited_row body t today) = SETTLED \<longrightarrow> d = tx_settled_date (edited_row body t today)"
    by (rule shifted_settlement_Inr)
  with o u show "\<exists>d. u = (edited_row body t today)\<lparr>tx_settled_date := d\<rparr> \<and> (tx_status u = SETTLED \<longrightarrow> d = settled_after body t today) \<and>
      (case d of None \<Rightarrow> True | Some x \<Rightarrow> tx_date u \<le> x)"
    by (intro exI[of _ d]) (auto simp: date_order_def)
  show "partner = None \<longleftrightarrow> partner' = None" using p' by (auto simp: rbind_eq_Inr split: option.splits)
  assume "partner = Some p" "partner' = Some q"
  with p' have "mirrored_partner body t (edited_row body t today) p = Inr q" by (auto simp: rbind_eq_Inr)
  then show "q = p\<lparr>tx_category_id := given (tu_category_id body) (tx_category_id p), tx_settled_date := tx_settled_date q,
      tx_amount := given (tu_amount body) (tx_amount p)\<rparr> \<and> (tx_status p = SETTLED \<longrightarrow> tx_settled_date q = tx_settled_date p)"
    by (cases p) (auto simp: mirrored_partner_def mirrored_settlement_def rbind_eq_Inr split: if_splits)
qed

section \<open>The two writes\<close>

lemma contribution_moved:
  "settled_contribution rows i t = moved_by (tx_status t = SETTLED \<and> balance_contribution_filter rows t) t i"
  by (simp add: settled_contribution_def moved_by_def signed_amount_signed)

lemma filter_same_key: "same_key u t \<Longrightarrow> balance_contribution_filter rows u = balance_contribution_filter rows t"
  by (simp add: balance_contribution_filter_def same_key_def)

lemma filter_put:
  assumes "distinct (map tx_id T)" "t \<in> set T" "same_key u t"
  shows "balance_contribution_filter (update_row tx_id (tx_id u) (\<lambda>_. u) T) x = balance_contribution_filter T x"
  unfolding update_row_map
proof (rule contribution_filter_update)
  fix r assume r: "r \<in> set T"
  show "tx_id (if tx_id r = tx_id u then u else r) = tx_id r \<and> tx_linked (if tx_id r = tx_id u then u else r) = tx_linked r"
  proof (cases "tx_id r = tx_id u")
    case True
    then have "r = t" using key_unique[OF assms(1) r assms(2)] assms(3) by (simp add: same_key_def)
    with assms(3) show ?thesis by (simp add: same_key_def)
  qed simp
qed

lemma pairs_typed_retype:
  assumes p: "pairs_typed (transactions s)" and d: "distinct (map tx_id (transactions s))" and t: "t \<in> set (transactions s)"
    and u: "same_key u t" "tx_type u \<noteq> TRANSFER" and free: "tx_type u = tx_type t \<or> (\<forall>q \<in> set (transactions s). \<not> mutual t q)"
  shows "pairs_typed (transactions (put_transaction u s))"
proof (cases "tx_type u = tx_type t")
  case True
  then show ?thesis by (intro pairs_typed_put[OF p d t]) (use u in \<open>simp_all add: same_key_def\<close>)
next
  case False
  with free have no: "\<not> mutual t q" if "q \<in> set (transactions s)" for q using that by blast
  let ?f = "\<lambda>r. if tx_id r = tx_id u then u else r"
  have f: "?f r = u \<and> r = t \<or> ?f r = r \<and> tx_id r \<noteq> tx_id t" if "r \<in> set (transactions s)" for r
    using key_unique[OF d that t] u(1) by (auto simp: same_key_def)
  have cols: "tx_id (?f r) = tx_id r" "tx_linked (?f r) = tx_linked r" if "r \<in> set (transactions s)" for r
    using f[OF that] u(1) by (auto simp: same_key_def)
  have "tx_type (?f r) \<noteq> TRANSFER" if "r \<in> set (transactions s)" for r
    using f[OF that] u(2) pairs_typed_type[OF p that] by (elim disjE conjE) simp_all
  moreover have "typed_legs (?f r) (?f q)"
    if r: "r \<in> set (transactions s)" and q: "q \<in> set (transactions s)" and m: "mutual (?f r) (?f q)" for r q
  proof -
    have m': "mutual r q" using m unfolding mutual_def cols[OF r] cols[OF q] .
    then have "mutual q r" by (simp add: mutual_def)
    with m' no r q have "r \<noteq> t" "q \<noteq> t" by blast+
    with f[OF r] f[OF q] pairs_typedD[OF p r q m'] show ?thesis by (elim disjE conjE) simp_all
  qed
  ultimately show ?thesis unfolding put_transaction_sel update_row_map pairs_typed_def list_all_iff set_map by blast
qed

lemma linked_row_target:
  assumes "full_inv s" "t \<in> set (transactions s)" "tx_org_id t = org"
  shows "linked_row s org t = link_target (transactions s) t"
    "contributes_to_cached_balance t (linked_row s org t) = balance_contribution_filter (transactions s) t"
  using org_row_partner[OF full_invD(6)[OF assms(1)] assms(2,3)]
    contributes_filter_agree[OF full_invD(6)[OF assms(1)] full_invD(7)[OF assms(1)] assms(2)]
  by (simp_all add: linked_row_def)

lemma pair_partner_Some:
  assumes "full_inv s" "t \<in> set (transactions s)" "tx_org_id t = org" "pair_partner s org t = Some p"
  shows "p \<in> set (transactions s)" "mutual t p" "tx_org_id p = org" "tx_id p \<noteq> tx_id t"
    "linked_row s org t = Some p" "linked_row s org p = Some t" "typed_legs t p"
proof -
  from assms(4) have lr: "linked_row s org t = Some p" and rec: "is_reciprocal_pair t (Some p)"
    by (auto simp: pair_partner_def split: if_splits)
  show "linked_row s org t = Some p" by (rule lr)
  show mu: "mutual t p" and ids: "tx_org_id p = org" "tx_id p \<noteq> tx_id t"
    using rec assms(3) by (auto simp: is_reciprocal_pair_def mutual_def)
  show pm: "p \<in> set (transactions s)" using lr by (auto simp: linked_row_def split: option.splits dest: org_row_Some)
  have "org_row s org (tx_id t) = Some t" using org_row_eq[OF full_invD(7)[OF assms(1)]] assms(2,3) by simp
  then show "linked_row s org p = Some t" using mu by (simp add: linked_row_def mutual_def)
  show "typed_legs t p" by (rule pairs_typedD[OF full_invD(4)[OF assms(1)] assms(2) pm mu])
qed

lemma pair_partner_None:
  assumes "full_inv s" "t \<in> set (transactions s)" "tx_org_id t = org" "pair_partner s org t = None" "q \<in> set (transactions s)"
  shows "\<not> mutual t q"
proof
  assume m: "mutual t q"
  note d = full_invD(7)[OF assms(1)] and l = full_invD(6)[OF assms(1)]
  from links_wfD[OF l assms(2)] m have ne: "tx_id q \<noteq> tx_id t" and "\<exists>p \<in> set (transactions s). tx_id p = tx_id q \<and> tx_org_id p = tx_org_id t"
    by (auto simp: mutual_def)
  then obtain p where p: "p \<in> set (transactions s)" "tx_id p = tx_id q" "tx_org_id p = org" using assms(3) by blast
  have "p = q" by (rule key_unique[OF d p(1) assms(5) p(2)])
  with p have "org_row s org (tx_id q) = Some q" using org_row_eq[OF d] by simp
  with m ne p(3) \<open>p = q\<close> assms(3,4) show False
    by (auto simp: pair_partner_def linked_row_def mutual_def is_reciprocal_pair_def split: if_splits)
qed

lemma books_put_edit:
  assumes b: "books f s" and t: "t \<in> set (transactions s)" and u: "same_key u t" "row_ok s u"
  shows "books (\<lambda>i. f i + moved_by (tx_status t = SETTLED \<and> balance_contribution_filter (transactions s) t) t i
      - moved_by (tx_status u = SETTLED \<and> balance_contribution_filter (transactions s) t) u i) (put_transaction u s)"
proof -
  have k: "tx_id u = tx_id t" "tx_org_id u = tx_org_id t" "tx_linked u = tx_linked t" using u(1) by (simp_all add: same_key_def)
  from books_put_row[OF b t k u(2)] show ?thesis by (simp add: contribution_moved filter_same_key[OF u(1)])
qed

lemma writes_keep:
  assumes inv: "full_inv s" and t: "t \<in> set (transactions s)" "tx_org_id t = org"
    and u: "same_key u t" "row_ok s u" "tx_type u \<noteq> TRANSFER"
    and par: "partner = pair_partner s org t"
    and ty: "partner \<noteq> None \<Longrightarrow> tx_type u = tx_type t"
    and none: "partner = None \<longleftrightarrow> partner' = None"
    and q: "\<And>p q. partner = Some p \<Longrightarrow> partner' = Some q \<Longrightarrow>
       same_key q p \<and> row_ok s q \<and> tx_type q = tx_type p \<and> tx_status q = tx_status p \<and> tx_account_id q = tx_account_id p \<and>
       (tu_amount body = None \<longrightarrow> tx_amount q = tx_amount p)"
    and m: "move_balances s org body t u (linked_row s org t) partner partner' = Inr s1"
  shows "full_inv (put_partner partner' (put_transaction u s1))" "frame (put_partner partner' (put_transaction u s1)) s"
proof -
  let ?T = "transactions s" and ?g = "mirror_gate body t partner" and ?s2 = "put_partner partner' (put_transaction u s1)"
  note d = full_invD(7)[OF inv]
  note mv = move_balances_books[OF m full_invD(2)[OF inv] none]
  have rows: "transactions s1 = ?T" and bat: "batches s1 = batches s" and f1: "frame s1 s" using mv(2) by (simp_all add: same_rows_def)
  have ac: "account_of s1 = account_of s" using f1 by (simp add: frame_def)
  have ro: "row_ok s1 = row_ok s" by (simp add: row_ok_def[abs_def] ac)
  note c = linked_row_target(2)[OF inv t]
  have b2: "books (\<lambda>i. opt_moved ?g partner' i - opt_moved ?g partner i) (put_transaction u s1)"
    by (rule books_eq[OF books_put_edit[OF mv(1) _ u(1)]]) (use t u(2) in \<open>simp_all add: rows ro c fun_eq_iff\<close>)
  have pt: "pairs_typed (transactions (put_transaction u s1))"
  proof (rule pairs_typed_retype[of s1 t])
    show "tx_type u = tx_type t \<or> (\<forall>q \<in> set (transactions s1). \<not> mutual t q)"
    proof (cases partner)
      case None
      then have "pair_partner s org t = None" using par by simp
      from pair_partner_None[OF inv t this] show ?thesis by (simp add: rows)
    qed (use ty in simp)
  qed (use full_invD(4)[OF inv] d t u in \<open>simp_all add: rows\<close>)
  have sb: "same_batches (put_transaction u s1) s"
    using batch_cols_put[of s1 t u] d t u(1) bat by (simp add: rows same_key_def same_batches_def)
  have fr: "frame (put_transaction u s1) s" by (rule frame_trans[OF frame_steps(2) f1])
  have main: "books (\<lambda>_. 0) ?s2 \<and> pairs_typed (transactions ?s2) \<and> same_batches ?s2 s \<and> frame ?s2 s"
  proof (cases partner)
    case None
    then have "partner' = None" using none by simp
    with None b2 pt sb fr show ?thesis by (simp add: put_partner_def opt_moved_def)
  next
    case (Some p)
    then obtain q where q': "partner' = Some q" using none by (cases partner') simp_all
    note Q = q[OF Some q'] and P = pair_partner_Some[OF inv t par[symmetric, unfolded Some]]
    let ?s = "put_transaction u s1"
    have pu: "p = (if tx_id p = tx_id u then u else p)" using P(4) u(1) by (simp add: same_key_def)
    have pm: "p \<in> set (transactions ?s)"
      unfolding put_transaction_sel rows update_row_map set_map by (rule image_eqI, rule pu, rule P(1))
    have F: "balance_contribution_filter (transactions ?s) p = balance_contribution_filter ?T p"
      using filter_put[OF d t(1) u(1)] by (simp add: rows)
    have C: "contributes_to_cached_balance p (Some t) = balance_contribution_filter ?T p"
      using linked_row_target(2)[OF inv P(1,3)] P(6) by simp
    have "row_ok ?s = row_ok s" using fr by (simp add: row_ok_def[abs_def] frame_def)
    then have "row_ok ?s q" using Q by simp
    have "opt_moved ?g partner' i - opt_moved ?g partner i
        + moved_by (tx_status p = SETTLED \<and> balance_contribution_filter (transactions ?s) p) p i
        - moved_by (tx_status q = SETTLED \<and> balance_contribution_filter (transactions ?s) p) q i = 0" for i
    proof (cases "tu_amount body")
      case None
      then have eq: "moved_by c q i = moved_by c p i" for c using Q by (simp add: moved_by_def)
      have st: "tx_status q = tx_status p" using Q by blast
      show ?thesis unfolding eq st by (simp add: Some q' opt_moved_def eq)
    next
      case amt: (Some x)
      then have "?g = (tx_status p = SETTLED \<and> balance_contribution_filter (transactions ?s) p)"
        by (simp only: mirror_gate_def Some F C option.case) simp
      moreover have "tx_status q = tx_status p" using Q by blast
      ultimately show ?thesis by (simp only: Some q' opt_moved_def option.case)
    qed
    then have "books (\<lambda>_. 0) (put_transaction q ?s)"
      by (intro books_eq[OF books_put_edit[OF b2 pm conjunct1[OF Q] \<open>row_ok ?s q\<close>]] ext)
    moreover have dd: "distinct (map tx_id (transactions ?s))" using d map_id_update_row[of u ?T] by (simp add: rows)
    have "pairs_typed (transactions (put_transaction q ?s))"
      by (rule pairs_typed_put[OF pt dd pm]) (use Q in \<open>simp_all add: same_key_def\<close>)
    moreover have "same_batches (put_transaction q ?s) s"
      by (rule same_batches_trans[OF batch_cols_put[OF dd pm] sb]) (use Q in \<open>simp_all add: same_key_def\<close>)
    moreover have "frame (put_transaction q ?s) s" by (rule frame_trans[OF frame_steps(2) fr])
    ultimately show ?thesis by (simp add: q' put_partner_def)
  qed
  then show "full_inv ?s2"
    using batches_inv_cols full_invD(3)[OF inv] frame_templates[of ?s2 s] inv
    by (intro full_invI) (auto simp: full_inv_def series_inv_def)
  show "frame ?s2 s" using main by blast
qed

section \<open>The date move\<close>

lemma move_rows_ids: "move_rows slot ts = Inr ms \<Longrightarrow> set (map fst ms) \<subseteq> set (map tx_id ts)"
proof (induction ts arbitrary: ms)
  case (Cons t ts)
  from Cons.prems obtain m ms' where m: "move_row slot t = Inr m" "move_rows slot ts = Inr ms'" "ms = m @ ms'"
    by (auto simp: rbind_eq_Inr)
  have "set (map fst m) \<subseteq> {tx_id t}" using m(1) by (auto simp: move_row_def split: option.splits)
  with Cons.IH[OF m(2)] m(3) show ?case by auto
qed simp

lemma plan_moves:
  assumes "plan_series_date_move rd s org r row_id old new ty today = Inr m"
  obtains old_grid new_grid d0 after where "advance_date rd old (r_frequency r) = Some after"
    "walk_to rd (r_frequency r) (r_next_due_date r) after = Some (old_grid, r_next_due_date r)"
    "walk_steps rd (r_frequency r) (length old_grid) new = Some new_grid"
    "sm_last_spent_date m = (if new_grid = [] then new else last new_grid)"
    "advance_date rd (sm_last_spent_date m) (r_frequency r) = Some (sm_next_due_date m)"
    "move_rows (zip old_grid new_grid) (series_sync_targets s org (r_id r) (Some ty) (Some row_id) (Some old)) = Inr (sm_moves m)"
    "\<forall>t \<in> set (transactions s). tx_org_id t = org \<and> tx_recurring_id t = Some (r_id r) \<and> tx_id t \<noteq> row_id \<and>
       tx_id t \<notin> set (map fst (sm_moves m)) \<longrightarrow>
       tx_date t \<notin> set (new # map (fst \<circ> snd) (sm_moves m)) \<and> tx_date t < sm_next_due_date m"
    "\<forall>d \<in> set (new # map (fst \<circ> snd) (sm_moves m)). d < sm_next_due_date m"
    "frontier_lower_bound rd s org today = Inr d0" "d0 \<le> new"
proof -
  let ?f = "r_frequency r"
  note E = assms[unfolded plan_series_date_move_def Let_def]
  from E obtain after after' where a: "advance_date rd old ?f = Some after" "advance_date rd new ?f = Some after'"
    by (cases "advance_date rd old ?f"; cases "advance_date rd new ?f") simp_all
  from E obtain d0 where d0: "frontier_lower_bound rd s org today = Inr d0" "d0 \<le> new"
    by (auto simp: a rbind_eq_Inr simp del: rbind_guard)
  from E obtain old_grid d where w: "walk_to rd ?f (r_next_due_date r) after = Some (old_grid, d)"
    by (cases "walk_to rd ?f (r_next_due_date r) after") (auto simp: a d0 rbind_eq_Inr simp del: rbind_guard)
  from E obtain new_grid where n: "walk_steps rd ?f (length old_grid) new = Some new_grid" and dd: "d = r_next_due_date r"
    by (cases "walk_steps rd ?f (length old_grid) new") (auto simp: a d0 w rbind_eq_Inr simp del: rbind_guard)
  let ?last = "if new_grid = [] then new else last new_grid"
  from E obtain nf where nf: "advance_date rd ?last ?f = Some nf"
    by (cases "advance_date rd ?last ?f") (auto simp: a d0 w n rbind_eq_Inr simp del: rbind_guard)
  from E obtain moves where mv: "move_rows (zip old_grid new_grid)
      (series_sync_targets s org (r_id r) (Some ty) (Some row_id) (Some old)) = Inr moves"
    and m: "m = \<lparr>sm_moves = moves, sm_next_due_date = nf, sm_last_spent_date = ?last\<rparr>"
    and st: "\<not> list_ex (\<lambda>d. d \<in> set (map tx_date (filter (\<lambda>t. tx_org_id t = org \<and> tx_recurring_id t = Some (r_id r) \<and>
        tx_id t \<noteq> row_id \<and> tx_id t \<notin> set (map fst moves)) (transactions s)))) (new # map (fst \<circ> snd) moves)"
    and la: "list_all (\<lambda>d. d < nf) (map tx_date (filter (\<lambda>t. tx_org_id t = org \<and> tx_recurring_id t = Some (r_id r) \<and>
        tx_id t \<noteq> row_id \<and> tx_id t \<notin> set (map fst moves)) (transactions s)) @ (new # map (fst \<circ> snd) moves))"
    by (simp only: a d0 w n nf rbind_eq_Inr option.case prod.case sum.inject guard_eq) blast
  show thesis
  proof (rule that[OF a(1) _ n _ _ _ _ _ d0])
    show "\<forall>t \<in> set (transactions s). tx_org_id t = org \<and> tx_recurring_id t = Some (r_id r) \<and> tx_id t \<noteq> row_id \<and>
       tx_id t \<notin> set (map fst (sm_moves m)) \<longrightarrow>
       tx_date t \<notin> set (new # map (fst \<circ> snd) (sm_moves m)) \<and> tx_date t < sm_next_due_date m"
      (is "\<forall>t \<in> _. ?stays t \<longrightarrow> _ t")
    proof (intro ballI impI)
      fix t assume t: "t \<in> set (transactions s)" "?stays t"
      then have "tx_date t \<in> set (map tx_date (filter (\<lambda>t. tx_org_id t = org \<and> tx_recurring_id t = Some (r_id r) \<and>
          tx_id t \<noteq> row_id \<and> tx_id t \<notin> set (map fst moves)) (transactions s)))" (is "_ \<in> ?stay")
        by (simp add: m)
      moreover from this la have "tx_date t < nf" unfolding list_all_iff set_append by blast
      moreover have "\<forall>d \<in> set (new # map (fst \<circ> snd) moves). d \<notin> ?stay" using st unfolding list_ex_iff by blast
      ultimately show "tx_date t \<notin> set (new # map (fst \<circ> snd) (sm_moves m)) \<and> tx_date t < sm_next_due_date m"
        unfolding m series_date_move.select_convs by blast
    qed
    show "\<forall>d \<in> set (new # map (fst \<circ> snd) (sm_moves m)). d < sm_next_due_date m"
      using la unfolding m by (simp add: list_all_iff)
  qed (use w dd mv nf m in simp_all)
qed

lemma plan_moves_targets:
  assumes "plan_series_date_move rd s org r row_id old new ty today = Inr m" "i \<in> set (map fst (sm_moves m))"
  shows "\<exists>t \<in> set (transactions s). tx_id t = i \<and> tx_status t = PENDING \<and> tx_linked t = None \<and> i \<noteq> row_id"
  using assms(1)
proof (rule plan_moves)
  fix old_grid new_grid
  assume "move_rows (zip old_grid new_grid) (series_sync_targets s org (r_id r) (Some ty) (Some row_id) (Some old)) = Inr (sm_moves m)"
  from subsetD[OF move_rows_ids[OF this] assms(2)] show ?thesis by (auto simp: series_sync_targets_def)
qed

section \<open>The whole edit\<close>

lemma update_transactionE:
  assumes "update_transaction rd s org tid body today = Inr (s', u)"
  obtains t scope partner' s1 where "org_row s org tid = Some t" "tu_type body \<noteq> Some TRANSFER"
    "row_guards rd s org body t today = Inr ()" "leg_guards s org body t (pair_partner s org t) = Inr ()"
    "future_scope rd s org body t today = Inr scope"
    "edited_rows body t (pair_partner s org t) (case scope of None \<Rightarrow> False | Some p \<Rightarrow> snd p \<noteq> None) today = Inr (u, partner')"
    "move_balances s org body t u (linked_row s org t) (pair_partner s org t) partner' = Inr s1"
    "case partner' of None \<Rightarrow> True | Some q \<Rightarrow> pair_invariants (put_partner partner' (put_transaction u s1)) u q = Inr ()"
    "s' = sync_series org body t u scope (put_partner partner' (put_transaction u s1))"
    "check_categories s org body t (pair_partner s org t) = Inr ()"
proof -
  note E = assms[unfolded update_transaction_def Let_def]
  then obtain t where t: "org_row s org tid = Some t" by (cases "org_row s org tid") (simp_all split: if_splits)
  let ?p = "pair_partner s org t"
  from E[unfolded t option.case rbind_eq_Inr] obtain scope s1 partner' where
    "tu_type body \<noteq> Some TRANSFER" "row_guards rd s org body t today = Inr ()" "leg_guards s org body t ?p = Inr ()"
    "future_scope rd s org body t today = Inr scope"
    "edited_rows body t ?p (case scope of None \<Rightarrow> False | Some p \<Rightarrow> snd p \<noteq> None) today = Inr (u, partner')"
    "move_balances s org body t u (linked_row s org t) ?p partner' = Inr s1"
    "(case partner' of None \<Rightarrow> Inr () | Some q \<Rightarrow> pair_invariants (put_partner partner' (put_transaction u s1)) u q) = Inr ()"
    "s' = sync_series org body t u scope (put_partner partner' (put_transaction u s1))"
    "check_categories s org body t ?p = Inr ()"
    by (clarsimp simp: rbind_eq_Inr simp del: rbind_guard)
  from that[OF t this(1-6) _ this(8,9)] this(7) show thesis by (simp split: option.splits)
qed

lemma leg_account:
  assumes "leg_guards s org body t partner = Inr ()" "row_ok s t" "tx_org_id t = org"
  shows "account_of s (given (tu_account_id body) (tx_account_id t)) org"
proof (cases "tu_account_id body")
  case None
  with assms show ?thesis by (simp add: given_def row_ok_def)
next
  case (Some a)
  show ?thesis
  proof (cases partner)
    case None
    with assms Some show ?thesis by (auto simp: leg_guards_def given_def validate_account_Inr row_ok_def split: if_splits)
  next
    case (Some p)
    with assms \<open>tu_account_id body = Some a\<close> obtain acc where "find_account s a org = Some acc"
      by (auto simp: leg_guards_def split: option.splits if_splits)
    then have "account_of s a org" by (auto simp: find_account_def account_of_def list_ex_iff find_Some_iff)
    with \<open>tu_account_id body = Some a\<close> show ?thesis by (simp add: given_def)
  qed
qed

lemma future_scope_Some:
  assumes "future_scope rd s org body t today = Inr (Some (r, mv))"
  shows "tx_linked t = None" "tx_status t = PENDING" "tx_recurring_id t = Some (r_id r)" "r \<in> set (templates s)"
    "mv = Some m \<Longrightarrow> \<exists>d. tu_date body = Some d \<and>
      plan_series_date_move rd s org r (tx_id t) (tx_date t) d (tx_type t) today = Inr m"
proof -
  from assms obtain rid where rid: "tx_recurring_id t = Some rid" by (auto simp: future_scope_def split: if_splits option.splits)
  note E = assms[unfolded future_scope_def rid option.case]
  from E obtain r' where r': "find_template s rid org = Some r'" by (auto split: if_splits option.splits)
  from E r' show "tx_linked t = None" "tx_status t = PENDING" "tx_recurring_id t = Some (r_id r)" "r \<in> set (templates s)"
    "mv = Some m \<Longrightarrow> \<exists>d. tu_date body = Some d \<and>
      plan_series_date_move rd s org r (tx_id t) (tx_date t) d (tx_type t) today = Inr m"
    using find_template_Some[OF r'] rid by (auto simp: rbind_eq_Inr split: if_splits option.splits)
qed

lemma put_other_rows:
  assumes "x \<in> set (transactions (put_transaction u s))"
  shows "x = u \<or> x \<in> set (transactions s) \<and> tx_id x \<noteq> tx_id u"
  using assms by (auto simp: set_update_row)

lemma put_mem:
  "t \<in> set (transactions s) \<Longrightarrow> tx_id u = tx_id t \<Longrightarrow> u \<in> set (transactions (put_transaction u s))"
  "x \<in> set (transactions s) \<Longrightarrow> tx_id x \<noteq> tx_id u \<Longrightarrow> x \<in> set (transactions (put_transaction u s))"
  by (force simp: set_update_row image_iff)+

lemma update_transaction_steps:
  assumes up: "update_transaction rd s org tid body today = Inr (s', u)" and inv: "full_inv s"
  obtains t scope partner' s1 s2 where "org_row s org tid = Some t" "same_key u t" "row_ok s u"
    "s2 = put_partner partner' (put_transaction u s1)" "transactions s1 = transactions s" "full_inv s2" "frame s2 s"
    "s' = sync_series org body t u scope s2" "edited_from s' s2" "accounts s1 = accounts s2"
    "\<And>p q. pair_partner s org t = Some p \<Longrightarrow> partner' = Some q \<Longrightarrow> same_key q p \<and> tx_status q = tx_status p"
    "pair_partner s org t = None \<longleftrightarrow> partner' = None"
    "case partner' of None \<Rightarrow> True | Some q \<Rightarrow> pair_invariants s2 u q = Inr ()"
    "future_scope rd s org body t today = Inr scope"
    "edited_rows body t (pair_partner s org t) (case scope of None \<Rightarrow> False | Some p \<Rightarrow> snd p \<noteq> None) today = Inr (u, partner')"
    "move_balances s org body t u (linked_row s org t) (pair_partner s org t) partner' = Inr s1"
    "pair_partner s org t \<noteq> None \<Longrightarrow> tx_type u = tx_type t"
    "\<And>p q. pair_partner s org t = Some p \<Longrightarrow> partner' = Some q \<Longrightarrow> tx_type q = tx_type p"
  using up
proof (rule update_transactionE)
  fix t scope partner' s1
  let ?p = "pair_partner s org t" and ?s2 = "put_partner partner' (put_transaction u s1)"
  assume t: "org_row s org tid = Some t" and ty: "tu_type body \<noteq> Some TRANSFER"
    and lg: "leg_guards s org body t ?p = Inr ()" and fs: "future_scope rd s org body t today = Inr scope"
    and er: "edited_rows body t ?p (case scope of None \<Rightarrow> False | Some p \<Rightarrow> snd p \<noteq> None) today = Inr (u, partner')"
    and mb: "move_balances s org body t u (linked_row s org t) ?p partner' = Inr s1"
    and pi: "case partner' of None \<Rightarrow> True | Some q \<Rightarrow> pair_invariants ?s2 u q = Inr ()"
    and s': "s' = sync_series org body t u scope ?s2"
  note tm = org_row_Some[OF t] and b = full_invD(2)[OF inv]
  have t1: "t \<in> set (transactions s)" "tx_org_id t = org" using tm by simp_all
  have okt: "row_ok s t" by (rule booksD(6)[OF b t1(1)])
  from edited_rows_Inr(1)[OF er] obtain d where u: "u = (edited_row body t today)\<lparr>tx_settled_date := d\<rparr>"
    and d: "tx_status u = SETTLED \<longrightarrow> d = settled_after body t today" by blast
  have k: "same_key u t" using edited_row_sel(1)[of body t today] by (simp add: u same_key_def)
  have acc: "tx_account_id u = given (tu_account_id body) (tx_account_id t)" "tx_status u = given (tu_status body) (tx_status t)"
    "tx_type u = given (tu_type body) (tx_type t)" "tx_settled_date u = d" by (simp_all add: u)
  have tyu: "tx_type u \<noteq> TRANSFER"
    using pairs_typed_type[OF full_invD(4)[OF inv] t1(1)] ty by (auto simp: acc given_def split: option.splits)
  have oku: "row_ok s u"
    using leg_account[OF lg okt t1(2)] settled_after_SETTLED[OF _ okt, of body today] d tyu k t1(2)
    by (simp add: row_ok_def acc same_key_def)
  note none = edited_rows_Inr(2)[OF er]
  have tyeq: "tx_type u = tx_type t" if "?p \<noteq> None"
    using lg that by (auto simp: leg_guards_def acc given_def split: option.splits)
  have Q: "same_key q p \<and> row_ok s q \<and> tx_type q = tx_type p \<and> tx_status q = tx_status p \<and> tx_account_id q = tx_account_id p \<and>
       (tu_amount body = None \<longrightarrow> tx_amount q = tx_amount p)" if pq: "?p = Some p" "partner' = Some q" for p q
  proof -
    from edited_rows_Inr(3)[OF er pq] obtain c sd a where q: "q = p\<lparr>tx_category_id := c, tx_settled_date := sd, tx_amount := a\<rparr>"
      and c: "a = given (tu_amount body) (tx_amount p)" "tx_status p = SETTLED \<longrightarrow> sd = tx_settled_date p" by blast
    have "row_ok s p" by (rule booksD(6)[OF b pair_partner_Some(1)[OF inv t1 pq(1)]])
    with c show ?thesis by (auto simp: q same_key_def row_ok_def given_def)
  qed
  note W = writes_keep[OF inv t1 k oku tyu refl tyeq none Q mb]
  note rows1 = move_balances_books(2)[OF mb b none]
  have tr1: "transactions s1 = transactions s" using rows1 by (simp add: same_rows_def)
  have ac2: "account_of ?s2 = account_of s" using W(2) by (simp add: frame_def)
  have "edited_from s' ?s2"
  proof (cases "tx_recurring_id u")
    case None
    then show ?thesis using edited_from_refl[OF W(1)] by (simp add: s' sync_series_def)
  next
    case (Some rid)
    have "fields_ok ?s2 org (occurrence_sync_fields body t u scope)"
      unfolding fields_ok_def
    proof (intro conjI allI impI)
      fix a assume "sf_account_id (occurrence_sync_fields body t u scope) = Some a"
      then have "a = tx_account_id u" by (auto simp: occurrence_sync_fields_def changed_def split: if_splits)
      then show "account_of ?s2 a org" using oku k t1(2) by (simp add: ac2 row_ok_def same_key_def)
    next
      fix m assume "sf_date_move (occurrence_sync_fields body t u scope) = Some m"
      then obtain r where sc: "scope = Some (r, Some m)" by (auto simp: occurrence_sync_fields_def split: option.splits)
      note F = future_scope_Some[OF fs[unfolded sc]]
      from F(5)[OF refl] obtain d' where pl: "plan_series_date_move rd s org r (tx_id t) (tx_date t) d' (tx_type t) today = Inr m" by blast
      have "?p = None" using F(1) by (simp add: pair_partner_def linked_row_def is_reciprocal_pair_def)
      then have "partner' = None" using none by simp
      show "pending_ids ?s2 (map fst (sm_moves m))"
        unfolding pending_ids_def
      proof (intro ballI impI)
        fix x assume x: "x \<in> set (transactions ?s2)" "tx_id x \<in> set (map fst (sm_moves m))"
        from plan_moves_targets[OF pl x(2)] obtain y where y: "y \<in> set (transactions s)" "tx_id y = tx_id x" "tx_status y = PENDING"
          "tx_id x \<noteq> tx_id t" by blast
        from x(1) \<open>partner' = None\<close> put_other_rows[of x u s1] k y(4) have "x \<in> set (transactions s)"
          by (auto simp: put_partner_def tr1 same_key_def)
        from key_unique[OF full_invD(7)[OF inv] this y(1) y(2)[symmetric]] y(3) show "tx_status x = PENDING" by simp
      qed
    qed
    with propagate_edits[OF W(1) this] edited_from_refl[OF W(1)] Some show ?thesis by (simp add: s' sync_series_def Let_def)
  qed
  moreover have "accounts s1 = accounts ?s2" by (simp add: put_partner_def split: option.splits)
  ultimately show thesis
    using that[OF t k oku refl tr1 W s'] Q none pi fs er mb tyeq by blast
qed

lemma update_transaction_keeps: "update_transaction rd s org tid body today = Inr (s', u) \<Longrightarrow> full_inv s \<Longrightarrow> full_inv s'"
  by (erule update_transaction_steps) (simp_all add: edited_from_def)

section \<open>Promoting\<close>

lemma promoteE:
  assumes "promote_to_recurring rd s org tid body today = Inr (s', u)"
  obtains t r s1 p_start where "org_row s org tid = Some t" "tx_linked t = None" "\<not> reverted t" "\<not> tx_is_manual_adjustment t"
    "tx_recurring_id t = None" "validate_frontier rd s org (pm_next_due_date body) today = Inr p_start"
    "s1 = s\<lparr>templates := templates s @ [r], next_id := next_id s + 1\<rparr>" "u = t\<lparr>tx_recurring_id := Some (r_id r)\<rparr>"
    "s' = put_transaction u s1" "r_id r = next_id s" "r_org_id r = org" "r_account_id r = tx_account_id t" "r_to_account_id r = None"
    "r_next_due_date r = pm_next_due_date body" "r_frequency r = pm_frequency body" "r_is_active r"
    "r_occurrence_count r = pm_occurrence_count body" "r_occurrences_elapsed r = (if pm_next_due_date body \<le> tx_date t then 0 else 1)"
    "r_last_spent_date r = (if pm_next_due_date body \<le> tx_date t then None else Some (tx_date t))"
    "r_amount r = tx_amount t" "r_type r = tx_type t"
proof -
  note E = assms[unfolded promote_to_recurring_def Let_def]
  then obtain t where t: "org_row s org tid = Some t" by (cases "org_row s org tid") (auto simp: rbind_eq_Inr)
  from E t show thesis
    by (auto simp: rbind_eq_Inr simp del: rbind_guard intro!: that[OF t])
qed

lemma full_inv_put_same_money:
  assumes inv: "full_inv s" and t: "t \<in> set (transactions s)" and u: "u = t\<lparr>tx_recurring_id := i\<rparr>"
  shows "full_inv (put_transaction u s)"
proof (rule full_inv_map_rows[OF inv, of "\<lambda>x. if tx_id x = tx_id u then u else x" _ "templates s"])
  fix x assume x: "x \<in> set (transactions s)"
  show "same_money (if tx_id x = tx_id u then u else x) x \<and>
      tx_linked (if tx_id x = tx_id u then u else x) = tx_linked x \<and>
      tx_import_batch_id (if tx_id x = tx_id u then u else x) = tx_import_batch_id x"
  proof (cases "tx_id x = tx_id u")
    case True
    then have "x = t" using key_unique[OF full_invD(7)[OF inv] x t] by (simp add: u)
    then show ?thesis by (simp add: u same_money_def)
  qed (simp add: same_money_def)
qed (use full_invD(5)[OF inv] in \<open>simp_all add: put_transaction_def update_row_def store_wf_def\<close>)

lemma promote_keeps:
  assumes "promote_to_recurring rd s org tid body today = Inr (s', u)" and inv: "full_inv s"
  shows "full_inv s' \<and> accounts s' = accounts s"
  using assms(1)
proof (rule promoteE)
  fix t r s1
  assume t: "org_row s org tid = Some t" and s1: "s1 = s\<lparr>templates := templates s @ [r], next_id := next_id s + 1\<rparr>"
    and u: "u = t\<lparr>tx_recurring_id := Some (r_id r)\<rparr>" and s': "s' = put_transaction u s1"
    and r: "r_id r = next_id s" "r_org_id r = org" "r_account_id r = tx_account_id t" "r_to_account_id r = None"
  note tm = org_row_Some[OF t]
  have "template_ok s r"
    using booksD(6)[OF full_invD(2)[OF inv] conjunct1[OF tm]] tm by (simp add: template_ok_def r row_ok_def)
  from add_template_inv[OF inv this r(1) s1] have "full_inv s1" .
  moreover have "t \<in> set (transactions s1)" using tm by (simp add: s1)
  ultimately have "full_inv s'" unfolding s' by (rule full_inv_put_same_money) (rule u)
  then show "full_inv s' \<and> accounts s' = accounts s" by (simp add: s' s1)
qed

end
