(* ===== verification/TransfersKeep.thy ===== *)
theory TransfersKeep
  imports Transfers TxUpdateKeep
begin

text \<open>
  Why creating the missing leg of a transfer keeps the ledger: the new row is booked on the
  destination and then linked, so no balance is off.
\<close>

lemma partner_leg_sel [simp]:
  "tx_id (partner_leg s org t a) = next_id s" "tx_org_id (partner_leg s org t a) = org" "tx_account_id (partner_leg s org t a) = a"
  "tx_amount (partner_leg s org t a) = tx_amount t" "tx_status (partner_leg s org t a) = tx_status t"
  "tx_type (partner_leg s org t a) = (if tx_type t = EXPENSE then INCOME else EXPENSE)"
  "tx_linked (partner_leg s org t a) = None" "tx_import_batch_id (partner_leg s org t a) = None"
  "tx_settled_date (partner_leg s org t a) = tx_settled_date t" "tx_recon (partner_leg s org t a) = accepted"
  by (simp_all add: partner_leg_def)

lemma convertE:
  assumes "convert_and_create_leg s org tid dest recat cat = Inr (s', e, i)"
  obtains t p s2 where "org_row s org tid = Some t" "convert_guards s org t dest = Inr ()" "p = partner_leg s org t dest"
    "move_if (tx_status t = SETTLED) apply_balance org p (add_transaction p s) = Inr s2"
    "if tx_type t = EXPENSE then link_pair s2 True t p recat cat = Inr (s', e, i) else link_pair s2 True p t recat cat = Inr (s', e, i)"
proof -
  from assms obtain t where t: "org_row s org tid = Some t" by (auto simp: convert_and_create_leg_def split: option.splits)
  from assms t show thesis
    by (auto simp: convert_and_create_leg_def rbind_eq_Inr Let_def move_if_def simp del: rbind_guard split: if_splits intro!: that[OF t])
qed

lemma convert_Inr:
  assumes c: "convert_and_create_leg s org tid dest recat cat = Inr (s', e, i)" and inv: "full_inv s"
  shows "full_inv s'"
    "accounts s' = accounts (if tx_status e = SETTLED
       then add_balance dest (signed (if tx_id e = tid then INCOME else EXPENSE) (tx_amount e)) s else s)"
    "mutual e i" "tx_status i = tx_status e" "tx_amount i = tx_amount e" "tx_account_id e \<noteq> tx_account_id i" "tx_id e = tid \<or> tx_id i = tid"
proof -
  from c obtain t p s2 where t: "org_row s org tid = Some t" and g: "convert_guards s org t dest = Inr ()" and p: "p = partner_leg s org t dest"
    and m: "move_if (tx_status t = SETTLED) apply_balance org p (add_transaction p s) = Inr s2"
    and lk: "if tx_type t = EXPENSE then link_pair s2 True t p recat cat = Inr (s', e, i) else link_pair s2 True p t recat cat = Inr (s', e, i)"
    by (rule convertE)
  note tm = org_row_Some[OF t] and b = full_invD(2)[OF inv]
  from g have gd: "tx_linked t = None" "tx_account_id t \<noteq> dest" and acc: "account_of s dest org"
    by (auto simp: convert_guards_def find_account_def account_of_def list_ex_iff find_Some_iff split: if_splits option.splits dest!: nth_mem)
  let ?s1 = "add_transaction p s"
  have okp: "row_ok s p" using acc booksD(6)[OF b, of t] tm by (auto simp: p row_ok_def)
  have b1: "books (\<lambda>i. 0 - settled_contribution (transactions s) i p) ?s1" by (rule books_add_row[OF b]) (simp_all add: p okp[unfolded p])
  note mv = move_if_apply[OF m b1]
  have "books (\<lambda>_. 0) s2"
    by (rule books_eq[OF mv(1)]) (simp add: fun_eq_iff contribution_moved balance_contribution_filter_def p)
  note b2 = this
  have T2: "transactions s2 = transactions s @ [p]" "batches s2 = batches s" "frame s2 ?s1" using mv(2) by (simp_all add: same_rows_def add_transaction_def)
  have f2: "frame s2 s" using frame_trans[OF T2(3) frame_steps(1)] .
  have mem: "t \<in> set (transactions s2)" "p \<in> set (transactions s2)" using tm by (simp_all add: T2)
  have wf2: "store_wf s2" and d2: "distinct (map tx_id (transactions s2))" using booksD(1,4)[OF b2] by simp_all
  have pt2: "pairs_typed (transactions s2)" unfolding T2 by (rule pairs_typed_add[OF full_invD(4)[OF inv]]) (simp_all add: p)
  have sb2: "same_batches s2 s" using batch_cols_add[of p s] by (simp add: same_batches_def T2 p)
  obtain x y where xy: "link_pair s2 True x y recat cat = Inr (s', e, i)" "x = t \<and> y = p \<and> tx_type t = EXPENSE \<or> x = p \<and> y = t \<and> tx_type t \<noteq> EXPENSE"
    using lk by (auto split: if_splits)
  have mxy: "x \<in> set (transactions s2)" "y \<in> set (transactions s2)" using xy(2) mem by auto
  note L = link_pair_Inr[OF xy(1) b2 mxy] and S = link_pair_series[OF xy(1) d2 mxy pt2] and B = link_pair_batches[OF xy(1) wf2 mxy]
  have fr: "frame s' s" using frame_trans[OF S(1) f2] .
  show "full_inv s'"
  proof (rule full_invI[OF L(1) _ _ S(2)])
    show "batches_inv s'" using batches_inv_cols[OF same_batches_trans[OF B sb2] full_invD(3)[OF inv]] .
    show "list_all (template_ok s') (templates s')" using frame_templates[OF fr] inv by (simp add: full_inv_def series_inv_def)
  qed
  have ids: "tx_id p \<noteq> tid" using booksD(7)[OF b, of t] tm by (auto simp: p)
  have e: "tx_status e = tx_status t" "tx_amount e = tx_amount t" "tx_status i = tx_status t" "tx_amount i = tx_amount t"
    "tx_id e = tx_id x" "tx_id i = tx_id y" "tx_account_id e = tx_account_id x" "tx_account_id i = tx_account_id y"
    using L(5,6) xy(2) by (auto simp: same_money_def p)
  show "tx_status i = tx_status e" "tx_amount i = tx_amount e" using e by simp_all
  show "mutual e i" using L(3,4) by (simp add: mutual_def)
  show "tx_account_id e \<noteq> tx_account_id i" using xy(2) gd(2) e(7,8) by (auto simp: p)
  show "tx_id e = tid \<or> tx_id i = tid" using xy(2) e(5,6) tm by auto
  have "tx_type p = (if tx_id e = tid then INCOME else EXPENSE)" using xy(2) e(5) ids tm by (auto simp: p)
  moreover have "accounts ?s1 = accounts s" by simp
  moreover have "s2 = (if tx_status t = SETTLED then add_balance dest (signed (tx_type p) (tx_amount p)) ?s1 else ?s1)"
    using m move_apply(1)[OF _ booksD(1)[OF b1]] by (auto simp: move_if_def p split: if_splits)
  ultimately show "accounts s' = accounts (if tx_status e = SETTLED
       then add_balance dest (signed (if tx_id e = tid then INCOME else EXPENSE) (tx_amount e)) s else s)"
    unfolding L(2) e(1,2) by (simp add: add_balance_def p)
qed

end
