(* ===== verification/System.thy ===== *)
theory System
  imports TransfersKeep
begin

text \<open>
  The ledger as a system: the contract every writing operation meets (\<open>store_operation\<close>), the
  requests a client can send, and the stores they lead to. Every operation of the component
  theories is an interpretation of the contract, the dispatcher over all of them is one more.
\<close>

section \<open>The contract\<close>

locale store_operation =
  fixes exec :: "'c \<Rightarrow> store \<Rightarrow> store result"
  assumes keeps: "full_inv s \<Longrightarrow> exec c s = Inr s' \<Longrightarrow> full_inv s'"

text \<open>A refused request is rolled back and the next one runs.\<close>

primrec run_requests :: "('c \<Rightarrow> store \<Rightarrow> store result) \<Rightarrow> 'c list \<Rightarrow> store \<Rightarrow> store" where
  "run_requests exec [] s = s"
| "run_requests exec (c # cs) s =
     run_requests exec cs (case exec c s of Inl e \<Rightarrow> s | Inr s' \<Rightarrow> s')"

inductive reaches :: "('c \<Rightarrow> store \<Rightarrow> store result) \<Rightarrow> store \<Rightarrow> store \<Rightarrow> bool" for exec s0 where
  start: "reaches exec s0 s0"
| committed: "reaches exec s0 s \<Longrightarrow> exec c s = Inr s' \<Longrightarrow> reaches exec s0 s'"

inductive_cases reachesE: "reaches exec s0 s"

context store_operation
begin

lemma reaches_keeps: "reaches exec s0 s \<Longrightarrow> full_inv s0 \<Longrightarrow> full_inv s"
  by (induction rule: reaches.induct) (auto intro: keeps)

lemma audited: "full_inv s \<Longrightarrow> a \<in> set (accounts s) \<Longrightarrow> snd (snd (reconcile_account s (acc_org_id a) a))"
  by (simp add: full_inv_def db_inv_def ledger_inv_def list_all_iff)

end

lemma reaches_run: "reaches exec s0 s \<Longrightarrow> reaches exec s0 (run_requests exec cs s)"
  by (induction cs arbitrary: s) (auto intro: reaches.committed split: sum.splits)

section \<open>The requests\<close>

datatype request =
    CreateTransaction int tx_create bool
  | CreateTransfer int transfer_create bool
  | PairTransactions int int int bool "int option"
  | UnpairTransactions int int int int
  | AdjustBalance int int decimal "string option" date
  | DeleteTransaction int int
  | BulkDelete int "int list"
  | ReconcileRows int int "transition list" date
  | CreateRecurring int recurring_create date
  | MaterialiseNext int int date bool date
  | SkipOccurrence int int
  | GenerateDue int date
  | StopRecurring int int date
  | DeleteRecurring int int date
  | UpdateRecurring int int recurring_update date
  | UpdateTransaction int int tx_update date
  | PromoteToRecurring int int promote_request date
  | ConvertToTransfer int int int bool "int option"

definition committed_store :: "(store \<times> 'a) result \<Rightarrow> store result" where
  "committed_store r = rbind r (\<lambda>p. Inr (fst p))"

fun handle ::
  "(int \<Rightarrow> int \<Rightarrow> date \<Rightarrow> date option) \<Rightarrow> (decimal \<Rightarrow> string) \<Rightarrow> request \<Rightarrow> store \<Rightarrow> store result" where
  "handle rd show_dec (CreateTransaction org body imp) s = committed_store (create_transaction s org body imp)"
| "handle rd show_dec (CreateTransfer org body imp) s = committed_store (create_transfer s org body imp)"
| "handle rd show_dec (PairTransactions org e i recat cat) s =
     committed_store (pair_existing_transactions s org e i recat cat)"
| "handle rd show_dec (UnpairTransactions org t ec ic) s = committed_store (unpair_transactions s org t ec ic)"
| "handle rd show_dec (AdjustBalance org aid target reason today) s =
     committed_store (adjust_account_balance show_dec s org aid target reason today)"
| "handle rd show_dec (DeleteTransaction org t) s = committed_store (delete_transaction s org t)"
| "handle rd show_dec (BulkDelete org ids) s = committed_store (bulk_delete_transactions s org ids)"
| "handle rd show_dec (ReconcileRows org b trs today) s = committed_store (reconcile_request rd today s org b trs)"
| "handle rd show_dec (CreateRecurring org body today) s = committed_store (create_recurring rd s org body today)"
| "handle rd show_dec (MaterialiseNext org i d sk today) s = committed_store (materialise_next rd s org i d sk today)"
| "handle rd show_dec (SkipOccurrence org t) s = committed_store (skip_occurrence s org t)"
| "handle rd show_dec (GenerateDue org today) s = committed_store (generate_due_transactions rd s org today)"
| "handle rd show_dec (StopRecurring org i today) s = committed_store (stop_recurring s org i today)"
| "handle rd show_dec (DeleteRecurring org i today) s = committed_store (delete_recurring s org i today)"
| "handle rd show_dec (UpdateRecurring org i body today) s = committed_store (update_recurring rd s org i body today)"
| "handle rd show_dec (UpdateTransaction org i body today) s = committed_store (update_transaction rd s org i body today)"
| "handle rd show_dec (PromoteToRecurring org i body today) s = committed_store (promote_to_recurring rd s org i body today)"
| "handle rd show_dec (ConvertToTransfer org i dest recat cat) s =
     committed_store (convert_and_create_leg s org i dest recat cat)"

lemma committed_store_Inr: "committed_store r = Inr s \<longleftrightarrow> (\<exists>y. r = Inr (s, y))"
  by (auto simp: committed_store_def rbind_eq_Inr)

section \<open>Every operation meets the contract\<close>

lemma reconcile_db:
  assumes "reconcile_request rd today s org b trs = Inr (s', b')" "db_inv s"
  shows "db_inv s'"
  using reconcile_request_Inr(1,2)[OF assms(1)] assms(2) by (simp add: db_inv_def)

lemmas ledger_keeps = create_db transfer_db pair_db unpair_db adjust_db delete_transaction_Inr(1)
  bulk_delete_keeps reconcile_db

lemmas series_keeps = create_series transfer_series pair_series unpair_series adjust_series delete_series
  bulk_series reconcile_series

lemma full_inv_split: "full_inv s \<Longrightarrow> (db_inv s \<Longrightarrow> db_inv s') \<Longrightarrow> (full_inv s \<Longrightarrow> series_inv s') \<Longrightarrow> full_inv s'"
  by (simp add: full_inv_def)

interpretation ledger_op: store_operation
  "\<lambda>(org, ids) s. committed_store (bulk_delete_transactions s org ids)"
  by unfold_locales (auto simp: committed_store_Inr elim!: full_inv_split intro: bulk_delete_keeps bulk_series)

interpretation generate_op: store_operation
  "\<lambda>(org, today) s. committed_store (generate_due_transactions rd s org today)" for rd
  by unfold_locales (auto simp: committed_store_Inr intro: generate_keeps)

interpretation stop_op: store_operation
  "\<lambda>(org, i, today) s. committed_store (stop_recurring s org i today)"
  by unfold_locales (auto simp: committed_store_Inr intro: stop_keeps(1))

lemma edit_recurring_keeps: "update_recurring rd s org i body today = Inr (s', r) \<Longrightarrow> full_inv s \<Longrightarrow> full_inv s'"
  using update_recurring_edits by (auto simp: edited_from_def)

lemmas request_keeps = create_recurring_Inr(1) materialise_next_Inr skip_keeps(1) generate_keeps stop_keeps(1)
  delete_recurring_keeps(1) edit_recurring_keeps update_transaction_keeps conjunct1[OF promote_keeps] convert_Inr(1)

interpretation edit_op: store_operation
  "\<lambda>(org, i, body, today) s. committed_store (update_transaction rd s org i body today)" for rd
  by unfold_locales (auto simp: committed_store_Inr intro: update_transaction_keeps)

lemma ledger_request_keeps:
  "create_transaction s org body imp = Inr (s', t) \<Longrightarrow> full_inv s \<Longrightarrow> full_inv s'"
  "create_transfer s org tbody imp = Inr (s', e, f) \<Longrightarrow> full_inv s \<Longrightarrow> full_inv s'"
  "pair_existing_transactions s org i j recat cat = Inr (s', e, f) \<Longrightarrow> full_inv s \<Longrightarrow> full_inv s'"
  "unpair_transactions s org i j k = Inr (s', e, f) \<Longrightarrow> full_inv s \<Longrightarrow> full_inv s'"
  "adjust_account_balance show_dec s org i x reason today = Inr (s', t, a, b, c) \<Longrightarrow> full_inv s \<Longrightarrow> full_inv s'"
  "delete_transaction s org i = Inr (s', dem) \<Longrightarrow> full_inv s \<Longrightarrow> full_inv s'"
  "bulk_delete_transactions s org ids = Inr (s', n, missing, dem) \<Longrightarrow> full_inv s \<Longrightarrow> full_inv s'"
  "reconcile_request rd today s org i trs = Inr (s', bat) \<Longrightarrow> full_inv s \<Longrightarrow> full_inv s'"
  by (auto elim!: full_inv_split intro: ledger_keeps series_keeps)

lemma handle_keeps: "handle rd show_dec c s = Inr s' \<Longrightarrow> full_inv s \<Longrightarrow> full_inv s'"
  by (cases c) (auto simp: committed_store_Inr intro: ledger_request_keeps request_keeps)

interpretation system: store_operation "handle rd show_dec" for rd show_dec
  by unfold_locales (rule handle_keeps)

end
