(* ===== verification/Sample.thy ===== *)
theory Sample
  imports System
begin

text \<open>
  One small ledger that meets every invariant: two accounts, a settled salary, a settled
  expense, a transfer pair, an imported batch whose second row is matched one-way onto the
  expense, a pending row and a recurring template. The witnesses run the operations on it.
\<close>

definition sample_account :: "int \<Rightarrow> string \<Rightarrow> decimal \<Rightarrow> decimal \<Rightarrow> account" where
  "sample_account i name opening balance =
     \<lparr>acc_id = i, acc_org_id = 1, acc_type_slug = Some ''checking'', acc_name = name, acc_balance = balance,
      acc_currency = ''EUR'', acc_is_active = True, acc_close_day = None, acc_payment_day = None,
      acc_payment_day_relative_month = None, acc_payment_source_account_id = None,
      acc_fixed_payment_amount = None, acc_payment_strategy = None, acc_principal_amount = None,
      acc_interest_rate_apr = None, acc_term_months = None, acc_origination_date = None,
      acc_first_payment_date = None, acc_opening_balance = opening\<rparr>"

definition sample_tx :: "int \<Rightarrow> int \<Rightarrow> decimal \<Rightarrow> transaction_type \<Rightarrow> transaction_status \<Rightarrow> int option
    \<Rightarrow> int option \<Rightarrow> reconciliation_state \<Rightarrow> transaction" where
  "sample_tx i aid amount ty status linked batch recon =
     \<lparr>tx_id = i, tx_org_id = 1, tx_account_id = aid, tx_category_id = 3, tx_description = ''row'',
      tx_amount = amount, tx_type = ty, tx_status = status, tx_linked = linked, tx_recurring_id = None,
      tx_recurring_origin_id = None, tx_date = date_of 2025 3 10,
      tx_settled_date = (if status = SETTLED then Some (date_of 2025 3 11) else None),
      tx_is_imported = (batch \<noteq> None), tx_import_batch_id = batch, tx_recon = recon, tx_fitid = None,
      tx_is_manual_adjustment = False\<rparr>"

definition sample_category :: "int \<Rightarrow> category_type \<Rightarrow> category" where
  "sample_category i ty = \<lparr>cat_id = i, cat_org_id = 1, cat_parent_id = None, cat_slug = None,
     cat_is_system = False, cat_type = ty\<rparr>"

definition sample_template :: "template" where
  "sample_template = \<lparr>r_id = 20, r_org_id = 1, r_account_id = 4, r_to_account_id = None, r_category_id = 2,
     r_description = ''rent'', r_amount = 700, r_type = EXPENSE, r_frequency = MONTHLY,
     r_next_due_date = date_of 2025 3 31, r_auto_settle = True, r_is_active = True,
     r_occurrence_count = Some 4, r_occurrences_elapsed = 1, r_last_spent_date = Some (date_of 2025 2 28)\<rparr>"

definition sample_store :: store where
  "sample_store =
     \<lparr>organizations = [\<lparr>o_id = 1, o_billing_cycle_day = 25, o_primary_currency = None\<rparr>],
      categories = [sample_category 1 CatIncome, sample_category 2 CatExpense, sample_category 3 CatBoth],
      accounts = [sample_account 4 ''main'' 100 2350, sample_account 5 ''savings'' 0 150],
      transactions =
        [sample_tx 6 4 2500 INCOME SETTLED None None accepted,
         sample_tx 7 4 100 EXPENSE SETTLED None (Some 14) accepted,
         sample_tx 8 4 150 EXPENSE SETTLED (Some 9) None accepted,
         sample_tx 9 5 150 INCOME SETTLED (Some 8) None accepted,
         sample_tx 10 4 100 EXPENSE SETTLED (Some 7) (Some 14) matched,
         sample_tx 11 4 30 EXPENSE PENDING None None accepted,
         sample_tx 12 4 40 EXPENSE PENDING None (Some 14) pending_review],
      templates = [sample_template],
      batches = [\<lparr>ib_id = 14, ib_org_id = 1, ib_status = BatchOpen, ib_row_count = 3, ib_accepted_count = 1,
         ib_pending_count = 1\<rparr>],
      next_id = 30\<rparr>"

lemma sample_inv: "db_inv sample_store"
  by code_simp

lemma sample_full: "full_inv sample_store"
  unfolding full_inv_def using sample_inv by (intro conjI) (assumption, code_simp)

end
