(* ===== verification/LedgerProps.thy ===== *)
theory LedgerProps
  imports LedgerFacts Sample
begin

text \<open>
  The properties of the ledger operations: what each one promises about the rows, the
  balances and the import batches, with a run on the sample ledger for each.
\<close>

section \<open>Deleting\<close>

text \<open>C2: on a ledger that meets the invariant, \<open>delete_transaction\<close> is refused only when the
  organisation has no such row or the row is a manual balance adjustment; the account locks
  and the balance reverts never fail.\<close>

theorem delete_transaction_accepts:
  assumes "db_inv s"
  shows "(\<exists>s' demoted. delete_transaction s org tid = Inr (s', demoted)) \<longleftrightarrow>
    (\<exists>t. org_row s org tid = Some t \<and> \<not> tx_is_manual_adjustment t)"
  using delete_transaction_ok[OF assms] delete_transaction_Inr(2) assms by blast

theorem delete_transaction_accepts_witness:
  "(\<exists>s' demoted. delete_transaction sample_store 1 7 = Inr (s', demoted)) \<and>
   \<not> (\<exists>s' demoted. delete_transaction sample_store 2 7 = Inr (s', demoted))"
proof -
  have "org_row sample_store 1 7 = Some (sample_tx 7 4 100 EXPENSE SETTLED None (Some 14) accepted)"
    "\<not> tx_is_manual_adjustment (sample_tx 7 4 100 EXPENSE SETTLED None (Some 14) accepted)"
    "org_row sample_store 2 7 = None"
    by (simp_all add: sample_store_def sample_tx_def org_row_def)
  then show ?thesis
    using delete_transaction_accepts[OF sample_inv, of 1 7] delete_transaction_accepts[OF sample_inv, of 2 7] by simp
qed

lemma delete_reports_rows:
  assumes "delete_transaction s org tid = Inr (s', dem)" "db_inv s"
  shows "set dem \<subseteq> tx_id ` set (transactions s)"
proof -
  from assms(1) obtain plan where plan: "plan_transaction_delete s org tid = Inr plan"
    "delete_writes org (dp_reverts plan) (dp_deleted plan) (dp_settlement plan) s = Inr (s', dem)"
    by (auto simp: delete_transaction_def apply_transaction_delete_def rbind_eq_Inr)
  from plan_transaction_delete_Inr[OF plan(1) assms(2)] obtain t where
    eq: "dp_reverts plan = to_revert (dp_rows plan) (dp_deleted plan)"
      "dp_settlement plan = plan_batch_settlement (dp_rows plan) (map tx_id (dp_deleted plan))"
    and c: "delete_closed (transactions s) org (dp_rows plan) (dp_deleted plan)" by metis
  show ?thesis using delete_writes_Inr(3)[OF plan(2)[unfolded eq] assms(2) c] c by (auto simp: delete_closed_def)
qed

text \<open>C3: a delete keeps every balance, link and batch counter right. It removes the row and, when
  the link is mutual, its partner, and adds none; a row that pointed at a removed one loses its link and,
  unless it was already out of the balance, becomes REJECTED, and the list the call returns holds exactly
  the ids of the rows so demoted; every other row is untouched.\<close>

theorem delete_transaction_effect:
  assumes "db_inv s" and "delete_transaction s org tid = Inr (s', demoted)"
  shows "db_inv s' \<and> tx_id ` set (transactions s') \<subseteq> tx_id ` set (transactions s) \<and>
    (\<exists>t. org_row s org tid = Some t \<and>
      (\<forall>u. u \<in> set (transactions s) \<longrightarrow>
        (if u = t \<or> is_reciprocal_pair t (Some u) then tx_id u \<notin> tx_id ` set (transactions s')
         else if \<exists>g \<in> set (transactions s). (g = t \<or> is_reciprocal_pair t (Some g)) \<and> tx_linked u = Some (tx_id g)
           then u\<lparr>tx_linked := None, tx_recon := (if reverted u then tx_recon u else rejected)\<rparr> \<in> set (transactions s')
         else u \<in> set (transactions s'))) \<and>
      set demoted = tx_id ` {u \<in> set (transactions s). \<not> (u = t \<or> is_reciprocal_pair t (Some u)) \<and> \<not> reverted u \<and>
        (\<exists>g \<in> set (transactions s). (g = t \<or> is_reciprocal_pair t (Some g)) \<and> tx_linked u = Some (tx_id g))})"
proof -
  note d = db_invD(3)[OF assms(1)] and l = db_invD(2)[OF assms(1)]
  obtain t del where t: "org_row s org tid = Some t"
    and rows: "transactions s' = rows_after demoted del (transactions s)"
    and del': "\<forall>u \<in> set (transactions s). tx_id u \<in> set del \<longleftrightarrow> u = t \<or> is_reciprocal_pair t (Some u)"
    and dem': "\<forall>u \<in> set (transactions s). tx_id u \<in> set demoted \<longleftrightarrow>
      tx_id u \<notin> set del \<and> (\<exists>i \<in> set del. tx_linked u = Some i) \<and> \<not> reverted u"
    by (rule delete_transaction_rows[OF assms(2,1)])
  note del = del'[rule_format] and dem = dem'[rule_format]
  have points: "(\<exists>g \<in> set (transactions s). (g = t \<or> is_reciprocal_pair t (Some g)) \<and> tx_linked u = Some (tx_id g))
      \<longleftrightarrow> (\<exists>i \<in> set del. tx_linked u = Some i)" if "u \<in> set (transactions s)" for u
  proof
    assume "\<exists>g \<in> set (transactions s). (g = t \<or> is_reciprocal_pair t (Some g)) \<and> tx_linked u = Some (tx_id g)"
    with del show "\<exists>i \<in> set del. tx_linked u = Some i" by blast
  next
    assume "\<exists>i \<in> set del. tx_linked u = Some i"
    then obtain i where i: "i \<in> set del" "tx_linked u = Some i" by blast
    from links_wfD(2)[OF l that i(2)] obtain p where "p \<in> set (transactions s)" "tx_id p = i" by blast
    with del[of p] i show "\<exists>g \<in> set (transactions s).
        (g = t \<or> is_reciprocal_pair t (Some g)) \<and> tx_linked u = Some (tx_id g)" by blast
  qed
  have "if u = t \<or> is_reciprocal_pair t (Some u) then tx_id u \<notin> tx_id ` set (transactions s')
         else if \<exists>g \<in> set (transactions s). (g = t \<or> is_reciprocal_pair t (Some g)) \<and> tx_linked u = Some (tx_id g)
           then u\<lparr>tx_linked := None, tx_recon := (if reverted u then tx_recon u else rejected)\<rparr> \<in> set (transactions s')
         else u \<in> set (transactions s')" if u: "u \<in> set (transactions s)" for u
  proof (cases "tx_id u \<in> set del")
    case True
    then have "tx_id u \<notin> tx_id ` set (transactions s')" by (auto simp: rows rows_after_mem)
    with True del[OF u] show ?thesis by simp
  next
    case False
    have new: "unlink del (demote demoted u) \<in> set (transactions s')" using u False by (auto simp: rows rows_after_mem)
    show ?thesis
    proof (cases "\<exists>i \<in> set del. tx_linked u = Some i")
      case True
      have "unlink del (demote demoted u) = u\<lparr>tx_linked := None, tx_recon := (if reverted u then tx_recon u else rejected)\<rparr>"
        using True False dem[OF u] by (cases u) (auto simp: unlink_def demote_def)
      with new True False del[OF u] points[OF u] show ?thesis by simp
    next
      case no: False
      have "unlink del (demote demoted u) = u"
        using no dem[OF u] by (auto simp: unlink_def demote_def split: option.splits)
      with new have "u \<in> set (transactions s')" by simp
      moreover have "\<not> (u = t \<or> is_reciprocal_pair t (Some u))" using False del[OF u] by blast
      moreover have "\<not> (\<exists>g \<in> set (transactions s). (g = t \<or> is_reciprocal_pair t (Some g)) \<and> tx_linked u = Some (tx_id g))"
        using no points[OF u] by blast
      ultimately show ?thesis by (simp only: if_False)
    qed
  qed
  moreover have "set demoted = tx_id ` {u \<in> set (transactions s). \<not> (u = t \<or> is_reciprocal_pair t (Some u)) \<and> \<not> reverted u \<and>
        (\<exists>g \<in> set (transactions s). (g = t \<or> is_reciprocal_pair t (Some g)) \<and> tx_linked u = Some (tx_id g))}" (is "_ = tx_id ` ?D")
  proof -
    have D: "u \<in> ?D \<longleftrightarrow> tx_id u \<in> set demoted" if "u \<in> set (transactions s)" for u
      using that unfolding dem[OF that] del[OF that] points[OF that, symmetric] by (simp only: mem_Collect_eq) blast
    show ?thesis
    proof (intro equalityI subsetI)
      fix i assume i: "i \<in> set demoted"
      with delete_reports_rows[OF assms(2,1)] obtain u where u: "u \<in> set (transactions s)" "i = tx_id u" by blast
      with i D[OF u(1)] have "u \<in> ?D" by (simp only:)
      with u(2) show "i \<in> tx_id ` ?D" by (rule image_eqI)
    next
      fix i assume "i \<in> tx_id ` ?D"
      then obtain u where u: "u \<in> ?D" "i = tx_id u" by (rule imageE)
      from u(1) have "u \<in> set (transactions s)" by (simp only: mem_Collect_eq)
      with D[of u] u show "i \<in> set demoted" by (simp only:)
    qed
  qed
  moreover have "tx_id ` set (transactions s') \<subseteq> tx_id ` set (transactions s)"
  proof
    fix i assume "i \<in> tx_id ` set (transactions s')"
    then obtain u where "u \<in> set (transactions s)" "i = tx_id (unlink del (demote demoted u))" by (auto simp: rows rows_after_mem)
    then show "i \<in> tx_id ` set (transactions s)" by (simp add: unlink_def demote_def split: option.splits)
  qed
  ultimately show ?thesis using delete_transaction_Inr(1)[OF assms(2,1)] t by blast
qed

theorem delete_transaction_effect_witness:
  "\<exists>s' demoted. delete_transaction sample_store 1 7 = Inr (s', demoted) \<and> db_inv s' \<and> set demoted \<noteq> {}"
proof -
  have "\<not> isl (delete_transaction sample_store 1 7) \<and> snd (projr (delete_transaction sample_store 1 7)) \<noteq> []" by code_simp
  then obtain s' demoted where *: "delete_transaction sample_store 1 7 = Inr (s', demoted)" "demoted \<noteq> []"
    by (cases "delete_transaction sample_store 1 7") auto
  from delete_transaction_effect[OF sample_inv *(1)] * show ?thesis by (metis set_empty)
qed

text \<open>C4: \<open>bulk_delete_transactions\<close> never refuses; it keeps the invariant, reports as skipped exactly
  the requested ids that are missing or manual adjustments, removes every other requested row, and
  its count is the number of rows that went.\<close>

theorem bulk_delete_spec:
  assumes "db_inv s"
  shows "\<exists>s' n skip_ids demoted. bulk_delete_transactions s org ids = Inr (s', n, skip_ids, demoted) \<and>
    db_inv s' \<and>
    set skip_ids = {i \<in> set ids. case org_row s org i of None \<Rightarrow> True | Some r \<Rightarrow> tx_is_manual_adjustment r} \<and>
    (\<forall>i. i \<in> set ids \<and> i \<notin> set skip_ids \<longrightarrow> org_row s' org i = None) \<and>
    int (length (transactions s)) = int (length (transactions s')) + n"
proof -
  from bulk_delete_ok[OF assms] obtain s' n skip_ids demoted where
    b: "bulk_delete_transactions s org ids = Inr (s', n, skip_ids, demoted)" by (metis surj_pair)
  with bulk_delete_keeps[OF b assms] bulk_delete_report[OF b assms] show ?thesis by blast
qed

theorem bulk_delete_spec_witness:
  "\<exists>s' n skip_ids demoted. bulk_delete_transactions sample_store 1 [8, 8, 99] = Inr (s', n, skip_ids, demoted) \<and> db_inv s'"
  using bulk_delete_spec[OF sample_inv, of 1 "[8, 8, 99]"] by blast

section \<open>The reconciliation inbox\<close>

text \<open>C5: a reconcile request that is accepted keeps every balance, link and counter right, whatever
  its transitions, and leaves its batch closed when nothing in it is pending.\<close>

theorem reconcile_request_keeps:
  assumes "db_inv s" and "reconcile_request rd today s org bid trs = Inr (s', b')"
  shows "db_inv s' \<and> b' \<in> set (batches s') \<and>
    (ib_pending_count b' = 0 \<longrightarrow> ib_status b' = BatchClosed) \<and>
    ib_pending_count b' = count_rows is_pending (ib_id b') (transactions s')"
proof -
  note r = reconcile_request_Inr[OF assms(2) db_invD(5,4)[OF assms(1)]]
  from batches_invD(1)[OF r(2,3)] have "ib_pending_count b' = count_rows is_pending (ib_id b') (transactions s')"
    by (simp add: counters_ok_def)
  with r show ?thesis by (simp add: db_inv_def)
qed

definition sample_skip :: transition where
  "sample_skip = \<lparr>tr_transaction_id = 12, tr_to_state = skipped, tr_edits = None, tr_match_with = None\<rparr>"

definition sample_match :: transition where
  "sample_match = \<lparr>tr_transaction_id = 12, tr_to_state = matched, tr_edits = None, tr_match_with = Some 6\<rparr>"

definition sample_reopen :: transition where
  "sample_reopen = \<lparr>tr_transaction_id = 7, tr_to_state = pending_review, tr_edits = None, tr_match_with = None\<rparr>"

theorem reconcile_request_keeps_witness:
  "\<exists>s' b'. reconcile_request civil_add (date_of 2025 3 12) sample_store 1 14 [sample_match, sample_reopen] = Inr (s', b')
     \<and> db_inv s'"
proof -
  let ?r = "reconcile_request civil_add (date_of 2025 3 12) sample_store 1 14 [sample_match, sample_reopen]"
  have "\<not> isl ?r" by code_simp
  then obtain s' b' where *: "?r = Inr (s', b')" by (cases ?r) auto
  from reconcile_request_keeps[OF sample_inv *] * show ?thesis by blast
qed

text \<open>The state machine the rows move through.\<close>

definition recon_step :: "reconciliation_state \<Rightarrow> reconciliation_state \<Rightarrow> bool" where
  "recon_step a b \<longleftrightarrow> b \<in> set (ALLOWED_TRANSITIONS a)"

definition recon_moved :: "store \<Rightarrow> store \<Rightarrow> bool" where
  "recon_moved s s' \<longleftrightarrow> (\<forall>t \<in> set (transactions s). \<exists>u \<in> set (transactions s').
     tx_id u = tx_id t \<and> tx_account_id u = tx_account_id t \<and> tx_type u = tx_type t \<and>
     recon_step\<^sup>*\<^sup>* (tx_recon t) (tx_recon u))"

lemma recon_moved_refl [simp]: "recon_moved s s"
  by (auto simp: recon_moved_def)

lemma recon_moved_trans:
  assumes "recon_moved s1 s2" "recon_moved s2 s3"
  shows "recon_moved s1 s3"
  unfolding recon_moved_def
proof
  fix t assume "t \<in> set (transactions s1)"
  with assms(1) obtain u where u: "u \<in> set (transactions s2)" "tx_id u = tx_id t" "tx_account_id u = tx_account_id t"
    "tx_type u = tx_type t" "recon_step\<^sup>*\<^sup>* (tx_recon t) (tx_recon u)" by (auto simp: recon_moved_def)
  with assms(2) obtain v where "v \<in> set (transactions s3)" "tx_id v = tx_id u" "tx_account_id v = tx_account_id u"
    "tx_type v = tx_type u" "recon_step\<^sup>*\<^sup>* (tx_recon u) (tx_recon v)" unfolding recon_moved_def by blast
  with u show "\<exists>u \<in> set (transactions s3). tx_id u = tx_id t \<and> tx_account_id u = tx_account_id t \<and>
      tx_type u = tx_type t \<and> recon_step\<^sup>*\<^sup>* (tx_recon t) (tx_recon u)"
    by (intro bexI[of _ v]) auto
qed

lemma reconcile_one_moved:
  assumes "reconcile_one rd today org tr (s, b) = Inr (s', b')" "in_flight org (s, b)"
  shows "recon_moved s s'"
proof -
  from reconcile_one_Inr(2)[OF assms] obtain t where t: "org_row s org (tr_transaction_id tr) = Some t"
    and or: "tr_to_state tr = tx_recon t \<and> s' = s \<or>
       tr_to_state tr \<in> set (ALLOWED_TRANSITIONS (tx_recon t)) \<and>
       (\<exists>u. tx_recon u = tr_to_state tr \<and> same_row u t \<and>
         transactions s' = update_row tx_id (tx_id t) (\<lambda>_. u) (transactions s))" by blast
  have d: "distinct (map tx_id (transactions s))"
    using assms(2) by (auto simp: in_flight_def ledger_inv_books dest: booksD)
  from or show ?thesis
  proof (elim disjE conjE exE)
    fix u assume u: "tr_to_state tr \<in> set (ALLOWED_TRANSITIONS (tx_recon t))" "tx_recon u = tr_to_state tr"
      "same_row u t" "transactions s' = update_row tx_id (tx_id t) (\<lambda>_. u) (transactions s)"
    show ?thesis unfolding recon_moved_def
    proof
      fix r assume r: "r \<in> set (transactions s)"
      show "\<exists>v \<in> set (transactions s'). tx_id v = tx_id r \<and> tx_account_id v = tx_account_id r \<and>
        tx_type v = tx_type r \<and> recon_step\<^sup>*\<^sup>* (tx_recon r) (tx_recon v)"
      proof (cases "tx_id r = tx_id t")
        case True
        then have "r = t" using key_unique[OF d r] org_row_Some[OF t] by blast
        then show ?thesis
          using u r by (intro bexI[of _ u]) (auto simp: same_row_def set_update_row recon_step_def image_iff intro!: bexI[of _ t])
      next
        case False
        then have "r \<in> set (transactions s')" using u(4) r by (auto simp: set_update_row)
        then show ?thesis by blast
      qed
    qed
  qed simp
qed

lemma reconcile_all_moved:
  "reconcile_all rd today org trs sb = Inr sb' \<Longrightarrow> in_flight org sb \<Longrightarrow> recon_moved (fst sb) (fst sb')"
proof (induction trs arbitrary: sb)
  case (Cons tr trs)
  then obtain sb1 where 1: "reconcile_one rd today org tr sb = Inr sb1" "reconcile_all rd today org trs sb1 = Inr sb'"
    by (auto simp: rbind_eq_Inr)
  obtain s b s1 b1 where sb: "sb = (s, b)" "sb1 = (s1, b1)" by (metis surj_pair)
  from reconcile_one_moved[of rd today org tr s b s1 b1] reconcile_one_Inr(1)[of rd today org tr s b s1 b1]
    Cons.IH[OF 1(2)] Cons.prems(2) 1(1) sb
  show ?case by (auto intro: recon_moved_trans)
qed simp

lemma reconcile_request_start:
  assumes "reconcile_request rd today s org bid trs = Inr (s', b')" "db_inv s"
  obtains b s1 b1 where "find_batch s bid org = Some b" "in_flight org (s, b)"
    "reconcile_all rd today org trs (s, b) = Inr (s1, b1)" "in_flight org (s1, b1)"
    "b' = fst (close_batch_if_complete s1 b1 [])" "s' = put_batch b' s1"
proof -
  from assms(1) obtain b s1 b1 where b: "find_batch s bid org = Some b"
    and all: "reconcile_all rd today org trs (s, b) = Inr (s1, b1)"
    and res: "b' = fst (close_batch_if_complete s1 b1 [])" "s' = put_batch b' s1"
    by (auto simp: reconcile_request_def get_batch_for_update_def rbind_eq_Inr Let_def split: option.splits)
  have bm: "b \<in> set (batches s)" "ib_org_id b = org"
    using b by (auto simp: find_batch_def find_Some_iff)
  have db: "distinct (map ib_id (batches s))" using db_invD(1)[OF assms(2)] by (simp add: store_wf_def)
  have "put_batch b s = s" using update_row_same[OF db bm(1)] by (simp add: put_batch_def)
  then have fl: "in_flight org (s, b)" using assms(2) bm by (auto simp: in_flight_def db_inv_def)
  show thesis by (rule that[OF b fl all reconcile_all_keeps[OF all fl] res])
qed

text \<open>C6: a request moves every row along the edges of ALLOWED_TRANSITIONS only, keeps its account
  and its type, and leaves a skipped or rejected row in its state.\<close>

theorem reconcile_follows_transitions:
  assumes "db_inv s" and "reconcile_request rd today s org bid trs = Inr (s', b')" and "t \<in> set (transactions s)"
  shows "\<exists>u \<in> set (transactions s'). tx_id u = tx_id t \<and> tx_account_id u = tx_account_id t \<and> tx_type u = tx_type t \<and>
    recon_step\<^sup>*\<^sup>* (tx_recon t) (tx_recon u) \<and> (reverted t \<longrightarrow> tx_recon u = tx_recon t)"
proof -
  obtain b s1 b1 where "find_batch s bid org = Some b" and fl: "in_flight org (s, b)"
    and all: "reconcile_all rd today org trs (s, b) = Inr (s1, b1)"
    and "in_flight org (s1, b1)" "b' = fst (close_batch_if_complete s1 b1 [])" and res: "s' = put_batch b' s1"
    by (rule reconcile_request_start[OF assms(2,1)])
  from fl all res reconcile_all_moved[of rd today org trs "(s, b)"] have "recon_moved s s'" by (simp add: recon_moved_def)
  then obtain u where u: "u \<in> set (transactions s')" "tx_id u = tx_id t" "tx_account_id u = tx_account_id t"
    "tx_type u = tx_type t" "recon_step\<^sup>*\<^sup>* (tx_recon t) (tx_recon u)" using assms(3) by (auto simp: recon_moved_def)
  have "tx_recon u = tx_recon t" if "reverted t"
    using u(5) that by (cases rule: converse_rtranclpE) (auto simp: recon_step_def)
  with u show ?thesis by blast
qed

theorem reconcile_follows_transitions_witness:
  "\<exists>s' b' u. reconcile_request civil_add (date_of 2025 3 12) sample_store 1 14 [sample_skip] = Inr (s', b') \<and>
     u \<in> set (transactions s') \<and> tx_id u = 12 \<and> recon_step\<^sup>*\<^sup>* pending_review (tx_recon u)"
proof -
  let ?r = "reconcile_request civil_add (date_of 2025 3 12) sample_store 1 14 [sample_skip]"
  have "\<not> isl ?r" by code_simp
  then obtain s' b' where *: "?r = Inr (s', b')" by (cases ?r) auto
  have "sample_tx 12 4 40 EXPENSE PENDING None (Some 14) pending_review \<in> set (transactions sample_store)"
    by (simp add: sample_store_def)
  from reconcile_follows_transitions[OF sample_inv * this] * show ?thesis by (auto simp: sample_tx_def)
qed

text \<open>C7: reopening an accepted row of a closed batch leaves the batch closed with a row pending: the
  auto-close is never undone.\<close>

theorem reopen_leaves_batch_closed:
  assumes "db_inv s" and "find_batch s bid org = Some b" "ib_status b = BatchClosed"
    and "org_row s org tid = Some t" "tx_recon t = accepted"
    and "reconcile_request rd today s org bid
      [\<lparr>tr_transaction_id = tid, tr_to_state = pending_review, tr_edits = None, tr_match_with = None\<rparr>] = Inr (s', b')"
  shows "ib_status b' = BatchClosed \<and> 1 \<le> ib_pending_count b'"
proof -
  let ?tr = "\<lparr>tr_transaction_id = tid, tr_to_state = pending_review, tr_edits = None, tr_match_with = None\<rparr>"
  obtain b0 s1 b1 where b0: "find_batch s bid org = Some b0" and "in_flight org (s, b0)"
    and all: "reconcile_all rd today org [?tr] (s, b0) = Inr (s1, b1)"
    and fl: "in_flight org (s1, b1)" and res: "b' = fst (close_batch_if_complete s1 b1 [])" "s' = put_batch b' s1"
    by (rule reconcile_request_start[OF assms(6,1)])
  have b: "b0 = b" using b0 assms(2) by simp
  have "b1 = move_counters accepted pending_review b"
    using all assms(4,5) b
    by (auto simp: reconcile_one_def rbind_eq_Inr Let_def validate_payload_shape_def split: if_splits prod.splits)
  then have b1: "ib_status b1 = BatchClosed" "ib_pending_count b1 = ib_pending_count b + 1"
    using assms(3) by (simp_all add: move_counters_def PENDING_STATES_def)
  then have "b' = b1" by (simp add: res close_batch_if_complete_def)
  moreover have "0 \<le> ib_pending_count b"
  proof -
    have "b \<in> set (batches s)" using assms(2) by (auto simp: find_batch_def find_Some_iff)
    from batches_invD(1)[OF db_invD(4)[OF assms(1)] this] show ?thesis by (simp add: counters_ok_def)
  qed
  ultimately show ?thesis using b1 by simp
qed

definition sample_closed :: store where
  "sample_closed = (case reconcile_request civil_add (date_of 2025 3 12) sample_store 1 14 [sample_skip] of
     Inr (s, _) \<Rightarrow> s | Inl _ \<Rightarrow> sample_store)"

lemma sample_closed_inv: "db_inv sample_closed"
  by code_simp

theorem reopen_leaves_batch_closed_witness:
  "\<exists>s' b'. reconcile_request civil_add (date_of 2025 3 12) sample_closed 1 14 [sample_reopen] = Inr (s', b') \<and>
     ib_status b' = BatchClosed \<and> 1 \<le> ib_pending_count b'"
proof -
  let ?r = "reconcile_request civil_add (date_of 2025 3 12) sample_closed 1 14 [sample_reopen]"
  have "\<not> isl ?r" by code_simp
  then obtain s' b' where r: "?r = Inr (s', b')" by (cases ?r) auto
  have "map_option ib_status (find_batch sample_closed 14 1) = Some BatchClosed" by code_simp
  then obtain b where b: "find_batch sample_closed 14 1 = Some b" "ib_status b = BatchClosed" by auto
  have "map_option tx_recon (org_row sample_closed 1 7) = Some accepted" by code_simp
  then obtain t where t: "org_row sample_closed 1 7 = Some t" "tx_recon t = accepted" by auto
  from reopen_leaves_batch_closed[OF sample_closed_inv b t r[unfolded sample_reopen_def]] r show ?thesis by blast
qed

section \<open>Transfers and adjustments\<close>

lemma sum_add_balance:
  assumes "store_wf s" "account_of s aid org"
  shows "sum_list (map acc_balance (accounts (add_balance aid x s))) = sum_list (map acc_balance (accounts s)) + x"
proof -
  from assms(2) obtain a where a: "a \<in> set (accounts s)" "acc_id a = aid" by (auto simp: account_of_def list_ex_iff)
  have d: "distinct (map acc_id (accounts s))" using assms(1) by (simp add: store_wf_def)
  have "sum_list (map acc_balance (accounts (add_balance aid x s))) =
      sum_list (map (\<lambda>r. acc_balance (if acc_id r = aid then r\<lparr>acc_balance := acc_balance r + x\<rparr> else r)) (accounts s))"
    by (simp add: add_balance_def update_row_def comp_def)
  also have "\<dots> = sum_list (map acc_balance (accounts s)) - acc_balance a
      + acc_balance (if acc_id a = aid then a\<lparr>acc_balance := acc_balance a + x\<rparr> else a)"
    by (rule sum_list_change[OF d a(1)]) (simp add: a(2))
  finally show ?thesis using a(2) by simp
qed

lemma create_transfer_rows:
  assumes "create_transfer s org body imp = Inr (s', e', i')" "ledger_inv s"
  shows "transactions s' = transactions s @ [e', i'] \<and>
    tx_account_id e' = tf_from_account_id body \<and> tx_account_id i' = tf_to_account_id body \<and>
    tx_type e' = EXPENSE \<and> tx_type i' = INCOME \<and> tx_amount e' = tf_amount body \<and> tx_amount i' = tf_amount body \<and>
    tx_status e' = tf_status body \<and> tx_status i' = tf_status body \<and> tx_date e' = tf_date body \<and> tx_date i' = tf_date body \<and>
    tx_org_id e' = org \<and> tx_org_id i' = org"
proof -
  let ?from = "tf_from_account_id body" and ?to = "tf_to_account_id body"
  from assms(1) obtain s1 cat where r1: "resolve_transfer_category s org (tf_category_id body) = Inr (s1, cat)"
    by (auto simp: create_transfer_def rbind_eq_Inr validate_account_Inr split: if_splits)
  define e where "e = transfer_leg s1 org body ?from cat (transfer_description s org body) EXPENSE imp"
  define i where
    "i = transfer_leg (add_transaction e s1) org body ?to cat (transfer_description s org body) INCOME imp"
  from assms(1) r1 obtain s4
    where lp: "link_pair (add_transaction i (add_transaction e s1)) False e i False (Some cat) = Inr (s4, e', i')"
    and fin: "if tf_status body = SETTLED then rbind (bump_account org ?from (- tf_amount body) s4)
       (bump_account org ?to (tf_amount body)) = Inr s' else s' = s4"
    by (auto simp: create_transfer_def rbind_eq_Inr Let_def e_def i_def split: if_splits)
  from r1 have s1: "s1 = s \<or> s1 = fst (transfer_category org s)"
    by (auto simp: resolve_transfer_category_def rbind_eq_Inr split: option.splits)
  have b1: "books (\<lambda>_. 0) s1" using s1 transfer_category_books assms(2)[unfolded ledger_inv_books] by auto
  have T1: "transactions s1 = transactions s" using s1 by auto
  have id: "tx_id u < next_id s1" if "u \<in> set (transactions s)" for u
    using booksD(7)[OF b1] that by (simp add: T1)
  have ei: "tx_id e = next_id s1" "tx_id i = next_id s1 + 1" by (simp_all add: e_def i_def transfer_leg_def add_transaction_def)
  have e': "e' = e\<lparr>tx_linked := Some (tx_id i)\<rparr>" "i' = i\<lparr>tx_linked := Some (tx_id e)\<rparr>"
    "s4 = put_transaction i' (put_transaction e' (add_transaction i (add_transaction e s1)))"
    using lp by (auto simp: link_pair_def rbind_eq_Inr Let_def)
  have ids: "tx_id e' = next_id s1" "tx_id i' = next_id s1 + 1" using ei by (simp_all add: e'(1,2))
  have "transactions s4 = transactions s @ [e', i']"
  proof -
    have "map (\<lambda>t. if tx_id t = next_id s1 + 1 then i' else t) (map (\<lambda>t. if tx_id t = next_id s1 then e' else t) xs) = xs"
      if "\<And>u. u \<in> set xs \<Longrightarrow> tx_id u < next_id s1" for xs
      by (unfold map_map, rule map_idI, drule that) simp
    from this[of "transactions s"] id show ?thesis
      by (simp add: e'(3) put_transaction_def update_row_def add_transaction_def T1 ei ids comp_def)
  qed
  moreover have "transactions s' = transactions s4"
    using fin by (auto simp: rbind_eq_Inr bump_account_def put_account_def split: if_splits)
  ultimately show ?thesis by (simp add: e'(1,2)) (simp add: e_def i_def transfer_leg_def)
qed

text \<open>C8: a transfer appends exactly two rows, an expense on the source account and an income on the
  destination account, of the requested amount, status and date and each other's partner. A settled one moves
  the amount from the one account to the other, a pending one moves nothing; the invariant holds and the sum of all
  balances is unchanged.\<close>

theorem create_transfer_conserves:
  assumes "db_inv s" and "create_transfer s org body imported = Inr (s', e, i)"
  shows "db_inv s' \<and> transactions s' = transactions s @ [e, i] \<and> tx_linked e = Some (tx_id i) \<and> tx_linked i = Some (tx_id e) \<and>
    tx_account_id e = tf_from_account_id body \<and> tx_account_id i = tf_to_account_id body \<and> tx_type e = EXPENSE \<and> tx_type i = INCOME \<and>
    tx_amount e = tf_amount body \<and> tx_amount i = tf_amount body \<and> tx_status e = tf_status body \<and> tx_status i = tf_status body \<and>
    tx_date e = tf_date body \<and> tx_date i = tf_date body \<and>
    accounts s' = (if tf_status body = SETTLED then accounts (add_balance (tf_to_account_id body) (tf_amount body)
      (add_balance (tf_from_account_id body) (- tf_amount body) s)) else accounts s) \<and>
    sum_list (map acc_balance (accounts s')) = sum_list (map acc_balance (accounts s))"
proof -
  note wf = db_invD(1)[OF assms(1)]
  from assms(2) have acc: "account_of s (tf_from_account_id body) org" "account_of s (tf_to_account_id body) org"
    by (auto simp: create_transfer_def rbind_eq_Inr validate_account_Inr split: if_splits)
  note c = create_transfer_Inr[OF assms(2) db_invD(5)[OF assms(1)]]
  let ?s1 = "add_balance (tf_from_account_id body) (- tf_amount body) s"
  have "account_of ?s1 (tf_to_account_id body) org" "store_wf ?s1"
    using acc(2) wf by simp_all
  from sum_add_balance[OF wf acc(1), of "- tf_amount body"] sum_add_balance[OF this(2,1), of "tf_amount body"]
  have "sum_list (map acc_balance (accounts s')) = sum_list (map acc_balance (accounts s))"
    using c(4) by (simp split: if_splits)
  with c(2-4) transfer_db[OF assms(2,1)] create_transfer_rows[OF assms(2) db_invD(5)[OF assms(1)]] show ?thesis by blast
qed

definition sample_transfer :: "transaction_status \<Rightarrow> transfer_create" where
  "sample_transfer status = \<lparr>tf_from_account_id = 4, tf_to_account_id = 5, tf_category_id = None,
     tf_description = '' '', tf_amount = 75, tf_status = status, tf_date = date_of 2025 3 12\<rparr>"

theorem create_transfer_conserves_witness:
  "\<exists>s' e i. create_transfer sample_store 1 (sample_transfer SETTLED) False = Inr (s', e, i) \<and>
     sum_list (map acc_balance (accounts s')) = sum_list (map acc_balance (accounts sample_store))"
proof -
  let ?r = "create_transfer sample_store 1 (sample_transfer SETTLED) False"
  have "\<not> isl ?r" by code_simp
  then obtain s' e i where r: "?r = Inr (s', e, i)" by (cases ?r) auto
  from create_transfer_conserves[OF sample_inv r] r show ?thesis by blast
qed

text \<open>C9: an accepted balance adjustment leaves the account at the target, records the difference as one
  settled row dated today, and keeps the invariant.\<close>

theorem adjust_account_balance_hits_target:
  assumes "db_inv s" and "adjust_account_balance show_dec s org aid target reason today = Inr (s', t, old, new, delta)"
  shows "db_inv s' \<and> new = target \<and> delta = target - old \<and> delta \<noteq> 0 \<and>
    (\<exists>a \<in> set (accounts s'). acc_id a = aid \<and> acc_balance a = target) \<and>
    t \<in> set (transactions s') \<and> tx_amount t = \<bar>delta\<bar> \<and> tx_status t = SETTLED \<and> tx_settled_date t = Some today"
  using adjust_Inr[OF assms(2) db_invD(5)[OF assms(1)]] adjust_db[OF assms(2,1)] by blast

theorem adjust_account_balance_hits_target_witness:
  "\<exists>s' t old new delta. adjust_account_balance (\<lambda>_. ''x'') sample_store 1 5 90 None (date_of 2025 3 12)
     = Inr (s', t, old, new, delta) \<and> new = 90"
proof -
  let ?r = "adjust_account_balance (\<lambda>_. ''x'') sample_store 1 5 90 None (date_of 2025 3 12)"
  have "\<not> isl ?r" by code_simp
  then obtain s' t old new delta where r: "?r = Inr (s', t, old, new, delta)" by (cases ?r) auto
  from adjust_account_balance_hits_target[OF sample_inv r] r show ?thesis by blast
qed

section \<open>Pairs\<close>

text \<open>C10: unpairing what was just paired, back to the categories the two rows had, restores the
  transaction table and leaves the accounts alone.\<close>

theorem pair_unpair_roundtrip:
  assumes "db_inv s" and "pair_existing_transactions s org eid iid recat cat = Inr (s1, e1, i1)"
    and "org_row s org eid = Some e" "org_row s org iid = Some i"
    and "unpair_transactions s1 org eid (tx_category_id e) (tx_category_id i) = Inr (s2, e2, i2)"
  shows "transactions s2 = transactions s \<and> accounts s2 = accounts s"
proof -
  note d = db_invD(3)[OF assms(1)]
  from assms(2-4) have lp: "link_pair s True e i recat cat = Inr (s1, e1, i1)"
    by (auto simp: pair_existing_transactions_def split: if_splits)
  from lp obtain s0 c where ck: "link_pair_check s True e i = Inr ()"
    and s0: "s0 = s \<or> s0 = fst (transfer_category (tx_org_id e) s)"
    and s1: "s1 = put_transaction i1 (put_transaction e1 s0)"
    and e1: "e1 = (case c of None \<Rightarrow> e | Some c \<Rightarrow> e\<lparr>tx_category_id := c\<rparr>)\<lparr>tx_linked := Some (tx_id i)\<rparr>"
    and i1: "i1 = (case c of None \<Rightarrow> i | Some c \<Rightarrow> i\<lparr>tx_category_id := c\<rparr>)\<lparr>tx_linked := Some (tx_id e)\<rparr>"
    by (rule link_pairE)
  from ck have fr: "tx_type e = EXPENSE" "tx_type i = INCOME" "tx_linked e = None" "tx_linked i = None"
    by (auto simp: link_pair_check_def split: if_splits)
  note em = org_row_Some[OF assms(3)] and im = org_row_Some[OF assms(4)]
  have ne: "tx_id e \<noteq> tx_id i"
  proof
    assume "tx_id e = tx_id i"
    with key_unique[OF d] em im have "e = i" by blast
    with fr show False by simp
  qed
  have id1: "tx_id e1 = tx_id e" "tx_id i1 = tx_id i" by (auto simp: e1 i1 split: option.splits)
  have T0: "transactions s0 = transactions s" "accounts s0 = accounts s" using s0 by auto
  have T1: "transactions s1 = map (relink e1 i1) (transactions s)"
    unfolding s1 using put_two[of e1 i1 s0] ne id1 T0 by simp
  have re: "e1 = relink e1 i1 e" "i1 = relink e1 i1 i" using ne id1 by (simp_all add: relink_def)
  have mem1: "e1 \<in> set (transactions s1)" "i1 \<in> set (transactions s1)"
    unfolding T1 set_map using em im
    by (auto intro!: image_eqI[where f = "relink e1 i1", OF re(1)] image_eqI[where f = "relink e1 i1", OF re(2)])
  have ids: "map tx_id (map (relink e1 i1) xs) = map tx_id xs" for xs
    by (induction xs) (auto simp: relink_def)
  have d1: "distinct (map tx_id (transactions s1))" unfolding T1 ids using d .
  have org1: "tx_org_id e1 = tx_org_id e" "tx_org_id i1 = tx_org_id i" by (auto simp: e1 i1 split: option.splits)
  have rows1: "org_row s1 org eid = Some e1" "org_row s1 org iid = Some i1"
    unfolding org_row_eq[OF d1] org1 id1 using mem1 em im by blast+
  have t1: "tx_type e1 = EXPENSE" "tx_linked e1 = Some iid" using fr im by (auto simp: e1 split: option.splits)
  from assms(5) rows1 t1 have s2: "s2 = put_transaction i2 (put_transaction e2 s1)"
    "e2 = e1\<lparr>tx_linked := None, tx_category_id := tx_category_id e\<rparr>"
    "i2 = i1\<lparr>tx_linked := None, tx_category_id := tx_category_id i\<rparr>"
    by (auto simp: unpair_transactions_def rbind_eq_Inr Let_def split: option.splits if_splits)
  have restored: "e2 = e" "i2 = i"
    unfolding s2(2,3) e1 i1 using fr by (auto split: option.splits)
  have "transactions s2 = map (relink e i) (transactions s1)"
    unfolding s2(1) restored using put_two[of e i s1] ne by simp
  also have "\<dots> = transactions s"
  proof -
    have "relink e i (relink e1 i1 r) = r" if "r \<in> set (transactions s)" for r
      using key_unique[OF d that, of e] key_unique[OF d that, of i] em im id1 by (auto simp: relink_def)
    then show ?thesis unfolding T1 by (simp add: map_idI)
  qed
  finally show ?thesis using s2(1) s1 T0 by simp
qed

definition sample_unpaired :: store where
  "sample_unpaired = (case unpair_transactions sample_store 1 8 2 1 of Inr (s, _) \<Rightarrow> s | Inl _ \<Rightarrow> sample_store)"

lemma sample_unpaired_inv: "db_inv sample_unpaired"
  by code_simp

theorem pair_unpair_roundtrip_witness:
  "\<exists>(s1::store) (s2::store). transactions s1 \<noteq> transactions sample_unpaired \<and>
     transactions s2 = transactions sample_unpaired \<and> accounts s2 = accounts sample_unpaired"
proof -
  let ?p = "pair_existing_transactions sample_unpaired 1 8 9 True None"
  have "\<not> isl ?p" by code_simp
  then obtain s1 e1 i1 where p: "?p = Inr (s1, e1, i1)" by (cases ?p) auto
  have "org_row sample_unpaired 1 8 \<noteq> None \<and> org_row sample_unpaired 1 9 \<noteq> None \<and>
    map_option tx_category_id (org_row sample_unpaired 1 8) = Some 2 \<and>
    map_option tx_category_id (org_row sample_unpaired 1 9) = Some 1 \<and>
    map_option tx_linked (org_row sample_unpaired 1 8) = Some None" by code_simp
  then obtain e i where ei: "org_row sample_unpaired 1 8 = Some e" "org_row sample_unpaired 1 9 = Some i"
    "tx_category_id e = 2" "tx_category_id i = 1" "tx_linked e = None" by auto
  let ?u = "case ?p of Inr (s1, _) \<Rightarrow> unpair_transactions s1 1 8 2 1 | Inl x \<Rightarrow> Inl x"
  have "\<not> isl ?u" by code_simp
  then obtain s2 e2 i2 where u: "unpair_transactions s1 1 8 (tx_category_id e) (tx_category_id i) = Inr (s2, e2, i2)"
    using p ei by (cases ?u) auto
  have "(case ?p of Inr (s1, _) \<Rightarrow> map_option tx_linked (org_row s1 1 8) = Some (Some 9) | Inl x \<Rightarrow> False)" by code_simp
  then have "transactions s1 \<noteq> transactions sample_unpaired"
    using p ei by (auto simp: org_row_def)
  with pair_unpair_roundtrip[OF sample_unpaired_inv p ei(1,2) u]
  have "transactions s1 \<noteq> transactions sample_unpaired \<and> transactions s2 = transactions sample_unpaired
      \<and> accounts s2 = accounts sample_unpaired" by (intro conjI) simp_all
  then show ?thesis by blast
qed

text \<open>C11: on well-formed links the SQL clause \<open>balance_contribution_filter\<close> and its Python sibling
  \<open>contributes_to_cached_balance\<close> on the resolved partner agree on every row, and so do the two
  spellings of a reciprocal pair.\<close>

theorem clause_and_predicate_agree:
  assumes "links_wf rows" "distinct (map tx_id rows)" "t \<in> set rows"
  shows "contributes_to_cached_balance t (link_target rows t) = balance_contribution_filter rows t \<and>
    is_reciprocal_pair t (link_target rows t) = reciprocal_transfer_filter rows t \<and>
    is_reportable_transaction t = reportable_transaction_filter t"
  using contributes_filter_agree[OF assms] reciprocal_filter_agree[OF assms(2), of t]
  by (simp add: is_reportable_transaction_def reportable_transaction_filter_def)

theorem clause_and_predicate_agree_witness:
  "contributes_to_cached_balance (transactions sample_store ! 4) (link_target (transactions sample_store) (transactions sample_store ! 4))
     = balance_contribution_filter (transactions sample_store) (transactions sample_store ! 4)"
proof -
  have "transactions sample_store ! 4 \<in> set (transactions sample_store)" by (simp add: sample_store_def)
  from clause_and_predicate_agree[OF db_invD(2,3)[OF sample_inv] this] show ?thesis by blast
qed

end
