(* ===== verification/ScheduleProps.thy ===== *)
theory ScheduleProps
  imports LedgerFacts Sample
begin

text \<open>
  The properties of the calendar half: which grid points a projection window returns, how
  windows compose, and how billing cycles tile the calendar. \<open>rd\<close> is
  \<open>dateutil.relativedelta\<close>; what the code relies on of it is \<open>relativedelta_lib\<close>, and
  \<open>civil_add\<close> is a function that meets it.
\<close>

section \<open>Occurrence windows\<close>

text \<open>C12: \<open>occurrences_in_window\<close> returns, in strictly ascending order and each once, exactly the
  dates of the template's own grid that lie in the window and inside the instalment budget; the
  occurrences before the window are paid for and not returned.\<close>

theorem occurrences_in_window_spec:
  "sorted_wrt (<) (occurrences_in_window rd next_due freq start end budget) \<and>
   set (occurrences_in_window rd next_due freq start end budget) =
     {e. (\<exists>k. grid rd freq next_due k = Some e \<and> within_budget budget k) \<and> start \<le> e \<and> e \<le> end}"
  using occurrences_sorted occurrences_iff by (auto intro!: set_eqI)

text \<open>C13: cutting a window in two at any day projects the same occurrences: none is lost and none is
  counted twice at the boundary, with or without a budget.\<close>

theorem occurrences_window_split:
  assumes "next_day mid = Some after" and "start \<le> after" and "mid \<le> end"
  shows "occurrences_in_window rd next_due freq start end budget =
    occurrences_in_window rd next_due freq start mid budget @
    occurrences_in_window rd next_due freq after end budget"
    (is "?all = ?left @ ?right")
proof (rule strict_sorted_eqI)
  have cut: "e < after \<longleftrightarrow> e \<le> mid" for e
    using next_day_less_iff[OF assms(1), of e] by (metis linorder_not_less)
  have "e < f" if "e \<in> set ?left" "f \<in> set ?right" for e f
    using that cut by (auto simp: occurrences_iff intro: less_le_trans)
  then show "sorted_wrt (<) (?left @ ?right)"
    by (simp add: sorted_wrt_append occurrences_sorted)
  have "e \<le> mid \<or> after \<le> e" for e using cut by (metis linorder_not_less)
  then show "set ?all = set (?left @ ?right)"
    using assms(2,3) next_day_gt[OF assms(1)] by (fastforce simp: occurrences_iff)
qed (rule occurrences_sorted)

theorem occurrences_window_split_witness:
  "occurrences_in_window civil_add (date_of 2025 1 31) MONTHLY (date_of 2025 2 1) (date_of 2025 5 31) (Some 4) =
    occurrences_in_window civil_add (date_of 2025 1 31) MONTHLY (date_of 2025 2 1) (date_of 2025 3 28) (Some 4) @
    occurrences_in_window civil_add (date_of 2025 1 31) MONTHLY (date_of 2025 3 29) (date_of 2025 5 31) (Some 4)"
proof (rule occurrences_window_split)
  show "next_day (date_of 2025 3 28) = Some (date_of 2025 3 29)" by code_simp
  show "date_of 2025 2 1 \<le> date_of 2025 3 29" by code_simp
  show "date_of 2025 3 28 \<le> date_of 2025 5 31" by code_simp
qed

section \<open>Billing cycles\<close>

text \<open>C14: billing cycles tile the calendar. The current cycle contains today, every day of it has
  that same cycle, and the next cycle starts on the following day and is the cycle of each of
  its own days.\<close>

theorem billing_cycles_tile:
  assumes "relativedelta_lib rd" and "1 \<le> cycle_day"
    and "current_cycle_window rd cycle_day today = Some (s, e)"
    and "next_cycle_window rd cycle_day today = Some (s', e')"
  shows "s \<le> today \<and> today \<le> e \<and> next_day e = Some s' \<and> s' \<le> e' \<and>
    (\<forall>d. s \<le> d \<and> d \<le> e \<longrightarrow> current_cycle_window rd cycle_day d = Some (s, e)) \<and>
    (\<forall>d. s' \<le> d \<and> d \<le> e' \<longrightarrow> current_cycle_window rd cycle_day d = Some (s', e'))"
  using relativedelta_lib.current_cycle_window_contains[OF assms(1,3)]
    relativedelta_lib.next_cycle_window_adjacent[OF assms(1,3,4)]
    relativedelta_lib.current_cycle_window_same[OF assms(1,3) _ _ assms(2)]
    relativedelta_lib.next_cycle_window_is_current[OF assms(1,3,4,2)]
  by blast

theorem billing_cycles_tile_witness:
  "current_cycle_window civil_add 31 (date_of 2024 2 29) = Some (date_of 2024 2 29, date_of 2024 3 30) \<and>
   current_cycle_window civil_add 31 (date_of 2024 4 5) = Some (date_of 2024 3 31, date_of 2024 4 29)"
proof -
  have w: "current_cycle_window civil_add 31 (date_of 2024 3 15) = Some (date_of 2024 2 29, date_of 2024 3 30)"
    "next_cycle_window civil_add 31 (date_of 2024 3 15) = Some (date_of 2024 3 31, date_of 2024 4 29)"
    by code_simp+
  have in_cycle: "date_of 2024 2 29 \<le> date_of 2024 2 29" "date_of 2024 2 29 \<le> date_of 2024 3 30"
    "date_of 2024 3 31 \<le> date_of 2024 4 5" "date_of 2024 4 5 \<le> date_of 2024 4 29"
    by code_simp+
  show ?thesis
    using billing_cycles_tile[OF civil.relativedelta_lib_axioms _ w] in_cycle by simp
qed

end
