(* ===== verification/BulkUpdate.thy ===== *)
theory BulkUpdate
  imports TxUpdate
begin

text \<open>
  \<open>transaction_service.bulk_update_transactions\<close>: the same optional fields written onto many rows,
  one \<open>update_transaction\<close> per row, each committed on its own. The request's \<open>tags\<close> go to the tag
  tables, which are not part of the store: the model is the request without them. The texts the
  user reads are the constructors of \<open>bulk_note\<close> and \<open>bulk_skip\<close>.
\<close>

record bulk_update =
  bu_category_id :: "int option"
  bu_status :: "transaction_status option"
  bu_account_id :: "int option"
  bu_date :: "date option"
  bu_settled_date :: "date option"

datatype bulk_note =
    StatusNotForTransfers
  | AccountNotForTransfers
  | DateNotForTransfers
  | DateNotForOccurrences
  | DatePastSettlement date
  | SettlementNotForTransfers
  | SettlementOtherLegSettled
  | SettlementNotForPending
  | SettlementMovedWithPartner
  | SettlementBeforeKeptDate date
  | SettlementBeforePartner date

datatype bulk_reason =
    RowNotFound
  | RowIsAdjustment
  | DateAfterTodaysSettlement
  | UpdateFailed service_error
  | NothingApplicable

section \<open>What one row takes of the request\<close>

text \<open>The row, its linked row, whether the two are a transfer.\<close>

definition takes_status :: "bulk_update \<Rightarrow> bool \<Rightarrow> transaction_status option \<times> bulk_note list" where
  "takes_status body is_transfer =
     (case bu_status body of
        None \<Rightarrow> (None, [])
      | Some st \<Rightarrow> if is_transfer then (None, [StatusNotForTransfers]) else (Some st, []))"

definition takes_account :: "bulk_update \<Rightarrow> bool \<Rightarrow> int option \<times> bulk_note list" where
  "takes_account body is_transfer =
     (case bu_account_id body of
        None \<Rightarrow> (None, [])
      | Some a \<Rightarrow> if is_transfer then (None, [AccountNotForTransfers]) else (Some a, []))"

definition settles :: "bulk_update \<Rightarrow> bool \<Rightarrow> transaction \<Rightarrow> bool" where
  "settles body is_transfer row \<longleftrightarrow> given (fst (takes_status body is_transfer)) (tx_status row) = SETTLED"

definition takes_date :: "bulk_update \<Rightarrow> bool \<Rightarrow> transaction \<Rightarrow> date option \<times> bulk_note list" where
  "takes_date body is_transfer row =
     (case bu_date body of
        None \<Rightarrow> (None, [])
      | Some d \<Rightarrow>
          if is_transfer then (None, [DateNotForTransfers])
          else if tx_recurring_id row \<noteq> None then (None, [DateNotForOccurrences])
          else
            let st = settles body is_transfer row;
                takes_settled_date = (bu_settled_date body \<noteq> None \<and> \<not> is_transfer \<and> st)
            in case tx_settled_date row of
                 None \<Rightarrow> (Some d, [])
               | Some sd \<Rightarrow>
                   if \<not> takes_settled_date \<and> st \<and> tx_status row = SETTLED \<and> sd < d
                   then (None, [DatePastSettlement sd]) else (Some d, []))"

definition takes_settlement ::
  "bulk_update \<Rightarrow> transaction \<Rightarrow> transaction option \<Rightarrow> int list \<Rightarrow> date option \<Rightarrow> date option \<times> bulk_note list" where
  "takes_settlement body row linked moved_with_partner new_date =
     (let is_transfer = is_reciprocal_pair row linked; st = settles body is_transfer row in
      case bu_settled_date body of
        None \<Rightarrow> (None, [])
      | Some sd \<Rightarrow>
          let stays_pending = (\<not> st \<and> tx_status row = PENDING);
              partner_status = (case linked of None \<Rightarrow> PENDING | Some p \<Rightarrow> tx_status p);
              partner_date = (case linked of None \<Rightarrow> tx_date row | Some p \<Rightarrow> tx_date p)
          in if is_transfer \<and> \<not> stays_pending then (None, [SettlementNotForTransfers])
             else if is_transfer \<and> partner_status \<noteq> PENDING then (None, [SettlementOtherLegSettled])
             else if \<not> st \<and> \<not> stays_pending then (None, [SettlementNotForPending])
             else if is_transfer \<and> tx_id row \<in> set moved_with_partner then (None, [SettlementMovedWithPartner])
             else if (bu_date body \<noteq> None \<or> stays_pending) \<and> new_date = None \<and> sd < tx_date row
               then (None, [SettlementBeforeKeptDate (tx_date row)])
             else if is_transfer \<and> sd < partner_date then (None, [SettlementBeforePartner partner_date])
             else (Some sd, []))"

text \<open>The update of one row. A new date without a settlement date is refused for a row settled
  today before it, and shifts the expected settlement of a row that stays pending; that shift may
  overflow, which is not caught. \<open>Inr (Inl _)\<close> is the skip, \<open>Inr (Inr _)\<close> the update.\<close>

definition row_update ::
  "bulk_update \<Rightarrow> transaction \<Rightarrow> transaction option \<Rightarrow> int list \<Rightarrow> date
     \<Rightarrow> (bulk_reason + tx_update) result \<times> bulk_note list" where
  "row_update body row linked moved_with_partner today =
     (let is_transfer = is_reciprocal_pair row linked;
          (st, n1) = takes_status body is_transfer; (acc, n2) = takes_account body is_transfer;
          (d, n3) = takes_date body is_transfer row;
          (sd, n4) = takes_settlement body row linked moved_with_partner d;
          ready = (\<lambda>sd. Inr (Inr \<lparr>tu_account_id = acc, tu_category_id = bu_category_id body, tu_description = None,
             tu_amount = None, tu_type = None, tu_status = st, tu_settled_date = map_option Some sd, tu_date = d,
             tu_future = False\<rparr>));
          notes = n1 @ n2 @ n3 @ n4
      in case (d, sd) of
           (Some d', None) \<Rightarrow>
             if settles body is_transfer row \<and> tx_status row \<noteq> SETTLED
             then (if today < d' then Inr (Inl DateAfterTodaysSettlement) else ready None, notes)
             else (case tx_settled_date row of
                     Some old \<Rightarrow>
                       if \<not> settles body is_transfer row \<and> tx_status row = PENDING
                       then (case add_days (toordinal d' - toordinal (tx_date row)) old of
                               None \<Rightarrow> Inl calendar_error | Some e \<Rightarrow> ready (Some e), notes)
                       else (ready None, notes)
                   | None \<Rightarrow> (ready None, notes))
         | _ \<Rightarrow> (ready sd, notes))"

definition takes_nothing :: "tx_update \<Rightarrow> bool" where
  "takes_nothing u \<longleftrightarrow> tu_account_id u = None \<and> tu_category_id u = None \<and> tu_status u = None \<and>
     tu_settled_date u = None \<and> tu_date u = None"

section \<open>The batch\<close>

record bulk_report =
  bp_updated :: nat
  bp_skipped :: "(int \<times> bulk_reason \<times> bulk_note list) list"
  bp_notes :: "(int \<times> bulk_note list) list"

definition caught :: "service_error \<Rightarrow> bool" where
  "caught e = (case e of ValidationError m \<Rightarrow> True | ConflictError m \<Rightarrow> True | NotFoundError m \<Rightarrow> True | _ \<Rightarrow> False)"

definition skip_row :: "int \<Rightarrow> bulk_reason \<Rightarrow> bulk_note list \<Rightarrow> bulk_report \<Rightarrow> bulk_report" where
  "skip_row i why notes rep = rep\<lparr>bp_skipped := bp_skipped rep @ [(i, why, notes)]\<rparr>"

definition count_row :: "int \<Rightarrow> bulk_note list \<Rightarrow> bulk_report \<Rightarrow> bulk_report" where
  "count_row i notes rep =
     rep\<lparr>bp_updated := bp_updated rep + 1,
         bp_notes := (if notes = [] then bp_notes rep else bp_notes rep @ [(i, notes)])\<rparr>"

text \<open>One iteration: the state is the store, the legs a partner's update moved, and the report. An
  error that is not caught ends the batch.\<close>

definition bulk_step ::
  "(int \<Rightarrow> int \<Rightarrow> date \<Rightarrow> date option) \<Rightarrow> int \<Rightarrow> bulk_update \<Rightarrow> date \<Rightarrow> int
     \<Rightarrow> store \<times> int list \<times> bulk_report \<Rightarrow> (store \<times> int list \<times> bulk_report) result" where
  "bulk_step rd org_id body today i st =
     (case st of (s, moved, rep) \<Rightarrow>
        case org_row s org_id i of
          None \<Rightarrow> Inr (s, moved, skip_row i RowNotFound [] rep)
        | Some row \<Rightarrow>
            if tx_is_manual_adjustment row then Inr (s, moved, skip_row i RowIsAdjustment [] rep)
            else
              let linked = linked_row s org_id row; is_transfer = is_reciprocal_pair row linked in
              case row_update body row linked moved today of
                (Inl e, notes) \<Rightarrow> Inl e
              | (Inr (Inl why), notes) \<Rightarrow> Inr (s, moved, skip_row i why notes rep)
              | (Inr (Inr u), notes) \<Rightarrow>
                  if takes_nothing u then Inr (s, moved, skip_row i NothingApplicable notes rep)
                  else
                    (case update_transaction rd s org_id i u today of
                       Inr (s', _) \<Rightarrow>
                         Inr (s', (case linked of
                                     Some p \<Rightarrow> if is_transfer \<and> tu_settled_date u \<noteq> None then tx_id p # moved else moved
                                   | None \<Rightarrow> moved), count_row i notes rep)
                     | Inl e \<Rightarrow> if caught e then Inr (s, moved, skip_row i (UpdateFailed e) notes rep) else Inl e))"

text \<open>The rows committed before an uncaught error stay, so the result is the store and, apart
  from it, the report or the error.\<close>

primrec bulk_rows ::
  "(int \<Rightarrow> int \<Rightarrow> date \<Rightarrow> date option) \<Rightarrow> int \<Rightarrow> bulk_update \<Rightarrow> date \<Rightarrow> int list
     \<Rightarrow> store \<times> int list \<times> bulk_report \<Rightarrow> store \<times> bulk_report result" where
  "bulk_rows rd org_id body today [] st = (fst st, Inr (snd (snd st)))"
| "bulk_rows rd org_id body today (i # rest) st =
     (case bulk_step rd org_id body today i st of
        Inl e \<Rightarrow> (fst st, Inl e)
      | Inr st' \<Rightarrow> bulk_rows rd org_id body today rest st')"

definition bulk_update_transactions ::
  "(int \<Rightarrow> int \<Rightarrow> date \<Rightarrow> date option) \<Rightarrow> store \<Rightarrow> int \<Rightarrow> int list \<Rightarrow> bulk_update \<Rightarrow> date
     \<Rightarrow> store \<times> bulk_report result" where
  "bulk_update_transactions rd s org_id ids body today =
     bulk_rows rd org_id body today (dedupe ids)
       (s, [], \<lparr>bp_updated = 0, bp_skipped = [], bp_notes = []\<rparr>)"

end
