(* ===== verification/GenerationFacts.thy ===== *)
theory GenerationFacts
  imports SeriesOps
begin

text \<open>
  The conservation law between projecting a series and generating it: what a run consumes of a
  template is a prefix of what the template had to come, every consumed occurrence has its
  row, and what is left to project is exactly the rest.
\<close>

section \<open>Projecting a template\<close>

definition projected :: "(int \<Rightarrow> int \<Rightarrow> date \<Rightarrow> date option) \<Rightarrow> template \<Rightarrow> date \<Rightarrow> date \<Rightarrow> date list" where
  "projected rd r start end =
     occurrences_in_window rd (r_next_due_date r) (r_frequency r) start end (remaining_occurrences r)"

definition in_window :: "date \<Rightarrow> date \<Rightarrow> date \<Rightarrow> bool" where
  "in_window start end d \<longleftrightarrow> start \<le> d \<and> d \<le> end"

lemma spend_remaining:
  "advance_frontier rd r due = Some r' \<Longrightarrow> remaining_occurrences r' = spend (remaining_occurrences r)"
  by (auto simp: advance_frontier_def remaining_occurrences_def spend_def split: option.splits)

context relativedelta_lib
begin

text \<open>One occurrence spent is one occurrence less to project, and no other changes.\<close>

lemma advance_conserves:
  assumes a: "advance_frontier rd r (r_next_due_date r) = Some r'" and rem: "has_remaining_occurrences r"
  shows "projected rd r start end = filter (in_window start end) [r_next_due_date r] @ projected rd r' start end"
proof (rule strict_sorted_eqI)
  let ?d = "r_next_due_date r" and ?f = "r_frequency r" and ?b = "remaining_occurrences r"
  note A = advance_frontier_Some[OF a]
  have nx: "next_occurrence rd ?d ?f = Some (r_next_due_date r')" using A(5) by (simp add: next_occurrence_eq)
  have later: "?d < e" if "e \<in> set (projected rd r' start end)" for e
    using that grid_ge next_occurrence_gt[OF nx] by (fastforce simp: projected_def occurrences_iff intro: less_le_trans)
  show "sorted_wrt (<) (filter (in_window start end) [?d] @ projected rd r' start end)"
    using later by (auto simp: projected_def occurrences_sorted)
  have "(\<exists>k. grid rd ?f ?d k = Some e \<and> within_budget ?b k) \<longleftrightarrow>
      e = ?d \<or> (\<exists>k. grid rd ?f (r_next_due_date r') k = Some e \<and> within_budget (spend ?b) k)" for e
  proof -
    have "(\<exists>k. grid rd ?f ?d k = Some e \<and> within_budget ?b k) \<longleftrightarrow>
        (grid rd ?f ?d 0 = Some e \<and> within_budget ?b 0) \<or> (\<exists>k. grid rd ?f ?d (Suc k) = Some e \<and> within_budget ?b (Suc k))"
      by (metis not0_implies_Suc)
    then show ?thesis using rem nx by (auto simp: has_remaining_not_exhausted)
  qed
  then show "set (projected rd r start end) = set (filter (in_window start end) [?d] @ projected rd r' start end)"
    using A(6) by (auto simp: projected_def occurrences_iff in_window_def spend_remaining[OF a])
qed (simp add: projected_def occurrences_sorted)

end

section \<open>Rows and templates a run leaves in place\<close>

definition grows :: "store \<Rightarrow> store \<Rightarrow> bool" where
  "grows s' s \<longleftrightarrow> (\<exists>N. transactions s' = transactions s @ N)"

lemma grows_refl [simp]: "grows s s"
  by (simp add: grows_def)

lemma grows_trans: "grows s2 s1 \<Longrightarrow> grows s1 s \<Longrightarrow> grows s2 s"
  by (auto simp: grows_def)

lemma grows_exists: "grows s' s \<Longrightarrow> occurrence_exists s org i d \<Longrightarrow> occurrence_exists s' org i d"
  by (auto simp: grows_def occurrence_exists_def)

lemma create_occurrence_row:
  assumes c: "create_occurrence s org r due today settle sk = Inr (s', t)"
    and inv: "full_inv s" and ok: "template_ok s r" "r_org_id r = org" and ns: "\<not> (settle \<and> sk)"
  shows "grows s' s" "occurrence_exists s' org (r_id r) due" "templates s' = templates s"
    "tx_status t = (if settle \<and> r_auto_settle r \<and> due \<le> today then SETTLED else PENDING)"
proof -
  from create_occurrence_Inr[OF c full_invD(2)[OF inv] ok ns] obtain rows where
    T: "transactions s' = transactions s @ rows" "hd rows = t"
    and occ: "occurrence_rows r due (if settle \<and> r_auto_settle r \<and> due \<le> today then SETTLED else PENDING) sk (next_id s) rows"
    and fr: "frame s' s" by metis
  have ne: "rows \<noteq> []" using occ by (auto simp: occurrence_rows_def split: if_splits)
  with T(2) have t: "t \<in> set rows" by auto
  show "grows s' s" using T(1) by (auto simp: grows_def)
  show "templates s' = templates s" using fr by (simp add: frame_def)
  have "\<forall>u \<in> set rows. tx_recurring_id u = Some (r_id r) \<and> tx_date u = due \<and> tx_org_id u = org"
    using occ ok(2) by (simp add: occurrence_rows_def)
  with t T(1) show "occurrence_exists s' org (r_id r) due" by (auto simp: occurrence_exists_def list_ex_iff)
  show "tx_status t = (if settle \<and> r_auto_settle r \<and> due \<le> today then SETTLED else PENDING)"
    using occ t unfolding occurrence_rows_def by blast
qed

text \<open>What one catch-up does to its own template, and that it does nothing to any other.\<close>

lemma put_template_mem:
  "r \<in> set (templates s) \<Longrightarrow> r_id r' = r_id r \<Longrightarrow> r' \<in> set (templates (put_template r' s))"
  by (auto simp: set_update_row image_iff)

lemma put_template_other:
  "q \<in> set (templates s) \<Longrightarrow> r_id q \<noteq> r_id r' \<Longrightarrow> q \<in> set (templates (put_template r' s))"
  by (auto simp: set_update_row)

context relativedelta_lib
begin

lemma catch_up_conserves:
  assumes "catch_up n rd org today pe ps r (s, g) = Inr (s', g')"
    and "full_inv s" "template_ok s r" "r_org_id r = org" "r \<in> set (templates s)"
  shows "\<exists>r' ds. r' \<in> set (templates s') \<and> r_id r' = r_id r \<and> r_org_id r' = r_org_id r \<and> r_is_active r' = r_is_active r \<and> grows s' s \<and>
    (\<forall>d \<in> set ds. d \<le> pe \<and> occurrence_exists s' org (r_id r) d) \<and>
    (\<forall>start end. projected rd r start end = filter (in_window start end) ds @ projected rd r' start end) \<and>
    length ds \<le> n \<and> (length ds < n \<longrightarrow> pe < r_next_due_date r' \<or> \<not> has_remaining_occurrences r') \<and>
    (\<forall>q \<in> set (templates s). r_id q \<noteq> r_id r \<longrightarrow> q \<in> set (templates s'))"
  using assms
proof (induction n arbitrary: r s g)
  case 0
  then show ?case by (intro exI[of _ r] exI[of _ "[]"]) auto
next
  case (Suc n)
  let ?due = "r_next_due_date r"
  show ?case
  proof (cases "\<not> ?due \<le> pe \<or> \<not> has_remaining_occurrences r")
    case True
    with Suc.prems show ?thesis
      by (intro exI[of _ r] exI[of _ "[]"]) (auto simp: Let_def not_le)
  next
    case go: False
    then have rem: "has_remaining_occurrences r" and le: "?due \<le> pe" by auto
    have step: ?thesis
      if s1: "full_inv s1" "template_ok s1 r" "grows s1 s" "templates s1 = templates s" "occurrence_exists s1 org (r_id r) ?due"
        and a: "advance_frontier rd r ?due = Some r1"
        and rest: "catch_up n rd org today pe ps r1 (put_template r1 s1, g1) = Inr (s', g')" for s1 r1 g1
    proof -
      note A = advance_frontier_Some[OF a]
      have ok: "template_ok s1 r1" using s1(2) A(3) by simp
      note p = put_template_inv[OF s1(1) ok]
      have ok': "template_ok (put_template r1 s1) r1"
        using ok template_ok_cong[OF account_of_cong[of "put_template r1 s1" s1]] by simp
      have mem: "r1 \<in> set (templates (put_template r1 s1))"
        by (rule put_template_mem[of r]) (use Suc.prems(5) s1(4) A(1) in simp_all)
      from Suc.IH[OF rest p ok' _ mem] Suc.prems(4) A(2) obtain r' ds where
        IH: "r' \<in> set (templates s')" "r_id r' = r_id r1" "r_org_id r' = r_org_id r1 \<and> r_is_active r' = r_is_active r1" "grows s' (put_template r1 s1)"
          "\<forall>d \<in> set ds. d \<le> pe \<and> occurrence_exists s' org (r_id r1) d"
          "\<forall>start end. projected rd r1 start end = filter (in_window start end) ds @ projected rd r' start end"
          "length ds \<le> n" "length ds < n \<longrightarrow> pe < r_next_due_date r' \<or> \<not> has_remaining_occurrences r'"
          "\<forall>q \<in> set (templates (put_template r1 s1)). r_id q \<noteq> r_id r1 \<longrightarrow> q \<in> set (templates s')"
        by auto
      have gr: "grows s' s1" using IH(4) by (simp add: grows_def)
      have others: "q \<in> set (templates s')" if "q \<in> set (templates s)" "r_id q \<noteq> r_id r" for q
        using IH(9) put_template_other[of q s1 r1] that s1(4) A(1) by simp
      have "projected rd r start end = filter (in_window start end) (?due # ds) @ projected rd r' start end" for start "end"
        using advance_conserves[OF a rem, of start "end"] IH(6) by simp
      with IH gr others A(1,2,9) le grows_exists[OF gr s1(5)] grows_trans[OF gr s1(3)] show ?thesis
        by (intro exI[of _ r'] exI[of _ "?due # ds"]) auto
    qed
    show ?thesis
    proof (cases "occurrence_exists s org (r_id r) ?due")
      case True
      with go Suc.prems(1) obtain r1 where "advance_frontier rd r ?due = Some r1"
        "catch_up n rd org today pe ps r1 (put_template r1 s, g) = Inr (s', g')"
        by (auto simp: Let_def split: option.splits)
      then show ?thesis using step[of s] True Suc.prems by simp
    next
      case False
      with go Suc.prems(1) obtain s1 t r1 g1 where c: "create_occurrence s org r ?due today True False = Inr (s1, t)"
        and r1: "advance_frontier rd r ?due = Some r1"
        "catch_up n rd org today pe ps r1 (put_template r1 s1, g1) = Inr (s', g')"
        by (auto simp: Let_def rbind_eq_Inr split: option.splits)
      have ns: "\<not> (True \<and> False)" by simp
      note f = create_occurrence_full[OF c Suc.prems(2,3,4) ns] and w = create_occurrence_row[OF c Suc.prems(2,3,4) ns]
      show ?thesis by (rule step[OF f(1) _ w(1) f(3) w(2) r1]) (use f(2) Suc.prems(3) in simp)
    qed
  qed
qed

end

section \<open>The whole run\<close>

text \<open>What a run did to a template: the occurrences it consumed and what is left.\<close>

definition consumed :: "(int \<Rightarrow> int \<Rightarrow> date \<Rightarrow> date option) \<Rightarrow> store \<Rightarrow> int \<Rightarrow> date \<Rightarrow> template \<Rightarrow> template \<Rightarrow> date list \<Rightarrow> bool" where
  "consumed rd s' org pe r r' ds \<longleftrightarrow>
     r_id r' = r_id r \<and> r_org_id r' = r_org_id r \<and> r_is_active r' = r_is_active r \<and>
     (\<forall>d \<in> set ds. d \<le> pe \<and> occurrence_exists s' org (r_id r) d) \<and>
     (\<forall>start end. projected rd r start end = filter (in_window start end) ds @ projected rd r' start end)"

lemma consumed_nothing [simp]: "consumed rd s' org pe r r []"
  by (simp add: consumed_def)

lemma consumed_grows: "consumed rd s1 org pe r r' ds \<Longrightarrow> grows s2 s1 \<Longrightarrow> consumed rd s2 org pe r r' ds"
  using grows_exists by (auto simp: consumed_def)

text \<open>Every consumed date is one of the dates the template had to come up to the end of the window.\<close>

lemma consumed_projected:
  assumes "consumed rd s' org pe r r' ds"
  shows "projected rd r (r_next_due_date r) pe = ds @ projected rd r' (r_next_due_date r) pe"
proof -
  have "r_next_due_date r \<le> d" if "d \<in> set ds" for d
  proof -
    have "d \<in> set (projected rd r d pe)"
      using assms that by (auto simp: consumed_def in_window_def)
    then show ?thesis using grid_ge by (auto simp: projected_def occurrences_iff)
  qed
  then have "filter (in_window (r_next_due_date r) pe) ds = ds"
    using assms by (auto simp: consumed_def in_window_def filter_id_conv)
  with assms show ?thesis by (simp add: consumed_def)
qed

context relativedelta_lib
begin

lemma catch_up_all_conserves:
  assumes "catch_up_all rd org today pe ps rs (s, g) = Inr (s', g')" "full_inv s"
    and "\<forall>r \<in> set rs. r_org_id r = org \<and> r \<in> set (templates s)" "distinct (map r_id rs)"
  shows "grows s' s \<and> (\<forall>q \<in> set (templates s). r_id q \<notin> r_id ` set rs \<longrightarrow> q \<in> set (templates s')) \<and>
    (\<forall>r \<in> set rs. \<exists>r' ds. r' \<in> set (templates s') \<and> consumed rd s' org pe r r' ds \<and> length ds \<le> MAX_CATCHUP_ITERATIONS \<and>
      (length ds < MAX_CATCHUP_ITERATIONS \<longrightarrow> pe < r_next_due_date r' \<or> \<not> has_remaining_occurrences r'))"
  using assms
proof (induction rs arbitrary: s g)
  case (Cons r rs)
  from Cons.prems(1) obtain s1 g1 where c: "catch_up MAX_CATCHUP_ITERATIONS rd org today pe ps r (s, g) = Inr (s1, g1)"
    "catch_up_all rd org today pe ps rs (s1, g1) = Inr (s', g')"
    by (auto simp: rbind_eq_Inr)
  have r: "r_org_id r = org" "r \<in> set (templates s)" using Cons.prems(3) by simp_all
  note ok = full_invD(8)[OF Cons.prems(2) r(2)]
  from catch_up_conserves[OF c(1) Cons.prems(2) ok r] obtain r' ds where
    r': "r' \<in> set (templates s1)" "r_id r' = r_id r" "consumed rd s1 org pe r r' ds" "grows s1 s" "length ds \<le> MAX_CATCHUP_ITERATIONS"
      "length ds < MAX_CATCHUP_ITERATIONS \<longrightarrow> pe < r_next_due_date r' \<or> \<not> has_remaining_occurrences r'"
      "\<forall>q \<in> set (templates s). r_id q \<noteq> r_id r \<longrightarrow> q \<in> set (templates s1)"
    unfolding consumed_def by blast
  have new: "r_id r \<notin> r_id ` set rs" "distinct (map r_id rs)" using Cons.prems(4) by auto
  have rs1: "\<forall>q \<in> set rs. r_org_id q = org \<and> q \<in> set (templates s1)"
  proof
    fix q assume q: "q \<in> set rs"
    then have "r_id q \<noteq> r_id r" using new(1) by (metis imageI)
    with q r'(7) Cons.prems(3) show "r_org_id q = org \<and> q \<in> set (templates s1)" by simp
  qed
  note IH = Cons.IH[OF c(2) catch_up_keeps[OF c(1) Cons.prems(2) ok r(1)] rs1 new(2)]
  have "r' \<in> set (templates s')" using IH r'(1,2) new(1) by auto
  moreover have "consumed rd s' org pe r r' ds" using consumed_grows[OF r'(3)] IH by blast
  moreover have "q \<in> set (templates s')" if "q \<in> set (templates s)" "r_id q \<notin> r_id ` set (r # rs)" for q
    using that r'(7) IH by simp
  ultimately show ?case
    using IH r'(5,6) grows_trans[OF conjunct1[OF IH] r'(4)] by (simp del: split_paired_Ex) blast
qed simp

lemma settled_exists:
  assumes "transactions s1 = map (\<lambda>r. if P r then settled r else r) (transactions s)"
  shows "occurrence_exists s1 org i d = occurrence_exists s org i d"
proof -
  have "list_ex Q (map f xs) = list_ex Q xs" if "\<And>x. Q (f x) = Q x" for Q and f :: "transaction \<Rightarrow> transaction" and xs
    using that by (induction xs) auto
  then show ?thesis unfolding occurrence_exists_def assms by simp
qed

text \<open>No step adds or removes a template.\<close>

lemma put_template_ids [simp]: "map r_id (templates (put_template r s)) = map r_id (templates s)"
  by (auto simp: put_template_def update_row_def)

lemma catch_up_ids:
  assumes "catch_up n rd org today pe ps r (s, g) = Inr (s', g')" "full_inv s" "template_ok s r" "r_org_id r = org"
  shows "map r_id (templates s') = map r_id (templates s)"
  using assms
proof (induction n arbitrary: r s g)
  case (Suc n)
  let ?due = "r_next_due_date r"
  have step: ?case if s1: "full_inv s1" "template_ok s1 r" "templates s1 = templates s"
    and a: "advance_frontier rd r ?due = Some r1"
    and rest: "catch_up n rd org today pe ps r1 (put_template r1 s1, g1) = Inr (s', g')" for s1 r1 g1
  proof -
    note A = advance_frontier_Some[OF a]
    have ok: "template_ok s1 r1" using s1(2) A(3) by simp
    have ok': "template_ok (put_template r1 s1) r1"
      using ok template_ok_cong[OF account_of_cong[of "put_template r1 s1" s1]] by simp
    show ?thesis
      using Suc.IH[OF rest put_template_inv[OF s1(1) ok] ok'] Suc.prems(4) A(2) s1(3) put_template_ids[of r1 s1] by simp
  qed
  consider "\<not> (?due \<le> pe \<and> has_remaining_occurrences r)" | "occurrence_exists s org (r_id r) ?due" "?due \<le> pe" "has_remaining_occurrences r"
    | "\<not> occurrence_exists s org (r_id r) ?due" "?due \<le> pe" "has_remaining_occurrences r" by blast
  then show ?case
  proof cases
    case 1
    with Suc.prems(1) show ?thesis by (auto simp: Let_def)
  next
    case 2
    with Suc.prems(1) obtain r1 where "advance_frontier rd r ?due = Some r1"
      "catch_up n rd org today pe ps r1 (put_template r1 s, g) = Inr (s', g')"
      by (auto simp: Let_def split: option.splits)
    then show ?thesis using step[of s] Suc.prems by simp
  next
    case 3
    with Suc.prems(1) obtain s1 t r1 g1 where c: "create_occurrence s org r ?due today True False = Inr (s1, t)"
      and r1: "advance_frontier rd r ?due = Some r1"
      "catch_up n rd org today pe ps r1 (put_template r1 s1, g1) = Inr (s', g')"
      by (auto simp: Let_def rbind_eq_Inr split: option.splits)
    have ns: "\<not> (True \<and> False)" by simp
    note f = create_occurrence_full[OF c Suc.prems(2,3,4) ns] and w = create_occurrence_row[OF c Suc.prems(2,3,4) ns]
    show ?thesis by (rule step[OF f(1) _ w(3) r1]) (use f(2) Suc.prems(3) in simp)
  qed
qed simp

lemma catch_up_all_ids:
  assumes "catch_up_all rd org today pe ps rs (s, g) = Inr (s', g')" "full_inv s"
    and "\<forall>r \<in> set rs. template_ok s r \<and> r_org_id r = org"
  shows "map r_id (templates s') = map r_id (templates s) \<and> account_of s' = account_of s \<and> organizations s' = organizations s"
  using assms
proof (induction rs arbitrary: s g)
  case (Cons r rs)
  from Cons.prems(1) obtain s1 g1 where c: "catch_up MAX_CATCHUP_ITERATIONS rd org today pe ps r (s, g) = Inr (s1, g1)"
    "catch_up_all rd org today pe ps rs (s1, g1) = Inr (s', g')"
    by (auto simp: rbind_eq_Inr)
  have ok: "template_ok s r" "r_org_id r = org" using Cons.prems(3) by simp_all
  note k = catch_up_keeps[OF c(1) Cons.prems(2) ok] and f = catch_up_frame[OF c(1) Cons.prems(2) ok]
    and i = catch_up_ids[OF c(1) Cons.prems(2) ok]
  have "template_ok s1 = template_ok s" using f template_ok_cong by blast
  with Cons.IH[OF c(2) k] Cons.prems(3) f i show ?case by simp
qed simp

lemma generateE:
  assumes "generate_due_transactions rd s org today = Inr (s', rep)"
  obtains cd ws s1 n g ps where "cd = (case row_by o_id (organizations s) org of None \<Rightarrow> 1 | Some x \<Rightarrow> o_billing_cycle_day x)"
    "current_cycle_window rd cd today = Some (ws, gr_period_end rep)" "settle_due_auto s org today = Inr (s1, n)"
    "catch_up_all rd org today (gr_period_end rep) ps (due_templates s1 org (gr_period_end rep))
       (s1, \<lparr>g_created = 0, g_created_settled = 0, g_backfilled = []\<rparr>) = Inr (s', g)"
    "gr_generated rep = g_created g" "gr_pending rep = g_created g - g_created_settled g"
  using assms by (auto simp: generate_due_transactions_def Let_def rbind_eq_Inr split: option.splits)

lemma generate_conserves:
  assumes "generate_due_transactions rd s org today = Inr (s', rep)" and inv: "full_inv s" and r: "r \<in> set (templates s)"
  shows "\<exists>r' ds. r' \<in> set (templates s') \<and> consumed rd s' org (gr_period_end rep) r r' ds \<and>
    (\<not> (r_org_id r = org \<and> active_series_filter r) \<longrightarrow> r' = r) \<and>
    (r_org_id r = org \<and> active_series_filter r \<longrightarrow> length ds \<le> MAX_CATCHUP_ITERATIONS \<and>
      (length ds < MAX_CATCHUP_ITERATIONS \<longrightarrow> gr_period_end rep < r_next_due_date r' \<or> \<not> has_remaining_occurrences r'))"
  using assms(1)
proof (rule generateE)
  fix cd ws s1 n g ps
  let ?pe = "gr_period_end rep"
  assume st: "settle_due_auto s org today = Inr (s1, n)"
    and all: "catch_up_all rd org today ?pe ps (due_templates s1 org ?pe)
       (s1, \<lparr>g_created = 0, g_created_settled = 0, g_backfilled = []\<rparr>) = Inr (s', g)"
  note S = settle_due_auto_Inr[OF st inv]
  have tem: "templates s1 = templates s" using S(2) by (simp add: frame_def)
  have "distinct (map r_id (templates s1))" using full_invD(5)[OF S(1)] by (simp add: store_wf_def)
  then have d: "distinct (map r_id (due_templates s1 org ?pe))" unfolding due_templates_def by (rule distinct_map_filter)
  have due: "\<forall>q \<in> set (due_templates s1 org ?pe). r_org_id q = org \<and> q \<in> set (templates s1)"
    by (auto simp: due_templates_def)
  note C = catch_up_all_conserves[OF all S(1) due d]
  show ?thesis
  proof (cases "r \<in> set (due_templates s1 org ?pe)")
    case True
    then have "r_org_id r = org \<and> active_series_filter r" by (auto simp: due_templates_def)
    with C True show ?thesis by blast
  next
    case False
    have "r_id r \<notin> r_id ` set (due_templates s1 org ?pe)"
      using False r due key_unique[OF \<open>distinct (map r_id (templates s1))\<close>] tem by (metis imageE)
    then have "r \<in> set (templates s')" using C r tem by simp
    moreover have "?pe < r_next_due_date r" if "r_org_id r = org" "active_series_filter r"
      using False that r tem by (auto simp: due_templates_def not_le)
    ultimately show ?thesis by (intro exI[of _ r] exI[of _ "[]"]) auto
  qed
qed

text \<open>A run that has less than the cap to do for each template leaves nothing due: what is
  still active has its next date after the window, or no occurrence left.\<close>

lemma generate_drains:
  assumes g: "generate_due_transactions rd s org today = Inr (s', rep)" and inv: "full_inv s"
    and r: "r \<in> set (templates s)" "r_org_id r = org" "active_series_filter r"
    and few: "length (projected rd r (r_next_due_date r) (gr_period_end rep)) < MAX_CATCHUP_ITERATIONS"
  shows "\<exists>r' ds. r' \<in> set (templates s') \<and> consumed rd s' org (gr_period_end rep) r r' ds \<and>
    (gr_period_end rep < r_next_due_date r' \<or> \<not> has_remaining_occurrences r')"
proof -
  from generate_conserves[OF g inv r(1)] r obtain r' ds where
    c: "r' \<in> set (templates s')" "consumed rd s' org (gr_period_end rep) r r' ds"
      "length ds < MAX_CATCHUP_ITERATIONS \<longrightarrow> gr_period_end rep < r_next_due_date r' \<or> \<not> has_remaining_occurrences r'"
    by blast
  have "length ds \<le> length (projected rd r (r_next_due_date r) (gr_period_end rep))"
    using consumed_projected[OF c(2)] by simp
  with few c show ?thesis by (meson le_less_trans)
qed

lemma generate_ids:
  assumes "generate_due_transactions rd s org today = Inr (s', rep)" "full_inv s"
  shows "map r_id (templates s') = map r_id (templates s)" "organizations s' = organizations s"
proof -
  have "map r_id (templates s') = map r_id (templates s) \<and> organizations s' = organizations s"
    using assms(1)
  proof (rule generateE)
    fix cd ws s1 n g ps
    let ?pe = "gr_period_end rep"
    assume st: "settle_due_auto s org today = Inr (s1, n)"
      and all: "catch_up_all rd org today ?pe ps (due_templates s1 org ?pe)
         (s1, \<lparr>g_created = 0, g_created_settled = 0, g_backfilled = []\<rparr>) = Inr (s', g)"
    note S = settle_due_auto_Inr[OF st assms(2)]
    have ok: "\<forall>r \<in> set (due_templates s1 org ?pe). template_ok s1 r \<and> r_org_id r = org"
      using full_invD(8)[OF S(1)] by (auto simp: due_templates_def)
    show ?thesis using catch_up_all_ids[OF all S(1) ok] S(2) by (simp add: frame_def)
  qed
  then show "map r_id (templates s') = map r_id (templates s)" "organizations s' = organizations s" by simp_all
qed

text \<open>So a second run on the same day has no template left to generate from.\<close>

lemma generate_again:
  assumes g: "generate_due_transactions rd s org today = Inr (s', rep)" and inv: "full_inv s"
    and few: "\<forall>r \<in> set (templates s). r_org_id r = org \<and> active_series_filter r \<longrightarrow>
      length (projected rd r (r_next_due_date r) (gr_period_end rep)) < MAX_CATCHUP_ITERATIONS"
    and again: "generate_due_transactions rd s' org today = Inr (s'', rep')"
  shows "gr_generated rep' = 0 \<and> gr_period_end rep' = gr_period_end rep \<and> templates s'' = templates s' \<and>
    map tx_id (transactions s'') = map tx_id (transactions s')"
proof -
  note inv' = generate_keeps[OF g inv] and ids = generate_ids[OF g inv]
  obtain cd ws0 where cd: "cd = (case row_by o_id (organizations s) org of None \<Rightarrow> 1 | Some x \<Rightarrow> o_billing_cycle_day x)"
    "current_cycle_window rd cd today = Some (ws0, gr_period_end rep)"
    using generateE[OF g] by metis
  have dist: "distinct (map r_id (templates s'))" using full_invD(5)[OF inv'] by (simp add: store_wf_def)
  have drained: "\<not> (active_series_filter q \<and> r_next_due_date q \<le> gr_period_end rep)"
    if q: "q \<in> set (templates s')" "r_org_id q = org" for q
  proof
    assume act: "active_series_filter q \<and> r_next_due_date q \<le> gr_period_end rep"
    from q(1) have "r_id q \<in> set (map r_id (templates s))" using ids(1) by (metis in_set_conv_decomp list.set_map imageI)
    then obtain r where r: "r \<in> set (templates s)" "r_id r = r_id q" by auto
    from generate_conserves[OF g inv r(1)] obtain r' ds where
      r': "r' \<in> set (templates s')" "consumed rd s' org (gr_period_end rep) r r' ds"
        "\<not> (r_org_id r = org \<and> active_series_filter r) \<longrightarrow> r' = r" by blast
    have "r' = q" by (rule key_unique[OF dist r'(1) q(1)]) (use r'(2) r(2) in \<open>simp add: consumed_def\<close>)
    show False
    proof (cases "r_org_id r = org \<and> active_series_filter r")
      case True
      with generate_drains[OF g inv r(1)] few r(1) obtain p es where
        p: "p \<in> set (templates s')" "consumed rd s' org (gr_period_end rep) r p es"
          "gr_period_end rep < r_next_due_date p \<or> \<not> has_remaining_occurrences p" by blast
      have "p = q" by (rule key_unique[OF dist p(1) q(1)]) (use p(2) r(2) in \<open>simp add: consumed_def\<close>)
      with p(3) act show False by (auto simp: active_series_iff)
    next
      case False
      with r'(3) \<open>r' = q\<close> q(2) act show False by simp
    qed
  qed
  from again show ?thesis
  proof (rule generateE)
    fix cd' ws s1 n g' ps
    assume c: "cd' = (case row_by o_id (organizations s') org of None \<Rightarrow> 1 | Some x \<Rightarrow> o_billing_cycle_day x)"
      "current_cycle_window rd cd' today = Some (ws, gr_period_end rep')"
      and st: "settle_due_auto s' org today = Inr (s1, n)"
      and all: "catch_up_all rd org today (gr_period_end rep') ps (due_templates s1 org (gr_period_end rep'))
         (s1, \<lparr>g_created = 0, g_created_settled = 0, g_backfilled = []\<rparr>) = Inr (s'', g')"
      and n: "gr_generated rep' = g_created g'"
    note S = settle_due_auto_Inr[OF st inv']
    have pe: "gr_period_end rep' = gr_period_end rep" using c cd ids(2) by simp
    have "due_templates s1 org (gr_period_end rep') = []"
      using drained S(2) pe by (auto simp: due_templates_def frame_def filter_empty_conv)
    with all have "s'' = s1" "g_created g' = 0" by auto
    moreover have "map tx_id (transactions s1) = map tx_id (transactions s')" unfolding S(3) by (simp add: comp_def if_distrib cong: if_cong)
    ultimately show ?thesis using pe n S(2) by (simp add: frame_def)
  qed
qed

end

end
