(* ===== verification/SeriesFacts.thy ===== *)
theory SeriesFacts
  imports GenerationFacts
begin

text \<open>
  What the removal of pending rows, the sweep and the early materialisation do to single rows,
  stated for the properties of the series engine.
\<close>

section \<open>Removing pending rows\<close>

lemma remove_pending_rows:
  assumes "remove_pending_transactions s org rid today = (s', n, dem)" and inv: "full_inv s"
  obtains D where "distinct (map tx_id D)" "n = int (length D)"
    "\<forall>t \<in> set D. t \<in> set (transactions s) \<and> tx_org_id t = org \<and> pending_of_series rid today t"
    "\<forall>t \<in> set (transactions s). \<forall>p \<in> set (transactions s). mutual t p \<longrightarrow> (t \<in> set D \<longleftrightarrow> p \<in> set D)"
    "transactions s' = rows_after dem (map tx_id D) (transactions s)"
proof -
  note rp = remove_pending_Inr[OF assms refl]
  let ?p = "plan_pending_removal s org rid today"
  note cl = plan_pending_removal_closed[OF inv refl, of org rid today]
  show ?thesis
  proof (cases "pr_settlement ?p")
    case None
    then have "dem = []" using assms(1) by (simp add: remove_pending_transactions_def Let_def)
    moreover have "unlink [] (demote [] t) = t" for t by (simp add: unlink_def demote_def split: option.splits)
    ultimately have "transactions s' = rows_after dem (map tx_id []) (transactions s)"
      using rp(4) None by (simp add: rows_after_def comp_def)
    then show ?thesis using that[of "[]"] rp(3) cl None by simp
  next
    case (Some st)
    with cl have c: "delete_closed (transactions s) org (pr_rows ?p) (pr_doomed ?p)"
      and pend: "\<forall>t \<in> set (pr_doomed ?p). pending_of_series rid today t" by auto
    note C = c[unfolded delete_closed_def]
    have "t \<in> set (pr_doomed ?p) \<longleftrightarrow> q \<in> set (pr_doomed ?p)"
      if "t \<in> set (transactions s)" "q \<in> set (transactions s)" "mutual t q" for t q
      using C that unfolding mutual_def by blast
    then have "\<forall>t \<in> set (transactions s). \<forall>q \<in> set (transactions s). mutual t q \<longrightarrow>
      (t \<in> set (pr_doomed ?p) \<longleftrightarrow> q \<in> set (pr_doomed ?p))" by blast
    moreover have "\<forall>t \<in> set (pr_doomed ?p). t \<in> set (transactions s) \<and> tx_org_id t = org \<and> pending_of_series rid today t"
      using C pend by blast
    moreover have "transactions s' = rows_after dem (map tx_id (pr_doomed ?p)) (transactions s)" using rp(4) Some by simp
    ultimately show ?thesis using that[of "pr_doomed ?p"] C rp(3) by blast
  qed
qed

lemma rows_after_ids:
  "tx_id ` set (rows_after dem del T) = tx_id ` set T - set del"
proof (rule set_eqI)
  fix i
  have "i \<in> tx_id ` set (rows_after dem del T) \<longleftrightarrow> (\<exists>x. x \<in> set (rows_after dem del T) \<and> i = tx_id x)" by blast
  also have "\<dots> \<longleftrightarrow> (\<exists>t. t \<in> set T \<and> tx_id t \<notin> set del \<and> i = tx_id (unlink del (demote dem t)))"
    unfolding rows_after_mem by blast
  also have "\<dots> \<longleftrightarrow> i \<in> tx_id ` set T - set del" by auto
  finally show "i \<in> tx_id ` set (rows_after dem del T) \<longleftrightarrow> i \<in> tx_id ` set T - set del" .
qed

lemma rows_after_length:
  assumes "distinct (map tx_id T)" "distinct (map tx_id D)" "set D \<subseteq> set T"
  shows "length (rows_after dem (map tx_id D) T) + length D = length T"
proof -
  have "length (filter (\<lambda>t. tx_id t \<in> set (map tx_id D)) T) = length D"
  proof -
    have "set (filter (\<lambda>t. tx_id t \<in> set (map tx_id D)) T) = set D"
    proof (rule set_eqI)
      fix t
      have "t \<in> set D" if "t \<in> set T" "d \<in> set D" "tx_id t = tx_id d" for d
        using key_unique[OF assms(1) that(1) _ that(3)] that(2) assms(3) by blast
      then show "t \<in> set (filter (\<lambda>t. tx_id t \<in> set (map tx_id D)) T) \<longleftrightarrow> t \<in> set D"
        using assms(3) by auto
    qed
    moreover have "distinct T" "distinct D" using assms(1,2) by (simp_all add: distinct_map)
    ultimately show ?thesis by (metis distinct_card distinct_filter)
  qed
  moreover have "length (filter P T) + length (filter (\<lambda>t. \<not> P t) T) = length T" for P
    by (rule sum_length_filter_compl)
  ultimately show ?thesis
    by (simp add: rows_after_def filter_map comp_def demote_def) (metis add.commute)
qed

section \<open>The sweep never splits a pair\<close>

lemma swept_partner:
  assumes inv: "full_inv s" and t: "t \<in> set (transactions s)" and q: "q \<in> set (transactions s)" and m: "mutual t q"
    and live: "tx_status q = PENDING" "\<not> reverted q"
    and swept: "t \<in> set (concat (due_auto_settle_units s org today))"
  shows "q \<in> set (concat (due_auto_settle_units s org today))"
proof -
  let ?rows = "due_auto_rows s org today"
  note d = full_invD(7)[OF inv] and l = full_invD(6)[OF inv]
  have dr: "distinct (map tx_id ?rows)" using due_auto_rows_distinct[OF d] .
  have units: "concat (due_auto_settle_units s org today) = concat (map (\<lambda>u. concat (settle_unit s ?rows u)) ?rows)"
    by (simp add: due_auto_settle_units_def Let_def concat_units)
  from swept obtain u where u: "u \<in> set ?rows" "t \<in> set (concat (settle_unit s ?rows u))"
    unfolding units set_concat[of "map _ _"] set_map by blast
  have same: "v = w" if "v \<in> set (transactions s)" "w \<in> set (transactions s)" "tx_id v = tx_id w" for v w
    using key_unique[OF d that] .
  have org: "tx_org_id q = tx_org_id t" "tx_id q \<noteq> tx_id t"
    using links_wfD[OF l t] m same[OF _ q] by (auto simp: mutual_def)
  have "concat (settle_unit s ?rows u) = [t] \<and> u = t \<and> \<not> is_reciprocal_pair t (partner_in ?rows t) \<or>
      (\<exists>v. v \<in> set ?rows \<and> mutual u v \<and> concat (settle_unit s ?rows u) = [u, v] \<and> (t = u \<or> t = v))"
  proof -
    obtain c where c: "concat (settle_unit s ?rows u) = c" by simp
    show ?thesis using settle_unit_rows[OF dr u(1), of s] u(2) unfolding c by (elim disjE exE conjE) simp_all
  qed
  then consider (one) "concat (settle_unit s ?rows u) = [t] \<and> u = t \<and> \<not> is_reciprocal_pair t (partner_in ?rows t)"
    | (two) v where "v \<in> set ?rows" "mutual u v" "concat (settle_unit s ?rows u) = [u, v]" "t = u \<or> t = v" by blast
  then show ?thesis
  proof cases
    case one
    have "partner_in (transactions s) t = Some q" using row_by_distinct[OF d] q m by (auto simp: partner_in_def mutual_def)
    moreover have "is_reciprocal_pair t (Some q)" using m org by (auto simp: is_reciprocal_pair_def mutual_def)
    ultimately have "settle_unit s ?rows t = []" using one live m by (auto simp: settle_unit_def Let_def mutual_def)
    with conjunct1[OF one] conjunct1[OF conjunct2[OF one]] show ?thesis by simp
  next
    case v: two
    have mem: "u \<in> set (transactions s)" "v \<in> set (transactions s)" using u(1) v(1) by simp_all
    have "q = u \<or> q = v"
      using v(2,4) m same[OF q mem(1)] same[OF q mem(2)] by (auto simp: mutual_def)
    with v(3) have "q \<in> set (concat (settle_unit s ?rows u))" by auto
    then show ?thesis unfolding units set_concat[of "map _ _"] set_map using u(1) by blast
  qed
qed

lemma sweep_keeps_pairs:
  assumes st: "settle_due_auto s org today = Inr (s', n)" and inv: "full_inv s"
    and t: "t \<in> set (transactions s)" "tx_status t = PENDING" "\<not> reverted t"
    and q: "q \<in> set (transactions s)" "tx_status q = PENDING" "\<not> reverted q" and m: "mutual t q"
  shows "(settled t \<in> set (transactions s') \<and> settled q \<in> set (transactions s')) \<or>
    (t \<in> set (transactions s') \<and> q \<in> set (transactions s'))"
proof -
  let ?U = "concat (due_auto_settle_units s org today)"
  note S = settle_due_auto_Inr[OF st inv] and d = full_invD(7)[OF inv]
  have sub: "set ?U \<subseteq> set (transactions s)" using sweep_units_ok(3)[OF inv refl, of org today] by (auto simp: settleable_def)
  have ids: "tx_id v \<in> tx_id ` set ?U \<longleftrightarrow> v \<in> set ?U" if "v \<in> set (transactions s)" for v
  proof
    assume "tx_id v \<in> tx_id ` set ?U"
    then obtain w where w: "w \<in> set ?U" "tx_id v = tx_id w" by (metis imageE)
    have "v = w" by (rule key_unique[OF d that _ w(2)]) (use w(1) sub in blast)
    with w(1) show "v \<in> set ?U" by simp
  qed (rule imageI)
  have "t \<in> set ?U \<longleftrightarrow> q \<in> set ?U"
  proof
    show "q \<in> set ?U" if "t \<in> set ?U" by (rule swept_partner[OF inv t(1) q(1) m q(2,3) that])
    have "mutual q t" using m by (auto simp: mutual_def)
    then show "t \<in> set ?U" if "q \<in> set ?U" using swept_partner[OF inv q(1) t(1) _ t(2,3) that] by blast
  qed
  moreover have "(if v \<in> set ?U then settled v else v) \<in> set (transactions s')" if "v \<in> set (transactions s)" for v
    unfolding S(3) set_map using that ids[OF that] by (intro image_eqI[of _ _ v]) simp_all
  ultimately show ?thesis using t(1) q(1) by metis
qed

section \<open>One occurrence, early or skipped\<close>

lemma find_template_put:
  assumes "distinct (map r_id (templates s))" "r \<in> set (templates s)" "r_id r' = r_id r" "r_org_id r' = org"
  shows "find_template (put_template r' s) (r_id r) org = Some r'"
proof -
  have "find (\<lambda>x. r_id x = r_id r \<and> r_org_id x = org) (map (\<lambda>x. if r_id x = r_id r then r' else x) xs) = Some r'"
    if "distinct (map r_id xs)" "r \<in> set xs" for xs
    using that assms(3,4) by (induction xs) (auto simp: image_iff)
  from this[OF assms(1,2)] show ?thesis using assms(3) by (simp add: find_template_def put_template_def update_row_def)
qed

lemma create_pending_accounts:
  assumes "create_occurrence s org r due today False sk = Inr (s', t)" "full_inv s" "template_ok s r" "r_org_id r = org"
  shows "accounts s' = accounts s"
proof -
  have "\<not> (False \<and> sk)" by simp
  from create_occurrence_Inr[OF assms(1) full_invD(2)[OF assms(2)] assms(3,4) this] show ?thesis by metis
qed

lemma materialise_next_effect:
  assumes m: "materialise_next rd s org rid od sk today = Inr (s', t)" and inv: "full_inv s"
  shows "accounts s' = accounts s" "grows s' s" "t \<in> set (transactions s')" "tx_status t = PENDING" "tx_date t = od"
    "tx_recurring_id t = Some rid" "\<not> occurrence_exists s org rid od"
    "\<exists>r r'. find_template s rid org = Some r \<and> advance_frontier rd r od = Some r' \<and> find_template s' rid org = Some r'"
proof -
  from m obtain r s1 r' ps where r: "find_template s rid org = Some r" "r_next_due_date r = od"
    and new: "\<not> occurrence_exists s org rid od" and c: "create_occurrence s org r od today False sk = Inr (s1, t)"
    and a: "advance_frontier rd r od = Some r'" and s': "s' = put_template r' s1" by (rule materialise_nextE)
  note id = find_template_Some[OF r(1)] and A = advance_frontier_Some[OF a]
  have ok: "template_ok s r" "r_org_id r = org" using full_invD(8)[OF inv] id by blast+
  have ns: "\<not> (False \<and> sk)" by simp
  note w = create_occurrence_row[OF c inv ok ns] and f = create_occurrence_full[OF c inv ok ns]
  note E = create_occurrence_Inr[OF c full_invD(2)[OF inv] ok ns, simplified]
  obtain rows where T: "transactions s1 = transactions s @ rows" "hd rows = t"
    and occ: "occurrence_rows r od PENDING sk (next_id s) rows" by (rule E)
  have "rows \<noteq> []" using occ by (auto simp: occurrence_rows_def split: if_splits)
  with T(2) have "t \<in> set rows" by auto
  with occ T show "t \<in> set (transactions s')" "tx_status t = PENDING" "tx_date t = od" "tx_recurring_id t = Some rid"
    using id by (auto simp: occurrence_rows_def s')
  show "accounts s' = accounts s" using create_pending_accounts[OF c inv ok] by (simp add: s')
  show "grows s' s" using w(1) by (simp add: grows_def s')
  show "\<not> occurrence_exists s org rid od" by (rule new)
  have "distinct (map r_id (templates s1))" using full_invD(5)[OF f(1)] by (simp add: store_wf_def)
  then have "find_template s' (r_id r) org = Some r'"
    unfolding s' by (rule find_template_put) (use w(3) id A in auto)
  with r a id show "\<exists>r r'. find_template s rid org = Some r \<and> advance_frontier rd r od = Some r' \<and> find_template s' rid org = Some r'"
    by auto
qed

lemma skip_exists:
  assumes "skip_occurrence s org tid = Inr (s', u)" "full_inv s"
  shows "occurrence_exists s' o' i d = occurrence_exists s o' i d" "tx_recon u = skipped" "u \<in> set (transactions s')"
proof -
  from assms(1) obtain t where t: "org_row s org tid = Some t" and u: "u = t\<lparr>tx_recon := skipped\<rparr>"
    and s': "s' = put_transaction u s" by (rule skip_occurrence_Inr)
  have tm: "t \<in> set (transactions s)" using org_row_Some[OF t] by blast
  let ?f = "\<lambda>r. if tx_id r = tx_id t then u else r"
  have T: "transactions s' = map ?f (transactions s)" by (simp add: s' u update_row_def)
  have same: "tx_org_id (?f x) = tx_org_id x \<and> tx_recurring_id (?f x) = tx_recurring_id x \<and> tx_date (?f x) = tx_date x"
    if "x \<in> set (transactions s)" for x
    using key_unique[OF full_invD(7)[OF assms(2)] that tm] by (auto simp: u)
  have "list_ex Q (map ?f xs) = list_ex Q xs" if "\<And>x. x \<in> set xs \<Longrightarrow> Q (?f x) = Q x" for Q xs
    using that by (induction xs) auto
  note ex = this[of "transactions s" "\<lambda>x. tx_org_id x = o' \<and> tx_recurring_id x = Some i \<and> tx_date x = d"]
  show "occurrence_exists s' o' i d = occurrence_exists s o' i d"
    unfolding occurrence_exists_def T by (rule ex) (simp only: same)
  show "tx_recon u = skipped" by (simp add: u)
  show "u \<in> set (transactions s')" using tm by (auto simp: T image_iff)
qed

section \<open>Stopping\<close>

lemma stop_rows:
  assumes st: "stop_recurring s org rid today = Inr (s', n, dem)" and inv: "full_inv s"
  obtains r D where "find_template s rid org = Some r" "find_template s' rid org = Some (r\<lparr>r_is_active := False\<rparr>)"
    "distinct (map tx_id D)" "n = int (length D)"
    "\<forall>t \<in> set D. t \<in> set (transactions s) \<and> tx_org_id t = org \<and> pending_of_series rid today t"
    "\<forall>t \<in> set (transactions s). \<forall>p \<in> set (transactions s). mutual t p \<longrightarrow> (t \<in> set D \<longleftrightarrow> p \<in> set D)"
    "transactions s' = map (\<lambda>t. if tx_org_id t = org then clear_series rid t else t) (rows_after dem (map tx_id D) (transactions s))"
proof -
  from st obtain r s1 where r: "find_template s rid org = Some r"
    and rm: "remove_pending_transactions (put_template (r\<lparr>r_is_active := False\<rparr>) s) org rid today = (s1, n, dem)"
    and s': "s' = s1\<lparr>transactions := map (\<lambda>t. if tx_org_id t = org then clear_series rid t else t) (transactions s1)\<rparr>"
    by (rule stop_recurringE)
  let ?r = "r\<lparr>r_is_active := False\<rparr>" and ?s = "put_template (r\<lparr>r_is_active := False\<rparr>) s"
  note id = find_template_Some[OF r]
  have "template_ok s r" using id full_invD(8)[OF inv] by blast
  then have "template_ok s ?r" by (simp add: template_ok_def split: option.splits)
  note p = put_template_inv[OF inv this]
  note rp = remove_pending_Inr[OF rm p refl]
  have "distinct (map r_id (templates s))" using full_invD(5)[OF inv] by (simp add: store_wf_def)
  then have "find_template ?s (r_id r) org = Some ?r" by (rule find_template_put) (use id in auto)
  then have f: "find_template s' rid org = Some ?r" using rp(2) id by (simp add: s' find_template_def frame_def)
  have T: "transactions ?s = transactions s" by (simp add: put_template_def)
  from rm p show ?thesis
  proof (rule remove_pending_rows)
    fix D assume D: "distinct (map tx_id D)" "n = int (length D)"
      "\<forall>t \<in> set D. t \<in> set (transactions ?s) \<and> tx_org_id t = org \<and> pending_of_series rid today t"
      "\<forall>t \<in> set (transactions ?s). \<forall>p \<in> set (transactions ?s). mutual t p \<longrightarrow> (t \<in> set D \<longleftrightarrow> p \<in> set D)"
      "transactions s1 = rows_after dem (map tx_id D) (transactions ?s)"
    have "transactions s' = map (\<lambda>t. if tx_org_id t = org then clear_series rid t else t) (transactions s1)"
      unfolding s' by simp
    then show thesis unfolding D(5) T by (rule that[OF r f D(1,2) D(3,4)[unfolded T]])
  qed
qed

end
