(* ===== verification/SeriesProps.thy ===== *)
theory SeriesProps
  imports SeriesFacts Sample
begin

text \<open>
  The properties of the recurring engine: generation against projection, the sweep, one
  occurrence materialised or skipped, and the end of a series. The sample ledger is extended
  by a monthly transfer with a pending pair and a settled row of the rent series.
\<close>

section \<open>A ledger with series\<close>

definition transfer_template :: "template" where
  "transfer_template = sample_template\<lparr>r_id := 21, r_to_account_id := Some 5, r_description := ''save'', r_amount := 50,
     r_type := TRANSFER, r_next_due_date := date_of 2025 4 10, r_occurrence_count := None, r_last_spent_date := Some (date_of 2025 3 10)\<rparr>"

definition series_row :: "int \<Rightarrow> int \<Rightarrow> decimal \<Rightarrow> transaction_type \<Rightarrow> transaction_status \<Rightarrow> int option \<Rightarrow> int \<Rightarrow> date \<Rightarrow> transaction" where
  "series_row i aid amount ty status linked rid d =
     (sample_tx i aid amount ty status linked None accepted)\<lparr>tx_recurring_id := Some rid, tx_date := d\<rparr>"

definition series_store :: store where
  "series_store = sample_store\<lparr>
     accounts := [sample_account 4 ''main'' 100 1650, sample_account 5 ''savings'' 0 150],
     transactions := transactions sample_store @
       [series_row 30 4 50 EXPENSE PENDING (Some 31) 21 (date_of 2025 3 10),
        series_row 31 5 50 INCOME PENDING (Some 30) 21 (date_of 2025 3 10),
        series_row 32 4 700 EXPENSE SETTLED None 20 (date_of 2025 2 28),
        series_row 33 4 700 EXPENSE PENDING None 20 (date_of 2025 4 28)],
     templates := [sample_template, transfer_template], next_id := 40\<rparr>"

lemma series_full: "full_inv series_store"
  unfolding full_inv_def by (intro conjI) code_simp+

section \<open>Generation\<close>

text \<open>C15: generating consumes exactly what was projected. For every active series of the organisation,
  a run spends a list of dates, each not after the end of the current cycle and each with its
  row in the ledger afterwards, and over any window whatever what was projected before is what
  was spent in the window followed by what is projected afterwards: an occurrence is neither lost
  nor due twice. Only the cap of 500 keeps a run from draining the window.\<close>

theorem generation_conserves_projection:
  assumes "relativedelta_lib rd" and "full_inv s"
    and "generate_due_transactions rd s org today = Inr (s', rep)"
    and "r \<in> set (templates s)" and "r_org_id r = org" and "active_series_filter r"
  shows "\<exists>r' ds. r' \<in> set (templates s') \<and> r_id r' = r_id r \<and>
    (\<forall>d. d \<in> set ds \<longrightarrow> d \<le> gr_period_end rep \<and> occurrence_exists s' org (r_id r) d) \<and>
    (\<forall>start end. projected rd r start end = filter (in_window start end) ds @ projected rd r' start end) \<and>
    (length ds < MAX_CATCHUP_ITERATIONS \<longrightarrow> gr_period_end rep < r_next_due_date r' \<or> \<not> has_remaining_occurrences r')"
  using relativedelta_lib.generate_conserves[OF assms(1,3,2,4)] assms(5,6) unfolding consumed_def by blast

theorem generation_conserves_projection_witness:
  "\<exists>s' rep r' ds. generate_due_transactions civil_add sample_store 1 (date_of 2025 4 20) = Inr (s', rep) \<and>
    r' \<in> set (templates s') \<and> r_id r' = 20 \<and>
    (\<forall>start end. projected civil_add sample_template start end =
       filter (in_window start end) ds @ projected civil_add r' start end)"
proof -
  let ?g = "generate_due_transactions civil_add sample_store 1 (date_of 2025 4 20)"
  have "\<not> isl ?g" by code_simp
  then obtain s' rep where g: "?g = Inr (s', rep)" by (cases ?g) auto
  have r: "sample_template \<in> set (templates sample_store)" "r_org_id sample_template = 1" "active_series_filter sample_template"
    "r_id sample_template = 20"
    by code_simp+
  from generation_conserves_projection[OF civil.relativedelta_lib_axioms sample_full g r(1-3)] r(4) g show ?thesis by metis
qed

text \<open>C16: generation is idempotent. When no series had 500 occurrences to catch up on, a second run on
  the same day writes no row and moves no frontier.\<close>

theorem generation_idempotent:
  assumes "relativedelta_lib rd" and "full_inv s"
    and "generate_due_transactions rd s org today = Inr (s', rep)"
    and "\<forall>r \<in> set (templates s). r_org_id r = org \<and> active_series_filter r \<longrightarrow>
      length (projected rd r (r_next_due_date r) (gr_period_end rep)) < 500"
    and "generate_due_transactions rd s' org today = Inr (s'', rep')"
  shows "gr_generated rep' = 0 \<and> templates s'' = templates s' \<and>
    map tx_id (transactions s'') = map tx_id (transactions s')"
  using relativedelta_lib.generate_again[OF assms(1,3,2) _ assms(5)] assms(4) by (simp add: MAX_CATCHUP_ITERATIONS_def)

theorem generation_idempotent_witness:
  "\<exists>s' rep s'' rep'. generate_due_transactions civil_add sample_store 1 (date_of 2025 4 20) = Inr (s', rep) \<and>
    gr_generated rep = 1 \<and> generate_due_transactions civil_add s' 1 (date_of 2025 4 20) = Inr (s'', rep') \<and>
    gr_generated rep' = 0"
proof -
  let ?g = "\<lambda>s. generate_due_transactions civil_add s 1 (date_of 2025 4 20)"
  have "\<not> isl (?g sample_store) \<and> \<not> isl (?g (fst (projr (?g sample_store)))) \<and> gr_generated (snd (projr (?g sample_store))) = 1 \<and>
    list_all (\<lambda>r. length (projected civil_add r (r_next_due_date r) (gr_period_end (snd (projr (?g sample_store))))) < 500) (templates sample_store)"
    by code_simp
  then obtain s' rep s'' rep' where g: "?g sample_store = Inr (s', rep)" "?g s' = Inr (s'', rep')" "gr_generated rep = 1"
    "list_all (\<lambda>r. length (projected civil_add r (r_next_due_date r) (gr_period_end rep)) < 500) (templates sample_store)"
    by (cases "?g sample_store"; cases "?g (fst (projr (?g sample_store)))") auto
  from generation_idempotent[OF civil.relativedelta_lib_axioms sample_full g(1) _ g(2)] g show ?thesis
    by (auto simp: list_all_iff)
qed

section \<open>The sweep\<close>

text \<open>C17: the auto-settle sweep never splits a pair: of two live pending rows linked to each other it
  settles both, each on its own effective date, or leaves both as they are; every balance stays
  right. A leg that is due waits for a partner that is still to come.\<close>

theorem sweep_keeps_pairs_whole:
  assumes "full_inv s" and "settle_due_auto s org today = Inr (s', n)"
    and "t \<in> set (transactions s)" and "p \<in> set (transactions s)"
    and "tx_linked t = Some (tx_id p)" and "tx_linked p = Some (tx_id t)"
    and "tx_status t = PENDING" and "tx_status p = PENDING" and "\<not> reverted t" and "\<not> reverted p"
  shows "full_inv s' \<and>
    ((\<exists>t' \<in> set (transactions s'). tx_id t' = tx_id t \<and> tx_status t' = SETTLED) \<longleftrightarrow>
     (\<exists>p' \<in> set (transactions s'). tx_id p' = tx_id p \<and> tx_status p' = SETTLED))"
proof -
  have m: "mutual t p" using assms(5,6) by (simp add: mutual_def)
  note inv = settle_due_auto_Inr(1)[OF assms(2,1)]
  have uniq: "(\<exists>u' \<in> set (transactions s'). tx_id u' = tx_id u \<and> tx_status u' = SETTLED) \<longleftrightarrow> tx_status u = SETTLED"
    if "u \<in> set (transactions s')" for u
    using key_unique[OF full_invD(7)[OF inv] _ that] that by metis
  from sweep_keeps_pairs[OF assms(2,1,3,7,9,4,8,10) m] show ?thesis
    using uniq[of t] uniq[of p] uniq[of "settled t"] uniq[of "settled p"] assms(7,8) inv by auto
qed

theorem sweep_keeps_pairs_whole_witness:
  "\<exists>s' n. settle_due_auto series_store 1 (date_of 2025 3 12) = Inr (s', n) \<and> full_inv s' \<and> n = 1 \<and>
    (\<exists>p' \<in> set (transactions s'). tx_id p' = 31 \<and> tx_status p' = SETTLED)"
proof -
  let ?g = "settle_due_auto series_store 1 (date_of 2025 3 12)"
  let ?t = "series_row 30 4 50 EXPENSE PENDING (Some 31) 21 (date_of 2025 3 10)"
  let ?p = "series_row 31 5 50 INCOME PENDING (Some 30) 21 (date_of 2025 3 10)"
  have "\<not> isl ?g \<and> snd (projr ?g) = 1 \<and> list_ex (\<lambda>u. tx_id u = 30 \<and> tx_status u = SETTLED) (transactions (fst (projr ?g)))"
    by code_simp
  then obtain s' where g: "?g = Inr (s', 1)" "list_ex (\<lambda>u. tx_id u = 30 \<and> tx_status u = SETTLED) (transactions s')"
    by (cases ?g) auto
  have rows: "?t \<in> set (transactions series_store)" "?p \<in> set (transactions series_store)"
    by (simp_all add: series_store_def)
  from sweep_keeps_pairs_whole[OF series_full g(1) rows] g show ?thesis
    by (simp add: series_row_def sample_tx_def reverted_def list_ex_iff)
qed

section \<open>One occurrence early, or skipped\<close>

lemma materialise_next_rows:
  assumes "materialise_next rd s org rid od sk today = Inr (s', t)" "full_inv s"
  shows "\<exists>r new. find_template s rid org = Some r \<and> transactions s' = transactions s @ new \<and> t = hd new \<and>
    occurrence_rows r od PENDING sk (next_id s) new"
proof -
  from assms(1) obtain r s1 r' where r: "find_template s rid org = Some r"
    and c: "create_occurrence s org r od today False sk = Inr (s1, t)" and s': "s' = put_template r' s1" by (rule materialise_nextE)
  note id = find_template_Some[OF r]
  have ok: "template_ok s r" "r_org_id r = org" using full_invD(8)[OF assms(2)] id by blast+
  have ns: "\<not> (False \<and> sk)" by simp
  obtain rows where "transactions s1 = transactions s @ rows" "hd rows = t" "occurrence_rows r od PENDING sk (next_id s) rows"
    by (rule create_occurrence_Inr[OF c full_invD(2)[OF assms(2)] ok ns, simplified])
  with r show ?thesis by (auto simp: s')
qed

text \<open>C18: materialising the next occurrence appends exactly the rows of that occurrence: one row, or for a
  transfer series the two legs, each the other's partner. They are PENDING, of the requested date and the template's
  amount, and skipped only if the request says so. No balance moves, every invariant holds, and the frontier
  moves past that date, so the same request again is refused.\<close>

theorem materialise_next_once:
  assumes "relativedelta_lib rd" and "full_inv s"
    and "materialise_next rd s org rid occurrence_date was_skipped today = Inr (s', t)"
  shows "full_inv s' \<and> accounts s' = accounts s \<and>
    (\<exists>r new. find_template s rid org = Some r \<and> transactions s' = transactions s @ new \<and> t \<in> set new \<and>
      (if r_type r = TRANSFER then \<exists>i. new = [t, i] \<and> mutual t i \<and> tx_type t = EXPENSE \<and> tx_type i = INCOME
       else new = [t] \<and> tx_linked t = None \<and> tx_type t = r_type r) \<and>
      (\<forall>u \<in> set new. tx_status u = PENDING \<and> tx_date u = occurrence_date \<and> tx_recurring_id u = Some rid \<and>
         tx_amount u = r_amount r \<and> tx_recon u = (if was_skipped then skipped else accepted))) \<and>
    \<not> occurrence_exists s org rid occurrence_date \<and>
    materialise_next rd s' org rid occurrence_date was_skipped today =
      Inl (ConflictError ''The next occurrence is another date'')"
proof -
  note e = materialise_next_effect[OF assms(3,2)]
  from e(8) obtain r r' where r: "find_template s rid org = Some r" "advance_frontier rd r occurrence_date = Some r'"
    "find_template s' rid org = Some r'" by blast
  have "next_occurrence rd occurrence_date (r_frequency r) = Some (r_next_due_date r')"
    using advance_frontier_Some(5)[OF r(2)] by (simp add: relativedelta_lib.next_occurrence_eq[OF assms(1)])
  from next_occurrence_gt[OF this] have "r_next_due_date r' \<noteq> occurrence_date" by auto
  then have "materialise_next rd s' org rid occurrence_date was_skipped today =
      Inl (ConflictError ''The next occurrence is another date'')"
    by (simp add: materialise_next_def r(3))
  moreover from materialise_next_rows[OF assms(3,2)] obtain q new where q: "find_template s rid org = Some q"
    "transactions s' = transactions s @ new" "t = hd new" and o: "occurrence_rows q occurrence_date PENDING was_skipped (next_id s) new" by blast
  moreover have "if r_type q = TRANSFER then \<exists>i. new = [t, i] \<and> mutual t i \<and> tx_type t = EXPENSE \<and> tx_type i = INCOME
       else new = [t] \<and> tx_linked t = None \<and> tx_type t = r_type q" "t \<in> set new"
    using o q(3) by (auto simp: occurrence_rows_def split: if_splits)
  moreover have "\<forall>u \<in> set new. tx_status u = PENDING \<and> tx_date u = occurrence_date \<and> tx_recurring_id u = Some rid \<and>
         tx_amount u = r_amount q \<and> tx_recon u = (if was_skipped then skipped else accepted)"
    using o find_template_Some[OF q(1)] by (auto simp: occurrence_rows_def)
  ultimately show ?thesis using e(1,7) materialise_next_Inr[OF assms(3,2)] by blast
qed

theorem materialise_next_once_witness:
  "\<exists>s' t. materialise_next civil_add series_store 1 20 (date_of 2025 3 31) False (date_of 2025 3 28) = Inr (s', t) \<and>
    accounts s' = accounts series_store \<and> tx_date t = date_of 2025 3 31"
proof -
  let ?g = "materialise_next civil_add series_store 1 20 (date_of 2025 3 31) False (date_of 2025 3 28)"
  have "\<not> isl ?g" by code_simp
  then obtain s' t where g: "?g = Inr (s', t)" by (cases ?g) auto
  from materialise_next_once[OF civil.relativedelta_lib_axioms series_full g] have
    "accounts s' = accounts series_store" "tx_date t = date_of 2025 3 31" by blast+
  with g show ?thesis by blast
qed

text \<open>Skipping a pending occurrence moves no balance and keeps every invariant; the row stays as
  the tombstone of its date, so generation finds the occurrence there and does not write it again,
  and no later sweep of any organisation settles it.\<close>

theorem skip_leaves_tombstone:
  assumes "full_inv s" and "skip_occurrence s org tid = Inr (s', u)"
  shows "full_inv s' \<and> accounts s' = accounts s \<and> u \<in> set (transactions s') \<and> tx_status u = PENDING \<and>
    (\<forall>o' i d. occurrence_exists s' o' i d = occurrence_exists s o' i d) \<and>
    (\<forall>o' today. u \<notin> set (due_auto_rows s' o' today))"
proof -
  from assms(2) have "tx_status u = PENDING" by (rule skip_occurrence_Inr) simp
  with skip_keeps[OF assms(2,1)] skip_exists[OF assms(2,1)] show ?thesis
    by (simp add: balance_contribution_filter_def reverted_def)
qed

theorem skip_leaves_tombstone_witness:
  "\<exists>s' u. skip_occurrence series_store 1 33 = Inr (s', u) \<and> accounts s' = accounts series_store \<and>
    occurrence_exists s' 1 20 (date_of 2025 4 28)"
proof -
  let ?g = "skip_occurrence series_store 1 33"
  have "\<not> isl ?g \<and> occurrence_exists series_store 1 20 (date_of 2025 4 28)" by code_simp
  then obtain s' u where g: "?g = Inr (s', u)" "occurrence_exists series_store 1 20 (date_of 2025 4 28)" by (cases ?g) auto
  from skip_leaves_tombstone[OF series_full g(1)] g show ?thesis by simp
qed

section \<open>The end of a series\<close>

text \<open>C19: stopping a series deactivates its template and removes only its pending rows from today on,
  as many as it reports; a pair is removed whole or kept whole, every settled, earlier or foreign
  row survives, no surviving row of the organisation still names the series, and no balance moves.\<close>

theorem stop_recurring_effect:
  assumes "full_inv s" and "stop_recurring s org rid today = Inr (s', removed, demoted)"
  shows "full_inv s' \<and> accounts s' = accounts s \<and>
    (\<exists>r. find_template s' rid org = Some r \<and> \<not> r_is_active r) \<and>
    (\<forall>t \<in> set (transactions s'). tx_org_id t = org \<longrightarrow> tx_recurring_id t \<noteq> Some rid) \<and>
    (\<forall>t \<in> set (transactions s). tx_org_id t \<noteq> org \<or> \<not> pending_of_series rid today t \<longrightarrow>
       tx_id t \<in> tx_id ` set (transactions s')) \<and>
    (\<forall>t \<in> set (transactions s). \<forall>p \<in> set (transactions s).
       tx_linked t = Some (tx_id p) \<and> tx_linked p = Some (tx_id t) \<longrightarrow>
       (tx_id t \<in> tx_id ` set (transactions s') \<longleftrightarrow> tx_id p \<in> tx_id ` set (transactions s'))) \<and>
    int (length (transactions s)) = int (length (transactions s')) + removed"
proof -
  note d = full_invD(7)[OF assms(1)]
  from assms(2,1) obtain r D where ft: "find_template s' rid org = Some (r\<lparr>r_is_active := False\<rparr>)"
    and D: "distinct (map tx_id D)" "removed = int (length D)"
      "\<forall>t \<in> set D. t \<in> set (transactions s) \<and> tx_org_id t = org \<and> pending_of_series rid today t"
      "\<forall>t \<in> set (transactions s). \<forall>p \<in> set (transactions s). mutual t p \<longrightarrow> (t \<in> set D \<longleftrightarrow> p \<in> set D)"
    and T: "transactions s' = map (\<lambda>t. if tx_org_id t = org then clear_series rid t else t)
      (rows_after demoted (map tx_id D) (transactions s))" by (rule stop_rows)
  let ?f = "\<lambda>t. if tx_org_id t = org then clear_series rid t else t"
  have f: "tx_id (?f t) = tx_id t" for t by (simp add: clear_series_def)
  have "tx_id ` ?f ` X = tx_id ` X" for X unfolding image_image f ..
  then have ids: "tx_id ` set (transactions s') = tx_id ` set (transactions s) - tx_id ` set D"
    by (simp only: T set_map rows_after_ids)
  have keep: "tx_id t \<in> tx_id ` set (transactions s') \<longleftrightarrow> t \<notin> set D" if t: "t \<in> set (transactions s)" for t
  proof -
    have "tx_id t \<in> tx_id ` set D \<longleftrightarrow> t \<in> set D"
      using key_unique[OF d t] D(3) by (metis image_iff)
    then show ?thesis unfolding ids using t by blast
  qed
  have len: "length (transactions s') + length D = length (transactions s)"
    unfolding T length_map by (rule rows_after_length[OF d D(1)]) (use D(3) in blast)
  then have count: "int (length (transactions s)) = int (length (transactions s')) + removed" using D(2) by simp
  have clear: "\<forall>t \<in> set (transactions s'). tx_org_id t = org \<longrightarrow> tx_recurring_id t \<noteq> Some rid"
  proof (intro ballI impI)
    fix t assume t: "t \<in> set (transactions s')" "tx_org_id t = org"
    from t(1) obtain x where x: "t = ?f x" unfolding T set_map by (rule imageE)
    show "tx_recurring_id t \<noteq> Some rid"
      by (cases "tx_org_id x = org") (use t(2) x in \<open>simp_all add: clear_series_def split: if_splits\<close>)
  qed
  have off: "\<exists>r. find_template s' rid org = Some r \<and> \<not> r_is_active r" using ft by simp
  have survive: "\<forall>t \<in> set (transactions s). tx_org_id t \<noteq> org \<or> \<not> pending_of_series rid today t \<longrightarrow>
      tx_id t \<in> tx_id ` set (transactions s')"
  proof (intro ballI impI)
    fix t assume t: "t \<in> set (transactions s)" "tx_org_id t \<noteq> org \<or> \<not> pending_of_series rid today t"
    with D(3) have "t \<notin> set D" by blast
    with keep[OF t(1)] show "tx_id t \<in> tx_id ` set (transactions s')" by (rule iffD2)
  qed
  have whole: "\<forall>t \<in> set (transactions s). \<forall>p \<in> set (transactions s).
       tx_linked t = Some (tx_id p) \<and> tx_linked p = Some (tx_id t) \<longrightarrow>
       (tx_id t \<in> tx_id ` set (transactions s') \<longleftrightarrow> tx_id p \<in> tx_id ` set (transactions s'))"
  proof (intro ballI impI)
    fix t p assume tp: "t \<in> set (transactions s)" "p \<in> set (transactions s)"
      and m: "tx_linked t = Some (tx_id p) \<and> tx_linked p = Some (tx_id t)"
    have "mutual t p" using m by (simp add: mutual_def)
    with D(4) tp have "t \<in> set D \<longleftrightarrow> p \<in> set D" by blast
    then show "tx_id t \<in> tx_id ` set (transactions s') \<longleftrightarrow> tx_id p \<in> tx_id ` set (transactions s')"
      by (simp only: keep[OF tp(1)] keep[OF tp(2)] not_not)
  qed
  show ?thesis using stop_keeps[OF assms(2,1)] off clear survive whole count by (intro conjI)
qed

theorem stop_recurring_effect_witness:
  "\<exists>s' demoted. stop_recurring series_store 1 21 (date_of 2025 3 9) = Inr (s', 2, demoted) \<and>
    accounts s' = accounts series_store"
proof -
  let ?g = "stop_recurring series_store 1 21 (date_of 2025 3 9)"
  have "\<not> isl ?g \<and> fst (snd (projr ?g)) = 2" by code_simp
  then obtain s' demoted where g: "?g = Inr (s', 2, demoted)" by (cases ?g) auto
  from stop_recurring_effect[OF series_full g] g show ?thesis by blast
qed

text \<open>C20: deleting a series is refused only when the organisation has no such template: an active one
  is deleted as well, although the docstring of \<open>delete_recurring\<close> says it must be stopped first.
  The template is gone, no row of any organisation names it, and no balance moves.\<close>

theorem delete_recurring_any_template:
  assumes "full_inv s"
  shows "case delete_recurring s org rid today of
      Inl e \<Rightarrow> find_template s rid org = None \<and> e = NotFoundError ''Recurring transaction''
    | Inr (s', removed, demoted) \<Rightarrow> find_template s rid org \<noteq> None \<and> full_inv s' \<and> accounts s' = accounts s \<and>
        (\<forall>r \<in> set (templates s'). r_id r \<noteq> rid) \<and>
        (\<forall>t \<in> set (transactions s'). tx_recurring_id t \<noteq> Some rid)"
proof (cases "find_template s rid org")
  case None
  then show ?thesis by (simp add: delete_recurring_def)
next
  case (Some r)
  obtain s1 n dem where rm: "remove_pending_transactions s org rid today = (s1, n, dem)" by (metis surj_pair)
  let ?s = "s1\<lparr>templates := filter (\<lambda>r. r_id r \<noteq> rid) (templates s1), transactions := map (clear_series rid) (transactions s1)\<rparr>"
  have d: "delete_recurring s org rid today = Inr (?s, n, dem)" by (simp add: delete_recurring_def Some rm)
  have "tx_recurring_id t \<noteq> Some rid" if t: "t \<in> set (transactions ?s)" for t
  proof -
    from t obtain x where "t = clear_series rid x" by auto
    then show ?thesis by (simp add: clear_series_def)
  qed
  then show ?thesis using delete_recurring_keeps[OF d assms] Some by (simp add: d)
qed

theorem delete_recurring_any_template_witness:
  "\<exists>s' removed demoted. delete_recurring series_store 1 20 (date_of 2025 3 9) = Inr (s', removed, demoted) \<and>
    r_is_active sample_template \<and> (\<forall>r \<in> set (templates s'). r_id r \<noteq> 20)"
proof -
  have "find_template series_store 20 1 \<noteq> None" "r_is_active sample_template" by code_simp+
  with delete_recurring_any_template[OF series_full, of 20 1 "date_of 2025 3 9"] show ?thesis
    by (cases "delete_recurring series_store 1 20 (date_of 2025 3 9)") auto
qed

end
