(* ===== verification/SeriesEditProps.thy ===== *)
theory SeriesEditProps
  imports SeriesEditKeep SeriesProps
begin

text \<open>
  The properties of editing a series: what an edit leaves alone, where a resumed series
  continues, and what a moved frontier has to clear.
\<close>

section \<open>Dates and series of the rows\<close>

definition series_cols :: "store \<Rightarrow> (int \<times> int \<times> int option \<times> date) list" where
  "series_cols s = map (\<lambda>t. (tx_id t, tx_org_id t, tx_recurring_id t, tx_date t)) (transactions s)"

lemma series_cols_rows:
  "(\<And>t. (tx_id (f t), tx_org_id (f t), tx_recurring_id (f t), tx_date (f t)) = (tx_id t, tx_org_id t, tx_recurring_id t, tx_date t))
    \<Longrightarrow> series_cols (update_rows sel f s) = series_cols s"
  by (simp add: series_cols_def comp_def)

lemma series_cols_templates [simp]: "series_cols (update_templates sel f s) = series_cols s"
  by (simp add: series_cols_def)

lemma series_cols_propagate:
  assumes "sf_date_move fs = None"
  shows "series_cols (propagate_fields_to_series org rid fs s) = series_cols s"
proof -
  have f: "series_cols (update_rows sel (\<lambda>t. t\<lparr>tx_description := v\<rparr>) s) = series_cols s"
    "series_cols (update_rows sel (\<lambda>t. t\<lparr>tx_category_id := c\<rparr>) s) = series_cols s"
    "series_cols (update_rows sel (\<lambda>t. t\<lparr>tx_account_id := c\<rparr>) s) = series_cols s"
    "series_cols (update_rows sel (\<lambda>t. t\<lparr>tx_amount := a\<rparr>) s) = series_cols s" for sel v c a s
    by (rule series_cols_rows; simp)+
  have 1: "series_cols (propagate_description org rid fs s) = series_cols s"
    "series_cols (propagate_category org rid fs s) = series_cols s"
    "series_cols (propagate_account org rid fs s) = series_cols s"
    "series_cols (propagate_template_values org rid fs s) = series_cols s"
    "series_cols (propagate_amount org rid fs s) = series_cols s"
    "series_cols (guarded_sync org rid fs s) = series_cols s" for s
    by (simp_all add: propagate_description_def propagate_category_def propagate_account_def propagate_template_values_def
        propagate_amount_def guarded_sync_def guarded_field_def write_targets_def Let_def f split: option.splits)
  show ?thesis by (simp add: propagate_fields_to_series_def Let_def assms 1)
qed

lemma series_cols_put:
  assumes "distinct (map tx_id (transactions s))" "t \<in> set (transactions s)"
    "(tx_id u, tx_org_id u, tx_recurring_id u, tx_date u) = (tx_id t, tx_org_id t, tx_recurring_id t, tx_date t)"
  shows "series_cols (put_transaction u s) = series_cols s"
proof -
  have "(\<lambda>r. (tx_id r, tx_org_id r, tx_recurring_id r, tx_date r)) (if tx_id x = tx_id u then u else x) =
      (tx_id x, tx_org_id x, tx_recurring_id x, tx_date x)" if "x \<in> set (transactions s)" for x
    using key_unique[OF assms(1) that assms(2)] assms(3) by auto
  then show ?thesis by (simp add: series_cols_def update_row_def)
qed

lemma series_cols_ids: "series_cols s' = series_cols s \<Longrightarrow> map tx_id (transactions s') = map tx_id (transactions s)"
proof -
  have "map tx_id (transactions x) = map fst (series_cols x)" for x by (simp add: series_cols_def)
  then show "series_cols s' = series_cols s \<Longrightarrow> map tx_id (transactions s') = map tx_id (transactions s)" by simp
qed

definition leg_cols :: "transaction \<Rightarrow> transaction \<Rightarrow> bool" where
  "leg_cols u t \<longleftrightarrow> (tx_id u, tx_org_id u, tx_recurring_id u, tx_date u) = (tx_id t, tx_org_id t, tx_recurring_id t, tx_date t)"

lemma sync_legs_cols: "leg_cols (fst (sync_legs r0 r p)) (fst p) \<and> leg_cols (snd (sync_legs r0 r p)) (snd p)"
proof -
  let ?k = "\<lambda>q. leg_cols (fst q) (fst p) \<and> leg_cols (snd q) (snd p)"
  have "?k p" by (simp add: leg_cols_def)
  moreover have "?k (sync_amount r0 r q)" "?k (sync_category r0 r q)" "?k (map_prod (sync_name r0 r) (sync_name r0 r) q)"
    "?k (sync_source r0 r q)" "?k (sync_destination r0 r q)" if "?k q" for q
    using that by (auto simp: leg_cols_def sync_amount_def sync_category_def sync_name_def sync_source_def
        sync_destination_def case_prod_beta split: option.splits)
  ultimately show ?thesis unfolding sync_legs_def by blast
qed

lemma sync_pair_cols:
  assumes "distinct (map tx_id (transactions s))"
  shows "series_cols (sync_pair r0 r ids i s) = series_cols s"
proof -
  have "series_cols (put_transaction q' (put_transaction e' s)) = series_cols s"
    if "row_by tx_id (transactions s) i = Some e" "row_by tx_id (transactions s) j = Some q"
      "sync_legs r0 r (e, q) = (e', q')" for e q j e' q'
  proof -
    note e = row_by_Some[OF that(1)] and q = row_by_Some[OF that(2)]
    have c: "leg_cols e' e" "leg_cols q' q" using sync_legs_cols[of r0 r "(e, q)"] that(3) by simp_all
    have 1: "series_cols (put_transaction e' s) = series_cols s"
      by (rule series_cols_put[OF assms, of e]) (use e c in \<open>simp_all add: leg_cols_def\<close>)
    have d: "distinct (map tx_id (transactions (put_transaction e' s)))" using assms series_cols_ids[OF 1] by simp
    have "tx_id q \<in> set (map tx_id (transactions (put_transaction e' s)))"
      unfolding series_cols_ids[OF 1] using q by auto
    then obtain x where x: "x \<in> set (transactions (put_transaction e' s))" "tx_id x = tx_id q" by auto
    have "(tx_id x, tx_org_id x, tx_recurring_id x, tx_date x) \<in> set (series_cols s)"
      unfolding 1[symmetric] series_cols_def[of "put_transaction e' s"] using x(1) by (auto simp del: put_transaction_sel)
    then obtain y where y: "y \<in> set (transactions s)" "(tx_id x, tx_org_id x, tx_recurring_id x, tx_date x) = (tx_id y, tx_org_id y, tx_recurring_id y, tx_date y)"
      by (auto simp: series_cols_def)
    have "y = q" by (rule key_unique[OF assms y(1)]) (use q x(2) y(2) in auto)
    with y c have "series_cols (put_transaction q' (put_transaction e' s)) = series_cols (put_transaction e' s)"
      by (intro series_cols_put[OF d x(1)]) (simp add: leg_cols_def)
    with 1 show ?thesis by simp
  qed
  then show ?thesis by (simp add: sync_pair_def split: option.splits prod.splits)
qed

lemma sync_fold_cols:
  assumes "distinct (map tx_id (transactions s))"
  shows "series_cols (fold (sync_pair r0 r ids) xs s) = series_cols s"
  using assms
proof (induction xs arbitrary: s)
  case (Cons x xs)
  note 1 = sync_pair_cols[OF Cons.prems, of r0 r ids x]
  have "distinct (map tx_id (transactions (sync_pair r0 r ids x s)))" using Cons.prems series_cols_ids[OF 1] by simp
  from Cons.IH[OF this] 1 show ?case by simp
qed simp

lemma update_recurring_cols:
  assumes u: "update_recurring rd s org rid body today = Inr (s', r)" and inv: "full_inv s"
  shows "series_cols s' = series_cols s"
proof -
  from u obtain r0 s2 where s2: "s2 = put_template r s \<or> s2 = propagate_fields_to_series org rid (template_sync_fields r0 r) (put_template r s)"
    and s': "s' = s2 \<or> sync_pending_transfer_pairs s2 org r0 r = Inr s'" by (rule update_recurringE)
  have 1: "series_cols (put_template r s) = series_cols s" by (simp add: series_cols_def put_template_def)
  have "series_cols s2 = series_cols s"
    using s2 1 series_cols_propagate[of "template_sync_fields r0 r" org rid "put_template r s"]
    by (auto simp: template_sync_fields_def)
  moreover have "series_cols s' = series_cols s2" if "sync_pending_transfer_pairs s2 org r0 r = Inr s'"
    using that sync_fold_cols[of s2] series_cols_ids[OF \<open>series_cols s2 = series_cols s\<close>] full_invD(7)[OF inv]
    by (auto simp: sync_pending_transfer_pairs_def rbind_eq_Inr Let_def)
  ultimately show ?thesis using s' by auto
qed

section \<open>The stored template\<close>

lemma update_templates_fix:
  "r \<in> set (templates s) \<Longrightarrow> (sel r \<Longrightarrow> f r = r) \<Longrightarrow> r \<in> set (templates (update_templates sel f s))"
  unfolding update_templates_sel set_map by (rule image_eqI[of _ _ r]) simp_all

lemma propagate_templates:
  assumes r: "r \<in> set (templates s)" and m: "sf_date_move fs = None"
    and f: "\<And>v. sf_description fs = Some v \<Longrightarrow> v = r_description r" "\<And>v. sf_category_id fs = Some v \<Longrightarrow> v = r_category_id r"
      "\<And>v. sf_account_id fs = Some v \<Longrightarrow> v = r_account_id r" "\<And>v. sf_amount fs = Some v \<Longrightarrow> v = r_amount r"
  shows "r \<in> set (templates (propagate_fields_to_series org rid fs s))"
proof -
  have 1: "r \<in> set (templates (propagate_description org rid fs x))" "r \<in> set (templates (propagate_category org rid fs x))"
    "r \<in> set (templates (propagate_account org rid fs x))" "r \<in> set (templates (propagate_template_values org rid fs x))"
    if "r \<in> set (templates x)" for x
  proof -
    note fix_r = update_templates_fix[OF that]
    show "r \<in> set (templates (propagate_description org rid fs x))"
      using f(1) fix_r[of "this_template org rid" "\<lambda>r. r\<lparr>r_description := the (sf_description fs)\<rparr>"] that
      by (cases "sf_description fs") (simp_all add: propagate_description_def Let_def)
    show "r \<in> set (templates (propagate_category org rid fs x))"
      using f(2) fix_r[of "\<lambda>r. this_template org rid r \<and> r_type r = sf_tx_type fs" "\<lambda>r. r\<lparr>r_category_id := the (sf_category_id fs)\<rparr>"] that
      by (cases "sf_category_id fs") (simp_all add: propagate_category_def Let_def)
    show "r \<in> set (templates (propagate_account org rid fs x))"
      using f(3) fix_r[of "\<lambda>r. this_template org rid r \<and> r_type r \<noteq> TRANSFER" "\<lambda>r. r\<lparr>r_account_id := the (sf_account_id fs)\<rparr>"] that
      by (cases "sf_account_id fs") (simp_all add: propagate_account_def Let_def)
    show "r \<in> set (templates (propagate_template_values org rid fs x))"
      unfolding propagate_template_values_def m
      by (rule fix_r) (use f(4) in \<open>simp split: option.splits\<close>)
  qed
  have 2: "templates (propagate_amount org rid fs x) = templates x" "templates (guarded_sync org rid fs x) = templates x" for x
    by (simp_all add: propagate_amount_def guarded_sync_def guarded_field_def write_targets_def Let_def split: option.splits)
  show ?thesis using r by (simp add: propagate_fields_to_series_def Let_def m 1 2)
qed

lemma sync_fold_templates: "templates (fold (sync_pair r0 r ids) xs s) = templates s"
proof (induction xs arbitrary: s)
  case (Cons x xs)
  have "templates (sync_pair r0 r ids x s) = templates s" by (simp add: sync_pair_def split: option.splits prod.splits)
  with Cons show ?case by simp
qed simp

lemma update_recurring_template:
  assumes u: "update_recurring rd s org rid body today = Inr (s', r)" and inv: "full_inv s"
  shows "r \<in> set (templates s')" "r_id r = rid" "r_org_id r = org"
proof -
  from u obtain r0 s2 where r0: "find_template s rid org = Some r0" and e: "edited_template rd s org r0 body today = Inr r"
    and s2: "s2 = put_template r s \<or> s2 = propagate_fields_to_series org rid (template_sync_fields r0 r) (put_template r s)"
    and s': "s' = s2 \<or> sync_pending_transfer_pairs s2 org r0 r = Inr s'" by (rule update_recurringE)
  note id = find_template_Some[OF r0]
  have ok0: "template_ok s r0" using id full_invD(8)[OF inv] by blast
  note ok = edited_template_Inr[OF e ok0 conjunct2[OF conjunct2[OF id]]]
  then show r: "r_id r = rid" "r_org_id r = org" using id by (simp_all add: same_owner_def)
  have 1: "r \<in> set (templates (put_template r s))"
    by (rule put_template_mem[of r0]) (use id r in simp_all)
  have "r \<in> set (templates (propagate_fields_to_series org rid (template_sync_fields r0 r) (put_template r s)))"
    by (rule propagate_templates[OF 1]) (auto simp: template_sync_fields_def changed_def split: if_splits)
  with s2 1 have "r \<in> set (templates s2)" by blast
  with s' sync_fold_templates show "r \<in> set (templates s')"
    by (auto simp: sync_pending_transfer_pairs_def rbind_eq_Inr Let_def)
qed

section \<open>History\<close>

text \<open>C21: editing a template keeps every invariant, moves no balance, and never touches history: the
  rows that are not pending are afterwards the same rows, in the same order. The edited template
  is stored under its old identity.\<close>

theorem update_recurring_keeps_history:
  assumes "full_inv s" and "update_recurring rd s org rid body today = Inr (s', r)"
  shows "full_inv s' \<and> accounts s' = accounts s \<and>
    filter (\<lambda>t. tx_status t \<noteq> PENDING) (transactions s') = filter (\<lambda>t. tx_status t \<noteq> PENDING) (transactions s) \<and>
    r \<in> set (templates s') \<and> r_id r = rid \<and> r_org_id r = org"
  using update_recurring_edits[OF assms(2,1)] update_recurring_template[OF assms(2,1)]
  by (simp add: edited_from_def settled_rows_def)

definition no_change :: recurring_update where
  "no_change = \<lparr>ru_account_id = None, ru_to_account_id = None, ru_category_id = None, ru_description = None,
     ru_amount = None, ru_type = None, ru_frequency = None, ru_next_due_date = None, ru_auto_settle = None,
     ru_is_active = None, ru_occurrence_count = None\<rparr>"

theorem update_recurring_keeps_history_witness:
  "\<exists>s' r. update_recurring civil_add series_store 1 21 (no_change\<lparr>ru_amount := Some 60\<rparr>) (date_of 2025 3 9) = Inr (s', r) \<and>
    accounts s' = accounts series_store \<and> list_ex (\<lambda>t. tx_id t = 30 \<and> tx_amount t = 60) (transactions s')"
proof -
  let ?g = "update_recurring civil_add series_store 1 21 (no_change\<lparr>ru_amount := Some 60\<rparr>) (date_of 2025 3 9)"
  have "\<not> isl ?g \<and> list_ex (\<lambda>t. tx_id t = 30 \<and> tx_amount t = 60) (transactions (fst (projr ?g)))" by code_simp
  then obtain s' r where g: "?g = Inr (s', r)" "list_ex (\<lambda>t. tx_id t = 30 \<and> tx_amount t = 60) (transactions s')"
    by (cases ?g) auto
  from update_recurring_keeps_history[OF series_full g(1)] g show ?thesis by blast
qed

section \<open>Resuming\<close>

context relativedelta_lib
begin

lemma reanchor_walk_grid:
  assumes "reanchor_walk n rd p_start r = Inr r'"
  shows "\<exists>k \<le> n. grid rd (r_frequency r) (r_next_due_date r) k = Some (r_next_due_date r') \<and>
    (\<forall>j d. j < k \<longrightarrow> grid rd (r_frequency r) (r_next_due_date r) j = Some d \<longrightarrow> d < p_start) \<and>
    (p_start \<le> r_next_due_date r' \<or> k = n)"
  using assms
proof (induction n arbitrary: r)
  case (Suc n)
  show ?case
  proof (cases "r_next_due_date r < p_start")
    case True
    with Suc.prems obtain d where a: "advance_date rd (r_next_due_date r) (r_frequency r) = Some d"
      and w: "reanchor_walk n rd p_start (r\<lparr>r_next_due_date := d\<rparr>) = Inr r'"
      by (auto split: option.splits)
    have nx: "next_occurrence rd (r_next_due_date r) (r_frequency r) = Some d" using a by (simp add: next_occurrence_eq)
    from Suc.IH[OF w] obtain k where k: "k \<le> n" "grid rd (r_frequency r) d k = Some (r_next_due_date r')"
      "\<forall>j e. j < k \<longrightarrow> grid rd (r_frequency r) d j = Some e \<longrightarrow> e < p_start" "p_start \<le> r_next_due_date r' \<or> k = n" by auto
    have "e < p_start" if "j < Suc k" "grid rd (r_frequency r) (r_next_due_date r) j = Some e" for j e
      using that k(3) True nx by (cases j) auto
    with k nx show ?thesis by (intro exI[of _ "Suc k"]) auto
  next
    case False
    with Suc.prems show ?thesis by (intro exI[of _ 0]) auto
  qed
qed simp

end

text \<open>C22: resuming a series never hands generation the paused gap. The re-anchored frontier is the
  first date of the template's own grid that is not before the start of the current cycle, so a
  frontier already there does not move; nothing else of the template changes, the instalment counter
  included. Only a frontier more than 1200 steps behind is left short of the cycle.\<close>

theorem resume_reanchors_on_grid:
  assumes "relativedelta_lib rd" and "reanchor_frontier_on_resume rd s org r today = Inr r'"
  shows "\<exists>p_start k. frontier_lower_bound rd s org today = Inr p_start \<and> k \<le> 1200 \<and>
    r' = r\<lparr>r_next_due_date := r_next_due_date r'\<rparr> \<and>
    grid rd (r_frequency r) (r_next_due_date r) k = Some (r_next_due_date r') \<and>
    (\<forall>j d. j < k \<longrightarrow> grid rd (r_frequency r) (r_next_due_date r) j = Some d \<longrightarrow> d < p_start) \<and>
    (p_start \<le> r_next_due_date r' \<or> k = 1200)"
proof -
  from assms(2) obtain ps where p: "frontier_lower_bound rd s org today = Inr ps"
    and w: "reanchor_walk 1200 rd ps r = Inr r'"
    by (auto simp: reanchor_frontier_on_resume_def rbind_eq_Inr MAX_FRONTIER_ADVANCE_STEPS_def)
  from reanchor_walk_Inr[OF w] have "r' = r\<lparr>r_next_due_date := r_next_due_date r'\<rparr>" by auto
  with p relativedelta_lib.reanchor_walk_grid[OF assms(1) w] show ?thesis by blast
qed

theorem resume_reanchors_on_grid_witness:
  "\<exists>r'. reanchor_frontier_on_resume civil_add series_store 1 (sample_template\<lparr>r_next_due_date := date_of 2025 1 31\<rparr>) (date_of 2025 9 10) = Inr r' \<and>
    r_next_due_date r' = date_of 2025 8 28 \<and> r_occurrences_elapsed r' = 1"
proof -
  let ?r = "sample_template\<lparr>r_next_due_date := date_of 2025 1 31\<rparr>"
  let ?g = "reanchor_frontier_on_resume civil_add series_store 1 ?r (date_of 2025 9 10)"
  have "\<not> isl ?g \<and> r_next_due_date (projr ?g) = date_of 2025 8 28 \<and> r_occurrences_elapsed ?r = 1" by code_simp
  then obtain r' where g: "?g = Inr r'" "r_next_due_date r' = date_of 2025 8 28" "r_occurrences_elapsed ?r = 1" by (cases ?g) auto
  from resume_reanchors_on_grid[OF civil.relativedelta_lib_axioms g(1)]
  have "r' = ?r\<lparr>r_next_due_date := r_next_due_date r'\<rparr>" by blast
  then have "r_occurrences_elapsed r' = r_occurrences_elapsed (?r\<lparr>r_next_due_date := r_next_due_date r'\<rparr>)" by (rule arg_cong)
  with g show ?thesis by simp
qed

section \<open>Moving the frontier\<close>

lemma check_frontier_Inr:
  assumes "check_frontier_clears_series rd s org r old = Inr ()"
  shows "\<forall>t \<in> set (transactions s). tx_org_id t = org \<and> tx_recurring_id t = Some (r_id r) \<longrightarrow> tx_date t < r_next_due_date r"
    "\<forall>d. r_last_spent_date r = Some d \<longrightarrow> d < r_next_due_date r"
proof -
  let ?dates = "map tx_date (filter (\<lambda>t. tx_org_id t = org \<and> tx_recurring_id t = Some (r_id r)) (transactions s))"
  from assms obtain spent where spent: "spent_dates r old = Inr spent"
    and c: "(if ?dates @ spent = [] then Inr () else clears_bound rd r old (Max (set (?dates @ spent)))) = Inr ()"
    unfolding check_frontier_clears_series_def Let_def rbind_eq_Inr by blast
  have sp: "\<forall>d. r_last_spent_date r = Some d \<longrightarrow> d \<in> set spent" using spent by (auto simp: spent_dates_def)
  have lt: "Max (set (?dates @ spent)) < r_next_due_date r" if "?dates @ spent \<noteq> []"
  proof -
    have "clears_bound rd r old (Max (set (?dates @ spent))) = Inr ()" using c that by (simp only: if_False)
    moreover have "clears_bound rd r old b = Inr () \<Longrightarrow> b < r_next_due_date r" for b
      by (auto simp: clears_bound_def Let_def split: option.splits if_splits)
    ultimately show ?thesis by blast
  qed
  have "d < r_next_due_date r" if "d \<in> set (?dates @ spent)" for d
  proof -
    from that have "?dates @ spent \<noteq> []" by (metis empty_iff empty_set)
    with lt have "Max (set (?dates @ spent)) < r_next_due_date r" by blast
    moreover have "d \<le> Max (set (?dates @ spent))" using that by (intro Max_ge) auto
    ultimately show ?thesis by simp
  qed
  then show "\<forall>t \<in> set (transactions s). tx_org_id t = org \<and> tx_recurring_id t = Some (r_id r) \<longrightarrow> tx_date t < r_next_due_date r"
    "\<forall>d. r_last_spent_date r = Some d \<longrightarrow> d < r_next_due_date r"
    using sp by auto
qed

text \<open>An edit that moves the next due date is accepted only when the new frontier is after every row
  of the series and after the last occurrence generation spent; so generation finds no occurrence at
  or after it and can neither duplicate nor swallow one.\<close>

theorem moved_frontier_clears_series:
  assumes "full_inv s" and "update_recurring rd s org rid body today = Inr (s', r)"
    and "ru_next_due_date body \<noteq> None"
    and "find_template s rid org = Some r0" and "r_next_due_date r \<noteq> r_next_due_date r0"
  shows "(\<forall>t \<in> set (transactions s'). tx_org_id t = org \<and> tx_recurring_id t = Some rid \<longrightarrow> tx_date t < r_next_due_date r) \<and>
    (\<forall>d. r_last_spent_date r = Some d \<longrightarrow> d < r_next_due_date r) \<and>
    (\<forall>d. r_next_due_date r \<le> d \<longrightarrow> \<not> occurrence_exists s' org rid d)"
proof -
  note t = update_recurring_template[OF assms(2,1)]
  from assms(2,4) have "edited_template rd s org r0 body today = Inr r"
    by (auto simp: update_recurring_def rbind_eq_Inr Let_def split: if_splits)
  with assms(3,5) have "check_frontier_clears_series rd s org r (r_next_due_date r0) = Inr ()"
    by (auto simp: edited_template_def rbind_eq_Inr Let_def split: if_splits)
  note c = check_frontier_Inr[OF this]
  have rows: "tx_date x < r_next_due_date r"
    if "x \<in> set (transactions s')" "tx_org_id x = org" "tx_recurring_id x = Some rid" for x
  proof -
    have "(tx_id x, tx_org_id x, tx_recurring_id x, tx_date x) \<in> set (series_cols s)"
      unfolding update_recurring_cols[OF assms(2,1), symmetric] series_cols_def[of s'] using that(1) by auto
    then obtain y where "y \<in> set (transactions s)" "tx_org_id y = tx_org_id x" "tx_recurring_id y = tx_recurring_id x" "tx_date y = tx_date x"
      by (auto simp: series_cols_def)
    with c(1) that t(2) show ?thesis by metis
  qed
  moreover have "\<not> occurrence_exists s' org rid d" if "r_next_due_date r \<le> d" for d
    using rows that by (auto simp: occurrence_exists_def list_ex_iff not_le dest!: leD)
  ultimately show ?thesis using c(2) by blast
qed

theorem moved_frontier_clears_series_witness:
  "\<exists>s' r. update_recurring civil_add series_store 1 20 (no_change\<lparr>ru_next_due_date := Some (date_of 2025 5 28)\<rparr>) (date_of 2025 3 9) = Inr (s', r) \<and>
    (\<forall>d. date_of 2025 5 28 \<le> d \<longrightarrow> \<not> occurrence_exists s' 1 20 d)"
proof -
  let ?b = "no_change\<lparr>ru_next_due_date := Some (date_of 2025 5 28)\<rparr>"
  let ?g = "update_recurring civil_add series_store 1 20 ?b (date_of 2025 3 9)"
  have "\<not> isl ?g \<and> r_next_due_date (snd (projr ?g)) = date_of 2025 5 28 \<and> r_next_due_date sample_template \<noteq> date_of 2025 5 28 \<and>
    find_template series_store 20 1 = Some sample_template" by code_simp
  then obtain s' r where g: "?g = Inr (s', r)" "r_next_due_date r = date_of 2025 5 28" "r_next_due_date sample_template \<noteq> date_of 2025 5 28"
    "find_template series_store 20 1 = Some sample_template" by (cases ?g) auto
  have "ru_next_due_date ?b \<noteq> None" by simp
  from moved_frontier_clears_series[OF series_full g(1) this g(4)] g show ?thesis by auto
qed

end
