(* ===== verification/TxUpdateProps.thy ===== *)
theory TxUpdateProps
  imports TxUpdateKeep SeriesEditProps
begin

text \<open>
  What editing and promoting a transaction guarantee: history stays, a transfer pair stays a
  pair, a duplicate moves no money, and a "this and future" date move maps the series' grid
  onto the new date's grid step by step.
\<close>

section \<open>The sync leaves the edited row\<close>

lemma update_rows_fix:
  "t \<in> set (transactions s) \<Longrightarrow> (sel t \<Longrightarrow> f t = t) \<Longrightarrow> t \<in> set (transactions (update_rows sel f s))"
  by (auto simp: image_iff intro: bexI[of _ t])

lemma write_targets_fix:
  "t \<in> set (transactions s) \<Longrightarrow> tx_id t \<notin> set (map tx_id ts) \<Longrightarrow> t \<in> set (transactions (write_targets org ts f s))"
  unfolding write_targets_def by (rule update_rows_fix) auto

lemma fold_moves_fix:
  "t \<in> set (transactions s) \<Longrightarrow> tx_id t \<notin> set (map fst ms) \<Longrightarrow> t \<in> set (transactions (fold (apply_move org) ms s))"
proof (induction ms arbitrary: s)
  case (Cons m ms)
  then have "t \<in> set (transactions (apply_move org m s))"
    unfolding apply_move_def by (cases m) (simp only: prod.case, rule update_rows_fix, auto)
  with Cons show ?case by simp
qed simp

definition no_was :: "series_fields \<Rightarrow> bool" where
  "no_was fs \<longleftrightarrow> sf_description_was fs = None \<and> sf_category_was fs = None \<and> sf_account_was fs = None"

lemma guarded_field_none: "guarded_field org ts v None sel f s = s"
  by (cases v) (simp_all add: guarded_field_def)

lemma guarded_sync_none: "no_was fs \<Longrightarrow> guarded_sync org rid fs s = s"
  by (simp add: guarded_sync_def guarded_field_none no_was_def Let_def)

lemma propagate_keeps_row:
  assumes t: "t \<in> set (transactions s)" and w: "no_was fs"
    and d: "\<And>v. sf_description fs = Some v \<Longrightarrow> tx_status t = PENDING \<Longrightarrow> v = tx_description t"
    and c: "\<And>v. sf_category_id fs = Some v \<Longrightarrow> v = tx_category_id t \<or> tx_linked t \<noteq> None \<or> tx_status t \<noteq> PENDING"
    and a: "\<And>v. sf_account_id fs = Some v \<Longrightarrow> v = tx_account_id t \<or> tx_linked t \<noteq> None \<or> tx_status t \<noteq> PENDING"
    and x: "sf_exclude_id fs = Some (tx_id t) \<or> sf_amount fs = None"
    and m: "\<And>m. sf_date_move fs = Some m \<Longrightarrow> tx_id t \<notin> set (map fst (sm_moves m))"
  shows "t \<in> set (transactions (propagate_fields_to_series org rid fs s))"
proof -
  have 1: "t \<in> set (transactions (propagate_description org rid fs y))" if "t \<in> set (transactions y)" for y
  proof (cases "sf_description fs")
    case (Some v)
    have "t \<in> set (transactions (update_rows (pending_sibling org rid) (\<lambda>t. t\<lparr>tx_description := v\<rparr>)
        (update_templates (this_template org rid) (\<lambda>r. r\<lparr>r_description := v\<rparr>) y)))"
      by (rule update_rows_fix) (use that d[OF Some] in \<open>simp_all add: pending_sibling_def\<close>)
    with Some w show ?thesis by (simp only: propagate_description_def Let_def option.case no_was_def) simp
  qed (use that in \<open>simp add: propagate_description_def\<close>)
  have 2: "t \<in> set (transactions (propagate_category org rid fs y))" if "t \<in> set (transactions y)" for y
  proof (cases "sf_category_id fs")
    case (Some v)
    have "t \<in> set (transactions (update_rows (\<lambda>t. pending_sibling org rid t \<and> tx_type t = sf_tx_type fs \<and> tx_linked t = None)
        (\<lambda>t. t\<lparr>tx_category_id := v\<rparr>)
        (update_templates (\<lambda>r. this_template org rid r \<and> r_type r = sf_tx_type fs) (\<lambda>r. r\<lparr>r_category_id := v\<rparr>) y)))"
      by (rule update_rows_fix) (use that c[OF Some] in \<open>auto simp: pending_sibling_def\<close>)
    with Some w show ?thesis by (simp only: propagate_category_def Let_def option.case no_was_def) simp
  qed (use that in \<open>simp add: propagate_category_def\<close>)
  have 3: "t \<in> set (transactions (propagate_account org rid fs y))" if "t \<in> set (transactions y)" for y
  proof (cases "sf_account_id fs")
    case (Some v)
    have "t \<in> set (transactions (update_rows (\<lambda>t. pending_sibling org rid t \<and> tx_linked t = None) (\<lambda>t. t\<lparr>tx_account_id := v\<rparr>)
        (update_templates (\<lambda>r. this_template org rid r \<and> r_type r \<noteq> TRANSFER) (\<lambda>r. r\<lparr>r_account_id := v\<rparr>) y)))"
      by (rule update_rows_fix) (use that a[OF Some] in \<open>auto simp: pending_sibling_def\<close>)
    with Some w show ?thesis by (simp only: propagate_account_def Let_def option.case no_was_def) simp
  qed (use that in \<open>simp add: propagate_account_def\<close>)
  have 4: "t \<in> set (transactions (propagate_amount org rid fs y))" if "t \<in> set (transactions y)" for y
  proof (cases "sf_amount fs")
    case (Some v)
    with x have "tx_id t \<notin> set (map tx_id (filter P (series_sync_targets y org rid ty (sf_exclude_id fs) af)))" for P ty af
      by (auto simp: series_sync_targets_def)
    then show ?thesis unfolding propagate_amount_def Some option.case by (rule write_targets_fix[OF that])
  qed (use that in \<open>simp add: propagate_amount_def\<close>)
  have 5: "t \<in> set (transactions (propagate_template_values org rid fs y))" if "t \<in> set (transactions y)" for y
    using that by (simp add: propagate_template_values_def)
  show ?thesis
    unfolding propagate_fields_to_series_def Let_def guarded_sync_none[OF w]
    using 1[OF t, THEN 2, THEN 3] 1[OF t, THEN 2, THEN 3, THEN 4] 1[OF t, THEN 2, THEN 3, THEN 5, THEN 4] fold_moves_fix m
    by (simp split: option.splits)
qed

lemma propagate_linked_row:
  assumes t: "t \<in> set (transactions s)" "tx_linked t \<noteq> None" and w: "no_was fs" "sf_amount fs = None" "sf_date_move fs = None"
  shows "\<exists>d. t\<lparr>tx_description := d\<rparr> \<in> set (transactions (propagate_fields_to_series org rid fs s))"
proof -
  let ?fs = "fs\<lparr>sf_description := None\<rparr>" and ?s = "propagate_description org rid fs s"
  have ws: "no_was ?fs" using w(1) by (simp add: no_was_def)
  have "propagate_category org rid ?fs x = propagate_category org rid fs x" for x
    by (cases "sf_category_id fs") (use w(1) in \<open>simp_all add: propagate_category_def no_was_def Let_def\<close>)
  moreover have "propagate_account org rid ?fs x = propagate_account org rid fs x" for x
    by (cases "sf_account_id fs") (use w(1) in \<open>simp_all add: propagate_account_def no_was_def Let_def\<close>)
  moreover have "propagate_description org rid ?fs x = x" for x by (simp add: propagate_description_def)
  ultimately have eq: "propagate_fields_to_series org rid fs s = propagate_fields_to_series org rid ?fs ?s"
    by (simp add: propagate_fields_to_series_def Let_def guarded_sync_none[OF w(1)] guarded_sync_none[OF ws] w propagate_amount_def)
  have "\<exists>d. t\<lparr>tx_description := d\<rparr> \<in> set (transactions ?s)"
  proof (cases "sf_description fs")
    case None
    with t show ?thesis by (intro exI[of _ "tx_description t"]) (simp add: propagate_description_def)
  next
    case (Some v)
    then have "transactions ?s = map (\<lambda>t. if pending_sibling org rid t then t\<lparr>tx_description := v\<rparr> else t) (transactions s)"
      using w(1) by (simp add: propagate_description_def no_was_def Let_def)
    with t(1) have "(if pending_sibling org rid t then t\<lparr>tx_description := v\<rparr> else t) \<in> set (transactions ?s)" by auto
    then show ?thesis by (cases "pending_sibling org rid t") (auto intro: exI[of _ v] exI[of _ "tx_description t"])
  qed
  then obtain d where d: "t\<lparr>tx_description := d\<rparr> \<in> set (transactions ?s)" ..
  have "t\<lparr>tx_description := d\<rparr> \<in> set (transactions (propagate_fields_to_series org rid ?fs ?s))"
    by (rule propagate_keeps_row[OF d ws]) (use t(2) w in simp_all)
  then show ?thesis unfolding eq by blast
qed

lemma occurrence_fields_no_was: "no_was (occurrence_sync_fields body t u scope)"
  by (simp add: no_was_def occurrence_sync_fields_def)

lemma sync_series_keeps_edited:
  assumes "u \<in> set (transactions s2)" "same_key u t" "future_scope rd s org body t today = Inr scope"
  shows "u \<in> set (transactions (sync_series org body t u scope s2))"
proof (cases "tx_recurring_id u")
  case (Some rid)
  have "u \<in> set (transactions (propagate_fields_to_series org rid (occurrence_sync_fields body t u scope) s2))"
  proof (rule propagate_keeps_row[OF assms(1) occurrence_fields_no_was])
    fix m assume "sf_date_move (occurrence_sync_fields body t u scope) = Some m"
    then obtain r where sc: "scope = Some (r, Some m)" by (auto simp: occurrence_sync_fields_def split: option.splits)
    from future_scope_Some(5)[OF assms(3)[unfolded sc] refl] obtain d
      where pl: "plan_series_date_move rd s org r (tx_id t) (tx_date t) d (tx_type t) today = Inr m" by blast
    have "tx_id u = tx_id t" using assms(2) by (simp add: same_key_def)
    then show "tx_id u \<notin> set (map fst (sm_moves m))" using plan_moves_targets[OF pl, of "tx_id u"] by blast
  qed (auto simp: occurrence_sync_fields_def changed_def split: if_splits)
  with Some assms(1) show ?thesis by (simp add: sync_series_def Let_def)
qed (use assms(1) in \<open>simp add: sync_series_def\<close>)

definition no_edit :: tx_update where
  "no_edit = \<lparr>tu_account_id = None, tu_category_id = None, tu_description = None, tu_amount = None, tu_type = None,
     tu_status = None, tu_settled_date = None, tu_date = None, tu_future = False\<rparr>"

section \<open>History and balances\<close>

text \<open>C23: editing one transaction keeps every invariant of the ledger, so every balance is still the
  opening balance plus what counts; the returned row is the stored one, under its old id, and never
  settles before it happened; and a row that is not pending changes only when it is the edited row
  or its transfer partner.\<close>

theorem update_transaction_keeps_ledger:
  assumes "full_inv s" and "update_transaction rd s org tid body today = Inr (s', u)"
  shows "full_inv s' \<and> u \<in> set (transactions s') \<and> tx_id u = tid \<and>
    (\<forall>d. tx_settled_date u = Some d \<longrightarrow> tx_date u \<le> d) \<and>
    (\<forall>x \<in> set (transactions s). tx_status x \<noteq> PENDING \<and> tx_id x \<noteq> tid \<and> tx_linked x \<noteq> Some tid \<longrightarrow> x \<in> set (transactions s'))"
  using assms(2,1)
proof (rule update_transaction_steps)
  fix t scope partner' s1 s2
  assume t: "org_row s org tid = Some t" and k: "same_key u t" and s2: "s2 = put_partner partner' (put_transaction u s1)"
    and tr: "transactions s1 = transactions s" and i2: "full_inv s2" and s': "s' = sync_series org body t u scope s2" and ed: "edited_from s' s2"
    and Q: "\<And>p q. pair_partner s org t = Some p \<Longrightarrow> partner' = Some q \<Longrightarrow> same_key q p \<and> tx_status q = tx_status p"
    and none: "pair_partner s org t = None \<longleftrightarrow> partner' = None" and fs: "future_scope rd s org body t today = Inr scope"
    and er: "edited_rows body t (pair_partner s org t) (case scope of None \<Rightarrow> False | Some p \<Rightarrow> snd p \<noteq> None) today = Inr (u, partner')"
  note tm = org_row_Some[OF t]
  have id: "tx_id u = tid" using k tm by (simp add: same_key_def)
  have Q': "\<exists>p. tx_id q = tx_id p \<and> tx_id p \<noteq> tid \<and> p \<in> set (transactions s) \<and> tx_linked p = Some tid" if "partner' = Some q" for q
  proof -
    from that none obtain p where p: "pair_partner s org t = Some p" by (cases "pair_partner s org t") simp_all
    note P = pair_partner_Some[OF assms(1) conjunct1[OF tm] conjunct2[OF conjunct2[OF tm]] p]
    from Q[OF p that] P(1,2,4) tm show ?thesis by (intro exI[of _ p]) (simp add: same_key_def mutual_def)
  qed
  have "u \<in> set (transactions (put_transaction u s1))"
    using put_mem(1)[of t s1 u] tm id by (simp add: tr)
  then have u2: "u \<in> set (transactions s2)"
    unfolding s2 using Q' id put_mem(2)[of u "put_transaction u s1"]
    by (cases partner') (auto simp: put_partner_def simp del: put_transaction_sel)
  then have "u \<in> set (transactions s')" unfolding s' by (rule sync_series_keeps_edited[OF _ k fs])
  moreover have "x \<in> set (transactions s')"
    if x: "x \<in> set (transactions s)" "tx_status x \<noteq> PENDING" "tx_id x \<noteq> tid" "tx_linked x \<noteq> Some tid" for x
  proof -
    have "x \<in> set (transactions (put_transaction u s1))"
      using put_mem(2)[of x s1 u] x id by (simp add: tr)
    moreover have "tx_id x \<noteq> tx_id q" if "partner' = Some q" for q
      using Q'[OF that] key_unique[OF full_invD(7)[OF assms(1)] x(1)] x(4) by metis
    ultimately have "x \<in> set (transactions s2)"
      unfolding s2 using put_mem(2)[of x "put_transaction u s1"] by (cases partner') (simp_all add: put_partner_def del: put_transaction_sel)
    with x(2) have "x \<in> set (settled_rows s2)" by (simp add: settled_rows_def)
    with ed have "x \<in> set (settled_rows s')" by (simp add: edited_from_def)
    then show ?thesis by (simp add: settled_rows_def)
  qed
  moreover have "\<forall>d. tx_settled_date u = Some d \<longrightarrow> tx_date u \<le> d" using edited_rows_Inr(1)[OF er] by auto
  ultimately show ?thesis using ed id by (auto simp: edited_from_def)
qed

theorem update_transaction_keeps_ledger_witness:
  "\<exists>s' u. update_transaction civil_add series_store 1 32 (no_edit\<lparr>tu_amount := Some 640\<rparr>) (date_of 2025 3 9) = Inr (s', u) \<and>
    full_inv s' \<and> tx_amount u = 640 \<and> list_ex (\<lambda>a. acc_id a = 4 \<and> acc_balance a = 1710) (accounts s')"
proof -
  let ?g = "update_transaction civil_add series_store 1 32 (no_edit\<lparr>tu_amount := Some 640\<rparr>) (date_of 2025 3 9)"
  have "\<not> isl ?g \<and> tx_amount (snd (projr ?g)) = 640 \<and> list_ex (\<lambda>a. acc_id a = 4 \<and> acc_balance a = 1710) (accounts (fst (projr ?g)))"
    by code_simp
  then obtain s' u where g: "?g = Inr (s', u)" "tx_amount u = 640" "list_ex (\<lambda>a. acc_id a = 4 \<and> acc_balance a = 1710) (accounts s')"
    by (cases ?g) auto
  from update_transaction_keeps_ledger[OF series_full g(1)] g show ?thesis by blast
qed

lemma sync_series_accounts: "accounts (sync_series org body t u scope s) = accounts s"
proof -
  have ff: "accounts (fold (apply_move org) ms x) = accounts x" for ms x
    by (rule fold_accounts) (simp add: apply_move_def split: prod.splits)
  have "accounts (propagate_description org rid fs x) = accounts x" "accounts (propagate_category org rid fs x) = accounts x"
    "accounts (propagate_account org rid fs x) = accounts x" "accounts (propagate_template_values org rid fs x) = accounts x"
    "accounts (propagate_amount org rid fs x) = accounts x" for rid fs x
    by (simp_all add: propagate_description_def propagate_category_def propagate_account_def propagate_template_values_def
        propagate_amount_def write_targets_def Let_def split: option.splits)
  then show ?thesis
    by (simp add: sync_series_def propagate_fields_to_series_def Let_def guarded_sync_none[OF occurrence_fields_no_was] ff
        split: option.splits)
qed

text \<open>Editing a row whose amount is not in the cached balance (a duplicate matched one-way onto
  another row, a skipped or a rejected one) moves no account, whatever the edit sets: amount, type,
  account and status included.\<close>

theorem update_uncounted_row_moves_nothing:
  assumes "full_inv s" and "org_row s org tid = Some t" and "\<not> balance_contribution_filter (transactions s) t"
    and "\<not> list_ex (mutual t) (transactions s)" and "update_transaction rd s org tid body today = Inr (s', u)"
  shows "accounts s' = accounts s"
  using assms(5,1)
proof (rule update_transaction_steps)
  fix t' scope partner' s1 s2
  assume t': "org_row s org tid = Some t'" and s': "s' = sync_series org body t' u scope s2" and ac: "accounts s1 = accounts s2"
    and m: "move_balances s org body t' u (linked_row s org t') (pair_partner s org t') partner' = Inr s1"
    and none: "pair_partner s org t' = None \<longleftrightarrow> partner' = None"
  have t: "t' = t" using t' assms(2) by simp
  note tm = org_row_Some[OF assms(2)]
  have "pair_partner s org t = None"
  proof (cases "pair_partner s org t")
    case (Some p)
    from pair_partner_Some[OF assms(1) _ _ Some] tm assms(4) show ?thesis by (auto simp: list_ex_iff)
  qed
  moreover have "\<not> contributes_to_cached_balance t (linked_row s org t)"
    using linked_row_target(2)[OF assms(1)] tm assms(3) by simp
  ultimately have "s1 = s" using m none by (simp add: t move_balances_def move_if_def Let_def)
  then show ?thesis using ac by (simp add: s' sync_series_accounts)
qed

theorem update_uncounted_row_moves_nothing_witness:
  "\<exists>s' u. update_transaction civil_add series_store 1 10 (no_edit\<lparr>tu_amount := Some 130, tu_status := Some SETTLED\<rparr>) (date_of 2025 3 9) = Inr (s', u) \<and>
    tx_amount u = 130 \<and> tx_status u = SETTLED \<and> accounts s' = accounts series_store"
proof -
  let ?g = "update_transaction civil_add series_store 1 10 (no_edit\<lparr>tu_amount := Some 130, tu_status := Some SETTLED\<rparr>) (date_of 2025 3 9)"
    and ?t = "transactions series_store ! 4"
  have "\<not> isl ?g \<and> tx_amount (snd (projr ?g)) = 130 \<and> tx_status (snd (projr ?g)) = SETTLED \<and> org_row series_store 1 10 = Some ?t \<and>
    \<not> balance_contribution_filter (transactions series_store) ?t \<and> \<not> list_ex (mutual ?t) (transactions series_store)"
    by code_simp
  then obtain s' u where g: "?g = Inr (s', u)" "tx_amount u = 130" "tx_status u = SETTLED" "org_row series_store 1 10 = Some ?t"
    "\<not> balance_contribution_filter (transactions series_store) ?t" "\<not> list_ex (mutual ?t) (transactions series_store)"
    by (cases ?g) auto
  from update_uncounted_row_moves_nothing[OF series_full g(4,5,6) g(1)] g show ?thesis by blast
qed

section \<open>Transfer pairs\<close>

text \<open>C24: a leg of a transfer is edited together with its partner: afterwards the two rows still link each
  other, have opposite types, equal magnitudes, different accounts and one currency, share the
  category whenever the edit set it, and the partner keeps its own settlement state. A type change of a leg
  never gets through.\<close>

theorem edited_pair_stays_pair:
  assumes "full_inv s" and "org_row s org tid = Some t" and "pair_partner s org t = Some p"
    and "update_transaction rd s org tid body today = Inr (s', u)"
  shows "u \<in> set (transactions s') \<and> tu_type body = None \<and>
    (\<exists>q \<in> set (transactions s'). tx_id q = tx_id p \<and> mutual u q \<and> typed_legs u q \<and> \<bar>tx_amount u\<bar> = \<bar>tx_amount q\<bar> \<and>
      tx_account_id u \<noteq> tx_account_id q \<and> currency_of s' (tx_account_id u) = currency_of s' (tx_account_id q) \<and>
      tx_status q = tx_status p \<and> (tu_category_id body \<noteq> None \<longrightarrow> tx_category_id q = tx_category_id u))"
  using assms(4,1)
proof (rule update_transaction_steps)
  fix t' scope partner' s1 s2
  assume t': "org_row s org tid = Some t'" and k: "same_key u t'" and s2: "s2 = put_partner partner' (put_transaction u s1)"
    and tr: "transactions s1 = transactions s" and s': "s' = sync_series org body t' u scope s2"
    and Q: "\<And>p q. pair_partner s org t' = Some p \<Longrightarrow> partner' = Some q \<Longrightarrow> same_key q p \<and> tx_status q = tx_status p"
    and none: "pair_partner s org t' = None \<longleftrightarrow> partner' = None" and fs: "future_scope rd s org body t' today = Inr scope"
    and pi: "case partner' of None \<Rightarrow> True | Some q \<Rightarrow> pair_invariants s2 u q = Inr ()"
    and er: "edited_rows body t' (pair_partner s org t') (case scope of None \<Rightarrow> False | Some p \<Rightarrow> snd p \<noteq> None) today = Inr (u, partner')"
    and ty: "pair_partner s org t' \<noteq> None \<Longrightarrow> tx_type u = tx_type t'"
    and tq: "\<And>p q. pair_partner s org t' = Some p \<Longrightarrow> partner' = Some q \<Longrightarrow> tx_type q = tx_type p"
  have t: "t' = t" using t' assms(2) by simp
  note par = assms(3) and tm = org_row_Some[OF assms(2)]
  from none par obtain q where q: "partner' = Some q" by (cases partner') (simp_all add: t)
  note P = pair_partner_Some[OF assms(1) conjunct1[OF tm] conjunct2[OF conjunct2[OF tm]] par]
  have qk: "same_key q p" "tx_status q = tx_status p" "tx_type q = tx_type p" using Q[unfolded t, OF par q] tq[unfolded t, OF par q] by simp_all
  have mu: "mutual u q" "typed_legs u q" "tx_linked q \<noteq> None" "tx_id u \<noteq> tx_id q" 
    using P(2,4,7) k[unfolded t] qk ty[unfolded t] par by (simp_all add: mutual_def typed_legs_def same_key_def)
  have cq: "tx_category_id q = tx_category_id u" if "tu_category_id body \<noteq> None"
  proof -
    from edited_rows_Inr(3)[OF er[unfolded t] par q] obtain sd a
      where q1: "q = p\<lparr>tx_category_id := given (tu_category_id body) (tx_category_id p), tx_settled_date := sd, tx_amount := a\<rparr>" by blast
    from edited_rows_Inr(1)[OF er[unfolded t]] obtain sd' where u1: "u = (edited_row body t today)\<lparr>tx_settled_date := sd'\<rparr>" by blast
    show ?thesis using that by (auto simp: q1 u1 given_def)
  qed
  have "q \<in> set (transactions s2)"
    unfolding s2 q put_partner_def option.case
    by (rule put_mem(1)[OF put_mem(2)[of p]]) (use P(1,4) qk(1) k in \<open>simp_all add: tr same_key_def t\<close>)
  moreover have "u \<in> set (transactions s2)"
    unfolding s2 q put_partner_def option.case
    by (rule put_mem(2)[OF put_mem(1)[of t]]) (use tm k mu(4) in \<open>simp_all add: tr same_key_def t\<close>)
  moreover have sc: "scope = None"
    using future_scope_Some(1)[of rd s org body t today] fs P(2) by (cases scope) (auto simp: t mutual_def)
  ultimately have "u \<in> set (transactions s')" "\<exists>d. q\<lparr>tx_description := d\<rparr> \<in> set (transactions s')"
    using sync_series_keeps_edited[OF _ k fs] propagate_linked_row[of q s2 "occurrence_sync_fields body t u None", OF _ mu(3) occurrence_fields_no_was]
    unfolding s' by (auto simp: sync_series_def Let_def t occurrence_sync_fields_def intro: exI[of _ "tx_description q"] split: option.splits)
  then obtain d where d: "q\<lparr>tx_description := d\<rparr> \<in> set (transactions s')" and u: "u \<in> set (transactions s')" by blast
  have "accounts s' = accounts s2" by (simp add: s' sync_series_accounts)
  then have "currency_of s' = currency_of s2" by (simp add: currency_of_def fun_eq_iff)
  with pi have "\<bar>tx_amount u\<bar> = \<bar>tx_amount q\<bar>" "tx_account_id u \<noteq> tx_account_id q" "currency_of s' (tx_account_id u) = currency_of s' (tx_account_id q)"
    by (auto simp: q pair_invariants_def split: if_splits)
  moreover from assms(4) have "tu_type body = None"
    by (rule update_transactionE) (use assms(2) par in \<open>auto simp: leg_guards_def split: if_splits\<close>)
  ultimately show ?thesis using u d mu qk cq
    by (intro conjI bexI[of _ "q\<lparr>tx_description := d\<rparr>"]) (simp_all add: mutual_def typed_legs_def same_key_def)
qed

theorem edited_pair_stays_pair_witness:
  "\<exists>s' u. update_transaction civil_add series_store 1 8 (no_edit\<lparr>tu_amount := Some 180\<rparr>) (date_of 2025 3 9) = Inr (s', u) \<and>
    tx_amount u = 180 \<and> list_ex (\<lambda>q. mutual u q \<and> \<bar>tx_amount q\<bar> = 180) (transactions s')"
proof -
  let ?g = "update_transaction civil_add series_store 1 8 (no_edit\<lparr>tu_amount := Some 180\<rparr>) (date_of 2025 3 9)"
    and ?t = "transactions series_store ! 2" and ?p = "transactions series_store ! 3"
  have "\<not> isl ?g \<and> tx_amount (snd (projr ?g)) = 180 \<and> org_row series_store 1 8 = Some ?t \<and> pair_partner series_store 1 ?t = Some ?p"
    by code_simp
  then obtain s' u where g: "?g = Inr (s', u)" "tx_amount u = 180" "org_row series_store 1 8 = Some ?t" "pair_partner series_store 1 ?t = Some ?p"
    by (cases ?g) auto
  from edited_pair_stays_pair[OF series_full g(3,4,1)] obtain q where
    "q \<in> set (transactions s')" "mutual u q" "\<bar>tx_amount u\<bar> = \<bar>tx_amount q\<bar>" by blast
  with g show ?thesis by (auto simp: list_ex_iff)
qed

section \<open>This and future\<close>

text \<open>Adding days is exact on day numbers.\<close>

lemma div_step:
  assumes "0 < (k::int)"
  shows "y div k = (y - 1) div k + (if y mod k = 0 then 1 else 0)"
proof -
  have y: "y = k * (y div k) + y mod k" "0 \<le> y mod k" "y mod k < k" using assms by simp_all
  show ?thesis
  proof (cases "y mod k = 0")
    case True
    have "(y - 1) div k = y div k - 1" by (rule int_div_pos_eq[of _ _ _ "k - 1"]) (use y True assms in \<open>auto simp: algebra_simps\<close>)
    with True show ?thesis by simp
  next
    case False
    have "(y - 1) div k = y div k" by (rule int_div_pos_eq[of _ _ _ "y mod k - 1"]) (use y False in auto)
    with False show ?thesis by simp
  qed
qed

lemma cases_sum:
  "a = a' + (if P then 1 else 0) \<Longrightarrow> b = b' + (if Q then 1 else 0) \<Longrightarrow> c = c' + (if R then 1 else 0) \<Longrightarrow>
    (R \<longrightarrow> Q) \<Longrightarrow> (Q \<longrightarrow> P) \<Longrightarrow> a - b + c = a' - b' + c' + (if P \<and> (\<not> Q \<or> R) then 1 else (0::int))"
  by (cases P; cases Q; cases R) auto

lemma leap_step:
  "(y::int) div 4 - y div 100 + y div 400 = (y - 1) div 4 - (y - 1) div 100 + (y - 1) div 400 + (if is_leap y then 1 else 0)"
proof -
  have "y mod 400 = 0 \<Longrightarrow> y mod 100 = 0" "y mod 100 = 0 \<Longrightarrow> y mod 4 = 0"
    using dvd_trans[of 100 400 y] dvd_trans[of 4 100 y] by (simp_all add: mod_eq_0_iff_dvd)
  then have "y mod 400 = 0 \<longrightarrow> y mod 100 = 0" "y mod 100 = 0 \<longrightarrow> y mod 4 = 0" by blast+
  from cases_sum[OF div_step div_step div_step this] show ?thesis by (simp only: is_leap_def zero_less_numeral simp_thms)
qed

lemma toordinal_next:
  assumes "next_day d = Some e"
  shows "toordinal e = toordinal d + 1"
proof -
  let ?S = "\<lambda>y m. sum_list (map (days_in_month y) [1 .. m])"
  note b = date_bounds[of d]
  consider (day) "day d < days_in_month (year d) (month d)"
    | (month) "\<not> day d < days_in_month (year d) (month d)" "month d < 12"
    | (year) "\<not> day d < days_in_month (year d) (month d)" "\<not> month d < 12" by blast
  then show ?thesis
  proof cases
    case day
    then have "valid_ymd (year d) (month d) (day d + 1)" "e = date_of (year d) (month d) (day d + 1)"
      using assms b by (auto simp: next_day_def valid_ymd_def)
    then show ?thesis by (simp add: toordinal_def Let_def)
  next
    case month
    then have e: "e = date_of (year d) (month d + 1) 1" using assms by (simp add: next_day_def)
    have "valid_ymd (year d) (month d + 1) 1" using b month by (auto simp: valid_ymd_def intro: order_trans)
    note sel = date_of_sel[OF this, folded e]
    have "?S (year d) (month d) = ?S (year d) (month d - 1) + days_in_month (year d) (month d)"
      using b by (simp add: upto_rec2)
    then show ?thesis using month(1) b by (simp add: toordinal_def Let_def sel)
  next
    case year
    then have e: "valid_ymd (year d + 1) 1 1" "e = date_of (year d + 1) 1 1" and m: "month d = 12"
      using assms b by (auto simp: next_day_def)
    note sel = date_of_sel[OF e(1), folded e(2)]
    have "day d = 31" using year(1) b m by (simp add: days_in_month_def)
    moreover have "?S (year d) 11 = 334 + (if is_leap (year d) then 1 else 0)"
      by (simp add: upto.simps days_in_month_def)
    ultimately show ?thesis using leap_step[of "year d"] m by (simp add: toordinal_def Let_def sel)
  qed
qed

lemma toordinal_prev: "prev_day d = Some e \<Longrightarrow> toordinal e = toordinal d - 1"
  using toordinal_next[OF next_prev_day] by simp

lemma toordinal_plus: "plus_days n d = Some e \<Longrightarrow> toordinal e = toordinal d + int n"
  by (induction n arbitrary: d) (auto dest: toordinal_next split: option.splits)

lemma toordinal_minus: "minus_days n d = Some e \<Longrightarrow> toordinal e = toordinal d - int n"
  by (induction n arbitrary: d) (auto dest: toordinal_prev split: option.splits)

lemma toordinal_add: "add_days n d = Some e \<Longrightarrow> toordinal e = toordinal d + n"
  by (auto simp: add_days_def dest: toordinal_plus toordinal_minus split: if_splits)

text \<open>The new expected settlement of a row moved to a date: as far from it as the old one was.\<close>

definition keeps_offset :: "transaction \<Rightarrow> date \<Rightarrow> date option \<Rightarrow> bool" where
  "keeps_offset t d sd \<longleftrightarrow>
     (case tx_settled_date t of
        None \<Rightarrow> sd = None
      | Some e \<Rightarrow> \<exists>e'. sd = Some e' \<and> toordinal e' - toordinal d = toordinal e - toordinal (tx_date t))"

lemma move_row_entry:
  "move_row slot t = Inr m \<Longrightarrow> (i, d, sd) \<in> set m \<Longrightarrow> tx_id t = i \<and> map_of slot (tx_date t) = Some d \<and> keeps_offset t d sd"
  by (auto simp: move_row_def keeps_offset_def dest: toordinal_add split: option.splits)

lemma move_rows_entry:
  "move_rows slot ts = Inr ms \<Longrightarrow> (i, d, sd) \<in> set ms \<Longrightarrow>
     \<exists>t \<in> set ts. tx_id t = i \<and> map_of slot (tx_date t) = Some d \<and> keeps_offset t d sd"
proof (induction ts arbitrary: ms)
  case (Cons t ts)
  from Cons.prems(1) obtain m ms' where m: "move_row slot t = Inr m" "move_rows slot ts = Inr ms'" "ms = m @ ms'"
    by (auto simp: rbind_eq_Inr)
  from Cons.prems(2) m(3) consider "(i, d, sd) \<in> set m" | "(i, d, sd) \<in> set ms'" by auto
  then show ?case
  proof cases
    case 1
    from move_row_entry[OF m(1) 1] show ?thesis by auto
  qed (use Cons.IH[OF m(2)] in auto)
qed simp

lemma move_rows_moved:
  "move_rows slot ts = Inr ms \<Longrightarrow> set (map fst ms) = tx_id ` {t \<in> set ts. map_of slot (tx_date t) \<noteq> None}"
proof (induction ts arbitrary: ms)
  case (Cons t ts)
  from Cons.prems(1) obtain m ms' where m: "move_row slot t = Inr m" "move_rows slot ts = Inr ms'" "ms = m @ ms'"
    by (auto simp: rbind_eq_Inr)
  have "set (map fst m) = (if map_of slot (tx_date t) = None then {} else {tx_id t})"
    using m(1) by (auto simp: move_row_def split: option.splits)
  moreover have "{u \<in> set (t # ts). map_of slot (tx_date u) \<noteq> None} =
      (if map_of slot (tx_date t) = None then {} else {t}) \<union> {u \<in> set ts. map_of slot (tx_date u) \<noteq> None}" by auto
  ultimately show ?case using Cons.IH[OF m(2)] m(3) by (simp add: image_Un)
qed simp

context relativedelta_lib
begin

lemma walk_to_grid:
  "walk_to rd f frontier d = Some (ds, e) \<Longrightarrow>
     grid rd f d (length ds) = Some e \<and> (\<forall>k < length ds. grid rd f d k = Some (ds ! k))"
proof (induction rd f frontier d arbitrary: ds rule: walk_to.induct)
  case (1 rd f frontier d)
  show ?case
  proof (cases "d < frontier")
    case True
    with 1(2) obtain nxt ds' where n: "next_occurrence rd d f = Some nxt" and w: "walk_to rd f frontier nxt = Some (ds', e)" and ds: "ds = d # ds'"
      by (auto simp: walk_to.simps[of rd f frontier d] split: option.splits)
    from 1(1)[OF True n w] n show ?thesis by (auto simp: ds nth_Cons split: nat.splits)
  qed (use 1(2) in \<open>simp add: walk_to.simps[of rd f frontier d]\<close>)
qed

lemma walk_steps_grid:
  "walk_steps rd f n d = Some es \<Longrightarrow> length es = n \<and> (\<forall>k < n. grid rd f d (Suc k) = Some (es ! k))"
proof (induction n arbitrary: d es)
  case (Suc n)
  from Suc.prems obtain e es' where e: "advance_date rd d f = Some e" "walk_steps rd f n e = Some es'" "es = e # es'"
    by (auto split: option.splits)
  have "next_occurrence rd d f = Some e" using e(1) by (simp add: next_occurrence_eq)
  with Suc.IH[OF e(2)] show ?case by (auto simp: e(3) nth_Cons split: nat.splits)
qed simp

lemma plan_on_grid:
  assumes "plan_series_date_move rd s org r row_id old new ty today = Inr m"
  shows "\<exists>n. grid rd (r_frequency r) old (Suc n) = Some (r_next_due_date r) \<and>
    grid rd (r_frequency r) new n = Some (sm_last_spent_date m) \<and>
    grid rd (r_frequency r) new (Suc n) = Some (sm_next_due_date m) \<and>
    (\<forall>(i, d, sd) \<in> set (sm_moves m). \<exists>t \<in> set (transactions s). \<exists>k. tx_id t = i \<and> tx_status t = PENDING \<and> 1 \<le> k \<and> k \<le> n \<and>
       grid rd (r_frequency r) old k = Some (tx_date t) \<and> grid rd (r_frequency r) new k = Some d \<and> keeps_offset t d sd) \<and>
    set (map fst (sm_moves m)) = tx_id ` {t \<in> set (series_sync_targets s org (r_id r) (Some ty) (Some row_id) (Some old)).
       \<exists>k. 1 \<le> k \<and> k \<le> n \<and> grid rd (r_frequency r) old k = Some (tx_date t)}"
  using assms
proof (rule plan_moves)
  fix og ng d0 after
  let ?f = "r_frequency r"
  assume a: "advance_date rd old ?f = Some after" and w: "walk_to rd ?f (r_next_due_date r) after = Some (og, r_next_due_date r)"
    and st: "walk_steps rd ?f (length og) new = Some ng"
    and ls: "sm_last_spent_date m = (if ng = [] then new else last ng)"
    and nf: "advance_date rd (sm_last_spent_date m) ?f = Some (sm_next_due_date m)"
    and mv: "move_rows (zip og ng) (series_sync_targets s org (r_id r) (Some ty) (Some row_id) (Some old)) = Inr (sm_moves m)"
  have no: "next_occurrence rd old ?f = Some after" using a by (simp add: next_occurrence_eq)
  note W = walk_to_grid[OF w] and S = walk_steps_grid[OF st]
  have 1: "grid rd ?f old (Suc (length og)) = Some (r_next_due_date r)" using W no by simp
  have 2: "grid rd ?f new (length og) = Some (sm_last_spent_date m)"
  proof (cases ng rule: rev_cases)
    case (snoc ys y)
    then have l: "length og = Suc (length ys)" using conjunct1[OF S] by simp
    then have "length ys < length og" by simp
    then have "grid rd ?f new (Suc (length ys)) = Some (ng ! length ys)" by (rule conjunct2[OF S, rule_format])
    moreover have "ng ! length ys = sm_last_spent_date m" using snoc ls by simp
    ultimately show ?thesis unfolding l by (simp only:)
  qed (use S ls in simp)
  have 3: "grid rd ?f new (Suc (length og)) = Some (sm_next_due_date m)"
    using grid_add[of rd ?f new "length og" 1] 2 nf by (simp add: next_occurrence_eq)
  have entries: "\<exists>t \<in> set (transactions s). \<exists>k. tx_id t = i \<and> tx_status t = PENDING \<and> 1 \<le> k \<and> k \<le> length og \<and>
       grid rd ?f old k = Some (tx_date t) \<and> grid rd ?f new k = Some d \<and> keeps_offset t d sd" if "(i, d, sd) \<in> set (sm_moves m)" for i d sd
  proof -
    from move_rows_entry[OF mv that] obtain t where t: "t \<in> set (transactions s)" "tx_status t = PENDING" "tx_id t = i"
      and sl: "map_of (zip og ng) (tx_date t) = Some d" "keeps_offset t d sd" by (auto simp: series_sync_targets_def)
    from map_of_SomeD[OF sl(1)] obtain k where k: "k < length og" "og ! k = tx_date t" "ng ! k = d" by (auto simp: in_set_zip)
    have "grid rd ?f old (Suc k) = Some (tx_date t)" using W k no by simp
    moreover have "grid rd ?f new (Suc k) = Some d" using S k by simp
    ultimately show ?thesis using t k(1) sl(2) by (intro bexI[OF _ t(1)] exI[of _ "Suc k"]) simp
  qed
  have dom: "map_of (zip og ng) d \<noteq> None \<longleftrightarrow> (\<exists>k. 1 \<le> k \<and> k \<le> length og \<and> grid rd ?f old k = Some d)" for d
  proof -
    have "map_of (zip og ng) d \<noteq> None \<longleftrightarrow> d \<in> set og" using S by (simp add: map_of_zip_is_None)
    also have "\<dots> \<longleftrightarrow> (\<exists>k < length og. og ! k = d)" by (simp add: in_set_conv_nth)
    also have "\<dots> \<longleftrightarrow> (\<exists>k < length og. grid rd ?f old (Suc k) = Some d)" using W no by auto
    also have "\<dots> \<longleftrightarrow> (\<exists>k. 1 \<le> k \<and> k \<le> length og \<and> grid rd ?f old k = Some d)"
      by (metis Suc_le_eq Suc_pred' One_nat_def le_numeral_extra(4) less_eq_Suc_le zero_less_Suc le_add1 plus_1_eq_Suc)
    finally show ?thesis .
  qed
  have moved: "set (map fst (sm_moves m)) = tx_id ` {t \<in> set (series_sync_targets s org (r_id r) (Some ty) (Some row_id) (Some old)).
       \<exists>k. 1 \<le> k \<and> k \<le> length og \<and> grid rd ?f old k = Some (tx_date t)}"
    unfolding move_rows_moved[OF mv] dom ..
  show ?thesis using 1 2 3 entries moved by (intro exI[of _ "length og"]) blast
qed

end

text \<open>C25: a "this and future" date move. The old date, the moved siblings and the old frontier are the
  points 0, k and n+1 of the series' grid from the old date; the new date, the siblings' new dates and the
  new frontier are the points 0, k and n+1 of the grid from the new date, so each occurrence keeps
  its place and generation continues where it would have arrived. Exactly the pending siblings the edit may rewrite
  that lie on the old grid move, each with its expected settlement as many days from its new date as it was from
  the old one. No other row of the series lies on one of the new dates, and every row of the series is before the new
  frontier.\<close>

theorem date_move_maps_grid:
  assumes "relativedelta_lib rd" and "plan_series_date_move rd s org r row_id old new ty today = Inr m"
  shows "(\<exists>n. grid rd (r_frequency r) old (Suc n) = Some (r_next_due_date r) \<and>
      grid rd (r_frequency r) new n = Some (sm_last_spent_date m) \<and>
      grid rd (r_frequency r) new (Suc n) = Some (sm_next_due_date m) \<and>
      (\<forall>(i, d, sd) \<in> set (sm_moves m). \<exists>t \<in> set (transactions s). \<exists>k. tx_id t = i \<and> tx_status t = PENDING \<and> 1 \<le> k \<and> k \<le> n \<and>
         grid rd (r_frequency r) old k = Some (tx_date t) \<and> grid rd (r_frequency r) new k = Some d \<and>
         (case tx_settled_date t of None \<Rightarrow> sd = None
          | Some e \<Rightarrow> \<exists>e'. sd = Some e' \<and> toordinal e' - toordinal d = toordinal e - toordinal (tx_date t))) \<and>
      set (map fst (sm_moves m)) = tx_id ` {t \<in> set (series_sync_targets s org (r_id r) (Some ty) (Some row_id) (Some old)).
         \<exists>k. 1 \<le> k \<and> k \<le> n \<and> grid rd (r_frequency r) old k = Some (tx_date t)}) \<and>
    (\<forall>t \<in> set (transactions s). tx_org_id t = org \<and> tx_recurring_id t = Some (r_id r) \<and> tx_id t \<noteq> row_id \<and>
       tx_id t \<notin> set (map fst (sm_moves m)) \<longrightarrow>
       tx_date t \<notin> set (new # map (fst \<circ> snd) (sm_moves m)) \<and> tx_date t < sm_next_due_date m) \<and>
    (\<forall>d \<in> set (new # map (fst \<circ> snd) (sm_moves m)). d < sm_next_due_date m)"
  unfolding keeps_offset_def[symmetric]
  by (rule plan_moves[OF assms(2)]) (use relativedelta_lib.plan_on_grid[OF assms] in blast)

definition moving_store :: store where
  "moving_store = series_store\<lparr>
     transactions := transactions series_store @ [series_row 34 4 700 EXPENSE PENDING None 20 (date_of 2025 5 28)],
     templates := [sample_template\<lparr>r_next_due_date := date_of 2025 6 28, r_last_spent_date := Some (date_of 2025 5 28)\<rparr>, transfer_template]\<rparr>"

theorem date_move_maps_grid_witness:
  "\<exists>m. plan_series_date_move civil_add moving_store 1 (hd (templates moving_store)) 33 (date_of 2025 4 28) (date_of 2025 4 30) EXPENSE
      (date_of 2025 4 1) = Inr m \<and> sm_moves m = [(34, date_of 2025 5 30, None)] \<and> sm_next_due_date m = date_of 2025 6 30 \<and>
    (\<exists>n. grid civil_add MONTHLY (date_of 2025 4 30) (Suc n) = Some (date_of 2025 6 30))"
proof -
  let ?g = "plan_series_date_move civil_add moving_store 1 (hd (templates moving_store)) 33 (date_of 2025 4 28) (date_of 2025 4 30) EXPENSE
      (date_of 2025 4 1)"
  have "\<not> isl ?g \<and> sm_moves (projr ?g) = [(34, date_of 2025 5 30, None)] \<and> sm_next_due_date (projr ?g) = date_of 2025 6 30 \<and>
    r_frequency (hd (templates moving_store)) = MONTHLY" by code_simp
  then obtain m where g: "?g = Inr m" "sm_moves m = [(34, date_of 2025 5 30, None)]" "sm_next_due_date m = date_of 2025 6 30"
    "r_frequency (hd (templates moving_store)) = MONTHLY" by (cases ?g) auto
  from date_move_maps_grid[OF civil.relativedelta_lib_axioms g(1)] obtain n where
    "grid civil_add (r_frequency (hd (templates moving_store))) (date_of 2025 4 30) (Suc n) = Some (sm_next_due_date m)" by blast
  with g show ?thesis by auto
qed

section \<open>Promoting\<close>

text \<open>C26: promoting a row makes it its series' first instalment exactly once. Exactly one template is
  added, with a new id; it takes the row's account, amount and type and its frontier is not before \<open>frontier_lower_bound\<close>; the
  row is stored with only its series changed, no other row changes and no balance moves. The instalment counter
  starts at one exactly when the frontier is after the row, and at zero, with no date spent, otherwise; so a row lying
  on the frontier itself is left to generation's probe for a materialised date, and is never counted twice.
  (No row names a template that does not exist yet: the foreign key of
  \<open>recurring_id\<close>.)\<close>

theorem promote_counts_row_once:
  assumes "full_inv s" and "promote_to_recurring rd s org tid body today = Inr (s', u)"
    and "list_all (\<lambda>x. tx_recurring_id x \<noteq> Some (next_id s)) (transactions s)"
  shows "full_inv s' \<and> accounts s' = accounts s \<and>
    (\<exists>t r p_start. org_row s org tid = Some t \<and> u = t\<lparr>tx_recurring_id := Some (r_id r)\<rparr> \<and>
      transactions s' = map (\<lambda>x. if tx_id x = tid then u else x) (transactions s) \<and>
      templates s' = templates s @ [r] \<and> r_id r \<notin> r_id ` set (templates s) \<and> r_account_id r = tx_account_id t \<and>
      r_amount r = tx_amount t \<and> r_type r = tx_type t \<and>
      r_next_due_date r = pm_next_due_date body \<and> frontier_lower_bound rd s org today = Inr p_start \<and> p_start \<le> r_next_due_date r \<and>
      (r_occurrences_elapsed r = 1 \<longleftrightarrow> tx_date u < r_next_due_date r) \<and>
      (r_occurrences_elapsed r \<noteq> 1 \<longrightarrow> r_occurrences_elapsed r = 0 \<and> r_last_spent_date r = None) \<and>
      (occurrence_exists s' org (r_id r) (r_next_due_date r) \<longrightarrow> r_occurrences_elapsed r = 0))"
  using assms(2)
proof (rule promoteE)
  fix t r s1 ps
  assume t: "org_row s org tid = Some t" and vf: "validate_frontier rd s org (pm_next_due_date body) today = Inr ps"
    and s1: "s1 = s\<lparr>templates := templates s @ [r], next_id := next_id s + 1\<rparr>" and u: "u = t\<lparr>tx_recurring_id := Some (r_id r)\<rparr>"
    and s': "s' = put_transaction u s1" and r: "r_id r = next_id s" "r_org_id r = org" "r_account_id r = tx_account_id t"
      "r_next_due_date r = pm_next_due_date body" "r_occurrences_elapsed r = (if pm_next_due_date body \<le> tx_date t then 0 else 1)"
      "r_last_spent_date r = (if pm_next_due_date body \<le> tx_date t then None else Some (tx_date t))"
      "r_amount r = tx_amount t" "r_type r = tx_type t"
  note tm = org_row_Some[OF t] and wf = full_invD(5)[OF assms(1)]
  have um: "u \<in> set (transactions s')" unfolding s' by (rule put_mem(1)[of t]) (use tm in \<open>simp_all add: s1 u\<close>)
  have fresh: "r_id r \<notin> r_id ` set (templates s)" using wf by (auto simp: store_wf_def list_all_iff r(1))
  have none: "tx_recurring_id x \<noteq> Some (next_id s)" if "x \<in> set (transactions s)" for x
    using assms(3) that by (simp add: list_all_iff)
  have only: "x = u" if "x \<in> set (transactions s')" "tx_recurring_id x = Some (r_id r)" for x
    using put_other_rows[of x u s1] that none r(1) by (auto simp: s' s1)
  have "frontier_lower_bound rd s org today = Inr ps" "ps \<le> pm_next_due_date body"
    using vf by (auto simp: validate_frontier_def rbind_eq_Inr split: if_splits)
  moreover have "occurrence_exists s' org (r_id r) (r_next_due_date r) \<longrightarrow> r_occurrences_elapsed r = 0"
  proof
    assume "occurrence_exists s' org (r_id r) (r_next_due_date r)"
    then obtain x where x: "x \<in> set (transactions s')" "tx_recurring_id x = Some (r_id r)" "tx_date x = r_next_due_date r"
      by (auto simp: occurrence_exists_def list_ex_iff)
    from x(3) show "r_occurrences_elapsed r = 0" unfolding only[OF x(1,2)] by (simp add: r u)
  qed
  moreover have "templates s' = templates s @ [r]" "transactions s' = map (\<lambda>x. if tx_id x = tid then u else x) (transactions s)"
    using tm by (simp_all add: s' s1 put_transaction_def update_row_def u)
  ultimately show ?thesis using promote_keeps[OF assms(2,1)] t um fresh r u
    by (intro conjI exI[of _ t] exI[of _ r] exI[of _ ps]) (auto split: if_splits)
qed

theorem promote_counts_row_once_witness:
  "\<exists>s' u. promote_to_recurring civil_add series_store 1 11 (\<lparr>pm_frequency = MONTHLY, pm_next_due_date = date_of 2025 4 10,
      pm_auto_settle = False, pm_occurrence_count = Some 4\<rparr>) (date_of 2025 3 9) = Inr (s', u) \<and>
    accounts s' = accounts series_store \<and> tx_recurring_id u = Some 40 \<and> length (templates s') = Suc (length (templates series_store))"
proof -
  let ?b = "\<lparr>pm_frequency = MONTHLY, pm_next_due_date = date_of 2025 4 10, pm_auto_settle = False, pm_occurrence_count = Some 4\<rparr>"
  let ?g = "promote_to_recurring civil_add series_store 1 11 ?b (date_of 2025 3 9)"
  have "\<not> isl ?g \<and> tx_recurring_id (snd (projr ?g)) = Some 40 \<and>
    list_all (\<lambda>x. tx_recurring_id x \<noteq> Some (next_id series_store)) (transactions series_store)" by code_simp
  then obtain s' u where g: "?g = Inr (s', u)" "tx_recurring_id u = Some 40"
    "list_all (\<lambda>x. tx_recurring_id x \<noteq> Some (next_id series_store)) (transactions series_store)" by (cases ?g) auto
  from promote_counts_row_once[OF series_full g(1,3)] obtain r where
    "accounts s' = accounts series_store" "templates s' = templates series_store @ [r]" by blast
  with g show ?thesis by auto
qed

end
