(* ===== verification/TransfersProps.thy ===== *)
theory TransfersProps
  imports TransfersKeep TxUpdateProps
begin

text \<open>
  The batched detectors return for each key exactly what the per-row queries return for it, and
  converting a row into a transfer leg keeps the ledger and moves only the destination account.
\<close>

section \<open>Days keep their order\<close>

lemma prev_day_mono: "prev_day a = Some a' \<Longrightarrow> prev_day b = Some b' \<Longrightarrow> a \<le> b \<Longrightarrow> a' \<le> b'"
  using prev_day_greatest[of b b' a] prev_day_less[of a a'] by (cases "a = b") (auto simp: less_le)

lemma next_day_mono: "next_day a = Some a' \<Longrightarrow> next_day b = Some b' \<Longrightarrow> a \<le> b \<Longrightarrow> a' \<le> b'"
  using next_day_least[of a a' b] next_day_gt[of b b'] by (cases "a = b") (auto simp: less_le)

lemma minus_days_mono: "minus_days n a = Some a' \<Longrightarrow> minus_days n b = Some b' \<Longrightarrow> a \<le> b \<Longrightarrow> a' \<le> b'"
  by (induction n arbitrary: a b) (auto split: option.splits dest: prev_day_mono)

lemma plus_days_mono: "plus_days n a = Some a' \<Longrightarrow> plus_days n b = Some b' \<Longrightarrow> a \<le> b \<Longrightarrow> a' \<le> b'"
  by (induction n arbitrary: a b) (auto split: option.splits dest: next_day_mono)

lemma next_day_None:
  assumes "next_day a = None" "a \<le> b"
  shows "a = b"
proof -
  have "a = date_of 9999 12 31" using assms(1) next_day_None_iff by simp
  moreover have "valid_ymd 9999 12 31" by (simp add: valid_ymd_def)
  ultimately have "month_index a = 119999" "day a = 31" by simp_all
  then have "b \<le> a" using month_index_bounds(2)[of b] day_le_31[of b] by (auto simp: date_le_iff)
  with assms(2) show ?thesis by simp
qed

lemma minus_days_defined: "minus_days n a = Some a' \<Longrightarrow> a \<le> b \<Longrightarrow> \<exists>b'. minus_days n b = Some b'"
proof (induction n arbitrary: a b)
  case (Suc n)
  then obtain c where c: "prev_day a = Some c" "minus_days n c = Some a'" by (auto split: option.splits)
  show ?case
  proof (cases "prev_day b")
    case None
    with prev_day_None[OF this Suc.prems(2)] c show ?thesis by simp
  next
    case (Some e)
    with Suc.IH[OF c(2) prev_day_mono[OF c(1) Some Suc.prems(2)]] show ?thesis by simp
  qed
qed simp

lemma plus_days_defined: "plus_days n b = Some b' \<Longrightarrow> a \<le> b \<Longrightarrow> \<exists>a'. plus_days n a = Some a'"
proof (induction n arbitrary: a b)
  case (Suc n)
  then obtain c where c: "next_day b = Some c" "plus_days n c = Some b'" by (auto split: option.splits)
  show ?case
  proof (cases "next_day a")
    case None
    with next_day_None[OF this Suc.prems(2)] c show ?thesis by simp
  next
    case (Some e)
    with Suc.IH[OF c(2) next_day_mono[OF Some c(1) Suc.prems(2)]] show ?thesis by simp
  qed
qed simp

lemma add_days_mono: "add_days n a = Some a' \<Longrightarrow> add_days n b = Some b' \<Longrightarrow> a \<le> b \<Longrightarrow> a' \<le> b'"
  by (auto simp: add_days_def dest: plus_days_mono minus_days_mono split: if_splits)

section \<open>One query for the whole file\<close>

lemma window_bounds:
  assumes "add_days (- DETECTOR_WINDOW) lo = Some a" "add_days DETECTOR_WINDOW hi = Some b" "lo \<le> d" "d \<le> hi"
  obtains c e where "window d = Inr (c, e)" "a \<le> c" "e \<le> b"
proof -
  have "\<exists>c. add_days (- DETECTOR_WINDOW) d = Some c" "\<exists>e. add_days DETECTOR_WINDOW d = Some e"
    using minus_days_defined[OF _ assms(3)] plus_days_defined[OF _ assms(4)] assms(1,2)
    by (auto simp: add_days_def DETECTOR_WINDOW_def)
  then obtain c e where ce: "add_days (- DETECTOR_WINDOW) d = Some c" "add_days DETECTOR_WINDOW d = Some e" by blast
  have "a \<le> c" "e \<le> b" using add_days_mono[OF assms(1) ce(1) assms(3)] add_days_mono[OF ce(2) assms(2) assms(4)] by simp_all
  with ce that show thesis by (simp add: window_def)
qed

lemma row_slice_eq:
  assumes "window (snd (snd key)) = Inr (a, b)"
  shows "row_slice fetched type_for cap key = Inr (key, closest (snd (snd key)) cap
    (filter (\<lambda>t. tx_type t = type_for (fst key) \<and> tx_amount t = fst (snd key) \<and> a \<le> tx_date t \<and> tx_date t \<le> b) fetched))"
proof -
  obtain ty x d where key: "key = (ty, x, d)" by (cases key)
  define G where "G = filter (\<lambda>t. (tx_type t, tx_amount t) = (type_for ty, x)) fetched"
  have eq: "filter (\<lambda>t. tx_type t = type_for ty \<and> tx_amount t = x \<and> a \<le> tx_date t \<and> tx_date t \<le> b) fetched =
      filter (\<lambda>t. a \<le> tx_date t \<and> tx_date t \<le> b) G"
    by (simp add: G_def conj_ac)
  have "row_slice fetched type_for cap key =
      rbind (if G = [] then Inr [] else rbind (window d) (\<lambda>(a, b). Inr (filter (\<lambda>t. a \<le> tx_date t \<and> tx_date t \<le> b) G)))
        (\<lambda>rows. Inr (key, closest d cap rows))"
    by (simp only: row_slice_def key Let_def prod.case G_def)
  then show ?thesis using assms eq by (cases "G = []") (simp_all add: key)
qed

lemma per_row_slice_map:
  assumes "per_row_slice fetched type_for cap keys = Inr m" "k \<in> set keys"
  shows "\<exists>rows. map_of m k = Some rows \<and> row_slice fetched type_for cap k = Inr (k, rows)"
  using assms
proof (induction keys arbitrary: m)
  case (Cons x xs)
  from Cons.prems(1) obtain p m' where p: "row_slice fetched type_for cap x = Inr p" and m': "per_row_slice fetched type_for cap xs = Inr m'"
    and m: "m = p # m'" by (auto simp: rbind_eq_Inr)
  have "fst p = x" using p by (cases x) (auto simp: row_slice_def rbind_eq_Inr Let_def split: if_splits)
  then show ?case using Cons.IH[OF m'] Cons.prems(2) p m by (cases "k = x"; cases p) auto
qed simp

lemma detector_batch_rows:
  assumes b: "detector_batch s sel type_for cap keys = Inr m" and k: "(ty, x, d) \<in> set keys"
  shows "\<exists>rows lo hi. map_of m (ty, x, d) = Some rows \<and> window d = Inr (lo, hi) \<and>
    rows = closest d cap (filter (\<lambda>t. sel t \<and> tx_type t = type_for ty \<and> tx_amount t = x \<and> lo \<le> tx_date t \<and> tx_date t \<le> hi)
      (transactions s))"
proof -
  let ?dates = "set (map (snd \<circ> snd) keys)"
  have d: "d \<in> ?dates" using image_eqI[of d "snd \<circ> snd", OF _ k] by simp
  have "keys \<noteq> []" using k by auto
  with b obtain lo hi where lh: "add_days (- DETECTOR_WINDOW) (Min ?dates) = Some lo" "add_days DETECTOR_WINDOW (Max ?dates) = Some hi"
    and sl: "per_row_slice (filter (\<lambda>t. sel t \<and>
                tx_type t \<in> set (map (type_for \<circ> fst) keys) \<and> tx_amount t \<in> set (map (fst \<circ> snd) keys) \<and>
                lo \<le> tx_date t \<and> tx_date t \<le> hi) (transactions s)) type_for cap keys = Inr m"
    unfolding detector_batch_def Let_def by (auto split: option.splits)
  have dl: "Min ?dates \<le> d" "d \<le> Max ?dates" using Min_le[OF _ d] Max_ge[OF _ d] by simp_all
  obtain c e where w: "window d = Inr (c, e)" "lo \<le> c" "e \<le> hi" by (rule window_bounds[OF lh dl])
  let ?fetched = "filter (\<lambda>t. sel t \<and> tx_type t \<in> set (map (type_for \<circ> fst) keys) \<and> tx_amount t \<in> set (map (fst \<circ> snd) keys) \<and>
      lo \<le> tx_date t \<and> tx_date t \<le> hi) (transactions s)"
  from per_row_slice_map[OF sl k] obtain rows where r: "map_of m (ty, x, d) = Some rows"
    "row_slice ?fetched type_for cap (ty, x, d) = Inr ((ty, x, d), rows)" by blast
  have "rows = closest d cap (filter (\<lambda>t. tx_type t = type_for ty \<and> tx_amount t = x \<and> c \<le> tx_date t \<and> tx_date t \<le> e) ?fetched)"
    using r(2) row_slice_eq[of "(ty, x, d)" c e ?fetched type_for cap] w(1) by simp
  also have "filter (\<lambda>t. tx_type t = type_for ty \<and> tx_amount t = x \<and> c \<le> tx_date t \<and> tx_date t \<le> e) ?fetched =
      filter (\<lambda>t. sel t \<and> tx_type t = type_for ty \<and> tx_amount t = x \<and> c \<le> tx_date t \<and> tx_date t \<le> e) (transactions s)"
    (is "filter ?P ?fetched = _")
  proof -
    have in_keys: "type_for ty \<in> set (map (type_for \<circ> fst) keys)" "x \<in> set (map (fst \<circ> snd) keys)"
      using image_eqI[of "type_for ty" "type_for \<circ> fst", OF _ k] image_eqI[of x "fst \<circ> snd", OF _ k] by simp_all
    show ?thesis
      unfolding filter_filter
    proof (intro filter_cong refl)
      fix t
      show "(sel t \<and> tx_type t \<in> set (map (type_for \<circ> fst) keys) \<and> tx_amount t \<in> set (map (fst \<circ> snd) keys) \<and>
        lo \<le> tx_date t \<and> tx_date t \<le> hi) \<and> ?P t \<longleftrightarrow> sel t \<and> ?P t"
      proof (cases "?P t")
        case True
        then have "tx_type t \<in> set (map (type_for \<circ> fst) keys)" "tx_amount t \<in> set (map (fst \<circ> snd) keys)"
          using in_keys by (simp_all only:)
        moreover have "lo \<le> tx_date t" "tx_date t \<le> hi" using True w(2,3) by (meson order_trans)+
        ultimately show ?thesis by blast
      qed blast
    qed
  qed
  finally show ?thesis using r(1) w(1) by blast
qed

text \<open>C27: the batched detectors of the import preview answer every key as the per-row queries do: widening
  the filters to the union of the keys and splitting afterwards changes neither the rows nor
  their order nor where the caps cut.\<close>

theorem detector_batch_agrees:
  assumes "find_match_candidates_batch s org acc cur keys = Inr m" and "find_duplicate_of_linked_leg_batch s org acc cur keys = Inr m'"
    and "(ty, x, d) \<in> set keys"
  shows "find_match_candidates s org ty x acc d cur = Inr (the (map_of m (ty, x, d))) \<and>
    find_duplicate_of_linked_leg s org acc x ty d cur = Inr (the (map_of m' (ty, x, d)))"
  using detector_batch_rows[OF assms(1)[unfolded find_match_candidates_batch_def] assms(3)]
    detector_batch_rows[OF assms(2)[unfolded find_duplicate_of_linked_leg_batch_def] assms(3)]
  unfolding find_match_candidates_def find_duplicate_of_linked_leg_def by auto

theorem detector_batch_agrees_witness:
  "\<exists>rows rows'. find_match_candidates series_store 1 INCOME 100 5 (date_of 2025 3 12) ''EUR'' = Inr rows \<and> map tx_id rows = [7] \<and>
    find_duplicate_of_linked_leg series_store 1 5 150 INCOME (date_of 2025 3 9) ''EUR'' = Inr rows' \<and> map tx_id rows' = [9]"
proof -
  let ?keys = "[(INCOME, 100, date_of 2025 3 12), (INCOME, 150, date_of 2025 3 9)]"
  let ?m = "find_match_candidates_batch series_store 1 5 ''EUR'' ?keys" and ?d = "find_duplicate_of_linked_leg_batch series_store 1 5 ''EUR'' ?keys"
  have "\<not> isl ?m \<and> \<not> isl ?d \<and> map tx_id (the (map_of (projr ?m) (INCOME, 100, date_of 2025 3 12))) = [7] \<and>
    map tx_id (the (map_of (projr ?d) (INCOME, 150, date_of 2025 3 9))) = [9]" by code_simp
  then obtain m d where g: "?m = Inr m" "?d = Inr d" "map tx_id (the (map_of m (INCOME, 100, date_of 2025 3 12))) = [7]"
    "map tx_id (the (map_of d (INCOME, 150, date_of 2025 3 9))) = [9]" by (cases ?m; cases ?d) auto
  from detector_batch_agrees[OF g(1,2), of INCOME 100 "date_of 2025 3 12"] detector_batch_agrees[OF g(1,2), of INCOME 150 "date_of 2025 3 9"] g(3,4)
  show ?thesis by auto
qed

section \<open>The missing leg\<close>

lemma put_two_rows:
  assumes "transactions s1 = transactions s @ [p]" "\<And>u. u \<in> set (transactions s) \<Longrightarrow> tx_id u < tx_id p" "tx_id own = tid" "tx_id leg = tx_id p"
    "tid < tx_id p"
  shows "transactions (put_transaction leg (put_transaction own s1)) = map (\<lambda>u. if tx_id u = tid then own else u) (transactions s) @ [leg]"
    "transactions (put_transaction own (put_transaction leg s1)) = map (\<lambda>u. if tx_id u = tid then own else u) (transactions s) @ [leg]"
  using assms by (auto simp: put_transaction_def update_row_def dest: assms(2))

lemma convert_rows:
  assumes c: "convert_and_create_leg s org tid dest recat cat = Inr (s', e, i)" and inv: "full_inv s"
  shows "\<exists>t own leg. org_row s org tid = Some t \<and> (if tx_type t = EXPENSE then (own, leg) = (e, i) else (own, leg) = (i, e)) \<and>
    transactions s' = map (\<lambda>u. if tx_id u = tid then own else u) (transactions s) @ [leg] \<and> tx_id leg \<notin> tx_id ` set (transactions s) \<and>
    own = t\<lparr>tx_category_id := tx_category_id own, tx_linked := Some (tx_id leg)\<rparr> \<and>
    leg = (partner_leg s org t dest)\<lparr>tx_category_id := tx_category_id leg, tx_linked := Some tid\<rparr>"
proof -
  from c obtain t p s2 where t: "org_row s org tid = Some t" and p: "p = partner_leg s org t dest"
    and m: "move_if (tx_status t = SETTLED) apply_balance org p (add_transaction p s) = Inr s2"
    and lk: "if tx_type t = EXPENSE then link_pair s2 True t p recat cat = Inr (s', e, i) else link_pair s2 True p t recat cat = Inr (s', e, i)"
    by (rule convertE)
  note tm = org_row_Some[OF t]
  have T2: "transactions s2 = transactions s @ [p]"
    using m by (auto simp: move_if_def move_on_account_def rbind_eq_Inr put_account_def add_transaction_def split: if_splits)
  have new: "tx_id u < tx_id p" if "u \<in> set (transactions s)" for u
    using that full_invD(2)[OF inv] by (simp add: p booksD(7))
  have tp: "tid < tx_id p" using new[of t] tm by simp
  obtain x y where xy: "link_pair s2 True x y recat cat = Inr (s', e, i)" "x = t \<and> y = p \<and> tx_type t = EXPENSE \<or> x = p \<and> y = t \<and> tx_type t \<noteq> EXPENSE"
    using lk by (auto split: if_splits)
  from xy(1) obtain s1 k where s1: "s1 = s2 \<or> s1 = fst (transfer_category (tx_org_id x) s2)" and s': "s' = put_transaction i (put_transaction e s1)"
    and e: "e = (case k of None \<Rightarrow> x | Some c \<Rightarrow> x\<lparr>tx_category_id := c\<rparr>)\<lparr>tx_linked := Some (tx_id y)\<rparr>"
    and i: "i = (case k of None \<Rightarrow> y | Some c \<Rightarrow> y\<lparr>tx_category_id := c\<rparr>)\<lparr>tx_linked := Some (tx_id x)\<rparr>" by (rule link_pairE)
  have T1: "transactions s1 = transactions s @ [p]" using s1 T2 by auto
  have ids: "tx_id e = tx_id x" "tx_id i = tx_id y" by (simp_all add: e i split: option.splits)
  have up: "e = x\<lparr>tx_category_id := tx_category_id e, tx_linked := Some (tx_id y)\<rparr>" "i = y\<lparr>tx_category_id := tx_category_id i, tx_linked := Some (tx_id x)\<rparr>"
    by (simp_all add: e i split: option.splits)
  have fresh: "tx_id p \<notin> tx_id ` set (transactions s)" using new by fastforce
  show ?thesis
  proof (cases "tx_type t = EXPENSE")
    case True
    with xy(2) have q: "x = t" "y = p" by auto
    have "transactions s' = map (\<lambda>u. if tx_id u = tid then e else u) (transactions s) @ [i]"
      unfolding s' by (rule put_two_rows(1)[OF T1 new _ _ tp]) (use ids q tm in simp_all)
    moreover have "e = t\<lparr>tx_category_id := tx_category_id e, tx_linked := Some (tx_id i)\<rparr>"
      using up(1) unfolding q ids .
    moreover have "i = (partner_leg s org t dest)\<lparr>tx_category_id := tx_category_id i, tx_linked := Some tid\<rparr>"
      using up(2) tm unfolding q p by (simp only:)
    moreover have "tx_id i \<notin> tx_id ` set (transactions s)" using fresh unfolding ids q .
    moreover have "if tx_type t = EXPENSE then (e, i) = (e, i) else (e, i) = (i, e)" using True by simp
    ultimately show ?thesis using t by blast
  next
    case False
    with xy(2) have q: "x = p" "y = t" by auto
    have "transactions s' = map (\<lambda>u. if tx_id u = tid then i else u) (transactions s) @ [e]"
      unfolding s' by (rule put_two_rows(2)[OF T1 new _ _ tp]) (use ids q tm in simp_all)
    moreover have "i = t\<lparr>tx_category_id := tx_category_id i, tx_linked := Some (tx_id e)\<rparr>"
      using up(2) unfolding q ids .
    moreover have "e = (partner_leg s org t dest)\<lparr>tx_category_id := tx_category_id e, tx_linked := Some tid\<rparr>"
      using up(1) tm unfolding q p by (simp only:)
    moreover have "tx_id e \<notin> tx_id ` set (transactions s)" using fresh unfolding ids q .
    moreover have "if tx_type t = EXPENSE then (i, e) = (e, i) else (i, e) = (i, e)" using False by simp
    ultimately show ?thesis using t by blast
  qed
qed

text \<open>C28: converting a row into a transfer leg creates exactly the missing half. The table gains one row, on
  the destination account, of the opposite type and with the row's amount, status and dates; the row itself
  changes at most its category and its link; each of the two links the other, and no other row changes. A settled leg
  moves the destination account by the amount, in the direction opposite to the source's, and nothing moves
  otherwise.\<close>

theorem convert_moves_destination:
  assumes "full_inv s" and "convert_and_create_leg s org tid dest recat cat = Inr (s', e, i)"
  shows "full_inv s' \<and> mutual e i \<and>
    (\<exists>t own leg. org_row s org tid = Some t \<and> (if tx_type t = EXPENSE then (own, leg) = (e, i) else (own, leg) = (i, e)) \<and>
      transactions s' = map (\<lambda>u. if tx_id u = tid then own else u) (transactions s) @ [leg] \<and> tx_id leg \<notin> tx_id ` set (transactions s) \<and>
      own = t\<lparr>tx_category_id := tx_category_id own, tx_linked := Some (tx_id leg)\<rparr> \<and>
      tx_account_id leg = dest \<and> dest \<noteq> tx_account_id t \<and> tx_type leg = (if tx_type t = EXPENSE then INCOME else EXPENSE) \<and>
      tx_amount leg = tx_amount t \<and> tx_status leg = tx_status t \<and> tx_date leg = tx_date t \<and> tx_settled_date leg = tx_settled_date t \<and>
      tx_linked leg = Some tid \<and>
      accounts s' = accounts (if tx_status t = SETTLED then add_balance dest (signed (tx_type leg) (tx_amount t)) s else s))"
proof -
  note K = convert_Inr[OF assms(2,1)]
  from convert_rows[OF assms(2,1)] obtain t own leg where r: "org_row s org tid = Some t"
    "if tx_type t = EXPENSE then (own, leg) = (e, i) else (own, leg) = (i, e)"
    "transactions s' = map (\<lambda>u. if tx_id u = tid then own else u) (transactions s) @ [leg]" "tx_id leg \<notin> tx_id ` set (transactions s)"
    "own = t\<lparr>tx_category_id := tx_category_id own, tx_linked := Some (tx_id leg)\<rparr>"
    and l: "leg = (partner_leg s org t dest)\<lparr>tx_category_id := tx_category_id leg, tx_linked := Some tid\<rparr>" by blast
  have f: "tx_account_id leg = dest" "tx_type leg = (if tx_type t = EXPENSE then INCOME else EXPENSE)" "tx_amount leg = tx_amount t"
    "tx_status leg = tx_status t" "tx_date leg = tx_date t" "tx_settled_date leg = tx_settled_date t" "tx_linked leg = Some tid"
    "tx_id leg = next_id s"
    using arg_cong[OF l, of tx_account_id] arg_cong[OF l, of tx_type] arg_cong[OF l, of tx_amount] arg_cong[OF l, of tx_status]
      arg_cong[OF l, of tx_date] arg_cong[OF l, of tx_settled_date] arg_cong[OF l, of tx_linked] arg_cong[OF l, of tx_id]
    by (simp_all add: partner_leg_def)
  have o: "tx_id own = tx_id t" "tx_account_id own = tx_account_id t" "tx_status own = tx_status t" "tx_amount own = tx_amount t"
    using arg_cong[OF r(5), of tx_id] arg_cong[OF r(5), of tx_account_id] arg_cong[OF r(5), of tx_status] arg_cong[OF r(5), of tx_amount]
    by simp_all
  note tm = org_row_Some[OF r(1)]
  have ne: "tx_id leg \<noteq> tid" using r(4) tm by auto
  show ?thesis
  proof (rule conjI, rule K, rule conjI, rule K, rule exI[of _ t], rule exI[of _ own], rule exI[of _ leg], intro conjI)
    show "dest \<noteq> tx_account_id t" using K(6) r(2) f(1) o(2) by (auto split: if_splits)
    show "accounts s' = accounts (if tx_status t = SETTLED then add_balance dest (signed (tx_type leg) (tx_amount t)) s else s)"
      unfolding K(2) using r(2) f o tm ne by (auto split: if_splits)
  qed (rule K r f)+
qed

theorem convert_moves_destination_witness:
  "\<exists>s' e i. convert_and_create_leg series_store 1 7 5 True None = Inr (s', e, i) \<and> mutual e i \<and>
    list_ex (\<lambda>a. acc_id a = 5 \<and> acc_balance a = 250) (accounts s')"
proof -
  let ?g = "convert_and_create_leg series_store 1 7 5 True None"
  have "\<not> isl ?g \<and> list_ex (\<lambda>a. acc_id a = 5 \<and> acc_balance a = 250) (accounts (fst (projr ?g)))" by code_simp
  then obtain s' e i where g: "?g = Inr (s', e, i)" "list_ex (\<lambda>a. acc_id a = 5 \<and> acc_balance a = 250) (accounts s')"
    by (cases ?g) auto
  from convert_moves_destination[OF series_full g(1)] g show ?thesis by blast
qed

end
