(* ===== verification/BulkUpdateProps.thy ===== *)
theory BulkUpdateProps
  imports BulkUpdate TransfersProps
begin

text \<open>
  A bulk update is a sequence of single updates, its report names every requested row once, and
  what a row takes of the request respects what the row is.
\<close>

section \<open>The sequence\<close>

lemma bulk_step_request:
  assumes "bulk_step rd org body today i (s, moved, rep) = Inr (s', moved', rep')"
  shows "\<exists>us. s' = run_requests (handle rd f) (map (\<lambda>(i, u). UpdateTransaction org i u today) us) s \<and> set (map fst us) \<subseteq> {i}"
proof -
  have none: ?thesis if "s' = s" using that by (intro exI[of _ "[]"]) simp
  from assms consider "s' = s" | u t where "update_transaction rd s org i u today = Inr (s', t)"
    by (auto simp: bulk_step_def Let_def split: option.splits if_splits prod.splits sum.splits)
  then show ?thesis
  proof cases
    case (2 u t)
    then show ?thesis by (intro exI[of _ "[(i, u)]"]) (simp add: committed_store_def)
  qed (rule none)
qed

lemma run_requests_append: "run_requests exec (as @ bs) s = run_requests exec bs (run_requests exec as s)"
  by (induction as arbitrary: s) simp_all

lemma bulk_rows_requests:
  "bulk_rows rd org body today ids st = (s', r) \<Longrightarrow>
     \<exists>us. s' = run_requests (handle rd f) (map (\<lambda>(i, u). UpdateTransaction org i u today) us) (fst st) \<and> set (map fst us) \<subseteq> set ids"
proof (induction ids arbitrary: st)
  case Nil
  then show ?case by (intro exI[of _ "[]"]) simp
next
  case (Cons i ids)
  obtain s moved rep where st: "st = (s, moved, rep)" by (cases st)
  show ?case
  proof (cases "bulk_step rd org body today i st")
    case (Inl e)
    with Cons.prems show ?thesis by (intro exI[of _ "[]"]) simp
  next
    case (Inr st')
    obtain s1 m1 r1 where st': "st' = (s1, m1, r1)" by (cases st')
    from bulk_step_request[OF Inr[unfolded st st'], of f] obtain us where
      us: "s1 = run_requests (handle rd f) (map (\<lambda>(i, u). UpdateTransaction org i u today) us) s" "set (map fst us) \<subseteq> {i}" by blast
    from Cons.IH[of st'] Cons.prems Inr obtain vs where
      vs: "s' = run_requests (handle rd f) (map (\<lambda>(i, u). UpdateTransaction org i u today) vs) s1" "set (map fst vs) \<subseteq> set ids"
      by (auto simp: st')
    show ?thesis
      by (intro exI[of _ "us @ vs"]) (use us vs in \<open>auto simp: st run_requests_append\<close>)
  qed
qed

text \<open>C29: a bulk update refines a sequence of single edits. Whatever it reports, and also when an error
  ends it half way, the ledger it leaves is the one some list of \<open>update_transaction\<close> requests on
  the requested rows leaves; so it keeps every invariant.\<close>

theorem bulk_update_is_sequence:
  assumes "bulk_update_transactions rd s org ids body today = (s', r)"
  shows "(\<exists>us. s' = run_requests (handle rd show_dec) (map (\<lambda>(i, u). UpdateTransaction org i u today) us) s \<and>
      set (map fst us) \<subseteq> set ids) \<and> (full_inv s \<longrightarrow> full_inv s')"
proof -
  from bulk_rows_requests[OF assms[unfolded bulk_update_transactions_def], of show_dec] obtain us where
    us: "s' = run_requests (handle rd show_dec) (map (\<lambda>(i, u). UpdateTransaction org i u today) us) s" "set (map fst us) \<subseteq> set ids"
    by (auto simp: dedupe_def)
  have "full_inv s'" if "full_inv s"
    using system.reaches_keeps[OF reaches_run[OF reaches.start] that] by (simp add: us(1))
  with us show ?thesis by blast
qed

definition sample_bulk :: bulk_update where
  "sample_bulk = \<lparr>bu_category_id = None, bu_status = Some SETTLED, bu_account_id = None, bu_date = Some (date_of 2025 3 12),
     bu_settled_date = None\<rparr>"

theorem bulk_update_is_sequence_witness:
  "\<exists>s' r. bulk_update_transactions civil_add series_store 1 [11, 8, 33, 99] sample_bulk (date_of 2025 3 14) = (s', r) \<and>
    full_inv s' \<and> list_ex (\<lambda>t. tx_id t = 11 \<and> tx_status t = SETTLED \<and> tx_date t = date_of 2025 3 12) (transactions s')"
proof -
  let ?g = "bulk_update_transactions civil_add series_store 1 [11, 8, 33, 99] sample_bulk (date_of 2025 3 14)"
  have "list_ex (\<lambda>t. tx_id t = 11 \<and> tx_status t = SETTLED \<and> tx_date t = date_of 2025 3 12) (transactions (fst ?g))" by code_simp
  then obtain s' r where g: "?g = (s', r)"
    "list_ex (\<lambda>t. tx_id t = 11 \<and> tx_status t = SETTLED \<and> tx_date t = date_of 2025 3 12) (transactions s')" by (cases ?g) auto
  from bulk_update_is_sequence[OF g(1)] series_full g show ?thesis by blast
qed

section \<open>The report\<close>

definition report_ok :: "int list \<Rightarrow> bulk_report \<Rightarrow> bool" where
  "report_ok done_ids rep \<longleftrightarrow>
     bp_updated rep + length (bp_skipped rep) = length done_ids \<and>
     distinct (map fst (bp_skipped rep)) \<and> set (map fst (bp_skipped rep)) \<subseteq> set done_ids \<and>
     set (map fst (bp_notes rep)) \<subseteq> set done_ids - set (map fst (bp_skipped rep)) \<and>
     length (bp_notes rep) \<le> bp_updated rep"

lemma report_skip: "report_ok ds rep \<Longrightarrow> i \<notin> set ds \<Longrightarrow> report_ok (ds @ [i]) (skip_row i why notes rep)"
  by (auto simp: report_ok_def skip_row_def)

lemma report_count: "report_ok ds rep \<Longrightarrow> i \<notin> set ds \<Longrightarrow> report_ok (ds @ [i]) (count_row i notes rep)"
  by (auto simp: report_ok_def count_row_def)

lemma bulk_step_report:
  assumes "bulk_step rd org body today i (s, moved, rep) = Inr (s', moved', rep')" "report_ok ds rep" "i \<notin> set ds"
  shows "report_ok (ds @ [i]) rep'"
  using assms(1) report_skip[OF assms(2,3)] report_count[OF assms(2,3)]
  by (auto simp: bulk_step_def Let_def split: option.splits if_splits prod.splits sum.splits)

lemma bulk_rows_report:
  "bulk_rows rd org body today ids st = (s', Inr rep) \<Longrightarrow> report_ok ds (snd (snd st)) \<Longrightarrow> distinct (ds @ ids) \<Longrightarrow> report_ok (ds @ ids) rep"
proof (induction ids arbitrary: st ds)
  case (Cons i ids)
  obtain s moved rep0 where st: "st = (s, moved, rep0)" by (cases st)
  from Cons.prems(1) obtain st' where s1: "bulk_step rd org body today i st = Inr st'" "bulk_rows rd org body today ids st' = (s', Inr rep)"
    by (auto split: sum.splits)
  obtain a b c where st': "st' = (a, b, c)" by (cases st')
  have "report_ok (ds @ [i]) (snd (snd st'))"
    using bulk_step_report[OF s1(1)[unfolded st st'], of ds] Cons.prems(2,3) by (simp add: st st')
  from Cons.IH[OF s1(2) this] Cons.prems(3) show ?case by simp
qed simp

text \<open>C30: the report of a bulk update accounts for every requested row exactly once: duplicates of an id count
  once, the updated and the skipped rows add up to the request, no row is skipped twice, and
  notes are only made on rows that were updated.\<close>

theorem bulk_report_partitions:
  assumes "bulk_update_transactions rd s org ids body today = (s', Inr rep)"
  shows "bp_updated rep + length (bp_skipped rep) = card (set ids) \<and> distinct (map fst (bp_skipped rep)) \<and>
    set (map fst (bp_skipped rep)) \<subseteq> set ids \<and>
    set (map fst (bp_notes rep)) \<subseteq> set ids - set (map fst (bp_skipped rep)) \<and> length (bp_notes rep) \<le> bp_updated rep"
proof -
  have d: "distinct (dedupe ids)" "set (dedupe ids) = set ids" by (simp_all add: dedupe_def)
  have "report_ok ([] @ dedupe ids) rep"
    by (rule bulk_rows_report[OF assms[unfolded bulk_update_transactions_def]]) (simp_all add: report_ok_def d(1))
  then show ?thesis using distinct_card[OF d(1)] by (auto simp: report_ok_def d(2))
qed

theorem bulk_report_partitions_witness:
  "\<exists>s' rep. bulk_update_transactions civil_add series_store 1 [11, 8, 33, 11, 99] sample_bulk (date_of 2025 3 14) = (s', Inr rep) \<and>
    bp_updated rep = 1 \<and> bp_updated rep + length (bp_skipped rep) = 4"
proof -
  let ?g = "bulk_update_transactions civil_add series_store 1 [11, 8, 33, 11, 99] sample_bulk (date_of 2025 3 14)"
  have "\<not> isl (snd ?g) \<and> bp_updated (projr (snd ?g)) = 1 \<and> card (set [11::int, 8, 33, 11, 99]) = 4" by code_simp
  then obtain s' rep where g: "?g = (s', Inr rep)" "bp_updated rep = 1" "card (set [11::int, 8, 33, 11, 99]) = 4"
    by (cases ?g; cases "snd ?g") auto
  from bulk_report_partitions[OF g(1)] g show ?thesis by auto
qed

section \<open>What a row takes\<close>

lemma option_map_witness: "(\<exists>y. Some (Some x) = map_option Some y)"
  by (intro exI[of _ "Some x"]) simp

definition settlement_note :: "bulk_note \<Rightarrow> bool" where
  "settlement_note n \<longleftrightarrow> n \<in> {SettlementNotForTransfers, SettlementOtherLegSettled, SettlementNotForPending, SettlementMovedWithPartner} \<or>
     (\<exists>d. n = SettlementBeforeKeptDate d \<or> n = SettlementBeforePartner d)"

lemma settlement_note_simps [simp]:
  "settlement_note SettlementNotForTransfers" "settlement_note SettlementOtherLegSettled" "settlement_note SettlementNotForPending"
  "settlement_note SettlementMovedWithPartner" "settlement_note (SettlementBeforeKeptDate d)" "settlement_note (SettlementBeforePartner d)"
  by (simp_all add: settlement_note_def)

lemma takes_settlement_note:
  "takes_settlement body row linked moved d = (sd, n) \<Longrightarrow> bu_settled_date body = Some x \<Longrightarrow>
     sd = Some x \<or> (\<exists>k \<in> set n. settlement_note k)"
  by (simp add: takes_settlement_def Let_def split: if_splits) auto

lemma takes_settlement_pair:
  "takes_settlement body row (Some p) moved None = (Some x, n) \<Longrightarrow> is_reciprocal_pair row (Some p) \<Longrightarrow>
     tx_status row = PENDING \<and> tx_status p = PENDING \<and> tx_date row \<le> x \<and> tx_date p \<le> x"
  by (cases "bu_settled_date body") (auto simp: takes_settlement_def Let_def not_less split: if_splits)

text \<open>What a row takes of a bulk request respects what the row is. A transfer leg takes no
  status, account or date, and a settlement date only while both legs are pending and not before either
  leg; an occurrence of a series takes no date; no row's amount, type or description changes; status, account
  and date are taken as requested or not at all; and a requested status, account, date or settlement date that
  the row does not take has a note of its own kind, whatever else is noted.\<close>

theorem row_takes_what_it_may:
  assumes "row_update body row linked moved today = (Inr (Inr u), notes)"
  shows "tu_amount u = None \<and> tu_type u = None \<and> tu_description u = None \<and> \<not> tu_future u \<and> tu_category_id u = bu_category_id body \<and>
    (is_reciprocal_pair row linked \<longrightarrow> tu_status u = None \<and> tu_account_id u = None \<and> tu_date u = None \<and>
       (\<forall>p sd. linked = Some p \<and> tu_settled_date u = Some (Some sd) \<longrightarrow>
          tx_status row = PENDING \<and> tx_status p = PENDING \<and> tx_date row \<le> sd \<and> tx_date p \<le> sd)) \<and>
    (tx_recurring_id row \<noteq> None \<longrightarrow> tu_date u = None) \<and>
    (bu_status body \<noteq> None \<and> tu_status u = None \<longrightarrow> StatusNotForTransfers \<in> set notes) \<and>
    (bu_account_id body \<noteq> None \<and> tu_account_id u = None \<longrightarrow> AccountNotForTransfers \<in> set notes) \<and>
    (bu_date body \<noteq> None \<and> tu_date u = None \<longrightarrow>
       DateNotForTransfers \<in> set notes \<or> DateNotForOccurrences \<in> set notes \<or> (\<exists>d. DatePastSettlement d \<in> set notes)) \<and>
    tu_status u \<in> {None, bu_status body} \<and> tu_account_id u \<in> {None, bu_account_id body} \<and> tu_date u \<in> {None, bu_date body} \<and>
    (bu_settled_date body \<noteq> None \<and> tu_settled_date u \<noteq> Some (bu_settled_date body) \<longrightarrow> (\<exists>n \<in> set notes. settlement_note n))"
proof -
  let ?tr = "is_reciprocal_pair row linked"
  obtain st n1 where 1: "takes_status body ?tr = (st, n1)" by fastforce
  obtain acc n2 where 2: "takes_account body ?tr = (acc, n2)" by fastforce
  obtain d n3 where 3: "takes_date body ?tr row = (d, n3)" by fastforce
  obtain sd n4 where 4: "takes_settlement body row linked moved d = (sd, n4)" by fastforce
  from assms have nts: "notes = n1 @ n2 @ n3 @ n4" and u: "\<exists>sd'. u = \<lparr>tu_account_id = acc, tu_category_id = bu_category_id body,
      tu_description = None, tu_amount = None, tu_type = None, tu_status = st, tu_settled_date = map_option Some sd', tu_date = d,
      tu_future = False\<rparr> \<and> (sd' = sd \<or> sd = None \<and> d \<noteq> None)"
    by (auto simp: row_update_def Let_def 1 2 3 4 option_map_witness split: option.splits if_splits)
  from u obtain sd' where u': "tu_amount u = None \<and> tu_type u = None \<and> tu_description u = None \<and> \<not> tu_future u \<and> tu_category_id u = bu_category_id body"
    "tu_status u = st" "tu_account_id u = acc" "tu_date u = d" "tu_settled_date u = map_option Some sd'" "sd' = sd \<or> sd = None \<and> d \<noteq> None" by auto
  have S: "?tr \<longrightarrow> st = None" "bu_status body \<noteq> None \<and> st = None \<longrightarrow> StatusNotForTransfers \<in> set n1"
    using 1 by (cases "bu_status body"; auto simp: takes_status_def split: if_splits)+
  have A: "?tr \<longrightarrow> acc = None" "bu_account_id body \<noteq> None \<and> acc = None \<longrightarrow> AccountNotForTransfers \<in> set n2"
    using 2 by (cases "bu_account_id body"; auto simp: takes_account_def split: if_splits)+
  have D: "?tr \<longrightarrow> d = None" "tx_recurring_id row \<noteq> None \<longrightarrow> d = None"
    "bu_date body \<noteq> None \<and> d = None \<longrightarrow>
       DateNotForTransfers \<in> set n3 \<or> DateNotForOccurrences \<in> set n3 \<or> (\<exists>d. DatePastSettlement d \<in> set n3)"
    using 3 by (cases "bu_date body"; auto simp: takes_date_def Let_def split: option.splits if_splits)+
  have T: "bu_settled_date body \<noteq> None \<and> sd \<noteq> bu_settled_date body \<longrightarrow> (\<exists>n \<in> set n4. settlement_note n)"
    using takes_settlement_note[OF 4] by (cases "bu_settled_date body") auto
  have V: "st \<in> {None, bu_status body}" "acc \<in> {None, bu_account_id body}" "d \<in> {None, bu_date body}"
    using 1 2 3 by (auto simp: takes_status_def takes_account_def takes_date_def Let_def split: option.splits if_splits)
  have P: "tx_status row = PENDING \<and> tx_status p = PENDING \<and> tx_date row \<le> x \<and> tx_date p \<le> x"
    if "?tr" "linked = Some p" "sd = Some x" for p x
    using takes_settlement_pair[of body row p moved x n4] 4 that D(1) by simp
  have sd0: "?tr \<longrightarrow> sd' = sd" using u'(6) D(1) by blast
  have legs: "is_reciprocal_pair row linked \<longrightarrow> tu_status u = None \<and> tu_account_id u = None \<and> tu_date u = None \<and>
       (\<forall>p sd. linked = Some p \<and> tu_settled_date u = Some (Some sd) \<longrightarrow>
          tx_status row = PENDING \<and> tx_status p = PENDING \<and> tx_date row \<le> sd \<and> tx_date p \<le> sd)"
    unfolding u'(2-5) using S(1) A(1) D(1) P sd0 by auto
  have no_sd: "bu_settled_date body \<noteq> None \<and> tu_settled_date u \<noteq> Some (bu_settled_date body) \<longrightarrow> (\<exists>n \<in> set n4. settlement_note n)"
    using T u'(5,6) by (cases "bu_settled_date body"; cases sd; cases sd') auto
  show ?thesis
    unfolding nts set_append u'(2-4)
    by (intro conjI; (use u'(1) legs[unfolded u'(2-4)] D(2,3) S(2) A(2) V no_sd in blast))
qed

theorem row_takes_what_it_may_witness:
  "\<exists>u nts. row_update sample_bulk (transactions series_store ! 2) (Some (transactions series_store ! 3)) [] (date_of 2025 3 14) = (Inr (Inr u), nts) \<and>
    tu_status u = None \<and> tu_date u = None \<and> StatusNotForTransfers \<in> set nts"
proof -
  let ?r = "transactions series_store ! 2" and ?p = "transactions series_store ! 3"
  let ?g = "row_update sample_bulk ?r (Some ?p) [] (date_of 2025 3 14)"
  have "\<not> isl (fst ?g) \<and> \<not> isl (projr (fst ?g)) \<and> is_reciprocal_pair ?r (Some ?p) \<and> bu_status sample_bulk \<noteq> None" by code_simp
  then obtain u nts where g: "?g = (Inr (Inr u), nts)" "is_reciprocal_pair ?r (Some ?p)" "bu_status sample_bulk \<noteq> None"
    by (cases ?g; cases "fst ?g"; cases "projr (fst ?g)") auto
  from row_takes_what_it_may[OF g(1)] g(2,3) have "tu_status u = None" "tu_date u = None" by blast+
  with row_takes_what_it_may[OF g(1)] g(3) have "StatusNotForTransfers \<in> set nts" by blast
  with g \<open>tu_status u = None\<close> \<open>tu_date u = None\<close> show ?thesis by blast
qed

end
