(* ===== verification/CardCycle.thy ===== *)
theory CardCycle
  imports Frontier
begin

text \<open>
  Credit-card cycles: \<open>services/cc_cycle_service.py\<close> (the cycle a day falls in),
  \<open>services/cc_cycle_payment_service.py\<close> (which cycles may be given a payment) and
  \<open>services/credit_card_service.py\<close> (the card-only fields of an account). \<open>resolve_cycle_iff\<close> is
  the specification: the cycle of a day is the interval between two consecutive close days, each
  the close day of its month or the last day of a shorter one.
\<close>

section \<open>The cycle of a day\<close>

datatype cycle_source = SourceDefault | SourceOverride

record card_cycle =
  cy_period_start :: date
  cy_period_end_inclusive :: date
  cy_payment_date :: date
  cy_source :: cycle_source

definition DEFAULT_PAYMENT_DAY :: int where
  "DEFAULT_PAYMENT_DAY = 1"

definition DEFAULT_PAYMENT_DAY_RELATIVE_MONTH :: int where
  "DEFAULT_PAYMENT_DAY_RELATIVE_MONTH = 1"

definition clamp_day :: "int \<Rightarrow> int \<Rightarrow> int \<Rightarrow> date result" where
  "clamp_day y m d = date_or_error (mk_date y m (min d (days_in_month y m)))"

definition resolve_payment_date :: "date \<Rightarrow> int \<Rightarrow> int \<Rightarrow> date result" where
  "resolve_payment_date close payment_day payment_day_relative_month =
     (let months_offset = month close - 1 + payment_day_relative_month;
          target_year = year close + months_offset div 12;
          target_month = months_offset mod 12 + 1
      in clamp_day target_year target_month payment_day)"

definition effective_payment_day :: "int option \<Rightarrow> int" where
  "effective_payment_day d = (case d of None \<Rightarrow> DEFAULT_PAYMENT_DAY | Some n \<Rightarrow> n)"

definition effective_relative_month :: "int option \<Rightarrow> int" where
  "effective_relative_month m = (case m of None \<Rightarrow> DEFAULT_PAYMENT_DAY_RELATIVE_MONTH | Some n \<Rightarrow> n)"

definition resolve_cycle :: "int option \<Rightarrow> int option \<Rightarrow> int option \<Rightarrow> date \<Rightarrow> card_cycle result" where
  "resolve_cycle close_day payment_day payment_day_relative_month target_date =
     (case close_day of
        None \<Rightarrow> Inl (PyValueError ''resolve_cycle requires a non-null close_day'')
      | Some cd \<Rightarrow>
          let cy = year target_date; cm = month target_date in
          rbind (clamp_day cy cm cd) (\<lambda>this_month_close.
          rbind (if target_date \<le> this_month_close
                 then rbind (if cm = 1 then clamp_day (cy - 1) 12 cd else clamp_day cy (cm - 1) cd) (\<lambda>prev_close.
                      rbind (date_or_error (next_day prev_close)) (\<lambda>period_start.
                      Inr (period_start, this_month_close)))
                 else rbind (if cm = 12 then clamp_day (cy + 1) 1 cd else clamp_day cy (cm + 1) cd) (\<lambda>close_date.
                      rbind (date_or_error (next_day this_month_close)) (\<lambda>period_start.
                      Inr (period_start, close_date)))) (\<lambda>(period_start, close_date).
          rbind (resolve_payment_date close_date (effective_payment_day payment_day)
                   (effective_relative_month payment_day_relative_month)) (\<lambda>payment_date.
          Inr \<lparr>cy_period_start = period_start, cy_period_end_inclusive = close_date,
               cy_payment_date = payment_date, cy_source = SourceDefault\<rparr>))))"

definition resolve_cycle_for_account :: "account \<Rightarrow> date \<Rightarrow> card_cycle result" where
  "resolve_cycle_for_account a target_date =
     resolve_cycle (acc_close_day a) (acc_payment_day a) (acc_payment_day_relative_month a) target_date"

section \<open>Per-cycle payments\<close>

definition N_UPCOMING_CYCLES :: nat where
  "N_UPCOMING_CYCLES = 3"

definition resolve_anchor_cycle :: "account \<Rightarrow> int \<Rightarrow> int \<Rightarrow> card_cycle result" where
  "resolve_anchor_cycle a y m = rbind (date_or_error (mk_date y m 1)) (resolve_cycle_for_account a)"

primrec upcoming_cycles :: "account \<Rightarrow> nat \<Rightarrow> date \<Rightarrow> card_cycle list result" where
  "upcoming_cycles a 0 cursor = Inr []"
| "upcoming_cycles a (Suc n) cursor =
     rbind (resolve_cycle_for_account a cursor) (\<lambda>cycle.
     rbind (date_or_error (next_day (cy_period_end_inclusive cycle))) (\<lambda>cursor'.
     rbind (upcoming_cycles a n cursor') (\<lambda>cycles. Inr (cycle # cycles))))"

definition anchor_key :: "card_cycle \<Rightarrow> int \<times> int" where
  "anchor_key c = (year (cy_period_end_inclusive c), month (cy_period_end_inclusive c))"

definition key_less :: "int \<times> int \<Rightarrow> int \<times> int \<Rightarrow> bool" where
  "key_less a b \<longleftrightarrow> fst a < fst b \<or> fst a = fst b \<and> snd a < snd b"

text \<open>Every error of the resolver is a \<open>ValueError\<close>: \<open>next_day\<close> is only taken of a close date that
  has a later one.\<close>

definition validate_cycle_payment ::
  "account \<Rightarrow> string option \<Rightarrow> int \<Rightarrow> int \<Rightarrow> date \<Rightarrow> decimal option \<Rightarrow> unit result" where
  "validate_cycle_payment a account_slug y m today amount =
     rbind (guard (account_slug = Some ''credit_card'' \<and> acc_close_day a \<noteq> None)
       (HTTP422 ''cycle payments are only allowed on credit_card accounts'')) (\<lambda>_.
     rbind (guard (case amount of None \<Rightarrow> True | Some x \<Rightarrow> 0 < x) (HTTP422 ''amount must be greater than 0'')) (\<lambda>_.
     case resolve_anchor_cycle a y m of
       Inl e \<Rightarrow> Inl (HTTP422 ''the requested cycle does not resolve to a credit_card cycle'')
     | Inr c \<Rightarrow>
         rbind (resolve_cycle_for_account a today) (\<lambda>current.
         guard (\<not> key_less (y, m) (anchor_key current)) (HTTP409 ''cannot set a payment for a past cycle''))))"

section \<open>The card-only fields\<close>

definition validate_credit_card_fields ::
  "string option \<Rightarrow> decimal option \<Rightarrow> decimal option \<Rightarrow> payment_strategy option \<Rightarrow> decimal option \<Rightarrow> unit result" where
  "validate_credit_card_fields target_slug credit_limit apr strategy fixed_payment_amount =
     (if target_slug \<noteq> Some ''credit_card''
      then rbind (guard (credit_limit = None) (HTTP422 ''credit_limit is only allowed on credit_card accounts'')) (\<lambda>_.
           rbind (guard (apr = None) (HTTP422 ''apr is only allowed on credit_card accounts'')) (\<lambda>_.
           rbind (guard (strategy = None) (HTTP422 ''payment_strategy is only allowed on credit_card accounts'')) (\<lambda>_.
           guard (fixed_payment_amount = None)
             (HTTP422 ''fixed_payment_amount is only allowed on credit_card accounts''))))
      else rbind (guard (case credit_limit of None \<Rightarrow> True | Some x \<Rightarrow> 0 < x)
             (HTTP422 ''credit_limit must be greater than 0'')) (\<lambda>_.
           rbind (guard (case apr of None \<Rightarrow> True | Some x \<Rightarrow> 0 \<le> x \<and> x \<le> 100)
             (HTTP422 ''apr must be between 0 and 100'')) (\<lambda>_.
           if strategy = Some FIXED_AMOUNT
           then guard (case fixed_payment_amount of None \<Rightarrow> False | Some x \<Rightarrow> 0 < x)
                  (HTTP422 ''fixed_payment_amount is required and must be greater than 0'')
           else guard (fixed_payment_amount = None)
                  (HTTP422 ''fixed_payment_amount is only allowed with the fixed_amount payment strategy''))))"

section \<open>The specification of a cycle\<close>

text \<open>\<open>is_cycle_start cd\<close> (of \<open>Cycle\<close>) says that a date is the \<open>cd\<close>-th of its month, clamped.\<close>

lemma clamp_day_Inr:
  assumes "1 \<le> m" "m \<le> 12"
  shows "clamp_day y m c = Inr e \<longleftrightarrow> month_index e = 12 * y + (m - 1) \<and> is_cycle_start c e"
proof
  assume "clamp_day y m c = Inr e"
  then show "month_index e = 12 * y + (m - 1) \<and> is_cycle_start c e"
    by (auto simp: clamp_day_def is_cycle_start_def)
next
  assume e: "month_index e = 12 * y + (m - 1) \<and> is_cycle_start c e"
  have "year e = y" "month e = m" using month_index_div[of e] e assms by auto
  with e valid_date[of e] date_of_collapse[of e] show "clamp_day y m c = Inr e"
    by (auto simp: clamp_day_def is_cycle_start_def)
qed

lemma clamp_this: "clamp_day (year t) (month t) c = Inr e \<longleftrightarrow> month_index e = month_index t \<and> is_cycle_start c e"
  using date_bounds[of t] by (subst clamp_day_Inr) (auto simp: month_index_def)

lemma clamp_before:
  "(if month t = 1 then clamp_day (year t - 1) 12 c else clamp_day (year t) (month t - 1) c) = Inr e \<longleftrightarrow>
     month_index e = month_index t - 1 \<and> is_cycle_start c e"
  using date_bounds[of t] by (simp add: clamp_day_Inr month_index_def)

lemma clamp_after:
  "(if month t = 12 then clamp_day (year t + 1) 1 c else clamp_day (year t) (month t + 1) c) = Inr e \<longleftrightarrow>
     month_index e = month_index t + 1 \<and> is_cycle_start c e"
  using date_bounds[of t] by (simp add: clamp_day_Inr month_index_def)

lemma resolve_payment_date_Inr:
  "resolve_payment_date close pd rel = Inr e \<longleftrightarrow> month_index e = month_index close + rel \<and> is_cycle_start pd e"
proof -
  let ?o = "month close - 1 + rel"
  have b: "1 \<le> ?o mod 12 + 1" "?o mod 12 + 1 \<le> 12" by auto
  have eq: "12 * (year close + ?o div 12) + (?o mod 12 + 1 - 1) = month_index close + rel"
    using mult_div_mod_eq[of 12 ?o] by (simp add: month_index_def algebra_simps)
  show ?thesis unfolding resolve_payment_date_def Let_def clamp_day_Inr[OF b] eq ..
qed

definition cycle_spec :: "int \<Rightarrow> int option \<Rightarrow> int option \<Rightarrow> date \<Rightarrow> card_cycle \<Rightarrow> bool" where
  "cycle_spec c pd rel prev_close cy \<longleftrightarrow>
     is_cycle_start c prev_close \<and> is_cycle_start c (cy_period_end_inclusive cy) \<and>
     month_index (cy_period_end_inclusive cy) = month_index prev_close + 1 \<and>
     next_day prev_close = Some (cy_period_start cy) \<and>
     month_index (cy_payment_date cy) = month_index (cy_period_end_inclusive cy) + effective_relative_month rel \<and>
     is_cycle_start (effective_payment_day pd) (cy_payment_date cy) \<and> cy_source cy = SourceDefault"

lemma resolve_cycle_iff:
  "resolve_cycle (Some c) pd rel t = Inr cy \<longleftrightarrow>
     (\<exists>prev. cycle_spec c pd rel prev cy \<and> prev < t \<and> t \<le> cy_period_end_inclusive cy)"
proof
  assume "resolve_cycle (Some c) pd rel t = Inr cy"
  then obtain tc st cl pay where tc: "month_index tc = month_index t" "is_cycle_start c tc"
    and b: "(if t \<le> tc
       then rbind (if month t = 1 then clamp_day (year t - 1) 12 c else clamp_day (year t) (month t - 1) c) (\<lambda>prev.
            rbind (date_or_error (next_day prev)) (\<lambda>st. Inr (st, tc)))
       else rbind (if month t = 12 then clamp_day (year t + 1) 1 c else clamp_day (year t) (month t + 1) c) (\<lambda>cl.
            rbind (date_or_error (next_day tc)) (\<lambda>st. Inr (st, cl)))) = Inr (st, cl)"
    and p: "resolve_payment_date cl (effective_payment_day pd) (effective_relative_month rel) = Inr pay"
    and cy: "cy = \<lparr>cy_period_start = st, cy_period_end_inclusive = cl, cy_payment_date = pay, cy_source = SourceDefault\<rparr>"
    by (auto simp: resolve_cycle_def Let_def rbind_eq_Inr clamp_this)
  note pay = p[unfolded resolve_payment_date_Inr]
  show "\<exists>prev. cycle_spec c pd rel prev cy \<and> prev < t \<and> t \<le> cy_period_end_inclusive cy"
  proof (cases "t \<le> tc")
    case True
    with b obtain prev where "month_index prev = month_index t - 1" "is_cycle_start c prev" "next_day prev = Some st" "cl = tc"
      by (auto simp: rbind_eq_Inr clamp_before)
    with tc pay cy True show ?thesis
      by (intro exI[of _ prev]) (auto simp: cycle_spec_def intro: date_less_by_month)
  next
    case False
    with b have "month_index cl = month_index t + 1" "is_cycle_start c cl" "next_day tc = Some st"
      by (auto simp: rbind_eq_Inr clamp_after)
    with tc pay cy False show ?thesis
      by (intro exI[of _ tc]) (auto simp: cycle_spec_def intro: less_imp_le[OF date_less_by_month])
  qed
next
  assume "\<exists>prev. cycle_spec c pd rel prev cy \<and> prev < t \<and> t \<le> cy_period_end_inclusive cy"
  then obtain prev where s: "cycle_spec c pd rel prev cy" and t: "prev < t" "t \<le> cy_period_end_inclusive cy" by blast
  let ?cl = "cy_period_end_inclusive cy"
  have pay: "resolve_payment_date ?cl (effective_payment_day pd) (effective_relative_month rel) = Inr (cy_payment_date cy)"
    using s by (simp add: resolve_payment_date_Inr cycle_spec_def)
  have "month_index prev \<le> month_index t" "month_index t \<le> month_index ?cl"
    using t date_le_month[of prev t] date_le_month[of t ?cl] by auto
  moreover have "month_index ?cl = month_index prev + 1" using s by (simp add: cycle_spec_def)
  ultimately consider (last) "month_index t = month_index ?cl" | (first) "month_index t = month_index prev" by linarith
  then show "resolve_cycle (Some c) pd rel t = Inr cy"
  proof cases
    case last
    have "clamp_day (year t) (month t) c = Inr ?cl"
      "(if month t = 1 then clamp_day (year t - 1) 12 c else clamp_day (year t) (month t - 1) c) = Inr prev"
      using s last by (simp_all add: clamp_this clamp_before cycle_spec_def)
    with s t pay show ?thesis by (simp add: resolve_cycle_def cycle_spec_def)
  next
    case first
    have "clamp_day (year t) (month t) c = Inr prev"
      "(if month t = 12 then clamp_day (year t + 1) 1 c else clamp_day (year t) (month t + 1) c) = Inr ?cl"
      using s first by (simp_all add: clamp_this clamp_after cycle_spec_def)
    moreover have "\<not> t \<le> prev" using t(1) by simp
    ultimately show ?thesis using s pay by (simp add: resolve_cycle_def Let_def cycle_spec_def)
  qed
qed

text \<open>A cycle is determined by the month it closes in.\<close>

lemma cycle_spec_unique:
  assumes "cycle_spec c pd rel p x" "cycle_spec c pd rel q y"
    and "month_index (cy_period_end_inclusive x) = month_index (cy_period_end_inclusive y)"
  shows "p = q \<and> x = y"
proof -
  note X = assms(1)[unfolded cycle_spec_def] and Y = assms(2)[unfolded cycle_spec_def]
  have pq: "p = q" by (rule is_cycle_start_unique[of c]) (use X Y assms(3) in auto)
  have e: "cy_period_end_inclusive x = cy_period_end_inclusive y"
    by (rule is_cycle_start_unique[of c]) (use X Y assms(3) in auto)
  have d: "cy_payment_date x = cy_payment_date y"
    by (rule is_cycle_start_unique[of "effective_payment_day pd"]) (use X Y assms(3) in auto)
  have s: "cy_period_start x = cy_period_start y" "cy_source x = cy_source y" using X Y pq by auto
  from pq card_cycle.equality[OF s(1) e d s(2)] show ?thesis by simp
qed

text \<open>The day after a close opens the next cycle.\<close>

lemma resolve_cycle_step:
  assumes x: "cycle_spec c pd rel p x" and n: "next_day (cy_period_end_inclusive x) = Some d"
    and y: "resolve_cycle (Some c) pd rel d = Inr y"
  shows "cycle_spec c pd rel (cy_period_end_inclusive x) y" "cy_period_start y = d"
proof -
  from y obtain q where q: "cycle_spec c pd rel q y" "q < d" "d \<le> cy_period_end_inclusive y"
    by (auto simp: resolve_cycle_iff)
  have "q \<le> cy_period_end_inclusive x" using q(2) next_day_less_iff[OF n, of q] by (meson not_le)
  moreover have "cy_period_end_inclusive x < cy_period_end_inclusive y" using q(3) next_day_gt[OF n] by simp
  ultimately have le: "month_index q \<le> month_index (cy_period_end_inclusive x)"
    "month_index (cy_period_end_inclusive x) \<le> month_index (cy_period_end_inclusive y)"
    and "cy_period_end_inclusive x \<noteq> cy_period_end_inclusive y" by (auto intro: date_le_month)
  then have "month_index (cy_period_end_inclusive x) \<noteq> month_index (cy_period_end_inclusive y)"
    using is_cycle_start_unique[of c "cy_period_end_inclusive x" "cy_period_end_inclusive y"] q(1) x
    by (auto simp: cycle_spec_def)
  with le q(1) have "month_index q = month_index (cy_period_end_inclusive x)" by (auto simp: cycle_spec_def)
  then have "q = cy_period_end_inclusive x"
    using q(1) x is_cycle_start_unique[of c q "cy_period_end_inclusive x"] by (auto simp: cycle_spec_def)
  with q n show "cycle_spec c pd rel (cy_period_end_inclusive x) y" "cy_period_start y = d"
    by (auto simp: cycle_spec_def)
qed

end
