(* ===== verification/Decimals.thy ===== *)
theory Decimals
  imports Prelude
begin

text \<open>
  The rounding half of \<open>decimal.Decimal\<close>, for the few places where the services divide, multiply
  rates or raise to a power: the default context has 28 significant digits and rounds half to even;
  \<open>quantize(Decimal("0.01"), ROUND_HALF_UP)\<close> rounds to cents, ties away from zero. The power with an
  integer exponent is the square-and-multiply loop of \<open>libmpdec\<close>, run with as many extra digits as
  the exponent has, plus two.
\<close>

section \<open>Rounding\<close>

function ndigits :: "int \<Rightarrow> int" where
  "ndigits n = (if n < 10 then 1 else ndigits (n div 10) + 1)"
  by pat_completeness auto
termination by (relation "measure nat") auto

declare ndigits.simps [simp del]

definition pow10 :: "int \<Rightarrow> rat" where
  "pow10 e = (if 0 \<le> e then 10 ^ nat e else 1 / 10 ^ nat (- e))"

definition half_even :: "rat \<Rightarrow> int" where
  "half_even x =
     (let f = floor x; r = x - of_int f
      in if 1 / 2 < r \<or> r = 1 / 2 \<and> odd f then f + 1 else f)"

text \<open>Ties away from zero.\<close>

definition half_up :: "rat \<Rightarrow> int" where
  "half_up x = (if 0 \<le> x then floor (x + 1 / 2) else - floor (- x + 1 / 2))"

text \<open>The number of digits before the point of a positive value, which is not positive below 0.1.\<close>

definition magnitude :: "rat \<Rightarrow> int" where
  "magnitude x =
     (let (a, b) = quotient_of x; k = ndigits a - ndigits b
      in if pow10 k \<le> x then k + 1 else k)"

definition round_sig :: "nat \<Rightarrow> rat \<Rightarrow> rat" where
  "round_sig n x =
     (if x = 0 then 0
      else let e = int n - magnitude \<bar>x\<bar>; y = of_int (half_even (\<bar>x\<bar> * pow10 e)) / pow10 e
           in if x < 0 then - y else y)"

definition PREC :: nat where
  "PREC = 28"

section \<open>Operations\<close>

definition dec_mul :: "decimal \<Rightarrow> decimal \<Rightarrow> decimal" where
  "dec_mul x y = round_sig PREC (x * y)"

definition dec_sub :: "decimal \<Rightarrow> decimal \<Rightarrow> decimal" where
  "dec_sub x y = round_sig PREC (x - y)"

text \<open>Division by zero and a result too wide to quantize are \<open>ArithmeticError\<close>s.\<close>

definition arithmetic_error :: service_error where
  "arithmetic_error = PyValueError ''ArithmeticError''"

definition dec_div :: "decimal \<Rightarrow> decimal \<Rightarrow> decimal result" where
  "dec_div x y = (if y = 0 then Inl arithmetic_error else Inr (round_sig PREC (x / y)))"

function power_bits :: "nat \<Rightarrow> decimal \<Rightarrow> int \<Rightarrow> decimal" where
  "power_bits prec b n =
     (if n \<le> 1 then b
      else let h = power_bits prec b (n div 2); sq = round_sig prec (h * h)
           in if odd n then round_sig prec (sq * b) else sq)"
  by pat_completeness auto
termination by (relation "measure (\<lambda>(prec, b, n). nat n)") auto

declare power_bits.simps [simp del]

text \<open>For a positive exponent, as every caller passes.\<close>

definition dec_pow :: "decimal \<Rightarrow> int \<Rightarrow> decimal" where
  "dec_pow b n = round_sig PREC (power_bits (PREC + nat (ndigits n) + 2) b n)"

definition quantize_cents :: "decimal \<Rightarrow> decimal result" where
  "quantize_cents x =
     (let y = of_int (half_up (x * 100)) / 100
      in if 10 ^ 26 \<le> \<bar>y\<bar> then Inl arithmetic_error else Inr y)"

section \<open>Bounds\<close>

lemma pow10_pos [simp]: "0 < pow10 e"
  by (simp add: pow10_def)

lemma half_even_nonneg: "0 \<le> x \<Longrightarrow> 0 \<le> half_even x"
  by (auto simp: half_even_def Let_def)

lemma half_even_ge: "of_int k \<le> x \<Longrightarrow> k \<le> half_even x"
  by (auto simp: half_even_def Let_def le_floor_iff intro: order_trans[of _ "\<lfloor>x\<rfloor>"])

lemma round_sig_nonneg: "0 \<le> x \<Longrightarrow> 0 \<le> round_sig n x"
  by (auto simp: round_sig_def Let_def intro!: divide_nonneg_pos half_even_nonneg mult_nonneg_nonneg less_imp_le[OF pow10_pos])

lemma half_up_close: "\<bar>of_int (half_up x) - x\<bar> \<le> 1 / 2"
proof (cases "0 \<le> x")
  case True
  have "of_int \<lfloor>x + 1 / 2\<rfloor> \<le> x + 1 / 2" "x + 1 / 2 < of_int \<lfloor>x + 1 / 2\<rfloor> + 1" by linarith+
  then have "- (1 / 2) \<le> of_int \<lfloor>x + 1 / 2\<rfloor> - x" "of_int \<lfloor>x + 1 / 2\<rfloor> - x \<le> 1 / 2" by linarith+
  moreover have "half_up x = \<lfloor>x + 1 / 2\<rfloor>" using True by (simp add: half_up_def)
  ultimately show ?thesis by (intro abs_leI) linarith+
next
  case False
  have "of_int \<lfloor>- x + 1 / 2\<rfloor> \<le> - x + 1 / 2" "- x + 1 / 2 < of_int \<lfloor>- x + 1 / 2\<rfloor> + 1" by linarith+
  then have "- (1 / 2) \<le> - of_int \<lfloor>- x + 1 / 2\<rfloor> - x" "- of_int \<lfloor>- x + 1 / 2\<rfloor> - x \<le> 1 / 2" by linarith+
  moreover have "of_int (half_up x) = - (of_int \<lfloor>- x + 1 / 2\<rfloor> :: rat)" using False by (simp add: half_up_def)
  ultimately show ?thesis by (intro abs_leI) linarith+
qed

lemma quantize_cents_Inr: "quantize_cents x = Inr y \<Longrightarrow> y * 100 = of_int (half_up (x * 100))"
  by (auto simp: quantize_cents_def Let_def split: if_splits)

lemma quantize_cents_close:
  assumes "quantize_cents x = Inr y"
  shows "\<bar>y - x\<bar> \<le> 1 / 200"
proof -
  have "\<bar>y * 100 - x * 100\<bar> \<le> 1 / 2"
    using half_up_close[of "x * 100"] unfolding quantize_cents_Inr[OF assms] .
  then show ?thesis unfolding abs_le_iff by linarith
qed

lemma quantize_cents_nonneg:
  assumes "0 \<le> x" "quantize_cents x = Inr y"
  shows "0 \<le> y"
proof -
  have "0 \<le> half_up (x * 100)" using assms(1) by (simp add: half_up_def)
  then have "0 \<le> y * 100" unfolding quantize_cents_Inr[OF assms(2)] by simp
  then show ?thesis by simp
qed

end
