(* ===== verification/Loan.thy ===== *)
theory Loan
  imports CardCycle Decimals
begin

text \<open>
  Loans: the validation of the loan-only fields and the computed metrics of
  \<open>services/loan_service.py\<close>, and the projected payment of \<open>services/loan_forecast_service.py\<close>. The
  payoff of an interest-bearing loan takes a hop through \<open>math.log\<close> on floats: that number of months
  is the parameter \<open>log_months\<close>, with \<open>None\<close> for the \<open>ValueError\<close> of a logarithm outside its domain.
\<close>

section \<open>The monthly payment\<close>

definition monthly_rate :: "decimal \<Rightarrow> decimal result" where
  "monthly_rate interest_rate_apr = rbind (dec_div interest_rate_apr 100) (\<lambda>x. dec_div x 12)"

definition compute_pmt :: "decimal \<Rightarrow> decimal \<Rightarrow> int \<Rightarrow> decimal result" where
  "compute_pmt principal_amount interest_rate_apr term_months =
     rbind (monthly_rate interest_rate_apr) (\<lambda>r.
     rbind (if r = 0 then dec_div principal_amount (of_int term_months)
            else let factor = dec_pow (round_sig PREC (1 + r)) term_months
                 in dec_div (dec_mul (dec_mul principal_amount r) factor) (dec_sub factor 1))
       quantize_cents)"

section \<open>Validation\<close>

definition LOAN_DATE_MIN :: date where
  "LOAN_DATE_MIN = date_of 1900 1 1"

definition LOAN_DATE_MAX :: date where
  "LOAN_DATE_MAX = date_of 2200 12 31"

record loan_fields =
  lf_principal_amount :: "decimal option"
  lf_interest_rate_apr :: "decimal option"
  lf_term_months :: "int option"
  lf_origination_date :: "date option"
  lf_first_payment_date :: "date option"

definition validate_loan_terms :: "decimal \<Rightarrow> decimal \<Rightarrow> int \<Rightarrow> date \<Rightarrow> date \<Rightarrow> unit result" where
  "validate_loan_terms prin apr term origination first_payment =
     rbind (guard (0 < prin) (HTTP422 ''principal_amount must be greater than 0'')) (\<lambda>_.
     rbind (guard (0 \<le> apr \<and> apr \<le> 99999 / 100) (HTTP422 ''interest_rate_apr must be between 0 and 999.99'')) (\<lambda>_.
     rbind (guard (1 \<le> term \<and> term \<le> 480) (HTTP422 ''term_months must be between 1 and 480'')) (\<lambda>_.
     rbind (guard (LOAN_DATE_MIN \<le> origination \<and> origination \<le> LOAN_DATE_MAX)
       (HTTP422 ''origination_date must be between 1900-01-01 and 2200-12-31'')) (\<lambda>_.
     rbind (guard (LOAN_DATE_MIN \<le> first_payment \<and> first_payment \<le> LOAN_DATE_MAX)
       (HTTP422 ''first_payment_date must be between 1900-01-01 and 2200-12-31'')) (\<lambda>_.
     rbind (guard (origination \<le> first_payment)
       (HTTP422 ''first_payment_date must be on or after origination_date'')) (\<lambda>_.
     rbind (compute_pmt prin apr term) (\<lambda>pmt.
     guard (0 < pmt) (HTTP422 ''loan terms give a monthly payment of 0.00''))))))))"

definition validate_loan_fields :: "string option \<Rightarrow> loan_fields \<Rightarrow> unit result" where
  "validate_loan_fields target_slug f =
     (if target_slug \<noteq> Some ''loan''
      then rbind (guard (lf_principal_amount f = None) (HTTP422 ''principal_amount is only allowed on loan accounts'')) (\<lambda>_.
           rbind (guard (lf_interest_rate_apr f = None) (HTTP422 ''interest_rate_apr is only allowed on loan accounts'')) (\<lambda>_.
           rbind (guard (lf_term_months f = None) (HTTP422 ''term_months is only allowed on loan accounts'')) (\<lambda>_.
           rbind (guard (lf_origination_date f = None) (HTTP422 ''origination_date is only allowed on loan accounts'')) (\<lambda>_.
           guard (lf_first_payment_date f = None) (HTTP422 ''first_payment_date is only allowed on loan accounts'')))))
      else
        case lf_principal_amount f of None \<Rightarrow> Inl (HTTP422 ''principal_amount is required for loan accounts'')
        | Some prin \<Rightarrow>
       (case lf_interest_rate_apr f of None \<Rightarrow> Inl (HTTP422 ''interest_rate_apr is required for loan accounts'')
        | Some apr \<Rightarrow>
       (case lf_term_months f of None \<Rightarrow> Inl (HTTP422 ''term_months is required for loan accounts'')
        | Some term \<Rightarrow>
       (case lf_origination_date f of None \<Rightarrow> Inl (HTTP422 ''origination_date is required for loan accounts'')
        | Some origination \<Rightarrow>
       (case lf_first_payment_date f of None \<Rightarrow> Inl (HTTP422 ''first_payment_date is required for loan accounts'')
        | Some first_payment \<Rightarrow> validate_loan_terms prin apr term origination first_payment)))))"

section \<open>Metrics\<close>

datatype loan_status = OnTrack | PaidOff | InterestOnly

record loan_metrics =
  lm_expected_monthly_payment :: decimal
  lm_maturation_date :: date
  lm_total_interest :: decimal
  lm_projected_payoff_date :: "date option"
  lm_projected_payoff_months :: "int option"
  lm_status :: loan_status

definition first_payment_on_or_after ::
  "(int \<Rightarrow> int \<Rightarrow> date \<Rightarrow> date option) \<Rightarrow> date \<Rightarrow> date \<Rightarrow> date result" where
  "first_payment_on_or_after rd first_payment_date today =
     (if today \<le> first_payment_date then Inr first_payment_date
      else
        let k = (year today - year first_payment_date) * 12 + (month today - month first_payment_date)
        in rbind (date_or_error (rd 0 k first_payment_date)) (\<lambda>candidate.
           if candidate < today then date_or_error (rd 0 (k + 1) first_payment_date) else Inr candidate))"

definition months_to_payoff ::
  "(decimal \<Rightarrow> decimal \<Rightarrow> decimal \<Rightarrow> int option) \<Rightarrow> decimal \<Rightarrow> decimal \<Rightarrow> decimal \<Rightarrow> int result" where
  "months_to_payoff log_months r owed pmt =
     (if r = 0 then rbind (dec_div owed pmt) (\<lambda>q. Inr (ceiling q))
      else (case log_months r owed pmt of None \<Rightarrow> Inl arithmetic_error | Some n \<Rightarrow> Inr n))"

definition compute_loan_metrics ::
  "(int \<Rightarrow> int \<Rightarrow> date \<Rightarrow> date option) \<Rightarrow> (decimal \<Rightarrow> decimal \<Rightarrow> decimal \<Rightarrow> int option)
     \<Rightarrow> decimal \<Rightarrow> decimal \<Rightarrow> int \<Rightarrow> date \<Rightarrow> decimal \<Rightarrow> date \<Rightarrow> loan_metrics result" where
  "compute_loan_metrics rd log_months prin apr term first_payment_date balance today =
     rbind (monthly_rate apr) (\<lambda>r.
     rbind (compute_pmt prin apr term) (\<lambda>pmt.
     rbind (date_or_error (rd 0 (term - 1) first_payment_date)) (\<lambda>maturation_date.
     rbind (quantize_cents (max 0 (dec_sub (dec_mul pmt (of_int term)) prin))) (\<lambda>total_interest.
     let owed = - balance;
         metrics = (\<lambda>payoff months st. \<lparr>lm_expected_monthly_payment = pmt, lm_maturation_date = maturation_date,
            lm_total_interest = total_interest, lm_projected_payoff_date = payoff,
            lm_projected_payoff_months = months, lm_status = st\<rparr>)
     in if owed \<le> 0 then Inr (metrics (Some today) (Some 0) PaidOff)
        else if pmt \<le> dec_mul r owed then Inr (metrics None None InterestOnly)
        else
          rbind (months_to_payoff log_months r owed pmt) (\<lambda>n.
          let n_rem = max n 1 in
          rbind (first_payment_on_or_after rd first_payment_date today) (\<lambda>next_payment_date.
          Inr (metrics (rd 0 (n_rem - 1) next_payment_date) (Some n_rem) OnTrack)))))))"

definition loan_metrics_or_none ::
  "(int \<Rightarrow> int \<Rightarrow> date \<Rightarrow> date option) \<Rightarrow> (decimal \<Rightarrow> decimal \<Rightarrow> decimal \<Rightarrow> int option)
     \<Rightarrow> decimal \<Rightarrow> decimal \<Rightarrow> int \<Rightarrow> date \<Rightarrow> decimal \<Rightarrow> date \<Rightarrow> loan_metrics option" where
  "loan_metrics_or_none rd log_months prin apr term first_payment_date balance today =
     (case compute_loan_metrics rd log_months prin apr term first_payment_date balance today of
        Inl e \<Rightarrow> None | Inr lm \<Rightarrow> Some lm)"

section \<open>The projected payment\<close>

primrec due_dates ::
  "(int \<Rightarrow> int \<Rightarrow> date \<Rightarrow> date option) \<Rightarrow> date \<Rightarrow> date \<Rightarrow> date \<Rightarrow> int list \<Rightarrow> date list result" where
  "due_dates rd first_payment_date p_start p_end [] = Inr []"
| "due_dates rd first_payment_date p_start p_end (k # ks) =
     rbind (date_or_error (rd 0 k first_payment_date)) (\<lambda>d_k.
     if p_end < d_k then Inr []
     else rbind (due_dates rd first_payment_date p_start p_end ks) (\<lambda>dates.
       Inr (if p_start \<le> d_k then d_k # dates else dates)))"

definition due_loan_payment_dates ::
  "(int \<Rightarrow> int \<Rightarrow> date \<Rightarrow> date option) \<Rightarrow> date \<Rightarrow> int \<Rightarrow> date \<Rightarrow> date \<Rightarrow> date list result" where
  "due_loan_payment_dates rd first_payment_date term_months p_start p_end =
     due_dates rd first_payment_date p_start p_end [0..term_months - 1]"

definition synthesize_account_loan_payment ::
  "(int \<Rightarrow> int \<Rightarrow> date \<Rightarrow> date option) \<Rightarrow> date \<Rightarrow> int \<Rightarrow> decimal \<Rightarrow> decimal \<Rightarrow> date \<Rightarrow> date \<Rightarrow> bool
     \<Rightarrow> (date \<times> decimal) list result" where
  "synthesize_account_loan_payment rd first_payment_date term_months balance pmt p_start p_end already_paid =
     (if already_paid then Inr []
      else rbind (due_loan_payment_dates rd first_payment_date term_months p_start p_end) (\<lambda>dates.
        case dates of
          [] \<Rightarrow> Inr []
        | pay_date # _ \<Rightarrow>
            let outstanding = max 0 (- balance); applied = min pmt outstanding
            in if applied \<le> 0 then Inr [] else Inr [(pay_date, applied)]))"

end
