(* ===== verification/Projection.thy ===== *)
theory Projection
  imports CardForecast Loan
begin

text \<open>
  \<open>services/projection_kernel.py\<close>: the balance projection shared by the dashboard and the plans. The
  sources of movement (pending rows, occurrences generation has not written, card and loan payments,
  settled rows dated in the future) are lists of lines; a line is booked on its day, no earlier than
  the first day of the walk; the walk adds the bookings of a day to the running balance. SQL's
  \<open>GROUP BY\<close> sums of amounts are sums of the rows one by one. The table of per-cycle card payments is
  the argument \<open>per_cycle_amounts\<close>.
\<close>

section \<open>Bookings\<close>

type_synonym point = "date \<times> decimal"

text \<open>A line: the account, the day, the signed amount.\<close>

type_synonym booking = "int \<times> date \<times> decimal"

text \<open>\<open>day_deltas\<close>, with 0 for an account or a day without an entry.\<close>

type_synonym day_deltas = "int \<Rightarrow> date \<Rightarrow> decimal"

definition add_day_delta :: "date \<Rightarrow> booking \<Rightarrow> day_deltas \<Rightarrow> day_deltas" where
  "add_day_delta walk_start bk deltas =
     (case bk of (account_id, on, delta) \<Rightarrow>
        let on' = (if on < walk_start then walk_start else on)
        in deltas(account_id := (deltas account_id)(on' := deltas account_id on' + delta)))"

definition book :: "date \<Rightarrow> booking list \<Rightarrow> day_deltas \<Rightarrow> day_deltas" where
  "book walk_start bks deltas = fold (add_day_delta walk_start) bks deltas"

definition lines_of :: "int \<Rightarrow> (int \<times> 'x) list \<Rightarrow> 'x list" where
  "lines_of account_id xs = map snd (filter (\<lambda>x. fst x = account_id) xs)"

section \<open>The walk\<close>

function walk_points ::
  "(date \<Rightarrow> decimal) \<Rightarrow> date \<Rightarrow> date \<Rightarrow> decimal \<Rightarrow> date \<Rightarrow> point list result" where
  "walk_points per_day daily_end horizon_end running d =
     (if d \<le> horizon_end then
        let running' = running + per_day d
        in case next_day d of
             None \<Rightarrow> Inl calendar_error
           | Some nxt \<Rightarrow>
               rbind (walk_points per_day daily_end horizon_end running' nxt) (\<lambda>series.
               Inr (if d \<le> daily_end \<or> day nxt = 1 \<or> d = horizon_end then (d, running') # series else series))
      else Inr [])"
  by pat_completeness auto
termination
  by (relation "measure (\<lambda>(per_day, daily_end, horizon_end, running, d). days_left d)")
     (auto intro: days_left_less next_day_gt)

declare walk_points.simps [simp del]

section \<open>The rows\<close>

definition active_accounts :: "store \<Rightarrow> int \<Rightarrow> account list" where
  "active_accounts s org_id = filter (\<lambda>a. acc_org_id a = org_id \<and> acc_is_active a) (accounts s)"

definition loaded_account :: "store \<Rightarrow> int \<Rightarrow> int \<Rightarrow> account option" where
  "loaded_account s org_id i = find (\<lambda>a. acc_id a = i) (active_accounts s org_id)"

text \<open>The sign of the aggregates: an expense is negative, anything else positive.\<close>

definition aggregate_amount :: "transaction \<Rightarrow> decimal" where
  "aggregate_amount t = (if tx_type t = EXPENSE then - tx_amount t else tx_amount t)"

definition pending_lines :: "store \<Rightarrow> int \<Rightarrow> int list \<Rightarrow> date \<Rightarrow> date \<Rightarrow> booking list" where
  "pending_lines s org_id excluded window_start horizon_end =
     map (\<lambda>t. (tx_account_id t, effective_period_date_expr t, aggregate_amount t))
       (filter (\<lambda>t. tx_org_id t = org_id \<and> tx_status t = PENDING \<and> \<not> tx_is_manual_adjustment t \<and>
            non_reverted_transaction_filter (transactions s) t \<and>
            window_start \<le> effective_period_date_expr t \<and> effective_period_date_expr t \<le> horizon_end \<and>
            not_pending_of_series_filter excluded t)
          (transactions s))"

definition future_settled_lines :: "store \<Rightarrow> int \<Rightarrow> date \<Rightarrow> date \<Rightarrow> booking list" where
  "future_settled_lines s org_id walk_start up_to =
     map (\<lambda>t. (tx_account_id t, effective_period_date_expr t, aggregate_amount t))
       (filter (\<lambda>t. tx_org_id t = org_id \<and> tx_status t = SETTLED \<and>
            balance_contribution_filter (transactions s) t \<and>
            walk_start < effective_period_date_expr t \<and> effective_period_date_expr t \<le> up_to)
          (transactions s))"

section \<open>Occurrences generation has not written\<close>

definition recurring_items :: "store \<Rightarrow> int \<Rightarrow> int list \<Rightarrow> date \<Rightarrow> template list" where
  "recurring_items s org_id excluded horizon_end =
     filter (\<lambda>r. r_org_id r = org_id \<and> active_series_filter r \<and> r_next_due_date r \<le> horizon_end \<and>
        r_id r \<notin> set excluded) (templates s)"

definition materialised :: "store \<Rightarrow> int \<Rightarrow> int \<Rightarrow> date \<Rightarrow> bool" where
  "materialised s org_id rid d \<longleftrightarrow>
     list_ex (\<lambda>t. tx_org_id t = org_id \<and> tx_recurring_id t = Some rid \<and> tx_date t = d) (transactions s)"

definition recurring_legs :: "template \<Rightarrow> (int option \<times> decimal) list" where
  "recurring_legs r =
     (if r_type r = TRANSFER then [(Some (r_account_id r), - r_amount r), (r_to_account_id r, r_amount r)]
      else [(Some (r_account_id r), if r_type r = INCOME then r_amount r else - r_amount r)])"

definition loaded_legs :: "store \<Rightarrow> int \<Rightarrow> template \<Rightarrow> (int \<times> decimal) list" where
  "loaded_legs s org_id r =
     List.map_filter (\<lambda>(a, delta). case a of None \<Rightarrow> None
        | Some i \<Rightarrow> if loaded_account s org_id i = None then None else Some (i, delta)) (recurring_legs r)"

definition projected_dates ::
  "(int \<Rightarrow> int \<Rightarrow> date \<Rightarrow> date option) \<Rightarrow> store \<Rightarrow> int \<Rightarrow> date \<Rightarrow> date \<Rightarrow> template \<Rightarrow> date list" where
  "projected_dates rd s org_id window_start horizon_end r =
     filter (\<lambda>d. \<not> materialised s org_id (r_id r) d)
       (occurrences_in_window rd (r_next_due_date r) (r_frequency r) window_start horizon_end
          (remaining_occurrences r))"

text \<open>One line per leg: the account, and the credit key of a transfer's destination.\<close>

definition series_lines ::
  "(int \<Rightarrow> int \<Rightarrow> date \<Rightarrow> date option) \<Rightarrow> store \<Rightarrow> int \<Rightarrow> date \<Rightarrow> date \<Rightarrow> template
     \<Rightarrow> (int \<times> credit_key option \<times> date \<times> decimal) list" where
  "series_lines rd s org_id window_start horizon_end r =
     concat (map (\<lambda>d. map (\<lambda>(a, delta).
         (a, if r_type r = TRANSFER \<and> Some a = r_to_account_id r then Some (RecurringCredit (r_id r) d) else None,
          d, delta)) (loaded_legs s org_id r))
       (projected_dates rd s org_id window_start horizon_end r))"

definition recurring_lines ::
  "(int \<Rightarrow> int \<Rightarrow> date \<Rightarrow> date option) \<Rightarrow> store \<Rightarrow> int \<Rightarrow> int list \<Rightarrow> date \<Rightarrow> date
     \<Rightarrow> (int \<times> credit_key option \<times> date \<times> decimal) list" where
  "recurring_lines rd s org_id excluded window_start horizon_end =
     concat (map (series_lines rd s org_id window_start horizon_end) (recurring_items s org_id excluded horizon_end))"

definition series_dates ::
  "(int \<Rightarrow> int \<Rightarrow> date \<Rightarrow> date option) \<Rightarrow> store \<Rightarrow> int \<Rightarrow> int list \<Rightarrow> date \<Rightarrow> date \<Rightarrow> (int \<times> date) list" where
  "series_dates rd s org_id excluded window_start horizon_end =
     concat (map (\<lambda>r. if loaded_legs s org_id r = [] then []
                      else map (Pair (r_id r)) (projected_dates rd s org_id window_start horizon_end r))
       (recurring_items s org_id excluded horizon_end))"

definition transfer_in :: "int \<Rightarrow> (int \<times> credit_key option \<times> date \<times> decimal) list \<Rightarrow> credits" where
  "transfer_in account_id ls =
     List.map_filter (\<lambda>(a, key, d, delta). if a = account_id then map_option (\<lambda>k. (k, d, delta)) key else None) ls"

definition charges :: "int \<Rightarrow> (int \<times> credit_key option \<times> date \<times> decimal) list \<Rightarrow> ledger" where
  "charges account_id ls =
     List.map_filter (\<lambda>(a, key, d, delta). if a = account_id \<and> key = None then Some (d, delta) else None) ls"

section \<open>Card payments\<close>

definition paying_cards :: "store \<Rightarrow> int \<Rightarrow> account list" where
  "paying_cards s org_id =
     filter (\<lambda>a. acc_type_slug a = Some ''credit_card'' \<and> acc_close_day a \<noteq> None \<and>
        acc_payment_source_account_id a \<noteq> None) (active_accounts s org_id)"

text \<open>The account that pays, when it is loaded and in the same currency.\<close>

definition payment_source :: "store \<Rightarrow> int \<Rightarrow> account \<Rightarrow> account option" where
  "payment_source s org_id a =
     (case acc_payment_source_account_id a of
        None \<Rightarrow> None
      | Some i \<Rightarrow>
          (case loaded_account s org_id i of
             None \<Rightarrow> None
           | Some src \<Rightarrow> if acc_currency src \<noteq> acc_currency a then None else Some src))"

definition row_credits :: "store \<Rightarrow> int \<Rightarrow> int list \<Rightarrow> int \<Rightarrow> credits" where
  "row_credits s org_id excluded account_id =
     map (\<lambda>t. (RowCredit (tx_id t), effective_period_date_expr t, tx_amount t))
       (filter (\<lambda>t. tx_org_id t = org_id \<and> tx_account_id t = account_id \<and> tx_linked t \<noteq> None \<and>
            tx_type t = INCOME \<and> balance_contribution_filter (transactions s) t \<and>
            not_pending_of_series_filter excluded t) (transactions s))"

text \<open>The payments of one card: the source, the card, and the lines.\<close>

definition card_payments ::
  "(int \<Rightarrow> int \<Rightarrow> date \<Rightarrow> date option) \<Rightarrow> store \<Rightarrow> int \<Rightarrow> int list \<Rightarrow> cycle_amounts \<Rightarrow> date \<Rightarrow> date \<Rightarrow> date
     \<Rightarrow> (int \<times> credit_key option \<times> date \<times> decimal) list \<Rightarrow> account
     \<Rightarrow> (int \<times> int \<times> point list) option result" where
  "card_payments rd s org_id excluded per_cycle_amounts window_start first_period_end horizon_end ls cc =
     (case payment_source s org_id cc of
        None \<Rightarrow> Inr None
      | Some source \<Rightarrow>
          rbind (synthesize_account_cc_payments rd cc window_start horizon_end (acc_opening_balance cc)
                   (load_cc_ledger s org_id (acc_id cc) None excluded @
                      map (\<lambda>(_, d, a). (d, a)) (transfer_in (acc_id cc) ls))
                   (row_credits s org_id excluded (acc_id cc) @ transfer_in (acc_id cc) ls)
                   per_cycle_amounts (charges (acc_id cc) ls) (Some first_period_end))
            (\<lambda>payments. Inr (Some (acc_id source, acc_id cc, payments))))"

text \<open>Each payment is booked on both accounts.\<close>

definition payment_lines :: "int \<times> int \<times> point list \<Rightarrow> booking list" where
  "payment_lines p =
     (case p of (source, target, payments) \<Rightarrow>
        concat (map (\<lambda>(d, x). [(source, d, - x), (target, d, x)]) payments))"

section \<open>Loan payments\<close>

text \<open>The whole-month periods of the horizon. The loop ends when a period reaches the horizon; each
  pass moves the end one month on, so the months of the horizon (and one) bound it.\<close>

definition out_of_fuel :: service_error where
  "out_of_fuel = PyValueError ''loop bound''"

primrec periods_after ::
  "nat \<Rightarrow> (int \<Rightarrow> int \<Rightarrow> date \<Rightarrow> date option) \<Rightarrow> date \<Rightarrow> date \<Rightarrow> int \<Rightarrow> date \<Rightarrow> (date \<times> date) list result" where
  "periods_after 0 rd first_end horizon_end k prev_end =
     (if prev_end < horizon_end then Inl out_of_fuel else Inr [])"
| "periods_after (Suc n) rd first_end horizon_end k prev_end =
     (if prev_end < horizon_end then
        rbind (date_or_error (next_day prev_end)) (\<lambda>start.
        rbind (date_or_error (rd 0 k first_end)) (\<lambda>e.
        let end' = min e horizon_end in
        rbind (periods_after n rd first_end horizon_end (k + 1) end') (\<lambda>ps. Inr ((start, end') # ps))))
      else Inr [])"

definition loan_periods ::
  "(int \<Rightarrow> int \<Rightarrow> date \<Rightarrow> date option) \<Rightarrow> date \<Rightarrow> date \<Rightarrow> date \<Rightarrow> (date \<times> date) list result" where
  "loan_periods rd window_start first_end horizon_end =
     (let first = (window_start, min first_end horizon_end)
      in rbind (periods_after (nat (month_index horizon_end - month_index first_end + 1)) rd first_end horizon_end 1
                  (snd first)) (\<lambda>ps. Inr (first # ps)))"

definition projected_loans :: "store \<Rightarrow> int \<Rightarrow> account list" where
  "projected_loans s org_id =
     filter (\<lambda>a. acc_type_slug a = Some ''loan'' \<and> acc_payment_source_account_id a \<noteq> None \<and>
        acc_principal_amount a \<noteq> None \<and> acc_interest_rate_apr a \<noteq> None \<and> acc_term_months a \<noteq> None \<and>
        acc_origination_date a \<noteq> None \<and> acc_first_payment_date a \<noteq> None) (active_accounts s org_id)"

text \<open>The payment-in legs on a loan: the day, the series a leg comes from, the amount.\<close>

definition loan_paid ::
  "store \<Rightarrow> int \<Rightarrow> int list \<Rightarrow> date \<Rightarrow> date \<Rightarrow> int \<Rightarrow> (date \<times> int option \<times> decimal) list" where
  "loan_paid s org_id excluded window_start horizon_end account_id =
     map (\<lambda>t. (effective_period_date_expr t,
            (case tx_recurring_origin_id t of Some i \<Rightarrow> Some i | None \<Rightarrow> tx_recurring_id t), tx_amount t))
       (filter (\<lambda>t. tx_org_id t = org_id \<and> tx_account_id t = account_id \<and> tx_linked t \<noteq> None \<and>
            tx_type t = INCOME \<and> balance_contribution_filter (transactions s) t \<and>
            window_start \<le> effective_period_date_expr t \<and> effective_period_date_expr t \<le> horizon_end \<and>
            not_pending_of_series_filter excluded t) (transactions s))"

text \<open>\<open>paid_in\<close>: a manual leg in the period is its payment; recurring legs are when they reach the
  monthly payment together.\<close>

definition paid_in :: "date list \<Rightarrow> point list \<Rightarrow> decimal \<Rightarrow> date \<Rightarrow> date \<Rightarrow> bool" where
  "paid_in manual_on recurring_on pmt start end \<longleftrightarrow>
     list_ex (\<lambda>d. start \<le> d \<and> d \<le> end) manual_on \<or>
     pmt \<le> sum_list (map snd (filter (\<lambda>x. start \<le> fst x \<and> fst x \<le> end) recurring_on))"

definition legs_in :: "point list \<Rightarrow> date \<Rightarrow> date \<Rightarrow> decimal" where
  "legs_in legs_on start end = sum_list (map snd (filter (\<lambda>x. start \<le> fst x \<and> fst x < end) legs_on))"

text \<open>What a later period does first: take in the legs of the one before, then accrue a month of
  interest on its due date.\<close>

definition accrue ::
  "(int \<Rightarrow> int \<Rightarrow> date \<Rightarrow> date option) \<Rightarrow> date \<Rightarrow> int \<Rightarrow> decimal \<Rightarrow> point list \<Rightarrow> date option \<Rightarrow> date \<Rightarrow> date
     \<Rightarrow> decimal \<Rightarrow> (decimal \<times> point list) result" where
  "accrue rd first_payment term rate legs_on prev_start seg_start seg_end balance =
     (case prev_start of
        None \<Rightarrow> Inr (balance, [])
      | Some p \<Rightarrow>
          let balance1 = balance + legs_in legs_on p seg_start in
          rbind (due_loan_payment_dates rd first_payment term seg_start seg_end) (\<lambda>due.
          case due of
            [] \<Rightarrow> Inr (balance1, [])
          | d # _ \<Rightarrow>
              if balance1 < 0
              then rbind (quantize_cents (dec_mul (- balance1) rate)) (\<lambda>interest.
                   Inr (if 0 < interest then (balance1 - interest, [(d, interest)]) else (balance1, [])))
              else Inr (balance1, [])))"

text \<open>The loop over the periods: the interest lines and the payment lines.\<close>

primrec loan_segments ::
  "(int \<Rightarrow> int \<Rightarrow> date \<Rightarrow> date option) \<Rightarrow> date \<Rightarrow> int \<Rightarrow> decimal \<Rightarrow> decimal \<Rightarrow> point list \<Rightarrow> (date \<Rightarrow> date \<Rightarrow> bool)
     \<Rightarrow> (date \<times> date) list \<Rightarrow> date option \<Rightarrow> decimal \<Rightarrow> (point list \<times> point list) result" where
  "loan_segments rd first_payment term rate pmt legs_on paid [] prev_start balance = Inr ([], [])"
| "loan_segments rd first_payment term rate pmt legs_on paid (seg # segs) prev_start balance =
     (case seg of (seg_start, seg_end) \<Rightarrow>
     rbind (accrue rd first_payment term rate legs_on prev_start seg_start seg_end balance) (\<lambda>(balance1, interest).
     rbind (date_or_error (next_day seg_end)) (\<lambda>after.
     rbind (synthesize_account_loan_payment rd first_payment term (balance1 + legs_in legs_on seg_start after) pmt
              seg_start seg_end (paid seg_start seg_end)) (\<lambda>payments.
     rbind (loan_segments rd first_payment term rate pmt legs_on paid segs (Some seg_start)
              (balance1 + sum_list (map snd payments))) (\<lambda>(interests, paids).
     Inr (interest @ interests, payments @ paids))))))"

text \<open>One loan: the source, the loan, the interest and the payments.\<close>

definition loan_payments ::
  "(int \<Rightarrow> int \<Rightarrow> date \<Rightarrow> date option) \<Rightarrow> store \<Rightarrow> int \<Rightarrow> int list \<Rightarrow> date \<Rightarrow> date \<Rightarrow> (date \<times> date) list
     \<Rightarrow> booking list \<Rightarrow> (int \<times> credit_key option \<times> date \<times> decimal) list \<Rightarrow> account
     \<Rightarrow> (int \<times> int \<times> point list \<times> point list) option result" where
  "loan_payments rd s org_id excluded window_start horizon_end periods pending ls loan =
     (case payment_source s org_id loan of
        None \<Rightarrow> Inr None
      | Some source \<Rightarrow>
     (case (acc_principal_amount loan, acc_interest_rate_apr loan, acc_term_months loan, acc_first_payment_date loan) of
        (Some amount, Some apr, Some term, Some first_payment) \<Rightarrow>
          rbind (compute_pmt amount apr term) (\<lambda>pmt.
          rbind (monthly_rate apr) (\<lambda>rate.
          let paid = loan_paid s org_id excluded window_start horizon_end (acc_id loan);
              manual_on = map fst (filter (\<lambda>(d, origin, amt). origin = None) paid);
              recurring_on = map (\<lambda>(d, origin, amt). (d, amt)) (filter (\<lambda>(d, origin, amt). origin \<noteq> None) paid) @
                map (\<lambda>(_, d, amt). (d, amt)) (transfer_in (acc_id loan) ls);
              legs_on = lines_of (acc_id loan) pending @ map snd (lines_of (acc_id loan) ls)
          in rbind (loan_segments rd first_payment term rate pmt legs_on (paid_in manual_on recurring_on pmt) periods
                      None (acc_balance loan)) (\<lambda>(interest, payments).
             Inr (Some (acc_id source, acc_id loan, interest, payments)))))
      | _ \<Rightarrow> Inr None))"

definition loan_lines :: "int \<times> int \<times> point list \<times> point list \<Rightarrow> booking list" where
  "loan_lines p =
     (case p of (source, loan, interest, payments) \<Rightarrow>
        map (\<lambda>(d, x). (loan, d, - x)) interest @ payment_lines (source, loan, payments))"

section \<open>The projection\<close>

record account_baseline =
  ab_account :: account
  ab_balance :: decimal
  ab_seed :: decimal
  ab_pending_delta :: decimal
  ab_cc_payments :: "point list"
  ab_loan_payments :: "point list"
  ab_loan_interest :: "point list"
  ab_recurring_lines :: "point list"
  ab_points :: "point list"

record projection =
  pj_window_start :: date
  pj_first_period_end :: date
  pj_walk_start :: date
  pj_horizon_end :: date
  pj_accounts :: "account_baseline list"
  pj_currencies :: "(string \<times> point list) list"
  pj_series_dates :: "(int \<times> date) list"

definition end_balance :: "account_baseline \<Rightarrow> decimal" where
  "end_balance ab = snd (last (ab_points ab))"

definition DAILY_MONTHS :: int where
  "DAILY_MONTHS = 24"

definition month_start :: "date \<Rightarrow> date" where
  "month_start d = date_of (year d) (month d) 1"

definition daily_end ::
  "(int \<Rightarrow> int \<Rightarrow> date \<Rightarrow> date option) \<Rightarrow> date \<Rightarrow> date \<Rightarrow> date \<Rightarrow> date result" where
  "daily_end rd walk_start first_period_end horizon_end =
     rbind (date_or_error (rd 0 DAILY_MONTHS (month_start walk_start))) (\<lambda>d.
     rbind (date_or_error (prev_day d)) (\<lambda>e.
     Inr (min horizon_end (max first_period_end e))))"

definition add_points :: "point list \<Rightarrow> point list \<Rightarrow> point list" where
  "add_points sofar points = map2 (\<lambda>(d, b) (_, p). (d, b + p)) sofar points"

text \<open>\<open>currencies[account.currency] = ...\<close>: the currency's series, or its first account's.\<close>

fun add_to_currency :: "string \<Rightarrow> point list \<Rightarrow> (string \<times> point list) list \<Rightarrow> (string \<times> point list) list" where
  "add_to_currency c points [] = [(c, points)]"
| "add_to_currency c points ((c', sofar) # rest) =
     (if c' = c then (c', add_points sofar points) # rest else (c', sofar) # add_to_currency c points rest)"

text \<open>Everything booked: the pending rows, the occurrences, the cards, the loans, and the future
  settled rows laid back on their days.\<close>

record movements =
  mv_pending :: "booking list"
  mv_recurring :: "(int \<times> credit_key option \<times> date \<times> decimal) list"
  mv_cards :: "(int \<times> int \<times> point list) list"
  mv_loans :: "(int \<times> int \<times> point list \<times> point list) list"
  mv_future :: "booking list"

definition recurring_bookings :: "(int \<times> credit_key option \<times> date \<times> decimal) list \<Rightarrow> booking list" where
  "recurring_bookings ls = map (\<lambda>(a, _, p). (a, p)) ls"

definition all_bookings :: "movements \<Rightarrow> booking list" where
  "all_bookings mv =
     mv_pending mv @ recurring_bookings (mv_recurring mv) @ concat (map payment_lines (mv_cards mv)) @
     concat (map loan_lines (mv_loans mv)) @ mv_future mv"

definition movements_of ::
  "(int \<Rightarrow> int \<Rightarrow> date \<Rightarrow> date option) \<Rightarrow> store \<Rightarrow> int \<Rightarrow> cycle_amounts \<Rightarrow> int list \<Rightarrow> date \<Rightarrow> date \<Rightarrow> date \<Rightarrow> date
     \<Rightarrow> movements result" where
  "movements_of rd s org_id per_cycle_amounts excluded window_start first_period_end walk_start horizon_end =
     (let pending = pending_lines s org_id excluded window_start horizon_end;
          ls = recurring_lines rd s org_id excluded window_start horizon_end
      in rbind (rmap (card_payments rd s org_id excluded per_cycle_amounts window_start first_period_end horizon_end ls)
                  (paying_cards s org_id)) (\<lambda>cards.
         rbind (if projected_loans s org_id = [] then Inr []
                else rbind (loan_periods rd window_start first_period_end horizon_end) (\<lambda>periods.
                  rmap (loan_payments rd s org_id excluded window_start horizon_end periods pending ls)
                    (projected_loans s org_id))) (\<lambda>loans.
         Inr \<lparr>mv_pending = pending, mv_recurring = ls, mv_cards = List.map_filter id cards,
              mv_loans = List.map_filter id loans,
              mv_future = future_settled_lines s org_id walk_start (min first_period_end horizon_end)\<rparr>)))"

definition sum_of :: "int \<Rightarrow> booking list \<Rightarrow> decimal" where
  "sum_of account_id bks = sum_list (map snd (lines_of account_id bks))"

definition account_baseline_of ::
  "movements \<Rightarrow> day_deltas \<Rightarrow> date \<Rightarrow> date \<Rightarrow> date \<Rightarrow> account \<Rightarrow> account_baseline result" where
  "account_baseline_of mv deltas walk_start daily_to horizon_end a =
     (let seed = acc_balance a - sum_of (acc_id a) (mv_future mv)
      in rbind (walk_points (deltas (acc_id a)) daily_to horizon_end seed walk_start) (\<lambda>points.
         Inr \<lparr>ab_account = a, ab_balance = acc_balance a, ab_seed = seed,
              ab_pending_delta = sum_of (acc_id a) (mv_pending mv),
              ab_cc_payments = concat (lines_of (acc_id a) (map snd (mv_cards mv))),
              ab_loan_payments = concat (map snd (lines_of (acc_id a) (map snd (mv_loans mv)))),
              ab_loan_interest = concat (map fst (lines_of (acc_id a) (map snd (mv_loans mv)))),
              ab_recurring_lines = map snd (lines_of (acc_id a) (mv_recurring mv)),
              ab_points = points\<rparr>))"

definition baseline ::
  "(int \<Rightarrow> int \<Rightarrow> date \<Rightarrow> date option) \<Rightarrow> store \<Rightarrow> int \<Rightarrow> cycle_amounts \<Rightarrow> date \<Rightarrow> date \<Rightarrow> int list \<Rightarrow> date
     \<Rightarrow> date option \<Rightarrow> projection result" where
  "baseline rd s org_id per_cycle_amounts today horizon_end excluded window_start first_end =
     rbind (case first_end of
              Some e \<Rightarrow> Inr e
            | None \<Rightarrow> rbind (date_or_error (rd 0 1 window_start)) (\<lambda>d. date_or_error (prev_day d))) (\<lambda>first_period_end.
     let walk_start = min (max window_start today) horizon_end in
     rbind (movements_of rd s org_id per_cycle_amounts excluded window_start first_period_end walk_start horizon_end) (\<lambda>mv.
     rbind (daily_end rd walk_start first_period_end horizon_end) (\<lambda>daily_to.
     let deltas = book walk_start (all_bookings mv) (\<lambda>_ _. 0) in
     rbind (rmap (account_baseline_of mv deltas walk_start daily_to horizon_end) (active_accounts s org_id)) (\<lambda>abs.
     Inr \<lparr>pj_window_start = window_start, pj_first_period_end = first_period_end, pj_walk_start = walk_start,
          pj_horizon_end = horizon_end, pj_accounts = abs,
          pj_currencies = fold (\<lambda>ab. add_to_currency (acc_currency (ab_account ab)) (ab_points ab)) abs [],
          pj_series_dates = series_dates rd s org_id excluded window_start horizon_end\<rparr>))))"

end
