(* ===== verification/CardFacts.thy ===== *)
theory CardFacts
  imports CardForecast
begin

text \<open>
  Facts about card cycles and projected payments: existence of cycles inside the calendar, the walk
  of \<open>due_cycles_in_horizon\<close> against its specification, and the running total of \<open>pay_cycles\<close>.
\<close>

section \<open>Cycles exist\<close>

lemma close_exists:
  assumes "1 \<le> c" "12 \<le> i" "i \<le> 119999"
  shows "\<exists>e. month_index e = i \<and> is_cycle_start c e"
proof -
  let ?y = "i div 12" and ?m = "i mod 12 + 1"
  let ?d = "min c (days_in_month ?y ?m)"
  have v: "valid_ymd ?y ?m ?d" using assms days_in_month_bounds(1)[of ?y ?m] by (auto simp: valid_ymd_def)
  have "month_index (date_of ?y ?m ?d) = i" using v by simp
  moreover have "is_cycle_start c (date_of ?y ?m ?d)" using v by (simp add: is_cycle_start_def)
  ultimately show ?thesis by blast
qed

lemma resolve_cycle_exists:
  assumes c: "1 \<le> c" "1 \<le> effective_payment_day pd" "0 \<le> effective_relative_month rel"
    and t: "13 \<le> month_index t" "month_index t + 1 + effective_relative_month rel \<le> 119999"
  shows "\<exists>cy. resolve_cycle (Some c) pd rel t = Inr cy"
proof -
  have ex: "\<exists>e. month_index e = month_index t + k \<and> is_cycle_start c e" if "- 1 \<le> k" "k \<le> 1" for k
    by (rule close_exists) (use that c t in linarith)+
  from ex[of "- 1"] ex[of 0] ex[of 1] obtain p e n where p: "month_index p = month_index t - 1" "is_cycle_start c p"
    and e: "month_index e = month_index t" "is_cycle_start c e" and n: "month_index n = month_index t + 1" "is_cycle_start c n"
    by auto
  have spec: "\<exists>cy. cycle_spec c pd rel a cy \<and> cy_period_end_inclusive cy = b"
    if ab: "is_cycle_start c a" "is_cycle_start c b" "month_index b = month_index a + 1" "month_index b \<le> month_index t + 1" for a b
  proof -
    have "\<exists>q. month_index q = month_index b + effective_relative_month rel \<and> is_cycle_start (effective_payment_day pd) q"
      by (rule close_exists) (use ab c t month_index_bounds(1)[of b] in linarith)+
    then obtain q where q: "month_index q = month_index b + effective_relative_month rel"
      "is_cycle_start (effective_payment_day pd) q" by blast
    have "a < b" by (rule date_less_by_month) (use ab(3) in simp)
    then obtain st where st: "next_day a = Some st" using next_day_defined by blast
    show ?thesis
      by (rule exI[of _ "\<lparr>cy_period_start = st, cy_period_end_inclusive = b, cy_payment_date = q, cy_source = SourceDefault\<rparr>"])
        (simp add: cycle_spec_def ab q st)
  qed
  show ?thesis
  proof (cases "t \<le> e")
    case True
    from spec[OF p(2) e(2)] p(1) e(1) obtain cy where "cycle_spec c pd rel p cy" "cy_period_end_inclusive cy = e" by auto
    moreover have "p < t" by (rule date_less_by_month) (use p(1) in simp)
    ultimately show ?thesis using True by (auto simp: resolve_cycle_iff)
  next
    case False
    from spec[OF e(2) n(2)] e(1) n(1) obtain cy where "cycle_spec c pd rel e cy" "cy_period_end_inclusive cy = n" by auto
    moreover have "t < n" by (rule date_less_by_month) (use n(1) in simp)
    ultimately show ?thesis unfolding resolve_cycle_iff
      by (intro exI[of _ cy] exI[of _ e]) (use False in auto)
  qed
qed

section \<open>The walk\<close>

definition card_cycle_of :: "account \<Rightarrow> card_cycle \<Rightarrow> bool" where
  "card_cycle_of a y \<longleftrightarrow> (\<exists>t. resolve_cycle_for_account a t = Inr y)"

lemma card_cycle_of_iff:
  "acc_close_day a = Some c \<Longrightarrow>
     card_cycle_of a y \<longleftrightarrow> (\<exists>p. cycle_spec c (acc_payment_day a) (acc_payment_day_relative_month a) p y)"
  by (auto simp: card_cycle_of_def resolve_cycle_for_account_def resolve_cycle_iff cycle_spec_def dest: next_day_gt
      intro!: date_less_by_month) (metis date_less_by_month less_add_one order_refl)

text \<open>The cycles of a card are ordered by the month they close in; the one of a day comes before
  every other that closes on or after the day.\<close>

lemma cycle_of_day_first:
  assumes a: "acc_close_day a = Some c" and x: "resolve_cycle_for_account a t = Inr x"
    and y: "card_cycle_of a y" "t \<le> cy_period_end_inclusive y"
  shows "y = x \<or> cy_period_end_inclusive x < cy_period_end_inclusive y \<and>
    month_index (cy_period_end_inclusive x) < month_index (cy_period_end_inclusive y)"
proof -
  from x a obtain p where p: "cycle_spec c (acc_payment_day a) (acc_payment_day_relative_month a) p x" "p < t"
    by (auto simp: resolve_cycle_for_account_def resolve_cycle_iff)
  from y(1) a obtain q where q: "cycle_spec c (acc_payment_day a) (acc_payment_day_relative_month a) q y"
    by (auto simp: card_cycle_of_iff)
  let ?x = "cy_period_end_inclusive x" and ?y = "cy_period_end_inclusive y"
  have "p < ?y" using p(2) y(2) by simp
  then have "month_index p \<le> month_index ?y" "p \<noteq> ?y" using date_le_month[of p ?y] by auto
  moreover have "month_index p = month_index ?y \<Longrightarrow> p = ?y"
    using p(1) q is_cycle_start_unique[of c p ?y] by (simp add: cycle_spec_def)
  moreover have "month_index ?x = month_index p + 1" using p(1) by (simp add: cycle_spec_def)
  ultimately have "month_index ?x \<le> month_index ?y" by linarith
  then consider "month_index ?x = month_index ?y" | "month_index ?x < month_index ?y" by linarith
  then show ?thesis using cycle_spec_unique[OF p(1) q] by cases (auto intro: date_less_by_month)
qed

lemma payment_order:
  assumes "acc_close_day a = Some c" "card_cycle_of a x" "card_cycle_of a y"
    and "month_index (cy_period_end_inclusive x) < month_index (cy_period_end_inclusive y)"
  shows "cy_payment_date x < cy_payment_date y"
  using assms by (auto simp: card_cycle_of_iff cycle_spec_def intro!: date_less_by_month)

lemma cycle_walk_spec:
  assumes a: "acc_close_day a = Some c"
    and "cycle_walk n a p_start p_end cursor seen acc = Inr (cs, hit)" "\<forall>d \<in> set seen. d < cursor"
  shows "\<exists>xs. cs = acc @ filter (\<lambda>x. p_start \<le> cy_payment_date x) xs \<and>
    (\<forall>x \<in> set xs. cy_payment_date x \<le> p_end \<and> card_cycle_of a x \<and> cursor \<le> cy_period_end_inclusive x) \<and>
    sorted_wrt (\<lambda>x y. month_index (cy_period_end_inclusive x) < month_index (cy_period_end_inclusive y)) xs \<and>
    (hit \<longrightarrow> length xs = n) \<and>
    (\<not> hit \<longrightarrow> (\<forall>y. card_cycle_of a y \<and> cursor \<le> cy_period_end_inclusive y \<and> cy_payment_date y \<le> p_end \<longrightarrow> y \<in> set xs))"
  using assms(2,3)
proof (induction n arbitrary: cursor seen acc)
  case 0
  then show ?case by (intro exI[of _ "[]"]) simp
next
  case (Suc n)
  from Suc.prems(1) obtain x where x: "resolve_cycle_for_account a cursor = Inr x"
    by (auto simp: rbind_eq_Inr)
  let ?x = "cy_period_end_inclusive x"
  have cx: "cursor \<le> ?x" using x a by (auto simp: resolve_cycle_for_account_def resolve_cycle_iff)
  with Suc.prems(2) have unseen: "?x \<notin> set seen" by (meson leD)
  have cyc: "card_cycle_of a x" using x by (auto simp: card_cycle_of_def)
  note first = cycle_of_day_first[OF a x]
  show ?case
  proof (cases "p_end < cy_payment_date x")
    case True
    then have "p_end < cy_payment_date y" if "card_cycle_of a y" "cursor \<le> cy_period_end_inclusive y" for y
      using first[OF that] payment_order[OF a cyc that(1)] by auto
    with True Suc.prems x unseen show ?thesis by (intro exI[of _ "[]"]) (auto dest: leD)
  next
    case False
    with Suc.prems x unseen obtain cur where cur: "next_day ?x = Some cur"
      and w: "cycle_walk n a p_start p_end cur (?x # seen) (if p_start \<le> cy_payment_date x then acc @ [x] else acc) = Inr (cs, hit)"
      by (auto simp: rbind_eq_Inr Let_def)
    have lt: "?x < cur" by (rule next_day_gt[OF cur])
    have "\<forall>d \<in> set (?x # seen). d < cur" using lt Suc.prems(2) cx by auto
    from Suc.IH[OF w this] obtain xs where
      xs: "cs = (if p_start \<le> cy_payment_date x then acc @ [x] else acc) @ filter (\<lambda>x. p_start \<le> cy_payment_date x) xs"
      "\<forall>x \<in> set xs. cy_payment_date x \<le> p_end \<and> card_cycle_of a x \<and> cur \<le> cy_period_end_inclusive x"
      "sorted_wrt (\<lambda>x y. month_index (cy_period_end_inclusive x) < month_index (cy_period_end_inclusive y)) xs"
      "hit \<longrightarrow> length xs = n"
      "\<not> hit \<longrightarrow> (\<forall>y. card_cycle_of a y \<and> cur \<le> cy_period_end_inclusive y \<and> cy_payment_date y \<le> p_end \<longrightarrow> y \<in> set xs)"
      by blast
    have later: "month_index ?x < month_index (cy_period_end_inclusive y)" if "y \<in> set xs" for y
      using first[of y] xs(2) that cx lt by (metis leD less_le_trans order_trans less_imp_le)
    have "y \<in> set (x # xs)" if "\<not> hit" "card_cycle_of a y" "cursor \<le> cy_period_end_inclusive y" "cy_payment_date y \<le> p_end" for y
      using first[OF that(2,3)] xs(5) that next_day_less_iff[OF cur, of "cy_period_end_inclusive y"] by auto
    moreover have "cursor \<le> cy_period_end_inclusive y" if "y \<in> set xs" for y
      using xs(2) that cx lt by (metis order_trans less_imp_le)
    moreover have "cs = acc @ filter (\<lambda>x. p_start \<le> cy_payment_date x) (x # xs)" using xs(1) by simp
    moreover have "\<forall>y \<in> set xs. cy_payment_date y \<le> p_end \<and> card_cycle_of a y" using xs(2) by blast
    ultimately show ?thesis using False cyc cx later xs(3,4)
      by (intro exI[of _ "x # xs"] conjI) (simp_all only: list.set ball_simps sorted_wrt.simps list.size, auto)
  qed
qed

lemma increasing_length:
  fixes f :: "'x \<Rightarrow> int"
  assumes "sorted_wrt (\<lambda>x y. f x < f y) xs" "\<forall>x \<in> set xs. lo \<le> f x \<and> f x \<le> hi"
  shows "length xs \<le> nat (hi - lo + 1)"
proof -
  have "distinct (map f xs)" using assms(1) by (induction xs) auto
  then have "length xs = card (f ` set xs)" using distinct_card[of "map f xs"] by simp
  also have "\<dots> \<le> card {lo..hi}" using assms(2) by (intro card_mono) auto
  finally show ?thesis by simp
qed

text \<open>The bound on the walk is enough: the cap is never what ends it.\<close>

lemma cycle_walk_no_cap:
  assumes a: "acc_close_day a = Some c" and rel: "0 \<le> effective_relative_month (acc_payment_day_relative_month a)"
    and w: "cycle_walk (cycle_walk_steps cursor p_end) a p_start p_end cursor [] [] = Inr (cs, hit)" and c: "cursor \<le> p_end"
  shows "\<not> hit"
proof
  assume hit
  from cycle_walk_spec[OF a w] this obtain xs where
    xs: "\<forall>x \<in> set xs. cy_payment_date x \<le> p_end \<and> card_cycle_of a x \<and> cursor \<le> cy_period_end_inclusive x"
    "sorted_wrt (\<lambda>x y. month_index (cy_period_end_inclusive x) < month_index (cy_period_end_inclusive y)) xs"
    "length xs = cycle_walk_steps cursor p_end" by auto
  have "\<forall>x \<in> set xs. month_index cursor \<le> month_index (cy_period_end_inclusive x) \<and>
      month_index (cy_period_end_inclusive x) \<le> month_index p_end"
  proof
    fix x assume "x \<in> set xs"
    with xs(1) have x: "cy_payment_date x \<le> p_end" "card_cycle_of a x" "cursor \<le> cy_period_end_inclusive x" by auto
    from x(2) a have "month_index (cy_payment_date x) =
        month_index (cy_period_end_inclusive x) + effective_relative_month (acc_payment_day_relative_month a)"
      by (auto simp: card_cycle_of_iff cycle_spec_def)
    with rel date_le_month[OF x(1)] date_le_month[OF x(3)]
    show "month_index cursor \<le> month_index (cy_period_end_inclusive x) \<and>
      month_index (cy_period_end_inclusive x) \<le> month_index p_end" by linarith
  qed
  from increasing_length[OF xs(2) this] xs(3)
  have n: "cycle_walk_steps cursor p_end \<le> nat (month_index p_end - month_index cursor + 1)" by simp
  define D where "D = month_index p_end - month_index cursor"
  have D: "0 \<le> D" using date_le_month[OF c] by (simp add: D_def)
  have "cycle_walk_steps cursor p_end = nat (2 * (D + 1) + 12)"
    by (simp add: cycle_walk_steps_def WALK_MARGIN_def month_index_def D_def algebra_simps)
  with n D show False by (simp add: D_def[symmetric] nat_le_eq_zle)
qed

lemma cycle_walk_exists:
  assumes a: "acc_close_day a = Some c" "1 \<le> c" "1 \<le> effective_payment_day (acc_payment_day a)"
    and rel: "0 \<le> effective_relative_month (acc_payment_day_relative_month a)"
    and lo: "13 \<le> month_index cursor" "month_index cursor \<le> month_index p_end + 1"
    and seen: "\<forall>d \<in> set seen. d < cursor"
    and hi: "month_index p_end + effective_relative_month (acc_payment_day_relative_month a) \<le> 119990"
  shows "\<exists>r. cycle_walk n a p_start p_end cursor seen acc = Inr r"
  using lo seen
proof (induction n arbitrary: cursor seen acc)
  case (Suc n)
  from resolve_cycle_exists[OF a(2,3) rel Suc.prems(1)] Suc.prems hi obtain x where
    x: "resolve_cycle_for_account a cursor = Inr x" by (auto simp: resolve_cycle_for_account_def a(1))
  let ?x = "cy_period_end_inclusive x"
  from x a(1) obtain p where p: "cycle_spec c (acc_payment_day a) (acc_payment_day_relative_month a) p x" "p < cursor" "cursor \<le> ?x"
    by (auto simp: resolve_cycle_for_account_def resolve_cycle_iff)
  have bound: "month_index ?x \<le> month_index cursor + 1"
    using p(1) date_le_month[of p cursor] p(2) by (simp add: cycle_spec_def)
  have "?x < date_of 9999 12 31"
    by (rule date_less_by_month) (use bound Suc.prems(2) hi rel in \<open>simp add: valid_ymd_def days_in_month_def\<close>)
  then obtain cur where cur: "next_day ?x = Some cur" using next_day_defined by blast
  have ge: "13 \<le> month_index cur"
    using date_le_month[OF less_imp_le[OF next_day_gt[OF cur]]] date_le_month[OF p(3)] Suc.prems(1) by linarith
  have le: "month_index cur \<le> month_index p_end + 1" if "\<not> p_end < cy_payment_date x"
  proof -
    from that have "month_index (cy_payment_date x) \<le> month_index p_end" by (intro date_le_month) simp
    moreover have "month_index (cy_payment_date x) =
        month_index ?x + effective_relative_month (acc_payment_day_relative_month a)"
      using p(1) by (simp add: cycle_spec_def)
    ultimately show ?thesis using next_day_month[OF cur] rel by linarith
  qed
  have unseen: "?x \<notin> set seen" using Suc.prems(3) p(3) by (meson leD)
  have seen: "\<forall>d \<in> set (?x # seen). d < cur" using Suc.prems(3) next_day_gt[OF cur] p(3) by auto
  show ?case
  proof (cases "p_end < cy_payment_date x")
    case False
    from Suc.IH[OF ge le[OF False] seen] obtain r where
      "cycle_walk n a p_start p_end cur (?x # seen) (if p_start \<le> cy_payment_date x then acc @ [x] else acc) = Inr r" by blast
    with False show ?thesis using x cur unseen by (simp add: Let_def)
  next
    case True
    with x unseen show ?thesis by (intro exI[of _ "(acc, False)"]) (simp add: Let_def)
  qed
qed (rule exI, simp only: cycle_walk.simps)

section \<open>The horizon\<close>

lemma due_cycles_spec:
  assumes rd: "relativedelta_lib rd" and a: "acc_close_day a = Some c"
    and rel: "0 \<le> effective_relative_month (acc_payment_day_relative_month a)" and se: "p_start \<le> p_end"
    and r: "due_cycles_in_horizon rd a p_start p_end = Inr (cs, hit)"
  shows "\<not> hit \<and> sorted_wrt (\<lambda>x y. cy_payment_date x < cy_payment_date y) cs \<and>
    (\<forall>y. y \<in> set cs \<longleftrightarrow> card_cycle_of a y \<and> p_start \<le> cy_payment_date y \<and> cy_payment_date y \<le> p_end)"
proof -
  from r obtain cursor cs0 where cur: "rd 0 (- lookback_months a) p_start = Some cursor"
    and w: "cycle_walk (cycle_walk_steps cursor p_end) a p_start p_end cursor [] [] = Inr (cs0, hit)"
    and cs: "cs = sort_key cy_payment_date cs0"
    by (auto simp: due_cycles_in_horizon_def rbind_eq_Inr)
  have lb: "effective_relative_month (acc_payment_day_relative_month a) < lookback_months a"
    "0 < lookback_months a"
    using rel by (auto simp: lookback_months_def effective_relative_month_def DEFAULT_PAYMENT_DAY_RELATIVE_MONTH_def
        split: option.splits)
  have prior: "month_index cursor = month_index p_start - lookback_months a"
    using relativedelta_lib.rd_Some[OF rd cur] by simp
  have "cursor < p_start" by (rule date_less_by_month) (use prior lb in linarith)
  with se have ce: "cursor \<le> p_end" by simp
  have nohit: "\<not> hit" by (rule cycle_walk_no_cap[OF a rel w ce])
  have "\<forall>d \<in> set []. d < cursor" by simp
  from cycle_walk_spec[OF a w this] obtain xs where
    cs0: "cs0 = [] @ filter (\<lambda>x. p_start \<le> cy_payment_date x) xs"
    and xs: "\<forall>x \<in> set xs. cy_payment_date x \<le> p_end \<and> card_cycle_of a x \<and> cursor \<le> cy_period_end_inclusive x"
    "sorted_wrt (\<lambda>x y. month_index (cy_period_end_inclusive x) < month_index (cy_period_end_inclusive y)) xs"
    "\<not> hit \<longrightarrow> (\<forall>y. card_cycle_of a y \<and> cursor \<le> cy_period_end_inclusive y \<and> cy_payment_date y \<le> p_end \<longrightarrow> y \<in> set xs)"
    by blast
  note cs0 = cs0[simplified] and complete = xs(3)[rule_format, OF nohit]
  have pays: "sorted_wrt (\<lambda>x y. cy_payment_date x < cy_payment_date y) cs0"
    unfolding cs0 by (intro sorted_wrt_filter sorted_wrt_mono_rel[OF _ xs(2)]) (use xs(1) payment_order[OF a] in blast)
  have "sorted (map cy_payment_date cs0)"
    unfolding sorted_map by (rule sorted_wrt_mono_rel[OF _ pays]) simp
  then have same: "cs = cs0" by (simp add: cs sort_key_id_if_sorted)
  have "y \<in> set cs0" if y: "card_cycle_of a y" "p_start \<le> cy_payment_date y" "cy_payment_date y \<le> p_end" for y
  proof -
    from y(1) a have "month_index (cy_payment_date y) =
        month_index (cy_period_end_inclusive y) + effective_relative_month (acc_payment_day_relative_month a)"
      by (auto simp: card_cycle_of_iff cycle_spec_def)
    with date_le_month[OF y(2)] prior lb have "cursor < cy_period_end_inclusive y"
      by (intro date_less_by_month) linarith
    then have "y \<in> set xs" using complete[of y] y(1,3) by simp
    with y(2) show ?thesis by (simp add: cs0)
  qed
  moreover have "card_cycle_of a y \<and> p_start \<le> cy_payment_date y \<and> cy_payment_date y \<le> p_end" if "y \<in> set cs0" for y
    using that xs(1) by (auto simp: cs0)
  ultimately show ?thesis using nohit pays unfolding same by blast
qed

lemma due_cycles_exists:
  assumes rd: "relativedelta_lib rd" and a: "acc_close_day a = Some c" "1 \<le> c" "1 \<le> effective_payment_day (acc_payment_day a)"
    and rel: "0 \<le> effective_relative_month (acc_payment_day_relative_month a)" and se: "p_start \<le> p_end"
    and lo: "13 + lookback_months a \<le> month_index p_start"
    and hi: "month_index p_end + effective_relative_month (acc_payment_day_relative_month a) \<le> 119990"
  shows "\<exists>r. due_cycles_in_horizon rd a p_start p_end = Inr r"
proof -
  have lb: "0 < lookback_months a"
    using rel by (auto simp: lookback_months_def effective_relative_month_def split: option.splits)
  have m: "month_index p_start \<le> month_index p_end" by (rule date_le_month[OF se])
  with lo lb hi rel obtain cursor where cur: "rd 0 (- lookback_months a) p_start = Some cursor"
    using relativedelta_lib.rd_defined[OF rd, of p_start 0 "- lookback_months a"] by fastforce
  have prior: "month_index cursor = month_index p_start - lookback_months a"
    using relativedelta_lib.rd_Some[OF rd cur] by simp
  obtain r where "cycle_walk (cycle_walk_steps cursor p_end) a p_start p_end cursor [] [] = Inr r"
    using cycle_walk_exists[OF a rel _ _ _ hi, of cursor "[]" "cycle_walk_steps cursor p_end" p_start "[]"] prior lo lb m by auto
  then show ?thesis by (cases r) (simp add: due_cycles_in_horizon_def cur)
qed

section \<open>The running total\<close>

lemma claim_credits_nonneg:
  assumes "\<forall>(cid, eff, amt) \<in> set credits. 0 \<le> amt" "0 \<le> fst st"
  shows "0 \<le> fst (claim_credits cycle credits st)"
  using assms by (induction credits arbitrary: st) auto

lemma pay_cycles_dates: "(d, x) \<in> set (pay_cycles a pc credits owed cycles s cons) \<Longrightarrow>
  0 < x \<and> (\<exists>cy \<in> set cycles. cy_payment_date cy = d \<and> \<not> degenerate cy)"
  by (induction cycles arbitrary: s cons) (auto simp: Let_def split: if_splits prod.splits)

lemma pay_cycles_bounded:
  assumes "sorted_wrt (\<lambda>x y. cy_payment_date x < cy_payment_date y) cycles"
    and cr: "\<forall>(cid, eff, amt) \<in> set credits. 0 \<le> amt"
    and "(d, x) \<in> set (pay_cycles a pc credits owed cycles s cons)"
  shows "\<exists>cy \<in> set cycles. cy_payment_date cy = d \<and>
    s + sum_list (map snd (filter (\<lambda>p. fst p \<le> d) (pay_cycles a pc credits owed cycles s cons))) \<le> owed cy"
  using assms(1,3)
proof (induction cycles arbitrary: s cons)
  case (Cons cy cycles)
  show ?case
  proof (cases "degenerate cy")
    case True
    with Cons show ?thesis by simp
  next
    case False
    obtain pk cons' where k: "claim_credits cy credits (0, cons) = (pk, cons')" by fastforce
    have pk: "0 \<le> pk" using claim_credits_nonneg[OF cr, of "(0, cons)" cy] k by simp
    define o1 where "o1 = cycle_outflow a pc cy (owed cy) s pk"
    let ?rest = "pay_cycles a pc credits owed cycles (s + o1) cons'"
    have out: "pay_cycles a pc credits owed (cy # cycles) s cons =
        (if 0 < o1 then (cy_payment_date cy, o1) # ?rest else ?rest)"
      using False by (simp add: k o1_def Let_def)
    have nn: "0 \<le> o1" by (simp add: o1_def cycle_outflow_def Let_def)
    have later: "cy_payment_date cy < e" if "(e, y) \<in> set ?rest" for e y
      using pay_cycles_dates[OF that] Cons.prems(1) by auto
    show ?thesis
    proof (cases "(d, x) \<in> set ?rest")
      case True
      from Cons.IH[OF _ True] Cons.prems(1) obtain cy' where cy': "cy' \<in> set cycles" "cy_payment_date cy' = d"
        "s + o1 + sum_list (map snd (filter (\<lambda>p. fst p \<le> d) ?rest)) \<le> owed cy'" by auto
      with later[OF True] nn show ?thesis unfolding out by (intro bexI[of _ cy']) (auto simp: algebra_simps)
    next
      case False
      with Cons.prems(2) out have hd: "0 < o1" "d = cy_payment_date cy" by (auto split: if_splits)
      have "filter (\<lambda>p. fst p \<le> d) ?rest = []" using later hd(2) by (auto simp: filter_empty_conv dest: leD)
      moreover have "o1 \<le> owed cy - s" using hd(1) pk by (auto simp: o1_def cycle_outflow_def Let_def max_def split: if_splits)
      ultimately show ?thesis using hd unfolding out by (intro bexI[of _ cy]) auto
    qed
  qed
qed simp

section \<open>The ledger\<close>

lemma balance_at_close_sum:
  "balance_at_close b ledger close = b + sum_list (map snd (filter (\<lambda>x. fst x \<le> close) ledger))"
  by (induction ledger arbitrary: b) (auto simp: algebra_simps)

end
