(* ===== verification/ProjectionFacts.thy ===== *)
theory ProjectionFacts
  imports Projection CardFacts
begin

text \<open>
  Facts about the projection: the walk ends on the horizon with everything booked, every source of
  movement books inside the horizon, and card and loan payments are flows between two accounts of
  one currency, so they cancel in a currency's total.
\<close>

section \<open>Sums over days\<close>

lemma finite_dates [simp]: "finite (A :: date set)"
proof -
  have "date_key d \<in> {0..32 * 120000}" for d
    using month_index_bounds[of d] day_le_31[of d] date_bounds(5)[of d] by (simp add: date_key_def)
  then have "finite (range date_key)" by (meson finite_atLeastAtMost_int finite_subset image_subsetI)
  moreover have "inj date_key" by (auto intro: injI date_key_inj)
  ultimately have "finite (UNIV :: date set)" by (rule finite_imageD)
  then show ?thesis by (rule finite_subset[OF subset_UNIV])
qed

lemma days_from:
  assumes "d \<le> e" "next_day d = Some n"
  shows "{d..e} = insert d {n..e}"
proof (rule set_eqI)
  fix x
  have "d < x \<longleftrightarrow> n \<le> x" by (rule next_day_less_iff[OF assms(2)])
  then have "d \<le> x \<longleftrightarrow> x = d \<or> n \<le> x" by (auto simp: order.order_iff_strict)
  then show "x \<in> {d..e} \<longleftrightarrow> x \<in> insert d {n..e}" using assms(1) by auto
qed

lemma sum_days:
  fixes f :: "date \<Rightarrow> decimal"
  assumes "d \<le> e" "next_day d = Some n"
  shows "sum f {d..e} = f d + sum f {n..e}"
proof -
  have "d \<notin> {n..e}" using next_day_gt[OF assms(2)] by auto
  then show ?thesis by (simp add: days_from[OF assms])
qed

section \<open>The walk\<close>

lemma walk_points_spec:
  assumes "walk_points per_day daily_to horizon running d = Inr pts"
  shows "sorted_wrt (\<lambda>p q. fst p < fst q) pts \<and>
    (\<forall>x b. (x, b) \<in> set pts \<longleftrightarrow> d \<le> x \<and> x \<le> horizon \<and> b = running + sum per_day {d..x} \<and>
       (x \<le> daily_to \<or> (\<exists>n. next_day x = Some n \<and> day n = 1) \<or> x = horizon))"
  using assms
proof (induction per_day daily_to horizon running d arbitrary: pts rule: walk_points.induct)
  case (1 per_day daily_to horizon running d)
  show ?case
  proof (cases "d \<le> horizon")
    case False
    with "1.prems" have "pts = []" by (simp add: walk_points.simps[of per_day daily_to horizon running d])
    with False show ?thesis by auto
  next
    case True
    with "1.prems" obtain n series where n: "next_day d = Some n"
      and w: "walk_points per_day daily_to horizon (running + per_day d) n = Inr series"
      and pts: "pts = (if d \<le> daily_to \<or> day n = 1 \<or> d = horizon then (d, running + per_day d) # series else series)"
      by (auto simp: walk_points.simps[of per_day daily_to horizon running d] rbind_eq_Inr Let_def split: option.splits)
    note IH = "1.IH"[OF True refl n w]
    have gt: "d < n" by (rule next_day_gt[OF n])
    have later: "x = d \<or> n \<le> x" if "d \<le> x" for x using next_day_less_iff[OF n, of x] that by auto
    have tail: "(x, b) \<in> set series \<longleftrightarrow> n \<le> x \<and> x \<le> horizon \<and> b = running + sum per_day {d..x} \<and>
        (x \<le> daily_to \<or> (\<exists>m. next_day x = Some m \<and> day m = 1) \<or> x = horizon)" for x b
      using IH sum_days[OF _ n, of x per_day] gt by (auto simp: add.assoc)
    have hd: "sum per_day {d..d} = per_day d" by simp
    have "sorted_wrt (\<lambda>p q. fst p < fst q) pts"
      using IH tail gt unfolding pts by (auto intro: less_le_trans)
    moreover have "(x, b) \<in> set pts \<longleftrightarrow> d \<le> x \<and> x \<le> horizon \<and> b = running + sum per_day {d..x} \<and>
        (x \<le> daily_to \<or> (\<exists>m. next_day x = Some m \<and> day m = 1) \<or> x = horizon)" for x b
    proof (cases "x = d")
      case True
      with tail[of d b] gt n \<open>d \<le> horizon\<close> show ?thesis unfolding pts by auto
    next
      case False
      with tail[of x b] later[of x] gt show ?thesis unfolding pts by auto
    qed
    ultimately show ?thesis by blast
  qed
qed

lemma walk_points_last:
  assumes w: "walk_points per_day daily_to horizon running d = Inr pts" and d: "d \<le> horizon"
  shows "pts \<noteq> [] \<and> last pts = (horizon, running + sum per_day {d..horizon})"
proof -
  note spec = walk_points_spec[OF w]
  let ?e = "(horizon, running + sum per_day {d..horizon})"
  have e: "?e \<in> set pts" using spec d by blast
  then have ne: "pts \<noteq> []" by auto
  have "last pts = ?e"
  proof (rule ccontr)
    assume *: "last pts \<noteq> ?e"
    from ne have split: "pts = butlast pts @ [last pts]" by simp
    with e * have "?e \<in> set (butlast pts)" by (metis Un_iff append_Nil empty_iff list.set(1) set_ConsD set_append)
    with spec split have "horizon < fst (last pts)"
      by (metis fst_conv list.set_intros(1) sorted_wrt_append)
    moreover have "last pts \<in> set pts" using ne by simp
    then have "fst (last pts) \<le> horizon" using spec by (metis prod.collapse)
    ultimately show False by simp
  qed
  with ne show ?thesis by simp
qed

text \<open>The dates of a walk do not depend on what is booked.\<close>

lemma walk_points_dates:
  assumes "walk_points f de h r d = Inr p" "walk_points g de h q d = Inr p'"
  shows "map fst p = map fst p'"
proof -
  have set: "set (map fst p) = {x. d \<le> x \<and> x \<le> h \<and> (x \<le> de \<or> (\<exists>n. next_day x = Some n \<and> day n = 1) \<or> x = h)}"
    if "walk_points f de h r d = Inr p" for f r p
    using walk_points_spec[OF that] by (force simp: image_iff)
  have sorted: "sorted_wrt (<) (map fst p)" if "walk_points f de h r d = Inr p" for f r p
    using walk_points_spec[OF that] by (simp add: sorted_wrt_map)
  show ?thesis
    by (rule strict_sorted_equal) (use assms set sorted in \<open>simp_all only:\<close>)
qed

section \<open>Bookings\<close>

lemma sum_of_append [simp]: "sum_of a (xs @ ys) = sum_of a xs + sum_of a ys"
  by (simp add: sum_of_def lines_of_def)

lemma sum_of_Nil [simp]: "sum_of a [] = 0"
  by (simp add: sum_of_def lines_of_def)

lemma sum_of_Cons [simp]: "sum_of a ((i, d, x) # ys) = (if i = a then x else 0) + sum_of a ys"
  by (simp add: sum_of_def lines_of_def)

lemma book_sum:
  assumes "\<forall>(i, d, x) \<in> set bks. d \<le> e" "w \<le> e"
  shows "sum (book w bks D a) {w..e} = sum (D a) {w..e} + sum_of a bks"
  using assms(1)
proof (induction bks arbitrary: D)
  case (Cons b bks)
  obtain i d x where b: "b = (i, d, x)" by (cases b)
  let ?on = "if d < w then w else d"
  have on: "?on \<in> {w..e}" using Cons.prems assms(2) b by auto
  have "sum (add_day_delta w b D a) {w..e} = sum (D a) {w..e} + (if i = a then x else 0)"
  proof (cases "i = a")
    case True
    have "add_day_delta w b D a = (\<lambda>y. D a y + (if y = ?on then x else 0))"
      using True by (auto simp: add_day_delta_def b Let_def)
    then show ?thesis using True on by (simp add: sum.distrib)
  qed (simp add: add_day_delta_def b Let_def)
  moreover have "book w (b # bks) D = book w bks (add_day_delta w b D)" by (simp add: book_def)
  ultimately show ?case using Cons.IH[of "add_day_delta w b D"] Cons.prems by (simp add: b)
qed (simp add: book_def)

section \<open>Everything is booked inside the horizon\<close>

lemma collect_le: "x \<in> set (collect rd f e d b) \<Longrightarrow> x \<le> e"
proof (induction rd f e d b rule: collect.induct)
  case (1 rd f e d b)
  show ?case
  proof (cases "d \<le> e \<and> \<not> exhausted b")
    case True
    then have g: "d \<le> e" "\<not> exhausted b" by auto
    from "1.prems" True have "x = d \<or> (\<exists>n. next_occurrence rd d f = Some n \<and> x \<in> set (collect rd f e n (spend b)))"
      by (cases "next_occurrence rd d f") (simp_all add: collect.simps[of rd f e d b])
    with "1.IH"[OF g] g(1) show ?thesis by auto
  next
    case False
    with "1.prems" show ?thesis by (auto simp: collect.simps[of rd f e d b] split: if_splits)
  qed
qed

lemma occurrences_le: "x \<in> set (occurrences_in_window rd d f st e b) \<Longrightarrow> x \<le> e"
  by (auto simp: occurrences_in_window_def dest: collect_le split: option.splits)

lemma recurring_lines_le: "(a, k, d, x) \<in> set (recurring_lines rd s org ex ws he) \<Longrightarrow> d \<le> he"
  by (auto simp: recurring_lines_def series_lines_def projected_dates_def dest: occurrences_le)

lemma cycle_walk_due:
  assumes "cycle_walk n a ps pe cur seen acc = Inr (cs, hit)" "\<forall>x \<in> set acc. cy_payment_date x \<le> pe"
  shows "\<forall>x \<in> set cs. cy_payment_date x \<le> pe"
  using assms
proof (induction n arbitrary: cur seen acc)
  case (Suc n)
  let ?acc = "\<lambda>x. if ps \<le> cy_payment_date x then acc @ [x] else acc"
  from Suc.prems(1) obtain x where "resolve_cycle_for_account a cur = Inr x" by (auto simp: rbind_eq_Inr)
  note w = Suc.prems(1)[unfolded cycle_walk.simps this rbind_simps Let_def]
  consider (seen) "cy_period_end_inclusive x \<in> set seen" | (over) "cy_period_end_inclusive x \<notin> set seen" "pe < cy_payment_date x"
    | (step) "cy_period_end_inclusive x \<notin> set seen" "cy_payment_date x \<le> pe" by (meson not_le)
  then show ?case
  proof cases
    case seen
    with w obtain c where "cycle_walk n a ps pe c seen acc = Inr (cs, hit)" by (auto simp: rbind_eq_Inr)
    from Suc.IH[OF this Suc.prems(2)] show ?thesis .
  next
    case over
    with w Suc.prems(2) show ?thesis by simp
  next
    case step
    then have "\<not> pe < cy_payment_date x" by simp
    with w step(1) have "\<exists>c. date_or_error (next_day (cy_period_end_inclusive x)) = Inr c \<and>
        cycle_walk n a ps pe c (cy_period_end_inclusive x # seen) (?acc x) = Inr (cs, hit)"
      by (simp only: if_False rbind_eq_Inr)
    then obtain c where c: "cycle_walk n a ps pe c (cy_period_end_inclusive x # seen) (?acc x) = Inr (cs, hit)" by blast
    have "\<forall>y \<in> set (?acc x). cy_payment_date y \<le> pe" using Suc.prems(2) step(2) by simp
    from Suc.IH[OF c this] show ?thesis .
  qed
qed simp

lemma card_synthesis_le:
  assumes "synthesize_account_cc_payments rd a ps pe ob ledger cr amounts pj after = Inr payments" "(d, x) \<in> set payments"
  shows "d \<le> pe \<and> 0 < x"
proof -
  from assms(1) obtain r where r: "due_cycles_in_horizon rd a ps pe = Inr r"
    and q: "(case r of (cycles, _) \<Rightarrow> Inr (pay_cycles a amounts cr (owed_at ob ledger pj after) cycles 0 [])) = (Inr payments :: point list result)"
    unfolding synthesize_account_cc_payments_def rbind_eq_Inr by blast
  obtain cycles hit where rr: "r = (cycles, hit)" by (cases r)
  have c: "due_cycles_in_horizon rd a ps pe = Inr (cycles, hit)" using r by (simp only: rr)
  have p: "payments = pay_cycles a amounts cr (owed_at ob ledger pj after) cycles 0 []" using q by (simp add: rr)
  from c obtain cur cs where w: "cycle_walk (cycle_walk_steps cur pe) a ps pe cur [] [] = Inr (cs, hit)"
    and s: "set cycles = set cs" by (auto simp: due_cycles_in_horizon_def rbind_eq_Inr)
  have "\<forall>x \<in> set cs. cy_payment_date x \<le> pe" by (rule cycle_walk_due[OF w]) simp
  with pay_cycles_dates[OF assms(2)[unfolded p]] s show ?thesis by auto
qed

lemma due_dates_le: "due_dates rd fp ps pe ks = Inr ds \<Longrightarrow> d \<in> set ds \<Longrightarrow> ps \<le> d \<and> d \<le> pe"
  by (induction ks arbitrary: ds) (auto simp: rbind_eq_Inr split: if_splits)

lemma loan_synthesis_le:
  assumes "synthesize_account_loan_payment rd fp term b pmt ps pe paid = Inr payments" "(d, x) \<in> set payments"
  shows "ps \<le> d \<and> d \<le> pe \<and> 0 < x \<and> x \<le> pmt \<and> x \<le> - b"
proof -
  have ne: "payments \<noteq> []" using assms(2) by auto
  with assms(1) have "\<not> paid" by (auto simp: synthesize_account_loan_payment_def)
  with assms(1) obtain ds where ds: "due_dates rd fp ps pe [0..term - 1] = Inr ds"
    and p: "(case ds of [] \<Rightarrow> Inr [] | pay # _ \<Rightarrow>
        if min pmt (max 0 (- b)) \<le> 0 then Inr [] else Inr [(pay, min pmt (max 0 (- b)))]) = (Inr payments :: point list result)"
    unfolding synthesize_account_loan_payment_def due_loan_payment_dates_def rbind_eq_Inr Let_def
    by (simp only: if_False rbind_eq_Inr) blast
  obtain pay rest where "ds = pay # rest" using p ne by (cases ds) auto
  with p assms(2) have "d = pay" "x = min pmt (max 0 (- b))" "\<not> x \<le> 0" by (auto split: if_splits)
  with due_dates_le[OF ds, of pay] \<open>ds = pay # rest\<close> show ?thesis by (auto simp: min_def max_def split: if_splits)
qed

lemma accrue_lines:
  assumes "accrue rd fp term rate legs prev st en b = Inr (b1, lines)"
  shows "\<forall>(d, x) \<in> set lines. st \<le> d \<and> d \<le> en \<and> 0 < x"
proof (cases prev)
  case (Some p)
  let ?b = "b + legs_in legs p st"
  from assms Some obtain due where due: "due_dates rd fp st en [0..term - 1] = Inr due"
    and a: "(case due of [] \<Rightarrow> Inr (?b, []) | d # _ \<Rightarrow>
      if ?b < 0 then rbind (quantize_cents (dec_mul (- ?b) rate)) (\<lambda>i. Inr (if 0 < i then (?b - i, [(d, i)]) else (?b, [])))
      else Inr (?b, [])) = Inr (b1, lines)"
    by (simp only: accrue_def option.case due_loan_payment_dates_def Let_def rbind_eq_Inr) blast
  show ?thesis
  proof (cases due)
    case (Cons d ds)
    have "\<exists>i. lines = (if 0 < i then [(d, i)] else []) \<or> lines = []"
      using a Cons by (cases "?b < 0") (auto simp: rbind_eq_Inr split: if_splits)
    with due_dates_le[OF due, of d] Cons show ?thesis by (auto split: if_splits)
  qed (use a in simp)
qed (use assms in \<open>simp add: accrue_def\<close>)

lemma loan_segments_le:
  "loan_segments rd fp term rate pmt legs paid segs prev b = Inr (ints, pays) \<Longrightarrow> \<forall>(st, en) \<in> set segs. en \<le> he \<Longrightarrow>
     (\<forall>(d, x) \<in> set ints. d \<le> he \<and> 0 < x) \<and> (\<forall>(d, x) \<in> set pays. d \<le> he \<and> 0 < x)"
proof (induction segs arbitrary: prev b ints pays)
  case (Cons seg segs)
  obtain st en where seg: "seg = (st, en)" by fastforce
  with Cons.prems obtain b1 i1 p1 i2 p2 af where a: "accrue rd fp term rate legs prev st en b = Inr (b1, i1)"
    and y: "synthesize_account_loan_payment rd fp term (b1 + legs_in legs st af) pmt st en (paid st en) = Inr p1"
    and r: "loan_segments rd fp term rate pmt legs paid segs (Some st) (b1 + sum_list (map snd p1)) = Inr (i2, p2)"
    and out: "ints = i1 @ i2" "pays = p1 @ p2" by (auto simp: rbind_eq_Inr)
  have "\<forall>(d, x) \<in> set i1. d \<le> en \<and> 0 < x" using accrue_lines[OF a] by auto
  moreover have "\<forall>(d, x) \<in> set p1. d \<le> en \<and> 0 < x" using loan_synthesis_le[OF y] by blast
  moreover have "en \<le> he" using Cons.prems(2) seg by simp
  ultimately show ?case using Cons.IH[OF r] Cons.prems(2) out by (fastforce intro: order_trans)
qed simp

lemma periods_after_le: "periods_after n rd fe he k pe = Inr ps \<Longrightarrow> (st, en) \<in> set ps \<Longrightarrow> en \<le> he"
  by (induction n arbitrary: k pe ps) (auto simp: rbind_eq_Inr Let_def split: if_splits)

lemma loan_periods_le: "loan_periods rd ws fe he = Inr ps \<Longrightarrow> (st, en) \<in> set ps \<Longrightarrow> en \<le> he"
  by (auto simp: loan_periods_def rbind_eq_Inr Let_def dest: periods_after_le)

end
