(* ===== verification/ProjectionFlows.thy ===== *)
theory ProjectionFlows
  imports ProjectionFacts
begin

text \<open>
  Where the money of a projection goes: card and loan payments are flows between two loaded accounts
  of one currency; an account ends with its balance, its own movements, what flows in and less what
  flows out; in the sum over a currency the flows cancel.
\<close>

section \<open>Flows\<close>

abbreviation total_of :: "point list \<Rightarrow> decimal" where
  "total_of pts \<equiv> sum_list (map snd pts)"

definition card_flows :: "movements \<Rightarrow> (int \<times> int \<times> decimal) list" where
  "card_flows mv = map (\<lambda>(src, tgt, ps). (src, tgt, total_of ps)) (mv_cards mv)"

definition loan_flows :: "movements \<Rightarrow> (int \<times> int \<times> decimal) list" where
  "loan_flows mv = map (\<lambda>(src, tgt, ints, ps). (src, tgt, total_of ps)) (mv_loans mv)"

definition inflow :: "int \<Rightarrow> (int \<times> int \<times> decimal) list \<Rightarrow> decimal" where
  "inflow a fs = sum_list (map (\<lambda>(src, tgt, x). if tgt = a then x else 0) fs)"

definition outflow :: "int \<Rightarrow> (int \<times> int \<times> decimal) list \<Rightarrow> decimal" where
  "outflow a fs = sum_list (map (\<lambda>(src, tgt, x). if src = a then x else 0) fs)"

lemma flow_simps [simp]:
  "inflow a [] = 0" "outflow a [] = 0"
  "inflow a ((s, t, x) # fs) = (if t = a then x else 0) + inflow a fs"
  "outflow a ((s, t, x) # fs) = (if s = a then x else 0) + outflow a fs"
  "inflow a (fs @ gs) = inflow a fs + inflow a gs" "outflow a (fs @ gs) = outflow a fs + outflow a gs"
  by (simp_all add: inflow_def outflow_def)

lemma sum_payment_lines:
  "sum_of a (payment_lines (src, tgt, ps)) = (if tgt = a then total_of ps else 0) - (if src = a then total_of ps else 0)"
  by (induction ps) (auto simp: payment_lines_def)

lemma sum_card_lines:
  "sum_of a (concat (map payment_lines cards)) =
     inflow a (map (\<lambda>(src, tgt, ps). (src, tgt, total_of ps)) cards) - outflow a (map (\<lambda>(src, tgt, ps). (src, tgt, total_of ps)) cards)"
  by (induction cards) (auto simp: sum_payment_lines)

lemma sum_interest: "sum_of a (map (\<lambda>(d, x). (i, d, - x)) ps) = (if i = a then - total_of ps else 0)"
  by (induction ps) auto

lemma lines_of_simps [simp]:
  "lines_of a [] = []" "lines_of a ((i, x) # xs) = (if i = a then [x] else []) @ lines_of a xs"
  by (simp_all add: lines_of_def)

lemma card_inflow: "total_of (concat (lines_of a (map snd cards))) = inflow a (map (\<lambda>(src, tgt, ps). (src, tgt, total_of ps)) cards)"
  by (induction cards) auto

lemma loan_inflow:
  "total_of (concat (map snd (lines_of a (map snd loans)))) = inflow a (map (\<lambda>(src, tgt, ints, ps). (src, tgt, total_of ps)) loans)"
  by (induction loans) auto

lemma sum_loan_lines:
  "sum_of a (concat (map loan_lines loans)) =
     inflow a (map (\<lambda>(src, tgt, ints, ps). (src, tgt, total_of ps)) loans) -
     outflow a (map (\<lambda>(src, tgt, ints, ps). (src, tgt, total_of ps)) loans) -
     total_of (concat (map fst (lines_of a (map snd loans))))"
  by (induction loans) (auto simp: loan_lines_def sum_payment_lines sum_interest)

lemma sum_recurring: "sum_of a (recurring_bookings ls) = total_of (map snd (lines_of a ls))"
  by (induction ls) (auto simp: recurring_bookings_def sum_of_def)

lemma sum_all_bookings:
  "sum_of a (all_bookings mv) =
     sum_of a (mv_pending mv) + total_of (map snd (lines_of a (mv_recurring mv))) +
     inflow a (card_flows mv @ loan_flows mv) - outflow a (card_flows mv @ loan_flows mv) -
     total_of (concat (map fst (lines_of a (map snd (mv_loans mv))))) + sum_of a (mv_future mv)"
  by (simp add: all_bookings_def sum_card_lines sum_loan_lines sum_recurring card_flows_def loan_flows_def)

section \<open>What the movements are\<close>

lemma map_filter_id: "set (List.map_filter id ys) = {y. Some y \<in> set ys}"
  by (force simp: List.map_filter_def)

lemma payment_source_ok:
  assumes "payment_source s org b = Some a"
  shows "a \<in> set (active_accounts s org) \<and> acc_currency a = acc_currency b"
  using assms by (auto simp: payment_source_def loaded_account_def find_Some_iff split: option.splits if_splits)

definition flow_ok :: "store \<Rightarrow> int \<Rightarrow> int \<Rightarrow> int \<Rightarrow> bool" where
  "flow_ok s org src tgt \<longleftrightarrow>
     (\<exists>a \<in> set (active_accounts s org). \<exists>b \<in> set (active_accounts s org).
        acc_id a = src \<and> acc_id b = tgt \<and> acc_currency a = acc_currency b \<and> payment_source s org b = Some a)"

lemma card_payments_ok:
  assumes "card_payments rd s org ex amounts ws fe he ls cc = Inr (Some (src, tgt, ps))" "cc \<in> set (active_accounts s org)"
  shows "flow_ok s org src tgt \<and> (\<forall>(d, x) \<in> set ps. d \<le> he \<and> 0 < x)"
proof -
  from assms(1) obtain a where a: "payment_source s org cc = Some a"
    by (auto simp: card_payments_def split: option.splits)
  from assms(1)[unfolded card_payments_def a option.case rbind_eq_Inr]
  obtain ledger cr ch where y: "synthesize_account_cc_payments rd cc ws he (acc_opening_balance cc) ledger cr amounts ch (Some fe) = Inr ps"
    and "src = acc_id a" "tgt = acc_id cc" by blast
  with payment_source_ok[OF a] a assms(2) have "flow_ok s org src tgt" by (auto simp: flow_ok_def)
  with card_synthesis_le[OF y] show ?thesis by blast
qed

lemma loan_payments_ok:
  assumes "loan_payments rd s org ex ws he periods pending ls loan = Inr (Some (src, tgt, ints, ps))"
    and "loan \<in> set (active_accounts s org)" and p: "\<forall>(st, en) \<in> set periods. en \<le> he"
  shows "flow_ok s org src tgt \<and> (\<forall>(d, x) \<in> set ints. d \<le> he) \<and> (\<forall>(d, x) \<in> set ps. d \<le> he)"
proof -
  from assms(1) obtain a where a: "payment_source s org loan = Some a"
    by (auto simp: loan_payments_def split: option.splits)
  note L = assms(1)[unfolded loan_payments_def a option.case]
  from L obtain amt apr tm fp where "acc_principal_amount loan = Some amt" "acc_interest_rate_apr loan = Some apr"
    "acc_term_months loan = Some tm" "acc_first_payment_date loan = Some fp"
    by (auto split: option.splits)
  note L = L[unfolded this prod.case option.case Let_def rbind_eq_Inr]
  from L obtain pmt rate paid legs where
    g: "loan_segments rd fp tm rate pmt legs paid periods None (acc_balance loan) = Inr (ints, ps)"
    and id: "src = acc_id a" "tgt = acc_id loan"
    by (clarsimp split: prod.splits)
  have "flow_ok s org src tgt" using payment_source_ok[OF a] a assms(2) id by (auto simp: flow_ok_def)
  with loan_segments_le[OF g p] show ?thesis by blast
qed

lemma payment_lines_mem: "(i, d, x) \<in> set (payment_lines (src, tgt, ps)) \<Longrightarrow> \<exists>y. (d, y) \<in> set ps"
  by (auto simp: payment_lines_def)

lemma movements_ok:
  assumes "movements_of rd s org amounts ex ws fe w he = Inr mv"
  shows "(\<forall>(src, tgt, x) \<in> set (card_flows mv @ loan_flows mv). flow_ok s org src tgt) \<and>
    (\<forall>(i, d, x) \<in> set (all_bookings mv). d \<le> he)"
proof -
  let ?ls = "recurring_lines rd s org ex ws he" and ?pe = "pending_lines s org ex ws he"
  from assms obtain cards loans where
    c: "rmap (card_payments rd s org ex amounts ws fe he ?ls) (paying_cards s org) = Inr cards"
    and l: "(if projected_loans s org = [] then Inr []
       else rbind (loan_periods rd ws fe he) (\<lambda>periods.
         rmap (loan_payments rd s org ex ws he periods ?pe ?ls) (projected_loans s org))) = Inr loans"
    and mv: "mv = \<lparr>mv_pending = ?pe, mv_recurring = ?ls, mv_cards = List.map_filter id cards,
       mv_loans = List.map_filter id loans, mv_future = future_settled_lines s org w (min fe he)\<rparr>"
    unfolding movements_of_def Let_def rbind_eq_Inr by (auto simp del: if_split)
  have card: "flow_ok s org src tgt \<and> (\<forall>(d, x) \<in> set ps. d \<le> he)" if m: "(src, tgt, ps) \<in> set (mv_cards mv)" for src tgt ps
  proof -
    from m have "Some (src, tgt, ps) \<in> set cards" by (simp add: mv map_filter_id)
    from rmap_mem[OF c this] obtain cc where "cc \<in> set (paying_cards s org)"
      "card_payments rd s org ex amounts ws fe he ?ls cc = Inr (Some (src, tgt, ps))" by blast
    with card_payments_ok[OF this(2)] show ?thesis by (auto simp: paying_cards_def)
  qed
  have loan: "flow_ok s org src tgt \<and> (\<forall>(d, x) \<in> set ints. d \<le> he) \<and> (\<forall>(d, x) \<in> set ps. d \<le> he)"
    if m: "(src, tgt, ints, ps) \<in> set (mv_loans mv)" for src tgt ints ps
  proof -
    from m have sm: "Some (src, tgt, ints, ps) \<in> set loans" by (simp add: mv map_filter_id)
    then have "loans \<noteq> []" by auto
    with l obtain periods where pr: "loan_periods rd ws fe he = Inr periods"
      and r: "rmap (loan_payments rd s org ex ws he periods ?pe ?ls) (projected_loans s org) = Inr loans"
      by (auto simp: rbind_eq_Inr split: if_splits)
    have "\<forall>(st, en) \<in> set periods. en \<le> he" using loan_periods_le[OF pr] by blast
    moreover from rmap_mem[OF r sm] obtain b where "b \<in> set (projected_loans s org)"
      "loan_payments rd s org ex ws he periods ?pe ?ls b = Inr (Some (src, tgt, ints, ps))" by blast
    ultimately show ?thesis using loan_payments_ok[of rd s org ex ws he periods ?pe ?ls b src tgt ints ps]
      by (simp add: projected_loans_def)
  qed
  have "\<forall>(src, tgt, x) \<in> set (card_flows mv @ loan_flows mv). flow_ok s org src tgt"
    using card loan by (fastforce simp: card_flows_def loan_flows_def)
  moreover have "d \<le> he" if m: "(i, d, x) \<in> set (all_bookings mv)" for i d x
  proof -
    from m consider "(i, d, x) \<in> set ?pe" | "(i, d, x) \<in> set (recurring_bookings ?ls)"
      | p where "p \<in> set (mv_cards mv)" "(i, d, x) \<in> set (payment_lines p)"
      | p where "p \<in> set (mv_loans mv)" "(i, d, x) \<in> set (loan_lines p)"
      | "(i, d, x) \<in> set (future_settled_lines s org w (min fe he))"
      unfolding all_bookings_def by (auto simp: mv)
    then show ?thesis
    proof cases
      case (3 p)
      obtain src tgt ps where p: "p = (src, tgt, ps)" by (cases p)
      from payment_lines_mem[OF 3(2)[unfolded p]] card[of src tgt ps] 3(1) p show ?thesis by blast
    next
      case (4 p)
      obtain src tgt ints ps where p: "p = (src, tgt, ints, ps)" by (cases p)
      with 4(2) have "(\<exists>y. (d, y) \<in> set ints) \<or> (\<exists>y. (d, y) \<in> set ps)"
        by (auto simp: loan_lines_def dest: payment_lines_mem)
      with loan[of src tgt ints ps] 4(1) p show ?thesis by blast
    qed (auto simp: pending_lines_def recurring_bookings_def future_settled_lines_def dest: recurring_lines_le)
  qed
  ultimately show ?thesis by blast
qed

end
