(* ===== verification/ProjectionProps.thy ===== *)
theory ProjectionProps
  imports ProjectionFlows Sample
begin

text \<open>
  The properties of the projection kernel and of the card and loan synthesis it rests on, with the
  accounts the witnesses run on.
\<close>

section \<open>A baseline, stage by stage\<close>

lemma baselineE:
  assumes "baseline rd s org amounts today he ex ws fe = Inr pj"
  obtains fp mv dt where
    "pj_walk_start pj = min (max ws today) he" "pj_horizon_end pj = he"
    "movements_of rd s org amounts ex ws fp (pj_walk_start pj) he = Inr mv"
    "rmap (account_baseline_of mv (book (pj_walk_start pj) (all_bookings mv) (\<lambda>_ _. 0)) (pj_walk_start pj) dt he)
       (active_accounts s org) = Inr (pj_accounts pj)"
    "pj_currencies pj = fold (\<lambda>ab. add_to_currency (acc_currency (ab_account ab)) (ab_points ab)) (pj_accounts pj) []"
proof -
  from assms obtain fp mv dt rows where
    "movements_of rd s org amounts ex ws fp (min (max ws today) he) he = Inr mv"
    "rmap (account_baseline_of mv (book (min (max ws today) he) (all_bookings mv) (\<lambda>_ _. 0)) (min (max ws today) he) dt he)
       (active_accounts s org) = Inr rows"
    "pj = \<lparr>pj_window_start = ws, pj_first_period_end = fp, pj_walk_start = min (max ws today) he, pj_horizon_end = he,
       pj_accounts = rows, pj_currencies = fold (\<lambda>ab. add_to_currency (acc_currency (ab_account ab)) (ab_points ab)) rows [],
       pj_series_dates = series_dates rd s org ex ws he\<rparr>"
    unfolding baseline_def Let_def rbind_eq_Inr by blast
  then show ?thesis by (intro that[of fp mv dt]) simp_all
qed

definition own_movement :: "account_baseline \<Rightarrow> decimal" where
  "own_movement ab =
     ab_balance ab + ab_pending_delta ab + total_of (ab_recurring_lines ab) - total_of (ab_loan_interest ab)"

lemma account_ends:
  assumes "account_baseline_of mv (book w (all_bookings mv) (\<lambda>_ _. 0)) w dt he a = Inr ab"
    and d: "\<forall>(i, d, x) \<in> set (all_bookings mv). d \<le> he" and w: "w \<le> he"
  shows "ab_account ab = a \<and> ab_points ab \<noteq> [] \<and> fst (last (ab_points ab)) = he \<and>
    end_balance ab = own_movement ab + inflow (acc_id a) (card_flows mv @ loan_flows mv) -
      outflow (acc_id a) (card_flows mv @ loan_flows mv) \<and>
    inflow (acc_id a) (card_flows mv @ loan_flows mv) = total_of (ab_cc_payments ab) + total_of (ab_loan_payments ab)"
proof -
  let ?D = "book w (all_bookings mv) (\<lambda>_ _. 0) (acc_id a)"
  from assms(1) obtain pts where p: "walk_points ?D dt he (acc_balance a - sum_of (acc_id a) (mv_future mv)) w = Inr pts"
    and ab: "ab = \<lparr>ab_account = a, ab_balance = acc_balance a, ab_seed = acc_balance a - sum_of (acc_id a) (mv_future mv),
      ab_pending_delta = sum_of (acc_id a) (mv_pending mv),
      ab_cc_payments = concat (lines_of (acc_id a) (map snd (mv_cards mv))),
      ab_loan_payments = concat (map snd (lines_of (acc_id a) (map snd (mv_loans mv)))),
      ab_loan_interest = concat (map fst (lines_of (acc_id a) (map snd (mv_loans mv)))),
      ab_recurring_lines = map snd (lines_of (acc_id a) (mv_recurring mv)), ab_points = pts\<rparr>"
    unfolding account_baseline_of_def Let_def rbind_eq_Inr by blast
  have "sum ?D {w..he} = sum_of (acc_id a) (all_bookings mv)" using book_sum[OF d w, of "\<lambda>_ _. 0" "acc_id a"] by simp
  with walk_points_last[OF p w] have "pts \<noteq> []" "last pts = (he, acc_balance a - sum_of (acc_id a) (mv_future mv) +
      sum_of (acc_id a) (all_bookings mv))" by auto
  then show ?thesis
    by (simp add: ab end_balance_def own_movement_def sum_all_bookings card_flows_def loan_flows_def card_inflow loan_inflow)
qed

text \<open>The series of a currency is the pointwise sum of its accounts' series.\<close>

lemma add_points_sum:
  assumes "map fst xs = map fst ys"
  shows "map fst (add_points xs ys) = map fst xs \<and>
    (\<forall>i < length xs. snd (add_points xs ys ! i) = snd (xs ! i) + snd (ys ! i))"
proof -
  have l: "length xs = length ys" using assms by (rule map_eq_imp_length_eq)
  have "map fst (add_points xs ys) = map fst xs"
    using l by (induction xs ys rule: list_induct2) (auto simp: add_points_def)
  then show ?thesis using l by (simp add: add_points_def split: prod.splits)
qed

definition currency_ok :: "date list \<Rightarrow> account_baseline list \<Rightarrow> (string \<times> point list) list \<Rightarrow> bool" where
  "currency_ok ds rows cs \<longleftrightarrow> distinct (map fst cs) \<and>
     fst ` set cs = (\<lambda>ab. acc_currency (ab_account ab)) ` set rows \<and>
     (\<forall>(c, pts) \<in> set cs. map fst pts = ds \<and>
        (\<forall>i < length ds. snd (pts ! i) = sum_list (map (\<lambda>ab. snd (ab_points ab ! i)) (filter (\<lambda>ab. acc_currency (ab_account ab) = c) rows))))"

lemma add_to_currency_keys:
  "fst ` set (add_to_currency c pts cs) = insert c (fst ` set cs) \<and>
   (distinct (map fst cs) \<longrightarrow> distinct (map fst (add_to_currency c pts cs)))"
  by (induction c pts cs rule: add_to_currency.induct) (auto split: if_splits)

lemma add_to_currency_mem:
  assumes "distinct (map fst cs)" "(k, q) \<in> set (add_to_currency c pts cs)"
  shows "(k \<noteq> c \<and> (k, q) \<in> set cs) \<or> (k = c \<and> c \<notin> fst ` set cs \<and> q = pts) \<or>
    (k = c \<and> (\<exists>p. (c, p) \<in> set cs \<and> q = add_points p pts))"
  using assms
proof (induction cs)
  case (Cons x cs)
  obtain c' p where x: "x = (c', p)" by (cases x)
  show ?case
  proof (cases "c' = c")
    case True
    with Cons.prems x show ?thesis by (auto simp: image_iff)
  next
    case False
    with Cons.prems x have "(k, q) = (c', p) \<or> (k, q) \<in> set (add_to_currency c pts cs)" "distinct (map fst cs)" by auto
    with Cons.IH False Cons.prems(1) x show ?thesis by (auto simp: image_iff)
  qed
qed simp

lemma currency_step:
  assumes ok: "currency_ok ds rows cs" and d: "map fst (ab_points ab) = ds"
  shows "currency_ok ds (rows @ [ab]) (add_to_currency (acc_currency (ab_account ab)) (ab_points ab) cs)"
proof -
  let ?c = "acc_currency (ab_account ab)" and ?cs = "add_to_currency (acc_currency (ab_account ab)) (ab_points ab) cs"
  note ok' = ok[unfolded currency_ok_def]
  have k: "distinct (map fst cs)" "fst ` set cs = (\<lambda>ab. acc_currency (ab_account ab)) ` set rows" using ok' by auto
  have len: "length ds = length (ab_points ab)" using d by auto
  have "map fst q = ds \<and> (\<forall>i < length ds. snd (q ! i) =
      sum_list (map (\<lambda>ab. snd (ab_points ab ! i)) (filter (\<lambda>ab. acc_currency (ab_account ab) = k) (rows @ [ab]))))"
    if m: "(k, q) \<in> set ?cs" for k q
    using add_to_currency_mem[OF k(1) m]
  proof (elim disjE conjE exE)
    assume "k \<noteq> ?c" "(k, q) \<in> set cs"
    with ok' show ?thesis by auto
  next
    assume c: "k = ?c" "?c \<notin> fst ` set cs" "q = ab_points ab"
    have "acc_currency (ab_account x) \<noteq> ?c" if "x \<in> set rows" for x
      using c(2) that unfolding k(2) by (metis (mono_tags, lifting) image_eqI)
    with c(1) have "filter (\<lambda>ab. acc_currency (ab_account ab) = k) rows = []" by (simp add: filter_empty_conv)
    with c d show ?thesis by simp
  next
    fix p assume c: "k = ?c" "(?c, p) \<in> set cs" "q = add_points p (ab_points ab)"
    with ok' have p: "map fst p = ds" "\<forall>i < length ds. snd (p ! i) =
        sum_list (map (\<lambda>ab. snd (ab_points ab ! i)) (filter (\<lambda>ab. acc_currency (ab_account ab) = ?c) rows))" by auto
    have "length p = length ds" using p(1) by auto
    with add_points_sum[of p "ab_points ab"] p c d show ?thesis by auto
  qed
  with k add_to_currency_keys[of ?c "ab_points ab" cs] show ?thesis
    unfolding currency_ok_def by (auto simp del: add_to_currency.simps)
qed

lemma currencies_ok:
  assumes "\<forall>ab \<in> set rows. map fst (ab_points ab) = ds"
  shows "currency_ok ds rows (fold (\<lambda>ab. add_to_currency (acc_currency (ab_account ab)) (ab_points ab)) rows [])"
  using assms by (induction rows rule: rev_induct) (auto simp: currency_step, simp add: currency_ok_def)

text \<open>Flows inside a currency cancel.\<close>

lemma flows_cancel:
  assumes d: "distinct (map acc_id accts)" and fs: "\<forall>(src, tgt, x) \<in> set fs. \<exists>a \<in> set accts. \<exists>b \<in> set accts.
      acc_id a = src \<and> acc_id b = tgt \<and> acc_currency a = acc_currency b"
  shows "sum_list (map (\<lambda>a. inflow (acc_id a) fs - outflow (acc_id a) fs) (filter (\<lambda>a. acc_currency a = c) accts)) = 0"
  using fs
proof (induction fs)
  case (Cons f fs)
  obtain src tgt x where f: "f = (src, tgt, x)" by (cases f)
  let ?accts = "filter (\<lambda>a. acc_currency a = c) accts"
  have pick: "sum_list (map (\<lambda>a. if acc_id b = acc_id a then x else 0) ?accts) = (if acc_currency b = c then x else 0)"
    if b: "b \<in> set accts" for b
  proof -
    have eq: "acc_id b = acc_id a \<longleftrightarrow> a = b" if "a \<in> set accts" for a
      using key_unique[OF d that b] by auto
    have "sum_list (map (\<lambda>a. if acc_id b = acc_id a then x else 0) ?accts) = (\<Sum>a \<in> set ?accts. if acc_id b = acc_id a then x else 0)"
      using d by (intro sum_list_distinct_conv_sum_set) (simp add: distinct_map)
    also have "\<dots> = (\<Sum>a \<in> set ?accts. if a = b then x else 0)" using eq by (intro sum.cong) auto
    finally show ?thesis using b by (simp add: sum.delta)
  qed
  from Cons.prems f obtain a b where a: "a \<in> set accts" "acc_id a = src" and b: "b \<in> set accts" "acc_id b = tgt"
    and cur: "acc_currency a = acc_currency b" by auto
  have "sum_list (map (\<lambda>a. inflow (acc_id a) (f # fs) - outflow (acc_id a) (f # fs)) ?accts) =
      sum_list (map (\<lambda>y. if tgt = acc_id y then x else 0) ?accts) - sum_list (map (\<lambda>y. if src = acc_id y then x else 0) ?accts) +
      sum_list (map (\<lambda>a. inflow (acc_id a) fs - outflow (acc_id a) fs) ?accts)"
    by (simp add: f sum_list_addf[symmetric] sum_list_subtractf[symmetric] algebra_simps)
  then show ?case using Cons pick[OF a(1)] pick[OF b(1)] a(2) b(2) cur by simp
qed simp

section \<open>The accounts of the witnesses\<close>

text \<open>A checking account that pays a card and a loan, a pending row, and a monthly series.\<close>

definition sample_card :: account where
  "sample_card = (sample_account 5 ''card'' (- 300) (- 340))
     \<lparr>acc_type_slug := Some ''credit_card'', acc_close_day := Some 5, acc_payment_day := Some 12,
      acc_payment_day_relative_month := Some 0, acc_payment_source_account_id := Some 4\<rparr>"

definition sample_loan :: account where
  "sample_loan = (sample_account 6 ''loan'' (- 1200) (- 1200))
     \<lparr>acc_type_slug := Some ''loan'', acc_payment_source_account_id := Some 4, acc_principal_amount := Some 1200,
      acc_interest_rate_apr := Some 0, acc_term_months := Some 12, acc_origination_date := Some (date_of 2025 1 15),
      acc_first_payment_date := Some (date_of 2025 2 15)\<rparr>"

definition sample_projected :: store where
  "sample_projected =
     \<lparr>organizations = [\<lparr>o_id = 1, o_billing_cycle_day = 1, o_primary_currency = None\<rparr>],
      categories = [sample_category 3 CatBoth],
      accounts = [sample_account 4 ''main'' 1000 1000, sample_card, sample_loan],
      transactions = [sample_tx 7 5 40 EXPENSE SETTLED None None accepted, sample_tx 8 4 25 EXPENSE PENDING None None accepted],
      templates = [sample_template\<lparr>r_next_due_date := date_of 2025 3 14\<rparr>],
      batches = [], next_id = 30\<rparr>"

definition no_amounts :: cycle_amounts where
  "no_amounts = (\<lambda>_. None)"

section \<open>Properties\<close>

lemma baseline_accounts:
  assumes "baseline rd s org amounts today he ex ws fe = Inr pj"
  obtains mv where
    "\<forall>(src, tgt, x) \<in> set (card_flows mv @ loan_flows mv). flow_ok s org src tgt"
    "map ab_account (pj_accounts pj) = active_accounts s org" "pj_horizon_end pj = he"
    "\<forall>ab \<in> set (pj_accounts pj). ab_points ab \<noteq> [] \<and> fst (last (ab_points ab)) = he \<and>
       end_balance ab = own_movement ab + inflow (acc_id (ab_account ab)) (card_flows mv @ loan_flows mv) -
         outflow (acc_id (ab_account ab)) (card_flows mv @ loan_flows mv) \<and>
       inflow (acc_id (ab_account ab)) (card_flows mv @ loan_flows mv) =
         total_of (ab_cc_payments ab) + total_of (ab_loan_payments ab)"
    "\<forall>ab \<in> set (pj_accounts pj). \<forall>ab' \<in> set (pj_accounts pj). map fst (ab_points ab) = map fst (ab_points ab')"
proof -
  from assms obtain fp mv dt where b: "pj_walk_start pj = min (max ws today) he" "pj_horizon_end pj = he"
    and m: "movements_of rd s org amounts ex ws fp (pj_walk_start pj) he = Inr mv"
    and r: "rmap (account_baseline_of mv (book (pj_walk_start pj) (all_bookings mv) (\<lambda>_ _. 0)) (pj_walk_start pj) dt he)
       (active_accounts s org) = Inr (pj_accounts pj)" by (rule baselineE)
  let ?w = "pj_walk_start pj"
  have w: "?w \<le> he" by (simp add: b)
  from movements_ok[OF m] have f: "\<forall>(src, tgt, x) \<in> set (card_flows mv @ loan_flows mv). flow_ok s org src tgt"
    and d: "\<forall>(i, d, x) \<in> set (all_bookings mv). d \<le> he" by blast+
  note ends = account_ends[OF _ d w]
  have "map ab_account (pj_accounts pj) = active_accounts s org"
    using r ends unfolding rmap_Inr list_all2_conv_all_nth by (auto intro!: nth_equalityI)
  moreover have "ab_points ab \<noteq> [] \<and> fst (last (ab_points ab)) = he \<and>
       end_balance ab = own_movement ab + inflow (acc_id (ab_account ab)) (card_flows mv @ loan_flows mv) -
         outflow (acc_id (ab_account ab)) (card_flows mv @ loan_flows mv) \<and>
       inflow (acc_id (ab_account ab)) (card_flows mv @ loan_flows mv) =
         total_of (ab_cc_payments ab) + total_of (ab_loan_payments ab)"
    and walk: "\<exists>D q. walk_points D dt he q ?w = Inr (ab_points ab)" if "ab \<in> set (pj_accounts pj)" for ab
  proof -
    from rmap_mem[OF r that] obtain a where a: "account_baseline_of mv (book ?w (all_bookings mv) (\<lambda>_ _. 0)) ?w dt he a = Inr ab" by blast
    from ends[OF a] show "ab_points ab \<noteq> [] \<and> fst (last (ab_points ab)) = he \<and>
       end_balance ab = own_movement ab + inflow (acc_id (ab_account ab)) (card_flows mv @ loan_flows mv) -
         outflow (acc_id (ab_account ab)) (card_flows mv @ loan_flows mv) \<and>
       inflow (acc_id (ab_account ab)) (card_flows mv @ loan_flows mv) =
         total_of (ab_cc_payments ab) + total_of (ab_loan_payments ab)" by simp
    from a obtain D q pts where "walk_points D dt he q ?w = Inr pts" "ab_points ab = pts"
      unfolding account_baseline_of_def Let_def rbind_eq_Inr by force
    then show "\<exists>D q. walk_points D dt he q ?w = Inr (ab_points ab)" by blast
  qed
  moreover have "map fst (ab_points ab) = map fst (ab_points ab')"
    if in1: "ab \<in> set (pj_accounts pj)" and in2: "ab' \<in> set (pj_accounts pj)" for ab ab'
  proof -
    from walk[OF in1] walk[OF in2] obtain D q D' q' where "walk_points D dt he q ?w = Inr (ab_points ab)"
      "walk_points D' dt he q' ?w = Inr (ab_points ab')" by blast
    then show ?thesis by (rule walk_points_dates)
  qed
  ultimately show ?thesis using f b(2) by (intro that[of mv]) blast+
qed

text \<open>C34: an account of the projection ends on its balance plus its pending rows and its projected
  occurrences less the interest its loan accrues, plus the card and loan payments it receives, less
  those it pays; every payment goes from a loaded account to one of the same currency that names it
  as its payment source. The last point of the series is the horizon.\<close>

theorem account_ends_on_its_movements:
  assumes "baseline rd s org amounts today he ex ws fe = Inr pj"
  shows "\<exists>flows. (\<forall>(src, tgt, x) \<in> set flows. flow_ok s org src tgt) \<and>
    (\<forall>ab \<in> set (pj_accounts pj). fst (last (ab_points ab)) = he \<and>
       end_balance ab = ab_balance ab + ab_pending_delta ab + total_of (ab_recurring_lines ab) - total_of (ab_loan_interest ab) +
         (total_of (ab_cc_payments ab) + total_of (ab_loan_payments ab)) - outflow (acc_id (ab_account ab)) flows \<and>
       inflow (acc_id (ab_account ab)) flows = total_of (ab_cc_payments ab) + total_of (ab_loan_payments ab))"
proof -
  from assms obtain mv where mv: "\<forall>(src, tgt, x) \<in> set (card_flows mv @ loan_flows mv). flow_ok s org src tgt"
    "\<forall>ab \<in> set (pj_accounts pj). ab_points ab \<noteq> [] \<and> fst (last (ab_points ab)) = he \<and>
       end_balance ab = own_movement ab + inflow (acc_id (ab_account ab)) (card_flows mv @ loan_flows mv) -
         outflow (acc_id (ab_account ab)) (card_flows mv @ loan_flows mv) \<and>
       inflow (acc_id (ab_account ab)) (card_flows mv @ loan_flows mv) =
         total_of (ab_cc_payments ab) + total_of (ab_loan_payments ab)" by (rule baseline_accounts)
  show ?thesis
    by (intro exI[of _ "card_flows mv @ loan_flows mv"] conjI mv(1)) (use mv(2) in \<open>simp add: own_movement_def\<close>)
qed

definition sample_baseline :: "projection result" where
  "sample_baseline = baseline civil_add sample_projected 1 no_amounts (date_of 2025 3 11) (date_of 2025 3 15) []
     (date_of 2025 3 10) None"

theorem account_ends_on_its_movements_witness:
  "\<exists>pj flows. sample_baseline = Inr pj \<and> map end_balance (pj_accounts pj) = [- 125, - 40, - 1100] \<and>
     (\<forall>ab \<in> set (pj_accounts pj). inflow (acc_id (ab_account ab)) flows = total_of (ab_cc_payments ab) + total_of (ab_loan_payments ab))"
proof -
  have "\<not> isl sample_baseline \<and> map end_balance (pj_accounts (projr sample_baseline)) = [- 125, - 40, - 1100]" by code_simp
  then obtain pj where g: "sample_baseline = Inr pj" "map end_balance (pj_accounts pj) = [- 125, - 40, - 1100]"
    using sum.collapse(2)[of sample_baseline] by metis
  from account_ends_on_its_movements[OF g(1)[unfolded sample_baseline_def]] obtain flows where
    "\<forall>ab \<in> set (pj_accounts pj). inflow (acc_id (ab_account ab)) flows = total_of (ab_cc_payments ab) + total_of (ab_loan_payments ab)"
    by blast
  then show ?thesis by (intro exI[of _ pj] exI[of _ flows] conjI g)
qed

text \<open>C33: the series of a currency ends, on the horizon, on the sum of its accounts' balances, pending
  rows and projected occurrences, less loan interest: card and loan payments move money between
  accounts of the currency and cancel in its total.\<close>

theorem projection_conserves_currency:
  assumes "store_wf s" "baseline rd s org amounts today he ex ws fe = Inr pj" "(c, pts) \<in> set (pj_currencies pj)"
  shows "pts \<noteq> [] \<and> last pts = (he, sum_list (map (\<lambda>ab. ab_balance ab + ab_pending_delta ab +
    total_of (ab_recurring_lines ab) - total_of (ab_loan_interest ab))
      (filter (\<lambda>ab. acc_currency (ab_account ab) = c) (pj_accounts pj))))"
proof -
  from assms(2) obtain mv where fl: "\<forall>(src, tgt, x) \<in> set (card_flows mv @ loan_flows mv). flow_ok s org src tgt"
    and acc: "map ab_account (pj_accounts pj) = active_accounts s org"
    and ends: "\<forall>ab \<in> set (pj_accounts pj). ab_points ab \<noteq> [] \<and> fst (last (ab_points ab)) = he \<and>
       end_balance ab = own_movement ab + inflow (acc_id (ab_account ab)) (card_flows mv @ loan_flows mv) -
         outflow (acc_id (ab_account ab)) (card_flows mv @ loan_flows mv) \<and>
       inflow (acc_id (ab_account ab)) (card_flows mv @ loan_flows mv) =
         total_of (ab_cc_payments ab) + total_of (ab_loan_payments ab)"
    and dates: "\<forall>ab \<in> set (pj_accounts pj). \<forall>ab' \<in> set (pj_accounts pj). map fst (ab_points ab) = map fst (ab_points ab')"
    by (rule baseline_accounts)
  from assms(2) have cur: "pj_currencies pj = fold (\<lambda>ab. add_to_currency (acc_currency (ab_account ab)) (ab_points ab)) (pj_accounts pj) []"
    by (rule baselineE)
  with assms(3) obtain a0 where a0: "a0 \<in> set (pj_accounts pj)" by (cases "pj_accounts pj") auto
  define ds where "ds = map fst (ab_points a0)"
  have same: "\<forall>ab \<in> set (pj_accounts pj). map fst (ab_points ab) = ds" unfolding ds_def using dates a0 by blast
  let ?here = "filter (\<lambda>ab. acc_currency (ab_account ab) = c) (pj_accounts pj)"
  let ?fs = "card_flows mv @ loan_flows mv"
  from currencies_ok[OF same] assms(3) have pts: "map fst pts = ds"
    "\<forall>i < length ds. snd (pts ! i) = sum_list (map (\<lambda>ab. snd (ab_points ab ! i)) ?here)"
    unfolding cur currency_ok_def by auto
  have ne: "ds \<noteq> []" and hd: "last ds = he" using ends a0 by (auto simp: ds_def last_map)
  have len: "length pts = length ds" using pts(1) by (metis length_map)
  have len_ab: "length (ab_points ab) = length ds" if "ab \<in> set (pj_accounts pj)" for ab
    using same that by (metis length_map)
  have ptsne: "pts \<noteq> []" using pts(1) ne by auto
  have "snd (last pts) = sum_list (map (\<lambda>ab. snd (ab_points ab ! (length ds - 1))) ?here)"
    using pts(2) ne ptsne len by (simp add: last_conv_nth)
  also have "\<dots> = sum_list (map end_balance ?here)"
    by (intro arg_cong[of _ _ sum_list] map_cong refl) (use ends len_ab in \<open>simp add: end_balance_def last_conv_nth\<close>)
  also have "\<dots> = sum_list (map (\<lambda>ab. own_movement ab + (inflow (acc_id (ab_account ab)) ?fs - outflow (acc_id (ab_account ab)) ?fs)) ?here)"
    by (intro arg_cong[of _ _ sum_list] map_cong refl) (use ends in simp)
  also have "\<dots> = sum_list (map own_movement ?here) +
      sum_list (map (\<lambda>a. inflow (acc_id a) ?fs - outflow (acc_id a) ?fs) (map ab_account ?here))"
    by (simp only: sum_list_addf map_map comp_def)
  also have "map ab_account ?here = filter (\<lambda>a. acc_currency a = c) (active_accounts s org)"
    unfolding acc[symmetric] by (simp add: filter_map comp_def)
  also have "sum_list (map (\<lambda>a. inflow (acc_id a) ?fs - outflow (acc_id a) ?fs) \<dots>) = 0"
  proof (rule flows_cancel)
    show "distinct (map acc_id (active_accounts s org))"
      using assms(1) by (simp add: store_wf_def active_accounts_def distinct_map_filter)
    show "\<forall>(src, tgt, x) \<in> set ?fs. \<exists>a \<in> set (active_accounts s org). \<exists>b \<in> set (active_accounts s org).
        acc_id a = src \<and> acc_id b = tgt \<and> acc_currency a = acc_currency b"
      using fl by (fastforce simp: flow_ok_def)
  qed
  finally have "snd (last pts) = sum_list (map own_movement ?here)" by simp
  moreover have "fst (last pts) = he" using pts(1) hd ptsne by (metis last_map)
  moreover have "own_movement = (\<lambda>ab. ab_balance ab + ab_pending_delta ab + total_of (ab_recurring_lines ab) -
      total_of (ab_loan_interest ab))" by (simp add: own_movement_def fun_eq_iff)
  ultimately show ?thesis using ptsne by (simp add: prod_eq_iff)
qed

theorem projection_conserves_currency_witness:
  "\<exists>pj pts. sample_baseline = Inr pj \<and> pj_currencies pj = [(''EUR'', pts)] \<and> last pts = (date_of 2025 3 15, - 1265) \<and> pts \<noteq> []"
proof -
  have "\<not> isl sample_baseline \<and> map fst (pj_currencies (projr sample_baseline)) = [''EUR''] \<and>
      map (\<lambda>c. last (snd c)) (pj_currencies (projr sample_baseline)) = [(date_of 2025 3 15, - 1265)]" by code_simp
  then obtain pj where g: "sample_baseline = Inr pj" "map fst (pj_currencies pj) = [''EUR'']"
    "map (\<lambda>c. last (snd c)) (pj_currencies pj) = [(date_of 2025 3 15, - 1265)]"
    using sum.collapse(2)[of sample_baseline] by metis
  from g(2,3) obtain pts where pts: "pj_currencies pj = [(''EUR'', pts)]" "last pts = (date_of 2025 3 15, - 1265)" by auto
  have "store_wf sample_projected" by code_simp
  from projection_conserves_currency[OF this g(1)[unfolded sample_baseline_def], of "''EUR''" pts] pts(1) have "pts \<noteq> []" by simp
  then show ?thesis by (intro exI[of _ pj] exI[of _ pts] conjI g(1) pts)
qed

end
