(* ===== verification/CardProps.thy ===== *)
theory CardProps
  imports ProjectionProps
begin

text \<open>
  Properties of card cycles, of the projected card payments and of the loan schedule.
\<close>

section \<open>Cycles\<close>

text \<open>The cycles of a card tile the calendar: a cycle holds the day it was asked for, every day of it
  has that cycle, and the day after its close opens the next one.\<close>

lemma cycles_tile:
  assumes "resolve_cycle (Some c) pd rel t = Inr x"
  shows "cy_period_start x \<le> t \<and> t \<le> cy_period_end_inclusive x \<and>
    (\<forall>d. cy_period_start x \<le> d \<and> d \<le> cy_period_end_inclusive x \<longrightarrow> resolve_cycle (Some c) pd rel d = Inr x) \<and>
    (\<forall>n y. next_day (cy_period_end_inclusive x) = Some n \<and> resolve_cycle (Some c) pd rel n = Inr y \<longrightarrow> cy_period_start y = n)"
proof -
  from assms obtain p where p: "cycle_spec c pd rel p x" "p < t" "t \<le> cy_period_end_inclusive x" by (auto simp: resolve_cycle_iff)
  have "p < d \<longleftrightarrow> cy_period_start x \<le> d" for d using p(1) next_day_less_iff by (auto simp: cycle_spec_def)
  with p have "resolve_cycle (Some c) pd rel d = Inr x" if "cy_period_start x \<le> d" "d \<le> cy_period_end_inclusive x" for d
    using that by (auto simp: resolve_cycle_iff)
  with p \<open>\<And>d. p < d \<longleftrightarrow> cy_period_start x \<le> d\<close> resolve_cycle_step(2)[OF p(1)] show ?thesis by blast
qed

text \<open>The anchor of a cycle is the month it closes in, whichever day of the month the close day is
  clamped to.\<close>

lemma anchor_cycle_closes_in_its_month:
  assumes "acc_close_day a = Some c" "1 \<le> c" "resolve_anchor_cycle a y m = Inr x"
  shows "anchor_key x = (y, m)"
proof -
  from assms(3) obtain d where d: "mk_date y m 1 = Some d" and x: "resolve_cycle_for_account a d = Inr x"
    by (auto simp: resolve_anchor_cycle_def rbind_eq_Inr)
  from d have v: "valid_ymd y m 1" "d = date_of y m 1" by auto
  from x assms(1) obtain p where p: "cycle_spec c (acc_payment_day a) (acc_payment_day_relative_month a) p x"
    "p < d" "d \<le> cy_period_end_inclusive x" by (auto simp: resolve_cycle_for_account_def resolve_cycle_iff)
  have "month_index p < month_index d"
    using p(1,2) v assms(2) date_bounds(5)[of p] by (auto simp: date_less_iff)
  with p date_le_month[OF p(3)] have "month_index (cy_period_end_inclusive x) = month_index d" by (simp add: cycle_spec_def)
  with month_index_eqD[OF this] v show ?thesis by (simp add: anchor_key_def)
qed

text \<open>C31: the enumeration of the cycles due in a horizon returns, its cap is never what stops it, and
  it yields exactly the cycles of the card whose payment date lies in the horizon, in the order of
  their payment dates, for every horizon inside the calendar.\<close>

theorem due_cycles_exact:
  assumes "relativedelta_lib rd" "acc_close_day a = Some c" "1 \<le> c" "1 \<le> effective_payment_day (acc_payment_day a)"
    and "0 \<le> effective_relative_month (acc_payment_day_relative_month a)" "p_start \<le> p_end"
    and "13 + lookback_months a \<le> month_index p_start"
    and "month_index p_end + effective_relative_month (acc_payment_day_relative_month a) \<le> 119990"
  shows "\<exists>cs. due_cycles_in_horizon rd a p_start p_end = Inr (cs, False) \<and>
    sorted_wrt (\<lambda>x y. cy_payment_date x < cy_payment_date y) cs \<and>
    (\<forall>y. y \<in> set cs \<longleftrightarrow> (\<exists>t. resolve_cycle_for_account a t = Inr y) \<and> p_start \<le> cy_payment_date y \<and> cy_payment_date y \<le> p_end)"
proof -
  from due_cycles_exists[OF assms] obtain cs hit where r: "due_cycles_in_horizon rd a p_start p_end = Inr (cs, hit)"
    by (metis prod.collapse)
  from due_cycles_spec[OF assms(1,2,5,6) r] r show ?thesis by (auto simp: card_cycle_of_def)
qed

theorem due_cycles_exact_witness:
  "\<exists>cs. due_cycles_in_horizon civil_add sample_card (date_of 2025 3 10) (date_of 2025 5 20) = Inr (cs, False) \<and>
     map cy_payment_date cs = [date_of 2025 3 12, date_of 2025 4 12, date_of 2025 5 12]"
proof -
  have h: "acc_close_day sample_card = Some 5" "1 \<le> (5::int)" "1 \<le> effective_payment_day (acc_payment_day sample_card)"
    "0 \<le> effective_relative_month (acc_payment_day_relative_month sample_card)" "date_of 2025 3 10 \<le> date_of 2025 5 20"
    "13 + lookback_months sample_card \<le> month_index (date_of 2025 3 10)"
    "month_index (date_of 2025 5 20) + effective_relative_month (acc_payment_day_relative_month sample_card) \<le> 119990"
    by code_simp+
  have e: "map cy_payment_date (fst (projr (due_cycles_in_horizon civil_add sample_card (date_of 2025 3 10) (date_of 2025 5 20)))) =
      [date_of 2025 3 12, date_of 2025 4 12, date_of 2025 5 12]" by code_simp
  from due_cycles_exact[OF civil.relativedelta_lib_axioms h] e show ?thesis by auto
qed

section \<open>Payments\<close>

text \<open>C32: no projected card payment ever pays a card into credit: each is positive and inside the
  horizon, and together with the earlier ones it is at most what the ledger owes at the close it
  pays, whatever the strategy, the stored per-cycle amounts and the credits.\<close>

theorem card_payments_never_overpay:
  assumes "relativedelta_lib rd" "acc_close_day a = Some c"
    and "0 \<le> effective_relative_month (acc_payment_day_relative_month a)" "p_start \<le> p_end"
    and "\<forall>(cid, eff, amt) \<in> set credits. 0 \<le> amt"
    and "synthesize_account_cc_payments rd a p_start p_end opening ledger credits amounts projected after = Inr payments"
    and "(d, x) \<in> set payments"
  shows "0 < x \<and> p_start \<le> d \<and> d \<le> p_end \<and>
    (\<exists>cy t. resolve_cycle_for_account a t = Inr cy \<and> cy_payment_date cy = d \<and> cy_period_end_inclusive cy < d \<and>
       sum_list (map snd (filter (\<lambda>p. fst p \<le> d) payments)) \<le> owed_at opening ledger projected after cy)"
proof -
  from assms(6) obtain cs hit where r: "due_cycles_in_horizon rd a p_start p_end = Inr (cs, hit)"
    and p: "payments = pay_cycles a amounts credits (owed_at opening ledger projected after) cs 0 []"
    unfolding synthesize_account_cc_payments_def rbind_eq_Inr by (auto split: prod.splits)
  note spec = due_cycles_spec[OF assms(1-4) r]
  from pay_cycles_bounded[OF _ assms(5) assms(7)[unfolded p]] spec obtain cy where cy: "cy \<in> set cs" "cy_payment_date cy = d"
    "sum_list (map snd (filter (\<lambda>p. fst p \<le> d) payments)) \<le> owed_at opening ledger projected after cy"
    unfolding p by auto
  from pay_cycles_dates[OF assms(7)[unfolded p]] obtain cy' where cy': "0 < x" "cy' \<in> set cs" "cy_payment_date cy' = d" "\<not> degenerate cy'"
    by auto
  have "cy' = cy"
  proof (rule ccontr)
    assume "cy' \<noteq> cy"
    then have "cy_payment_date cy' < cy_payment_date cy \<or> cy_payment_date cy < cy_payment_date cy'"
      using spec cy(1) cy'(2) by (auto simp: sorted_wrt_iff_nth_less in_set_conv_nth) (metis linorder_neqE_nat)
    with cy(2) cy'(3) show False by simp
  qed
  with cy cy' spec show ?thesis by (auto simp: card_cycle_of_def degenerate_def not_le)
qed

theorem card_payments_never_overpay_witness:
  "\<exists>payments. synthesize_account_cc_payments civil_add sample_card (date_of 2025 3 10) (date_of 2025 5 20) (- 300)
       [(date_of 2025 3 20, - 50)] [(RowCredit 9, date_of 2025 3 10, 80)] no_amounts [] None = Inr payments \<and>
     payments = [(date_of 2025 3 12, 220), (date_of 2025 4 12, 130)] \<and>
     (\<exists>cy t. resolve_cycle_for_account sample_card t = Inr cy \<and> cy_payment_date cy = date_of 2025 4 12)"
proof -
  let ?g = "synthesize_account_cc_payments civil_add sample_card (date_of 2025 3 10) (date_of 2025 5 20) (- 300)
       [(date_of 2025 3 20, - 50)] [(RowCredit 9, date_of 2025 3 10, 80)] no_amounts [] None"
  have "\<not> isl ?g \<and> projr ?g = [(date_of 2025 3 12, 220), (date_of 2025 4 12, 130)]" by code_simp
  then have g: "?g = Inr [(date_of 2025 3 12, 220), (date_of 2025 4 12, 130)]" by (cases ?g) auto
  have h: "acc_close_day sample_card = Some 5" "0 \<le> effective_relative_month (acc_payment_day_relative_month sample_card)"
    "date_of 2025 3 10 \<le> date_of 2025 5 20" by code_simp+
  have "(date_of 2025 4 12, 130) \<in> set [(date_of 2025 3 12, 220 :: decimal), (date_of 2025 4 12, 130)]" by simp
  from card_payments_never_overpay[OF civil.relativedelta_lib_axioms h _ g this] g show ?thesis by auto
qed

section \<open>The alert and the forecast\<close>

text \<open>The close-day alert is computed on the rows up to the close, the forecast on all of them: the two
  amounts are the same.\<close>

lemma statement_agrees_with_forecast:
  "statement_outstanding s org a close =
     owed_at (acc_opening_balance a) (load_cc_ledger s org (acc_id a) None []) projected None
       \<lparr>cy_period_start = st, cy_period_end_inclusive = close, cy_payment_date = pay, cy_source = src\<rparr>"
proof -
  have "filter (\<lambda>x. fst x \<le> close) (load_cc_ledger s org (acc_id a) (Some close) []) =
      filter (\<lambda>x. fst x \<le> close) (load_cc_ledger s org (acc_id a) None [])"
    by (auto simp: load_cc_ledger_def ledger_row_def filter_map comp_def intro!: arg_cong[of _ _ "map _"] filter_cong)
  then show ?thesis by (simp add: statement_outstanding_def owed_at_def balance_at_close_sum)
qed

section \<open>Loans\<close>

context relativedelta_lib
begin

lemma rd_0: "rd 0 0 d = Some d"
proof -
  obtain e where e: "rd 0 0 d = Some e" using rd_defined[of d 0 0] month_index_bounds[of d] by fastforce
  have "month_index e = month_index d" and day: "day e = min (day d) (days_in_month (year e) (month e))"
    using rd_Some[OF e] by auto
  from month_index_eqD[OF this(1)] day date_bounds(6)[of d] have "e = d" by (intro date_eqI) auto
  with e show ?thesis by simp
qed

lemma rd_month_mono: "rd 0 j d = Some a \<Longrightarrow> rd 0 k d = Some b \<Longrightarrow> j < k \<Longrightarrow> a < b"
  using rd_Some[of 0 j d a] rd_Some[of 0 k d b] by (intro date_less_by_month) simp

text \<open>The computed payment date is the one the month-by-month walk would find.\<close>

lemma first_payment_least:
  assumes "first_payment_on_or_after rd f today = Inr d"
  shows "\<exists>k \<ge> 0. rd 0 k f = Some d \<and> today \<le> d \<and> (\<forall>j e. 0 \<le> j \<and> j < k \<and> rd 0 j f = Some e \<longrightarrow> e < today)"
proof (cases "today \<le> f")
  case True
  with assms show ?thesis by (intro exI[of _ 0]) (auto simp: first_payment_on_or_after_def rd_0)
next
  case False
  let ?k = "(year today - year f) * 12 + (month today - month f)"
  have idx: "month_index today = month_index f + ?k" by (simp add: month_index_def algebra_simps)
  have k: "0 \<le> ?k" using False date_le_month[of f today] idx by simp
  from assms False obtain c where c: "rd 0 ?k f = Some c"
    and d: "(if c < today then date_or_error (rd 0 (?k + 1) f) else Inr c) = Inr d"
    unfolding first_payment_on_or_after_def Let_def by (simp only: if_False rbind_eq_Inr date_or_error_Inr) blast
  have before: "e < today" if "rd 0 j f = Some e" "j < ?k" for j e
    using rd_Some[OF that(1)] that(2) idx by (intro date_less_by_month) simp
  show ?thesis
  proof (cases "c < today")
    case True
    with d have n: "rd 0 (?k + 1) f = Some d" by simp
    have "today \<le> d" using rd_Some[OF n] idx by (intro less_imp_le date_less_by_month) simp
    moreover have "e < today" if "rd 0 j f = Some e" "j < ?k + 1" for j e
      using before[OF that(1)] that True c by (cases "j = ?k") auto
    ultimately show ?thesis using n k by (intro exI[of _ "?k + 1"]) auto
  next
    case False
    with d c before k show ?thesis by (intro exI[of _ ?k]) auto
  qed
qed

text \<open>The bound of the model on the loop over the periods is never what ends it.\<close>

lemma periods_after_bound:
  assumes "pe < he \<Longrightarrow> month_index pe = month_index fe + (k - 1)"
    and "month_index he - (month_index fe + (k - 1)) + 1 \<le> int n"
  shows "periods_after n rd fe he k pe \<noteq> Inl out_of_fuel"
  using assms
proof (induction n arbitrary: k pe)
  case 0
  have False if "pe < he"
    using 0(1)[OF that] 0(2) date_le_month[OF less_imp_le[OF that]] by simp
  then show ?case by auto
next
  case (Suc n)
  show ?case
  proof (cases "pe < he \<and> (\<exists>st e. next_day pe = Some st \<and> rd 0 k fe = Some e)")
    case True
    then obtain st e where e: "pe < he" "next_day pe = Some st" "rd 0 k fe = Some e" by blast
    have "month_index e = month_index fe + k" using rd_Some[OF e(3)] by simp
    then have "periods_after n rd fe he (k + 1) (min e he) \<noteq> Inl out_of_fuel"
      by (intro Suc.IH) (use Suc.prems(2) in \<open>auto simp: min_def split: if_splits\<close>)
    with e show ?thesis by (cases "periods_after n rd fe he (k + 1) (min e he)") auto
  qed (auto simp: date_or_error_def calendar_error_def out_of_fuel_def split: option.splits)
qed

lemma loan_periods_bound: "loan_periods rd ws fe he \<noteq> Inl out_of_fuel"
proof -
  let ?n = "nat (month_index he - month_index fe + 1)"
  have "periods_after ?n rd fe he 1 (min fe he) \<noteq> Inl out_of_fuel"
    by (rule periods_after_bound) (auto simp: min_def split: if_splits)
  then show ?thesis by (cases "periods_after ?n rd fe he 1 (min fe he)") (auto simp: loan_periods_def Let_def)
qed

end

text \<open>The periods follow each other without a gap and the last one reaches the horizon.\<close>

fun tiles :: "date \<Rightarrow> (date \<times> date) list \<Rightarrow> date \<Rightarrow> bool" where
  "tiles prev_end [] horizon \<longleftrightarrow> horizon \<le> prev_end"
| "tiles prev_end ((st, en) # ps) horizon \<longleftrightarrow> next_day prev_end = Some st \<and> en \<le> horizon \<and> tiles en ps horizon"

lemma periods_after_tile: "periods_after n rd fe he k pe = Inr ps \<Longrightarrow> tiles pe ps he"
  by (induction n arbitrary: k pe ps) (auto simp: rbind_eq_Inr Let_def not_less split: if_splits)

lemma loan_periods_tile:
  assumes "loan_periods rd ws fe he = Inr ps"
  obtains rest where "ps = (ws, min fe he) # rest" "tiles (min fe he) rest he"
  using assms periods_after_tile by (auto simp: loan_periods_def rbind_eq_Inr Let_def)

text \<open>A period does not always hold one due date: a billing period that ends on a 30th and a loan due on
  the 31st give periods with two due dates and periods with none, and of the four payments scheduled
  up to May 30th two are projected.\<close>

lemma loan_payments_dropped:
  "current_cycle_window civil_add 31 (date_of 2025 1 10) = Some (date_of 2024 12 31, date_of 2025 1 30)"
  "loan_periods civil_add (date_of 2024 12 31) (date_of 2025 1 30) (date_of 2025 5 30) =
     Inr [(date_of 2024 12 31, date_of 2025 1 30), (date_of 2025 1 31, date_of 2025 2 28), (date_of 2025 3 1, date_of 2025 3 30),
       (date_of 2025 3 31, date_of 2025 4 30), (date_of 2025 5 1, date_of 2025 5 30)]"
  "due_loan_payment_dates civil_add (date_of 2025 1 31) 12 (date_of 2025 1 31) (date_of 2025 2 28) = Inr [date_of 2025 1 31, date_of 2025 2 28]"
  "due_loan_payment_dates civil_add (date_of 2025 1 31) 12 (date_of 2025 3 1) (date_of 2025 3 30) = Inr []"
  "loan_segments civil_add (date_of 2025 1 31) 12 0 100 [] (\<lambda>_ _. False)
     (projr (loan_periods civil_add (date_of 2024 12 31) (date_of 2025 1 30) (date_of 2025 5 30))) None (- 1200) =
     Inr ([], [(date_of 2025 1 31, 100), (date_of 2025 3 31, 100)])"
  by code_simp+

end
