(* ===== verification/AccountForecast.thy ===== *)
theory AccountForecast
  imports Projection
begin

text \<open>
  \<open>services/account_balance_forecast_service.py\<close>: the low-balance warnings read off the daily series of
  an account. \<open>risk_runs\<close> is the loop of \<open>_risk_runs\<close>; the reference cuts the series into its maximal
  stretches below zero and summarises each.
\<close>

section \<open>The loop\<close>

record risk_run =
  rr_from :: date
  rr_through :: date
  rr_lowest_balance :: decimal
  rr_lowest_on :: date

definition LIABILITY_SLUGS :: "string list" where
  "LIABILITY_SLUGS = [''credit_card'', ''loan'']"

definition LOW_BALANCE_THRESHOLD :: decimal where
  "LOW_BALANCE_THRESHOLD = 0"

text \<open>\<open>raw.quantize(Decimal("0.01"))\<close> in the default rounding, half to even.\<close>

definition quantize_even :: "decimal \<Rightarrow> decimal" where
  "quantize_even x = of_int (half_even (x * 100)) / 100"

definition risk_step :: "point \<Rightarrow> risk_run option \<times> risk_run list \<Rightarrow> risk_run option \<times> risk_run list" where
  "risk_step p st =
     (case (p, st) of ((d, raw), (current, runs)) \<Rightarrow>
        let balance = quantize_even raw in
        if balance < LOW_BALANCE_THRESHOLD
        then (case current of
                None \<Rightarrow> (Some \<lparr>rr_from = d, rr_through = d, rr_lowest_balance = balance, rr_lowest_on = d\<rparr>, runs)
              | Some c \<Rightarrow>
                  let c' = c\<lparr>rr_through := d\<rparr>
                  in (Some (if balance < rr_lowest_balance c' then c'\<lparr>rr_lowest_balance := balance, rr_lowest_on := d\<rparr> else c'),
                      runs))
        else (case current of None \<Rightarrow> (None, runs) | Some c \<Rightarrow> (None, runs @ [c])))"

definition risk_runs :: "point list \<Rightarrow> string option \<Rightarrow> date \<Rightarrow> risk_run list" where
  "risk_runs series type_slug today =
     (if type_slug \<in> Some ` set LIABILITY_SLUGS then []
      else
        let (current, runs) = fold risk_step series (None, []);
            all = (case current of None \<Rightarrow> runs | Some c \<Rightarrow> runs @ [c])
        in filter (\<lambda>r. today < rr_from r) all)"

section \<open>The reference\<close>

definition below :: "point \<Rightarrow> bool" where
  "below p \<longleftrightarrow> quantize_even (snd p) < 0"

function stretches :: "point list \<Rightarrow> point list list" where
  "stretches xs =
     (case dropWhile (\<lambda>p. \<not> below p) xs of
        [] \<Rightarrow> []
      | y # ys \<Rightarrow> (y # takeWhile below ys) # stretches (dropWhile below ys))"
  by pat_completeness auto
termination
proof (relation "measure length")
  fix xs y ys assume "dropWhile (\<lambda>p. \<not> below p) xs = y # ys"
  then have "Suc (length ys) \<le> length xs" by (metis length_Cons length_dropWhile_le)
  then show "(dropWhile below ys, xs) \<in> measure length"
    using length_dropWhile_le[of below ys] by simp
qed simp

declare stretches.simps [simp del]

definition lowest :: "point list \<Rightarrow> decimal" where
  "lowest g = Min (set (map (\<lambda>p. quantize_even (snd p)) g))"

definition summary :: "point list \<Rightarrow> risk_run" where
  "summary g =
     \<lparr>rr_from = fst (hd g), rr_through = fst (last g), rr_lowest_balance = lowest g,
      rr_lowest_on = (case find (\<lambda>p. quantize_even (snd p) = lowest g) g of Some p \<Rightarrow> fst p | None \<Rightarrow> fst (hd g))\<rparr>"

section \<open>The loop computes the reference\<close>

lemma find_append: "find P (xs @ ys) = (case find P xs of None \<Rightarrow> find P ys | Some x \<Rightarrow> Some x)"
  by (induction xs) auto

lemma summary_single: "summary [(d, x)] =
  \<lparr>rr_from = d, rr_through = d, rr_lowest_balance = quantize_even x, rr_lowest_on = d\<rparr>"
  by (simp add: summary_def lowest_def)

lemma summary_snoc:
  assumes "g \<noteq> []"
  shows "summary (g @ [(d, x)]) =
    (let c = (summary g)\<lparr>rr_through := d\<rparr>
     in if quantize_even x < rr_lowest_balance c then c\<lparr>rr_lowest_balance := quantize_even x, rr_lowest_on := d\<rparr> else c)"
proof -
  let ?q = "quantize_even"
  have low: "lowest (g @ [(d, x)]) = min (?q x) (lowest g)"
    using assms by (simp add: lowest_def Min_insert)
  have "lowest g \<in> set (map (\<lambda>p. ?q (snd p)) g)"
    unfolding lowest_def by (rule Min_in) (use assms in auto)
  then have mem: "\<exists>p \<in> set g. ?q (snd p) = lowest g" by force
  have ge: "lowest g \<le> ?q (snd p)" if "p \<in> set g" for p using that by (simp add: lowest_def)
  show ?thesis
  proof (cases "?q x < lowest g")
    case True
    then have "lowest (g @ [(d, x)]) = ?q x" using low by simp
    moreover have "find (\<lambda>p. ?q (snd p) = ?q x) g = None" using ge True by (force simp: find_None_iff)
    ultimately show ?thesis using True assms by (simp add: summary_def find_append hd_append Let_def)
  next
    case False
    then have l: "lowest (g @ [(d, x)]) = lowest g" using low by simp
    obtain p where "find (\<lambda>p. ?q (snd p) = lowest g) g = Some p"
      using mem by (cases "find (\<lambda>p. ?q (snd p) = lowest g) g") (auto simp: find_None_iff)
    then show ?thesis using False assms l by (simp add: summary_def find_append hd_append Let_def)
  qed
qed

definition close_run :: "risk_run option \<times> risk_run list \<Rightarrow> risk_run list" where
  "close_run st = (case fst st of None \<Rightarrow> snd st | Some c \<Rightarrow> snd st @ [c])"

lemma risk_fold:
  shows "close_run (fold risk_step xs (None, runs)) = runs @ map summary (stretches xs)"
    and "g \<noteq> [] \<Longrightarrow> close_run (fold risk_step xs (Some (summary g), runs)) =
      runs @ summary (g @ takeWhile below xs) # map summary (stretches (dropWhile below xs))"
proof (induction xs arbitrary: runs g)
  case Nil
  {
    case 1
    show ?case by (simp add: close_run_def stretches.simps)
  next
    case 2
    then show ?case by (simp add: close_run_def stretches.simps)
  }
next
  case (Cons p xs)
  obtain d x where p: "p = (d, x)" by (cases p)
  {
    case 1
    show ?case
    proof (cases "below p")
      case True
      then have "fold risk_step (p # xs) (None, runs) = fold risk_step xs (Some (summary [p]), runs)"
        by (simp add: risk_step_def below_def LOW_BALANCE_THRESHOLD_def p summary_single Let_def)
      with Cons.IH(2)[of "[p]" runs] True show ?thesis by (simp add: stretches.simps[of "p # xs"])
    next
      case False
      then have "fold risk_step (p # xs) (None, runs) = fold risk_step xs (None, runs)"
        by (simp add: risk_step_def below_def LOW_BALANCE_THRESHOLD_def p Let_def)
      moreover have "stretches (p # xs) = stretches xs"
        using False by (simp add: stretches.simps[of "p # xs"] stretches.simps[of xs])
      ultimately show ?thesis using Cons.IH(1) by simp
    qed
  next
    case 2
    show ?case
    proof (cases "below p")
      case True
      then have "fold risk_step (p # xs) (Some (summary g), runs) = fold risk_step xs (Some (summary (g @ [p])), runs)"
        by (simp add: risk_step_def below_def LOW_BALANCE_THRESHOLD_def p summary_snoc[OF 2] Let_def)
      with Cons.IH(2)[of "g @ [p]" runs] True show ?thesis by simp
    next
      case False
      then have "fold risk_step (p # xs) (Some (summary g), runs) = fold risk_step xs (None, runs @ [summary g])"
        by (simp add: risk_step_def below_def LOW_BALANCE_THRESHOLD_def p Let_def)
      moreover have "stretches (p # xs) = stretches xs"
        using False by (simp add: stretches.simps[of "p # xs"] stretches.simps[of xs])
      ultimately show ?thesis using Cons.IH(1)[of "runs @ [summary g]"] False by simp
    qed
  }
qed

text \<open>C35: the warnings of an account are the summaries of the maximal stretches of its daily series
  below zero that begin after today, none for a card or a loan.\<close>

theorem risk_runs_are_stretches:
  "risk_runs series slug today =
     (if slug = Some ''credit_card'' \<or> slug = Some ''loan'' then []
      else filter (\<lambda>r. today < rr_from r) (map summary (stretches series)))"
proof -
  have "risk_runs series slug today = (if slug = Some ''credit_card'' \<or> slug = Some ''loan'' then []
      else filter (\<lambda>r. today < rr_from r) (close_run (fold risk_step series (None, []))))"
    by (cases "fold risk_step series (None, [])")
      (auto simp: risk_runs_def LIABILITY_SLUGS_def close_run_def split: option.splits)
  then show ?thesis by (simp add: risk_fold(1))
qed

end
