(* ===== verification/Periods.thy ===== *)
theory Periods
  imports Frontier
begin

text \<open>
  The stored billing periods of \<open>services/billing_service.py\<close> and the close job of
  \<open>services/scheduler/jobs/billing_close.py\<close>. The tables are those of \<open>app/models/billing.py\<close> and
  \<open>app/models/budget.py\<close>; \<open>(org_id, start_date)\<close> is unique among the periods and
  \<open>(org_id, category_id, period_start)\<close> among the budgets, so an insert or update that would break
  one is the \<open>IntegrityError\<close> branch. Two closers never race here: the re-lock of \<open>close_period\<close>
  reads the row the caller read. A call that raises after it committed part of its work (the period
  \<open>get_current_period\<close> inserts, an earlier pass of the close job) is modelled by its error alone. Log
  lines are not modelled.
\<close>

section \<open>Tables\<close>

record billing_period =
  bp_id :: int
  bp_org_id :: int
  bp_start_date :: date
  bp_end_date :: "date option"

record budget =
  bg_id :: int
  bg_org_id :: int
  bg_category_id :: int
  bg_amount :: decimal
  bg_period_start :: date
  bg_period_end :: "date option"

record budget_db =
  periods :: "billing_period list"
  budgets :: "budget list"
  next_key :: int

definition org_periods :: "budget_db \<Rightarrow> int \<Rightarrow> billing_period list" where
  "org_periods db org_id = filter (\<lambda>p. bp_org_id p = org_id) (periods db)"

definition cycle_day_of :: "store \<Rightarrow> int \<Rightarrow> int" where
  "cycle_day_of s org_id =
     (case row_by o_id (organizations s) org_id of None \<Rightarrow> 1 | Some org \<Rightarrow> o_billing_cycle_day org)"

definition insert_period :: "billing_period \<Rightarrow> budget_db \<Rightarrow> budget_db" where
  "insert_period p db = db\<lparr>periods := periods db @ [p], next_key := next_key db + 1\<rparr>"

definition new_period_row :: "budget_db \<Rightarrow> int \<Rightarrow> date \<Rightarrow> date option \<Rightarrow> billing_period" where
  "new_period_row db org_id start end_date =
     \<lparr>bp_id = next_key db, bp_org_id = org_id, bp_start_date = start, bp_end_date = end_date\<rparr>"

definition set_end :: "int \<Rightarrow> date option \<Rightarrow> budget_db \<Rightarrow> budget_db" where
  "set_end i e db = db\<lparr>periods := update_row bp_id i (\<lambda>p. p\<lparr>bp_end_date := e\<rparr>) (periods db)\<rparr>"

section \<open>Reading the roster\<close>

definition open_periods :: "budget_db \<Rightarrow> int \<Rightarrow> billing_period list" where
  "open_periods db org_id =
     rev (sort_key bp_start_date (filter (\<lambda>p. bp_end_date p = None) (org_periods db org_id)))"

definition find_open_period :: "budget_db \<Rightarrow> int \<Rightarrow> billing_period option" where
  "find_open_period db org_id = (case open_periods db org_id of [] \<Rightarrow> None | p # _ \<Rightarrow> Some p)"

definition find_period_by_start :: "budget_db \<Rightarrow> int \<Rightarrow> date \<Rightarrow> billing_period option" where
  "find_period_by_start db org_id start = find (\<lambda>p. bp_start_date p = start) (org_periods db org_id)"

text \<open>The row inserted when none is open; a row already at that start is read back instead.\<close>

definition get_current_period ::
  "(int \<Rightarrow> int \<Rightarrow> date \<Rightarrow> date option) \<Rightarrow> store \<Rightarrow> int \<Rightarrow> date \<Rightarrow> budget_db \<Rightarrow> (budget_db \<times> billing_period) result" where
  "get_current_period rd s org_id today db =
     (case find_open_period db org_id of
        Some p \<Rightarrow> Inr (db, p)
      | None \<Rightarrow>
     (case current_cycle_window rd (cycle_day_of s org_id) today of
        None \<Rightarrow> Inl calendar_error
      | Some (start, _) \<Rightarrow>
     (case find_period_by_start db org_id start of
        Some p \<Rightarrow> Inr (db, p)
      | None \<Rightarrow> let p = new_period_row db org_id start None in Inr (insert_period p db, p))))"

definition resolve_period ::
  "(int \<Rightarrow> int \<Rightarrow> date \<Rightarrow> date option) \<Rightarrow> store \<Rightarrow> int \<Rightarrow> date option \<Rightarrow> date \<Rightarrow> budget_db
     \<Rightarrow> (budget_db \<times> billing_period) result" where
  "resolve_period rd s org_id period_start today db =
     (case period_start of
        Some start \<Rightarrow>
          (case find_period_by_start db org_id start of
             None \<Rightarrow> Inl (ValidationError ''Billing period not found'')
           | Some p \<Rightarrow> Inr (db, p))
      | None \<Rightarrow> get_current_period rd s org_id today db)"

definition list_periods :: "budget_db \<Rightarrow> int \<Rightarrow> billing_period list" where
  "list_periods db org_id = take 24 (rev (sort_key bp_start_date (org_periods db org_id)))"

definition next_period_start :: "budget_db \<Rightarrow> int \<Rightarrow> date \<Rightarrow> date option" where
  "next_period_start db org_id after =
     (case sort (filter (\<lambda>d. after < d) (map bp_start_date (org_periods db org_id))) of
        [] \<Rightarrow> None | d # _ \<Rightarrow> Some d)"

definition period_effective_end :: "budget_db \<Rightarrow> int \<Rightarrow> billing_period \<Rightarrow> date option result" where
  "period_effective_end db org_id p =
     (case bp_end_date p of
        Some e \<Rightarrow> Inr (Some e)
      | None \<Rightarrow>
     (case next_period_start db org_id (bp_start_date p) of
        None \<Rightarrow> Inr None
      | Some s0 \<Rightarrow> rbind (date_or_error (prev_day s0)) (\<lambda>e. Inr (Some e))))"

definition period_spend_window_end :: "budget_db \<Rightarrow> int \<Rightarrow> billing_period \<Rightarrow> date \<Rightarrow> date option result" where
  "period_spend_window_end db org_id p today =
     rbind (period_effective_end db org_id p) (\<lambda>end_date.
     if bp_end_date p \<noteq> None then Inr end_date
     else case end_date of
            None \<Rightarrow> Inr None
          | Some e \<Rightarrow>
              let window_end = max e today
              in if window_end < bp_start_date p then Inl (PyRuntimeError ''Spend window inverted'')
                 else Inr (Some window_end))"

section \<open>Future stubs\<close>

definition FUTURE_PERIODS_DEFAULT :: int where "FUTURE_PERIODS_DEFAULT = 3"
definition FUTURE_PERIODS_MIN :: int where "FUTURE_PERIODS_MIN = 1"
definition FUTURE_PERIODS_MAX :: int where "FUTURE_PERIODS_MAX = 6"

definition clamp_future_count :: "int \<Rightarrow> int" where
  "clamp_future_count n = min (max n FUTURE_PERIODS_MIN) FUTURE_PERIODS_MAX"

text \<open>The skip of a candidate: a row at its start, or a closed row across its window.\<close>

definition stub_collides :: "date \<Rightarrow> date \<Rightarrow> billing_period \<Rightarrow> bool" where
  "stub_collides next_start end_date p \<longleftrightarrow>
     bp_start_date p = next_start \<or>
     (case bp_end_date p of None \<Rightarrow> False | Some e \<Rightarrow> bp_start_date p \<le> end_date \<and> next_start \<le> e)"

definition stub_candidate ::
  "(int \<Rightarrow> int \<Rightarrow> date \<Rightarrow> date option) \<Rightarrow> int \<Rightarrow> date \<Rightarrow> int \<Rightarrow> (date \<times> date) result" where
  "stub_candidate rd cycle_day base i =
     rbind (date_or_error (cycle_start_after rd cycle_day i base)) (\<lambda>next_start.
     rbind (date_or_error (cycle_start_after rd cycle_day 1 next_start)) (\<lambda>following.
     rbind (date_or_error (prev_day following)) (\<lambda>end_date.
     Inr (next_start, end_date))))"

definition plan_future_periods ::
  "(int \<Rightarrow> int \<Rightarrow> date \<Rightarrow> date option) \<Rightarrow> store \<Rightarrow> int \<Rightarrow> date \<Rightarrow> int \<Rightarrow> budget_db \<Rightarrow> (date \<times> date) list result" where
  "plan_future_periods rd s org_id base n db =
     rbind (rmap (stub_candidate rd (cycle_day_of s org_id) base) [1..n]) (\<lambda>candidates.
     Inr (filter (\<lambda>(start, end_date). \<not> list_ex (stub_collides start end_date) (org_periods db org_id)) candidates))"

definition insert_stub :: "int \<Rightarrow> date \<times> date \<Rightarrow> budget_db \<Rightarrow> budget_db" where
  "insert_stub org_id c db = insert_period (new_period_row db org_id (fst c) (Some (snd c))) db"

text \<open>One commit for all the stubs: if any start is taken, none is inserted.\<close>

definition ensure_future_periods ::
  "(int \<Rightarrow> int \<Rightarrow> date \<Rightarrow> date option) \<Rightarrow> store \<Rightarrow> int \<Rightarrow> int \<Rightarrow> date \<Rightarrow> budget_db
     \<Rightarrow> (budget_db \<times> billing_period list) result" where
  "ensure_future_periods rd s org_id n today db =
     rbind (get_current_period rd s org_id today db) (\<lambda>(db1, current).
     rbind (plan_future_periods rd s org_id (bp_start_date current) n db1) (\<lambda>planned.
     if \<not> distinct (map fst planned) \<or> list_ex (\<lambda>c. find_period_by_start db1 org_id (fst c) \<noteq> None) planned
     then Inr (db1, [])
     else let db2 = fold (insert_stub org_id) planned db1
          in Inr (db2, drop (length (periods db1)) (periods db2))))"

section \<open>Budgets that follow a period\<close>

definition moves_with :: "int \<Rightarrow> date \<Rightarrow> budget \<Rightarrow> bool" where
  "moves_with org_id old_start b \<longleftrightarrow> bg_org_id b = org_id \<and> bg_period_start b = old_start"

definition reanchored :: "(budget \<Rightarrow> bool) \<Rightarrow> date \<Rightarrow> date option \<Rightarrow> budget list \<Rightarrow> budget list" where
  "reanchored affected new_start new_end bs =
     map (\<lambda>b. if affected b then b\<lparr>bg_period_start := new_start, bg_period_end := new_end\<rparr> else b) bs"

definition reanchor_period_dependents ::
  "store \<Rightarrow> int \<Rightarrow> date \<Rightarrow> date \<Rightarrow> date option \<Rightarrow> budget_db \<Rightarrow> (budget_db \<times> nat) result" where
  "reanchor_period_dependents s org_id old_start new_start new_end db =
     (let moving = moves_with org_id old_start;
          affected = (\<lambda>b. moving b \<and> (old_start = new_start \<longrightarrow> bg_period_end b \<noteq> new_end));
          clashing = filter (\<lambda>b. bg_org_id b = org_id \<and> bg_period_start b = new_start \<and> bg_period_start b \<noteq> old_start \<and>
              row_by cat_id (categories s) (bg_category_id b) \<noteq> None \<and>
              bg_category_id b \<in> set (map bg_category_id (filter moving (budgets db)))) (budgets db);
          moved = reanchored affected new_start new_end (budgets db)
      in if old_start = new_start \<and> \<not> list_ex affected (budgets db) then Inr (db, 0)
         else if clashing \<noteq> [] then Inl (ConflictError ''budget_period_conflict'')
         else if \<not> distinct (map (\<lambda>b. (bg_org_id b, bg_category_id b, bg_period_start b)) moved)
         then Inl (ConflictError ''budget_period_conflict'')
         else Inr (db\<lparr>budgets := moved\<rparr>, length (filter affected (budgets db))))"

section \<open>Closing a period\<close>

definition period_after_racer_close :: "budget_db \<Rightarrow> int \<Rightarrow> date \<Rightarrow> billing_period result" where
  "period_after_racer_close db org_id closed_end =
     rbind (date_or_error (next_day closed_end)) (\<lambda>racer_start.
     case find_period_by_start db org_id racer_start of
       None \<Rightarrow> Inl (PyRuntimeError ''missing or not open after a concurrent close'')
     | Some p \<Rightarrow>
         if bp_end_date p \<noteq> None then Inl (PyRuntimeError ''missing or not open after a concurrent close'')
         else Inr p)"

text \<open>Where a close lands: the requested day, or the day before the next period when the request
  would swallow it.\<close>

definition resolved_close :: "budget_db \<Rightarrow> int \<Rightarrow> date \<Rightarrow> date \<Rightarrow> date result" where
  "resolved_close db org_id current_start requested =
     (case next_period_start db org_id current_start of
        None \<Rightarrow> Inr requested
      | Some s0 \<Rightarrow> if s0 \<le> requested then date_or_error (prev_day s0) else Inr requested)"

definition apply_close_step ::
  "store \<Rightarrow> int \<Rightarrow> billing_period \<Rightarrow> date \<Rightarrow> budget_db \<Rightarrow> (budget_db \<times> billing_period) result" where
  "apply_close_step s org_id current requested db =
     rbind (resolved_close db org_id (bp_start_date current) requested) (\<lambda>resolved.
     rbind (date_or_error (next_day resolved)) (\<lambda>new_start.
     rbind (reanchor_period_dependents s org_id (bp_start_date current) (bp_start_date current) (Some resolved) db)
       (\<lambda>(db1, _).
     let db2 = set_end (bp_id current) (Some resolved) db1
     in case find_period_by_start db2 org_id new_start of
          Some existing \<Rightarrow>
            rbind (reanchor_period_dependents s org_id new_start new_start None (set_end (bp_id existing) None db2))
              (\<lambda>(db3, _). Inr (db3, existing\<lparr>bp_end_date := None\<rparr>))
        | None \<Rightarrow>
            let p = new_period_row db2 org_id new_start None in Inr (insert_period p db2, p))))"

text \<open>The list holds the id of the row this call closed, if it closed one.\<close>

definition close_period ::
  "(int \<Rightarrow> int \<Rightarrow> date \<Rightarrow> date option) \<Rightarrow> store \<Rightarrow> int \<Rightarrow> date option \<Rightarrow> date \<Rightarrow> budget_db
     \<Rightarrow> (budget_db \<times> billing_period \<times> int list) result" where
  "close_period rd s org_id close_date today db =
     rbind (get_current_period rd s org_id today db) (\<lambda>(db1, current).
     rbind (case close_date of Some d \<Rightarrow> Inr d | None \<Rightarrow> date_or_error (prev_day today)) (\<lambda>requested.
     rbind (guard (requested \<le> today) (ValidationError ''Close date cannot be in the future'')) (\<lambda>_.
     case bp_end_date current of
       Some e \<Rightarrow> rbind (period_after_racer_close db1 org_id e) (\<lambda>p. Inr (db1, p, []))
     | None \<Rightarrow>
         rbind (guard (bp_start_date current \<le> requested)
           (ValidationError ''Close date cannot be before the period start date'')) (\<lambda>_.
         rbind (apply_close_step s org_id current requested db1) (\<lambda>(db2, p).
         Inr (db2, p, [bp_id current]))))))"

section \<open>The close job\<close>

definition MAX_CONVERGENCE_STEPS :: nat where
  "MAX_CONVERGENCE_STEPS = 24"

definition close_boundary :: "(int \<Rightarrow> int \<Rightarrow> date \<Rightarrow> date option) \<Rightarrow> organization \<Rightarrow> date \<Rightarrow> date result" where
  "close_boundary rd org today =
     date_or_error (map_option fst (current_cycle_window rd (o_billing_cycle_day org) today))"

definition billing_close_is_due ::
  "(int \<Rightarrow> int \<Rightarrow> date \<Rightarrow> date option) \<Rightarrow> store \<Rightarrow> organization \<Rightarrow> date \<Rightarrow> budget_db \<Rightarrow> (budget_db \<times> bool) result" where
  "billing_close_is_due rd s org today db =
     rbind (close_boundary rd org today) (\<lambda>boundary.
     rbind (get_current_period rd s (o_id org) today db) (\<lambda>(db1, current).
     Inr (db1, bp_start_date current < boundary)))"

record close_counts =
  cc_closed_on :: "date option"
  cc_new_period :: "billing_period option"
  cc_steps :: nat
  cc_closed_period_ids :: "int list"

text \<open>One pass of the loop: the close and whether another pass follows, the cap aside.\<close>

definition close_pass ::
  "(int \<Rightarrow> int \<Rightarrow> date \<Rightarrow> date option) \<Rightarrow> store \<Rightarrow> organization \<Rightarrow> date \<Rightarrow> date \<Rightarrow> budget_db \<times> close_counts
     \<Rightarrow> ((budget_db \<times> close_counts) \<times> bool) result" where
  "close_pass rd s org close_date today st =
     (case st of (db, counts) \<Rightarrow>
     rbind (get_current_period rd s (o_id org) today db) (\<lambda>(db1, closing).
     rbind (close_period rd s (o_id org) (Some close_date) today db1) (\<lambda>(db2, new_period, ids).
     rbind (if ids = [] then Inr (cc_closed_on counts)
            else rbind (date_or_error (prev_day (bp_start_date new_period))) (\<lambda>d. Inr (Some d))) (\<lambda>closed_on.
     let counts' = \<lparr>cc_closed_on = closed_on, cc_new_period = Some new_period,
                    cc_steps = cc_steps counts + (if ids = [] then 0 else 1),
                    cc_closed_period_ids = cc_closed_period_ids counts @ ids\<rparr>
     in if bp_start_date new_period \<le> bp_start_date closing then Inr ((db2, counts'), False)
        else rbind (billing_close_is_due rd s org today db2) (\<lambda>(db3, due). Inr ((db3, counts'), due))))))"

text \<open>The passes left; the cap of the code ends the loop when none is.\<close>

primrec close_passes ::
  "nat \<Rightarrow> (int \<Rightarrow> int \<Rightarrow> date \<Rightarrow> date option) \<Rightarrow> store \<Rightarrow> organization \<Rightarrow> date \<Rightarrow> date \<Rightarrow> budget_db \<times> close_counts
     \<Rightarrow> (budget_db \<times> close_counts) result" where
  "close_passes 0 rd s org close_date today st = Inr st"
| "close_passes (Suc n) rd s org close_date today st =
     rbind (close_pass rd s org close_date today st) (\<lambda>(st', again).
     if again then close_passes n rd s org close_date today st' else Inr st')"

definition billing_close_run ::
  "(int \<Rightarrow> int \<Rightarrow> date \<Rightarrow> date option) \<Rightarrow> store \<Rightarrow> organization \<Rightarrow> date \<Rightarrow> budget_db \<Rightarrow> (budget_db \<times> close_counts) result" where
  "billing_close_run rd s org today db =
     rbind (close_boundary rd org today) (\<lambda>boundary.
     rbind (date_or_error (prev_day boundary)) (\<lambda>close_date.
     close_passes MAX_CONVERGENCE_STEPS rd s org close_date today
       (db, \<lparr>cc_closed_on = None, cc_new_period = None, cc_steps = 0, cc_closed_period_ids = []\<rparr>)))"

end
