(* ===== verification/Budgets.thy ===== *)
theory Budgets
  imports Periods Filters "HOL-Library.Char_ord" "HOL-Library.List_Lexorder"
begin

text \<open>
  \<open>services/budget_service.py\<close>: what was spent under a budget, and the operations on budgets; and
  \<open>resolve_currency_scope\<close> of \<open>services/currency_service.py\<close>. The forecast plans, whose items seed
  budgets, are a table passed as an argument. The display fields of a response that are a category
  name or a float are left out. As in \<open>Periods\<close>, a call that raises after a commit is its error
  alone. The tables of accounts, categories and transactions are only read.
\<close>

section \<open>The currency an aggregate is scoped to\<close>

text \<open>\<open>str.upper()\<close> on the characters of the model.\<close>

definition py_upper_char :: "char \<Rightarrow> char" where
  "py_upper_char c = (let n = of_char c :: nat in if 97 \<le> n \<and> n \<le> 122 then char_of (n - 32) else c)"

definition normalise_currency :: "string \<Rightarrow> string" where
  "normalise_currency raw = map py_upper_char (py_strip raw)"

record currency_scope =
  cs_currency :: "string option"
  cs_excluded_currencies :: "string list"
  cs_excluded_account_count :: int

definition org_currency :: "store \<Rightarrow> int \<Rightarrow> string option" where
  "org_currency s org_id =
     (case row_by o_id (organizations s) org_id of
        None \<Rightarrow> None
      | Some org \<Rightarrow>
          (case o_primary_currency org of
             None \<Rightarrow> None | Some c \<Rightarrow> if c = '''' then None else Some (normalise_currency c)))"

definition resolve_currency_scope :: "store \<Rightarrow> int \<Rightarrow> currency_scope" where
  "resolve_currency_scope s org_id =
     (let cur = org_currency s org_id;
          excluded = (case cur of
             None \<Rightarrow> []
           | Some c \<Rightarrow> filter (\<lambda>a. acc_org_id a = org_id \<and> normalise_currency (acc_currency a) \<noteq> c) (accounts s))
      in \<lparr>cs_currency = cur, cs_excluded_currencies = sort (remdups (map acc_currency excluded)),
          cs_excluded_account_count = int (length excluded)\<rparr>)"

section \<open>What was spent\<close>

definition budget_categories :: "store \<Rightarrow> int \<Rightarrow> int \<Rightarrow> int list" where
  "budget_categories s org_id master =
     master # map cat_id (filter (\<lambda>c. cat_parent_id c = Some master \<and> cat_org_id c = org_id) (categories s))"

definition spends :: "store \<Rightarrow> int \<Rightarrow> int \<Rightarrow> currency_scope option \<Rightarrow> transaction \<Rightarrow> bool" where
  "spends s org_id master scope t \<longleftrightarrow>
     tx_org_id t = org_id \<and> tx_category_id t \<in> set (budget_categories s org_id master) \<and>
     tx_type t = EXPENSE \<and> tx_status t = SETTLED \<and> reportable_transaction_filter t \<and>
     org_currency_filter (accounts s) org_id
       (map_option (\<lambda>c. (cs_excluded_account_count c, cs_currency c)) scope) (tx_account_id t)"

definition compute_spent ::
  "store \<Rightarrow> int \<Rightarrow> int \<Rightarrow> date \<Rightarrow> date option \<Rightarrow> currency_scope option \<Rightarrow> decimal" where
  "compute_spent s org_id master period_start period_end scope =
     sum_list (map tx_amount (filter (\<lambda>t. spends s org_id master scope t \<and>
         period_start \<le> effective_period_date_expr t \<and>
         (case period_end of None \<Rightarrow> True | Some e \<Rightarrow> effective_period_date_expr t \<le> e)) (transactions s)))"

record budget_response =
  br_id :: int
  br_category_id :: int
  br_amount :: decimal
  br_spent :: decimal
  br_remaining :: decimal
  br_over_budget :: bool
  br_period_start :: date
  br_period_end :: "date option"

definition budget_to_response :: "budget \<Rightarrow> decimal \<Rightarrow> budget_response" where
  "budget_to_response b spent =
     \<lparr>br_id = bg_id b, br_category_id = bg_category_id b, br_amount = bg_amount b, br_spent = spent,
      br_remaining = bg_amount b - spent, br_over_budget = bg_amount b < spent,
      br_period_start = bg_period_start b, br_period_end = bg_period_end b\<rparr>"

section \<open>Operations\<close>

definition budgets_at :: "budget_db \<Rightarrow> int \<Rightarrow> date \<Rightarrow> budget list" where
  "budgets_at db org_id start = filter (\<lambda>b. bg_org_id b = org_id \<and> bg_period_start b = start) (budgets db)"

definition find_budget :: "budget_db \<Rightarrow> int \<Rightarrow> int \<Rightarrow> budget option" where
  "find_budget db org_id i = find (\<lambda>b. bg_id b = i \<and> bg_org_id b = org_id) (budgets db)"

definition budget_responses ::
  "store \<Rightarrow> int \<Rightarrow> billing_period \<Rightarrow> date \<Rightarrow> budget_db \<Rightarrow> budget_response list result" where
  "budget_responses s org_id period today db =
     rbind (period_spend_window_end db org_id period today) (\<lambda>window_end.
     let scope = resolve_currency_scope s org_id in
     Inr (map (\<lambda>b. budget_to_response b
            (compute_spent s org_id (bg_category_id b) (bp_start_date period) window_end (Some scope)))
          (sort_key bg_category_id (budgets_at db org_id (bp_start_date period)))))"

definition list_budgets ::
  "(int \<Rightarrow> int \<Rightarrow> date \<Rightarrow> date option) \<Rightarrow> store \<Rightarrow> int \<Rightarrow> date option \<Rightarrow> date \<Rightarrow> budget_db
     \<Rightarrow> (budget_db \<times> budget_response list) result" where
  "list_budgets rd s org_id period_start today db =
     (case resolve_period rd s org_id period_start today db of
        Inl (ValidationError _) \<Rightarrow> Inr (db, [])
      | Inl e \<Rightarrow> Inl e
      | Inr (db1, period) \<Rightarrow>
          rbind (budget_responses s org_id period today db1) (\<lambda>rs. Inr (db1, rs)))"

definition new_budget_row :: "budget_db \<Rightarrow> int \<Rightarrow> int \<Rightarrow> decimal \<Rightarrow> billing_period \<Rightarrow> budget" where
  "new_budget_row db org_id category_id amount period =
     \<lparr>bg_id = next_key db, bg_org_id = org_id, bg_category_id = category_id, bg_amount = amount,
      bg_period_start = bp_start_date period, bg_period_end = bp_end_date period\<rparr>"

definition insert_budget :: "budget \<Rightarrow> budget_db \<Rightarrow> budget_db" where
  "insert_budget b db = db\<lparr>budgets := budgets db @ [b], next_key := next_key db + 1\<rparr>"

definition create_budget ::
  "(int \<Rightarrow> int \<Rightarrow> date \<Rightarrow> date option) \<Rightarrow> store \<Rightarrow> int \<Rightarrow> int \<Rightarrow> decimal \<Rightarrow> date option \<Rightarrow> date \<Rightarrow> budget_db
     \<Rightarrow> (budget_db \<times> budget_response) result" where
  "create_budget rd s org_id category_id amount period_start today db =
     (case find (\<lambda>c. cat_id c = category_id \<and> cat_org_id c = org_id) (categories s) of
        None \<Rightarrow> Inl (ValidationError ''Invalid category'')
      | Some cat \<Rightarrow>
          rbind (guard (cat_parent_id cat = None)
            (ValidationError ''Budgets can only be set for master categories, not subcategories'')) (\<lambda>_.
          rbind (resolve_period rd s org_id period_start today db) (\<lambda>(db1, period).
          rbind (guard (\<not> list_ex (\<lambda>b. bg_category_id b = category_id) (budgets_at db1 org_id (bp_start_date period)))
            (ConflictError ''Budget already exists for this category in the current period'')) (\<lambda>_.
          let b = new_budget_row db1 org_id category_id amount period; db2 = insert_budget b db1 in
          rbind (period_spend_window_end db2 org_id period today) (\<lambda>window_end.
          Inr (db2, budget_to_response b (compute_spent s org_id category_id (bp_start_date period) window_end
                      (Some (resolve_currency_scope s org_id)))))))))"

definition put_amount :: "int \<Rightarrow> decimal \<Rightarrow> budget_db \<Rightarrow> budget_db" where
  "put_amount i x db = db\<lparr>budgets := update_row bg_id i (\<lambda>b. b\<lparr>bg_amount := x\<rparr>) (budgets db)\<rparr>"

definition update_budget ::
  "store \<Rightarrow> int \<Rightarrow> int \<Rightarrow> decimal option \<Rightarrow> date \<Rightarrow> budget_db \<Rightarrow> (budget_db \<times> budget_response) result" where
  "update_budget s org_id budget_id amount today db =
     (case find_budget db org_id budget_id of
        None \<Rightarrow> Inl (NotFoundError ''Budget'')
      | Some b0 \<Rightarrow>
          let b = (case amount of None \<Rightarrow> b0 | Some x \<Rightarrow> b0\<lparr>bg_amount := x\<rparr>);
              db1 = (case amount of None \<Rightarrow> db | Some x \<Rightarrow> put_amount budget_id x db)
          in rbind (case find_period_by_start db1 org_id (bg_period_start b) of
                      Some period \<Rightarrow> period_spend_window_end db1 org_id period today
                    | None \<Rightarrow> Inr (bg_period_end b)) (\<lambda>end_date.
             Inr (db1, budget_to_response b (compute_spent s org_id (bg_category_id b) (bg_period_start b) end_date
                         (Some (resolve_currency_scope s org_id))))))"

record rebalance_item =
  ri_budget_id :: int
  ri_expected_amount :: decimal
  ri_amount :: decimal

definition rebalance_budgets ::
  "(int \<Rightarrow> int \<Rightarrow> date \<Rightarrow> date option) \<Rightarrow> store \<Rightarrow> int \<Rightarrow> rebalance_item list \<Rightarrow> date \<Rightarrow> budget_db
     \<Rightarrow> (budget_db \<times> budget_response list) result" where
  "rebalance_budgets rd s org_id items today db =
     (let rows = filter (\<lambda>b. bg_id b \<in> set (map ri_budget_id items) \<and> bg_org_id b = org_id) (budgets db)
      in rbind (guard (length rows = length items) (NotFoundError ''Budget'')) (\<lambda>_.
         case remdups (map bg_period_start rows) of
           [period_start] \<Rightarrow>
             rbind (guard (list_all (\<lambda>it. case find_budget db org_id (ri_budget_id it) of
                 None \<Rightarrow> False | Some b \<Rightarrow> bg_amount b = ri_expected_amount it) items)
               (ConflictError ''budget_changed'')) (\<lambda>_.
             rbind (guard (sum_list (map ri_amount items) = sum_list (map ri_expected_amount items))
               (ValidationError ''Changes must net to zero.'')) (\<lambda>_.
             list_budgets rd s org_id (Some period_start) today
               (fold (\<lambda>it. put_amount (ri_budget_id it) (ri_amount it)) items db)))
         | _ \<Rightarrow> Inl (ValidationError ''All budgets must be in the same period.'')))"

definition delete_budget :: "int \<Rightarrow> int \<Rightarrow> budget_db \<Rightarrow> budget_db result" where
  "delete_budget org_id budget_id db =
     (case find_budget db org_id budget_id of
        None \<Rightarrow> Inl (NotFoundError ''Budget'')
      | Some b \<Rightarrow> Inr (db\<lparr>budgets := filter (\<lambda>x. bg_id x \<noteq> budget_id) (budgets db)\<rparr>))"

section \<open>Seeding a period\<close>

datatype forecast_item_type = PlanIncome | PlanExpense

record forecast_plan_item =
  fi_category_id :: int
  fi_type :: forecast_item_type
  fi_planned_amount :: decimal

record forecast_plan =
  fp_org_id :: int
  fp_billing_period_id :: int
  fp_items :: "forecast_plan_item list"

definition existing_budget_cat_ids :: "budget_db \<Rightarrow> int \<Rightarrow> date \<Rightarrow> int list" where
  "existing_budget_cat_ids db org_id period_start = map bg_category_id (budgets_at db org_id period_start)"

definition master_of :: "store \<Rightarrow> int \<Rightarrow> int \<Rightarrow> int" where
  "master_of s org_id cid =
     (case find (\<lambda>c. cat_id c = cid \<and> cat_org_id c = org_id) (categories s) of
        None \<Rightarrow> cid
      | Some c \<Rightarrow> (case cat_parent_id c of None \<Rightarrow> cid | Some p \<Rightarrow> p))"

fun add_amount :: "int \<Rightarrow> decimal \<Rightarrow> (int \<times> decimal) list \<Rightarrow> (int \<times> decimal) list" where
  "add_amount m x [] = [(m, x)]"
| "add_amount m x ((k, y) # rest) = (if k = m then (k, y + x) # rest else (k, y) # add_amount m x rest)"

definition forecast_budget_amounts ::
  "store \<Rightarrow> forecast_plan list \<Rightarrow> int \<Rightarrow> billing_period \<Rightarrow> budget_db \<Rightarrow> (int \<times> decimal) list result" where
  "forecast_budget_amounts s plans org_id period db =
     (case find (\<lambda>p. fp_org_id p = org_id \<and> fp_billing_period_id p = bp_id period) plans of
        None \<Rightarrow> Inl (ValidationError ''No forecast plan exists for this period.'')
      | Some plan \<Rightarrow>
          let expense_items = filter (\<lambda>i. fi_type i = PlanExpense) (fp_items plan);
              budgeted = map (master_of s org_id) (existing_budget_cat_ids db org_id (bp_start_date period))
          in Inr (fold (\<lambda>i acc. let m = master_of s org_id (fi_category_id i)
                    in if m \<in> set budgeted then acc else add_amount m (fi_planned_amount i) acc) expense_items []))"

text \<open>One savepoint a row: a row the unique constraint refuses is left out.\<close>

definition seed_budget :: "int \<Rightarrow> billing_period \<Rightarrow> int \<times> decimal \<Rightarrow> budget_db \<Rightarrow> budget_db" where
  "seed_budget org_id period x db =
     (if fst x \<in> set (existing_budget_cat_ids db org_id (bp_start_date period)) then db
      else insert_budget (new_budget_row db org_id (fst x) (snd x) period) db)"

definition create_budgets_from_forecast ::
  "(int \<Rightarrow> int \<Rightarrow> date \<Rightarrow> date option) \<Rightarrow> store \<Rightarrow> forecast_plan list \<Rightarrow> int \<Rightarrow> date option \<Rightarrow> date \<Rightarrow> budget_db
     \<Rightarrow> (budget_db \<times> budget_response list) result" where
  "create_budgets_from_forecast rd s plans org_id period_start today db =
     rbind (if period_start = None then Inr db
            else rbind (ensure_future_periods rd s org_id FUTURE_PERIODS_DEFAULT today db) (\<lambda>(db1, _). Inr db1)) (\<lambda>db1.
     rbind (resolve_period rd s org_id period_start today db1) (\<lambda>(db2, period).
     rbind (forecast_budget_amounts s plans org_id period db2) (\<lambda>amounts.
     list_budgets rd s org_id (Some (bp_start_date period)) today (fold (seed_budget org_id period) amounts db2))))"

definition copy_budgets_from_period ::
  "(int \<Rightarrow> int \<Rightarrow> date \<Rightarrow> date option) \<Rightarrow> store \<Rightarrow> int \<Rightarrow> date \<Rightarrow> date option \<Rightarrow> date \<Rightarrow> budget_db
     \<Rightarrow> (budget_db \<times> budget_response list) result" where
  "copy_budgets_from_period rd s org_id source_period_start target_period_start today db =
     rbind (ensure_future_periods rd s org_id FUTURE_PERIODS_DEFAULT today db) (\<lambda>(db1, _).
     rbind (resolve_period rd s org_id target_period_start today db1) (\<lambda>(db2, target).
     rbind (resolve_period rd s org_id (Some source_period_start) today db2) (\<lambda>(db3, source).
     let source_rows = budgets_at db3 org_id (bp_start_date source);
         existing = existing_budget_cat_ids db3 org_id (bp_start_date target);
         new_rows = filter (\<lambda>b. bg_category_id b \<notin> set existing) source_rows
     in rbind (guard (source_rows \<noteq> []) (ValidationError ''Source period has no budgets to copy'')) (\<lambda>_.
        list_budgets rd s org_id (Some (bp_start_date target)) today
          (fold (seed_budget org_id target) (map (\<lambda>b. (bg_category_id b, bg_amount b)) new_rows) db3)))))"

end
