(* ===== verification/Roster.thy ===== *)
theory Roster
  imports Periods "HOL-Library.Product_Lexorder" "HOL-Library.List_Lexorder"
begin

text \<open>
  The anomaly kernel of \<open>services/billing_service.py\<close>: given every period row of an organisation in
  the order of the start dates, what is wrong with the roster. An anomaly is one constructor per kind
  with the fields the kind carries. Day arithmetic that leaves the calendar is the \<open>OverflowError\<close> of
  \<open>timedelta\<close>, so the derived ends and the gap rule may fail.
\<close>

section \<open>Data\<close>

definition OVERLAP_ANALYSIS_CAP :: nat where "OVERLAP_ANALYSIS_CAP = 2000"
definition OVERLAP_EMISSION_CAP :: nat where "OVERLAP_EMISSION_CAP = 5000"

datatype period_status_value = Invalid | Open | Upcoming | CurrentByCalendar | Past

record roster_row =
  rw_id :: int
  rw_start_date :: date
  rw_end_date :: "date option"

record complete_roster =
  cr_org_id :: int
  cr_rows :: "roster_row list"

datatype period_anomaly =
    Gap int int date date
  | Overlap int int date date
  | DuplicateOpen "int list"
  | NoOpen
  | Inverted int
  | Straddling int int
  | LapsedOpen int date
  | OverlapAnalysisSkipped nat nat
  | OverlapEmissionCapped nat nat

definition roster_row_of :: "billing_period \<Rightarrow> roster_row" where
  "roster_row_of p = \<lparr>rw_id = bp_id p, rw_start_date = bp_start_date p, rw_end_date = bp_end_date p\<rparr>"

definition load_complete_roster :: "budget_db \<Rightarrow> int \<Rightarrow> complete_roster" where
  "load_complete_roster db org_id =
     \<lparr>cr_org_id = org_id, cr_rows = map roster_row_of (sort_key bp_start_date (org_periods db org_id))\<rparr>"

section \<open>The order of the report\<close>

fun kind_order :: "period_anomaly \<Rightarrow> nat" where
  "kind_order (Gap _ _ _ _) = 0"
| "kind_order (Overlap _ _ _ _) = 1"
| "kind_order (DuplicateOpen _) = 2"
| "kind_order NoOpen = 3"
| "kind_order (Inverted _) = 4"
| "kind_order (Straddling _ _) = 5"
| "kind_order (LapsedOpen _ _) = 6"
| "kind_order (OverlapAnalysisSkipped _ _) = 7"
| "kind_order (OverlapEmissionCapped _ _) = 8"

fun anomaly_ids :: "period_anomaly \<Rightarrow> int list" where
  "anomaly_ids (Gap i j _ _) = [i, j]"
| "anomaly_ids (Overlap i j _ _) = [i, j]"
| "anomaly_ids (DuplicateOpen is) = is"
| "anomaly_ids NoOpen = []"
| "anomaly_ids (Inverted i) = [i]"
| "anomaly_ids (Straddling i a) = [i, a]"
| "anomaly_ids (LapsedOpen i _) = [i]"
| "anomaly_ids (OverlapAnalysisSkipped _ _) = []"
| "anomaly_ids (OverlapEmissionCapped _ _) = []"

fun anomaly_from :: "period_anomaly \<Rightarrow> date option" where
  "anomaly_from (Gap _ _ d _) = Some d"
| "anomaly_from (Overlap _ _ d _) = Some d"
| "anomaly_from a = None"

definition SORT_EPOCH :: date where "SORT_EPOCH = date_of 1 1 1"

definition anomaly_sort_key :: "period_anomaly \<Rightarrow> nat \<times> nat \<times> int list \<times> nat \<times> date" where
  "anomaly_sort_key a =
     (kind_order a, (if anomaly_ids a = [] then 1 else 0), sort (anomaly_ids a),
      (if anomaly_from a = None then 1 else 0),
      (case anomaly_from a of Some d \<Rightarrow> d | None \<Rightarrow> SORT_EPOCH))"

section \<open>The rules\<close>

definition kernel_derived_end :: "roster_row list \<Rightarrow> nat \<Rightarrow> date option result" where
  "kernel_derived_end rows i =
     (case rw_end_date (rows ! i) of
        Some e \<Rightarrow> Inr (Some e)
      | None \<Rightarrow>
          if i + 1 < length rows
          then rbind (date_or_error (prev_day (rw_start_date (rows ! (i + 1))))) (\<lambda>e. Inr (Some e))
          else Inr None)"

definition is_inverted :: "roster_row \<Rightarrow> bool" where
  "is_inverted r \<longleftrightarrow> (case rw_end_date r of None \<Rightarrow> False | Some e \<Rightarrow> e < rw_start_date r)"

definition period_status :: "roster_row \<Rightarrow> date \<Rightarrow> period_status_value" where
  "period_status r today =
     (if is_inverted r then Invalid
      else case rw_end_date r of
             None \<Rightarrow> Open
           | Some e \<Rightarrow>
               if today < rw_start_date r then Upcoming
               else if rw_start_date r \<le> today \<and> today \<le> e then CurrentByCalendar
               else Past)"

definition inverted_rows :: "roster_row list \<Rightarrow> period_anomaly list" where
  "inverted_rows rows = map (\<lambda>r. Inverted (rw_id r)) (filter is_inverted rows)"

definition gap_after :: "roster_row list \<Rightarrow> date option list \<Rightarrow> nat \<Rightarrow> period_anomaly list result" where
  "gap_after rows ends i =
     (case ends ! i of
        None \<Rightarrow> Inr []
      | Some left_end \<Rightarrow>
          if is_inverted (rows ! i) \<or> is_inverted (rows ! (i + 1)) then Inr []
          else rbind (date_or_error (next_day left_end)) (\<lambda>from.
               if from < rw_start_date (rows ! (i + 1))
               then rbind (date_or_error (prev_day (rw_start_date (rows ! (i + 1))))) (\<lambda>to.
                    Inr [Gap (rw_id (rows ! i)) (rw_id (rows ! (i + 1))) from to])
               else Inr []))"

definition overlaps_of :: "roster_row list \<Rightarrow> date option list \<Rightarrow> nat \<Rightarrow> period_anomaly list" where
  "overlaps_of rows ends i =
     (case ends ! i of
        None \<Rightarrow> []
      | Some left_end \<Rightarrow>
          if is_inverted (rows ! i) then []
          else map (\<lambda>j. Overlap (rw_id (rows ! i)) (rw_id (rows ! j)) (rw_start_date (rows ! j)) left_end)
                 (filter (\<lambda>j. \<not> is_inverted (rows ! j) \<and> rw_start_date (rows ! j) \<le> left_end) [i + 1..<length rows]))"

text \<open>The whole scan runs, and the overlaps beyond the ceiling are counted, not listed.\<close>

definition overlap_rule :: "roster_row list \<Rightarrow> date option list \<Rightarrow> period_anomaly list" where
  "overlap_rule rows ends =
     (if OVERLAP_ANALYSIS_CAP < length rows then [OverlapAnalysisSkipped (length rows) OVERLAP_ANALYSIS_CAP]
      else let found = concat (map (overlaps_of rows ends) [0..<length rows])
           in take OVERLAP_EMISSION_CAP found @
              (if OVERLAP_EMISSION_CAP < length found
               then [OverlapEmissionCapped (length found) OVERLAP_EMISSION_CAP] else []))"

definition open_indexes :: "roster_row list \<Rightarrow> nat list" where
  "open_indexes rows = filter (\<lambda>i. rw_end_date (rows ! i) = None) [0..<length rows]"

definition straddles :: "roster_row list \<Rightarrow> date option list \<Rightarrow> nat \<Rightarrow> nat \<Rightarrow> bool" where
  "straddles rows ends anchor i \<longleftrightarrow> i \<noteq> anchor \<and>
     (case ends ! i of None \<Rightarrow> False
      | Some e \<Rightarrow> rw_start_date (rows ! i) \<le> rw_start_date (rows ! anchor) \<and> rw_start_date (rows ! anchor) \<le> e)"

definition open_rules :: "roster_row list \<Rightarrow> date option list \<Rightarrow> date \<Rightarrow> period_anomaly list" where
  "open_rules rows ends today =
     (case open_indexes rows of
        [] \<Rightarrow> [NoOpen]
      | opens \<Rightarrow>
          let anchor = last opens in
          (if 1 < length opens then [DuplicateOpen (map (\<lambda>i. rw_id (rows ! i)) opens)] else []) @
          map (\<lambda>i. Straddling (rw_id (rows ! i)) (rw_id (rows ! anchor)))
            (filter (straddles rows ends anchor) [0..<length rows]) @
          (case ends ! anchor of
             None \<Rightarrow> []
           | Some e \<Rightarrow> if e < today then [LapsedOpen (rw_id (rows ! anchor)) e] else []))"

definition find_period_anomalies :: "complete_roster \<Rightarrow> date \<Rightarrow> period_anomaly list result" where
  "find_period_anomalies roster today =
     (let rows = cr_rows roster in
      rbind (rmap (kernel_derived_end rows) [0..<length rows]) (\<lambda>ends.
      rbind (rmap (gap_after rows ends) [0..<length rows - 1]) (\<lambda>gaps.
      Inr (sort_key anomaly_sort_key
             (inverted_rows rows @ concat gaps @ overlap_rule rows ends @ open_rules rows ends today)))))"

section \<open>What a clean report means\<close>

text \<open>The windows of a roster: the derived end of a row, or no end at all for an open last row.\<close>

definition covers :: "roster_row list \<Rightarrow> nat \<Rightarrow> date \<Rightarrow> bool" where
  "covers rows i d \<longleftrightarrow> rw_start_date (rows ! i) \<le> d \<and>
     (case rw_end_date (rows ! i) of
        Some e \<Rightarrow> d \<le> e
      | None \<Rightarrow> i + 1 < length rows \<longrightarrow> d < rw_start_date (rows ! (i + 1)))"

definition within_roster :: "roster_row list \<Rightarrow> date \<Rightarrow> bool" where
  "within_roster rows d \<longleftrightarrow> rw_start_date (hd rows) \<le> d \<and>
     (case rw_end_date (last rows) of Some e \<Rightarrow> d \<le> e | None \<Rightarrow> True)"

definition only_lapsed :: "period_anomaly \<Rightarrow> bool" where
  "only_lapsed a \<longleftrightarrow> (\<exists>i e. a = LapsedOpen i e)"

end
