(* ===== verification/RosterFacts.thy ===== *)
theory RosterFacts
  imports Roster
begin

text \<open>
  What a clean report of the anomaly kernel means: \<open>tiled\<close> says it of the rows of a roster as a set,
  and \<open>tiled_iff_covered\<close> of the days.
\<close>

definition strictly_sorted :: "roster_row list \<Rightarrow> bool" where
  "strictly_sorted rows \<longleftrightarrow> sorted_wrt (<) (map rw_start_date rows)"

text \<open>No closed row runs into a later one.\<close>

definition apart :: "roster_row set \<Rightarrow> bool" where
  "apart R \<longleftrightarrow> (\<forall>p \<in> R. \<forall>e. rw_end_date p = Some e \<longrightarrow>
     rw_start_date p \<le> e \<and> (\<forall>q \<in> R. rw_start_date p < rw_start_date q \<longrightarrow> e < rw_start_date q))"

text \<open>A closed row with a later one abuts on one.\<close>

definition abutting :: "roster_row set \<Rightarrow> bool" where
  "abutting R \<longleftrightarrow> (\<forall>p \<in> R. \<forall>e. rw_end_date p = Some e \<longrightarrow>
     (\<exists>q \<in> R. rw_start_date p < rw_start_date q) \<longrightarrow> (\<exists>q \<in> R. next_day e = Some (rw_start_date q)))"

definition one_open :: "roster_row set \<Rightarrow> bool" where
  "one_open R \<longleftrightarrow> (\<exists>!p. p \<in> R \<and> rw_end_date p = None)"

definition tiled :: "roster_row set \<Rightarrow> bool" where
  "tiled R \<longleftrightarrow> one_open R \<and> apart R \<and> abutting R"

lemma apartD:
  assumes "apart R" "p \<in> R" "rw_end_date p = Some e"
  shows "rw_start_date p \<le> e" "q \<in> R \<Longrightarrow> rw_start_date p < rw_start_date q \<Longrightarrow> e < rw_start_date q"
  using assms by (auto simp: apart_def)

lemma sorted_nth_less:
  "strictly_sorted rows \<Longrightarrow> i < j \<Longrightarrow> j < length rows \<Longrightarrow> rw_start_date (rows ! i) < rw_start_date (rows ! j)"
  using sorted_wrt_nth_less[of "(<)" "map rw_start_date rows" i j] by (simp add: strictly_sorted_def)

lemma sorted_less_iff:
  assumes "strictly_sorted rows" "i < length rows" "j < length rows"
  shows "rw_start_date (rows ! i) < rw_start_date (rows ! j) \<longleftrightarrow> i < j"
  using sorted_nth_less[OF assms(1), of i j] sorted_nth_less[OF assms(1), of j i] assms(2,3)
  by (cases i j rule: linorder_cases) auto

lemma sorted_le_iff:
  assumes "strictly_sorted rows" "i < length rows" "j < length rows"
  shows "rw_start_date (rows ! i) \<le> rw_start_date (rows ! j) \<longleftrightarrow> i \<le> j"
  using sorted_less_iff[OF assms(1,3,2)] by (simp add: not_less[symmetric])

text \<open>Of one open row there is one index.\<close>

lemma open_indexes_mem: "i \<in> set (open_indexes rows) \<longleftrightarrow> i < length rows \<and> rw_end_date (rows ! i) = None"
  by (auto simp: open_indexes_def)

lemma open_indexes_distinct: "distinct (open_indexes rows)"
  by (simp add: open_indexes_def)

lemma one_open_single:
  assumes s: "strictly_sorted rows"
  shows "one_open (set rows) \<longleftrightarrow> length (open_indexes rows) = 1"
proof
  assume "one_open (set rows)"
  then obtain p where p: "p \<in> set rows" "rw_end_date p = None"
    and u: "\<And>q. q \<in> set rows \<Longrightarrow> rw_end_date q = None \<Longrightarrow> q = p" by (auto simp: one_open_def)
  from p(1) obtain i where i: "i < length rows" "rows ! i = p" by (auto simp: in_set_conv_nth)
  have "set (open_indexes rows) = {i}"
  proof (intro equalityI subsetI)
    fix j assume "j \<in> set (open_indexes rows)"
    then have j: "j < length rows" "rw_end_date (rows ! j) = None" by (auto simp: open_indexes_mem)
    with u have "rows ! j = rows ! i" using i by simp
    with sorted_le_iff[OF s j(1) i(1)] sorted_le_iff[OF s i(1) j(1)] show "j \<in> {i}" by simp
  qed (use i p in \<open>auto simp: open_indexes_mem\<close>)
  then show "length (open_indexes rows) = 1"
    using distinct_card[OF open_indexes_distinct, of rows] by simp
next
  assume "length (open_indexes rows) = 1"
  then obtain i where i: "open_indexes rows = [i]" by (cases "open_indexes rows") auto
  have m: "j < length rows \<and> rw_end_date (rows ! j) = None \<longleftrightarrow> j = i" for j
    using open_indexes_mem[of j rows] i by simp
  show "one_open (set rows)" unfolding one_open_def
  proof (rule ex1I[of _ "rows ! i"])
    show "rows ! i \<in> set rows \<and> rw_end_date (rows ! i) = None" using m[of i] by simp
    fix q assume "q \<in> set rows \<and> rw_end_date q = None"
    then obtain j where "j < length rows" "rows ! j = q" "rw_end_date (rows ! j) = None"
      by (metis in_set_conv_nth)
    with m[of j] show "q = rows ! i" by blast
  qed
qed

lemma prev_day_defined: "d < e \<Longrightarrow> \<exists>n. prev_day e = Some n"
  using prev_day_None[OF _ less_imp_le] by (cases "prev_day e") fastforce+

lemma next_day_inj: "next_day a = Some c \<Longrightarrow> next_day b = Some c \<Longrightarrow> a = b"
  using next_day_least next_day_gt by (metis leD linorder_neqE)

lemma rmap_exists: "(\<And>x. x \<in> set xs \<Longrightarrow> \<exists>y. f x = Inr y) \<Longrightarrow> \<exists>ys. rmap f xs = Inr ys"
  by (induction xs) (auto, metis rbind_simps(2))

section \<open>The days\<close>

lemma starts_within:
  assumes s: "strictly_sorted rows" and a: "apart (set rows)" and i: "i < length rows"
    and d: "rw_start_date (hd rows) \<le> d" "d \<le> rw_start_date (rows ! i)"
  shows "within_roster rows d"
proof -
  have n: "rows \<noteq> []" "length rows - 1 < length rows" using i by auto
  have "d \<le> rw_start_date (last rows)"
    using d(2) sorted_le_iff[OF s i n(2)] i n by (auto simp: last_conv_nth)
  then show ?thesis
    using d(1) apartD(1)[OF a, of "last rows"] n by (auto simp: within_roster_def split: option.splits)
qed

lemma hd_start: "strictly_sorted rows \<Longrightarrow> i < length rows \<Longrightarrow> rw_start_date (hd rows) \<le> rw_start_date (rows ! i)"
  using sorted_le_iff[of rows 0 i] by (cases rows) auto

lemma covers_start:
  assumes "strictly_sorted rows" "i < length rows" "\<And>e. rw_end_date (rows ! i) = Some e \<Longrightarrow> rw_start_date (rows ! i) \<le> e"
  shows "covers rows i (rw_start_date (rows ! i))"
  using assms sorted_less_iff[of rows i "i + 1"] by (auto simp: covers_def split: option.splits)

lemma tiled_covered:
  assumes s: "strictly_sorted rows" and a: "apart (set rows)" and b: "abutting (set rows)"
    and n: "rows \<noteq> []" and w: "within_roster rows d"
  shows "\<exists>!i. i < length rows \<and> covers rows i d"
proof -
  let ?K = "{i. i < length rows \<and> rw_start_date (rows ! i) \<le> d}"
  define i where "i = Max ?K"
  have K: "finite ?K" "0 \<in> ?K" using w n by (auto simp: within_roster_def hd_conv_nth)
  have i: "i < length rows" "rw_start_date (rows ! i) \<le> d" using Max_in[OF K(1)] K(2) unfolding i_def by blast+
  have mx: "k \<le> i" if "k < length rows" "rw_start_date (rows ! k) \<le> d" for k
    using that Max_ge[OF K(1), of k] by (simp add: i_def)
  have later: "d < rw_start_date (rows ! k)" if "k < length rows" "i < k" for k
    using mx[OF that(1)] that(2) by (meson leD not_le)
  have "covers rows i d"
  proof (cases "rw_end_date (rows ! i)")
    case None
    with i later[of "i + 1"] show ?thesis by (simp add: covers_def)
  next
    case (Some e)
    have "d \<le> e"
    proof (cases "i + 1 < length rows")
      case True
      then have "\<exists>q \<in> set rows. rw_start_date (rows ! i) < rw_start_date q"
        using sorted_less_iff[OF s i(1) True] by (intro bexI[of _ "rows ! (i + 1)"]) auto
      with b Some i(1) obtain q where q: "q \<in> set rows" "next_day e = Some (rw_start_date q)"
        unfolding abutting_def using nth_mem by blast
      from q(1) obtain j where j: "j < length rows" "q = rows ! j" by (auto simp: in_set_conv_nth)
      have "rw_start_date (rows ! i) < rw_start_date (rows ! j)"
        using next_day_gt[OF q(2)] apartD(1)[OF a nth_mem[OF i(1)] Some] j by simp
      then have "i < j" using sorted_less_iff[OF s i(1) j(1)] by simp
      from later[OF j(1) this] next_day_less_iff[OF q(2), of d] j show ?thesis by (meson not_le)
    next
      case False
      with i(1) have "i = length rows - 1" by simp
      then have "rows ! i = last rows" by (simp add: last_conv_nth n)
      with w Some show ?thesis by (simp add: within_roster_def)
    qed
    with Some i show ?thesis by (simp add: covers_def)
  qed
  moreover have "k = i" if k: "k < length rows" "covers rows k d" for k
  proof (rule ccontr)
    assume "k \<noteq> i"
    with mx[of k] k have ki: "k < i" by (auto simp: covers_def)
    have le: "rw_start_date (rows ! (k + 1)) \<le> d" "rw_start_date (rows ! k) < rw_start_date (rows ! i)"
      using ki i sorted_le_iff[OF s, of "k + 1" i] sorted_less_iff[OF s k(1) i(1)] by auto
    show False
    proof (cases "rw_end_date (rows ! k)")
      case None
      with k ki i(1) le(1) show False by (auto simp: covers_def)
    next
      case (Some e)
      from apartD(2)[OF a nth_mem[OF k(1)] Some nth_mem[OF i(1)] le(2)] i(2) k(2) Some show False
        by (auto simp: covers_def)
    qed
  qed
  ultimately show ?thesis using i(1) by blast
qed

lemma covered_apart:
  assumes s: "strictly_sorted rows" and inv: "\<forall>r \<in> set rows. \<not> is_inverted r"
    and u: "\<And>d. within_roster rows d \<Longrightarrow> \<exists>!i. i < length rows \<and> covers rows i d"
  shows "apart (set rows)"
  unfolding apart_def
proof (intro ballI allI impI conjI)
  fix p e assume p: "p \<in> set rows" "rw_end_date p = Some e"
  then show "rw_start_date p \<le> e" using inv by (auto simp: is_inverted_def not_less)
  fix q assume q: "q \<in> set rows" "rw_start_date p < rw_start_date q"
  from p q obtain i j where ij: "i < length rows" "p = rows ! i" "j < length rows" "q = rows ! j"
    by (metis in_set_conv_nth)
  have noinv: "rw_start_date (rows ! k) \<le> x" if "k < length rows" "rw_end_date (rows ! k) = Some x" for k x
    using bspec[OF inv nth_mem[OF that(1)]] that(2) by (simp add: is_inverted_def not_less)
  show "e < rw_start_date q"
  proof (rule ccontr)
    assume "\<not> e < rw_start_date q"
    then have ci: "covers rows i (rw_start_date q)" using p q ij by (auto simp: covers_def)
    have cj: "covers rows j (rw_start_date q)" using covers_start[OF s ij(3)] noinv[OF ij(3)] ij by simp
    have n: "rows \<noteq> []" "length rows - 1 < length rows" using ij by auto
    have "rw_start_date q \<le> rw_start_date (last rows)"
      using sorted_le_iff[OF s ij(3) n(2)] ij n by (auto simp: last_conv_nth)
    then have "within_roster rows (rw_start_date q)"
      using hd_start[OF s ij(3)] ij noinv[OF n(2)] n
      by (fastforce simp: within_roster_def last_conv_nth split: option.splits)
    with u ci cj ij have "i = j" by blast
    with q ij show False by simp
  qed
qed

lemma covered_abutting:
  assumes s: "strictly_sorted rows" and a: "apart (set rows)"
    and u: "\<And>d. within_roster rows d \<Longrightarrow> \<exists>!i. i < length rows \<and> covers rows i d"
  shows "abutting (set rows)"
  unfolding abutting_def
proof (intro ballI allI impI)
  fix p e assume p: "p \<in> set rows" "rw_end_date p = Some e" and "\<exists>q \<in> set rows. rw_start_date p < rw_start_date q"
  then obtain i j where ij: "i < length rows" "p = rows ! i" "j < length rows" "rw_start_date (rows ! i) < rw_start_date (rows ! j)"
    by (metis in_set_conv_nth)
  then have i1: "i + 1 < length rows" using sorted_less_iff[OF s ij(1,3)] by simp
  let ?s = "rw_start_date (rows ! (i + 1))"
  have e: "e < ?s" using apartD(2)[OF a p nth_mem[OF i1]] sorted_less_iff[OF s ij(1) i1] ij by simp
  then obtain nx where nx: "next_day e = Some nx"
    using day_le_31[of ?s] month_index_bounds(2)[of ?s]
    by (cases "next_day e") (auto simp: next_day_None_iff date_less_iff valid_ymd_def days_in_month_def)
  show "\<exists>q \<in> set rows. next_day e = Some (rw_start_date q)"
  proof (rule ccontr)
    assume "\<not> ?thesis"
    with nx i1 have "nx \<noteq> ?s" by force
    with next_day_least[OF nx e] have l: "nx < ?s" by simp
    have g: "e < nx" using next_day_gt[OF nx] .
    have "rw_start_date (hd rows) \<le> nx"
      using hd_start[OF s ij(1)] apartD(1)[OF a p] ij g by auto
    from starts_within[OF s a i1 this] l have "within_roster rows nx" by simp
    with u obtain k where k: "k < length rows" "covers rows k nx" by blast
    then have "rw_start_date (rows ! k) < ?s" using l by (auto simp: covers_def)
    then have ki: "k \<le> i" using sorted_less_iff[OF s k(1) i1] by simp
    show False
    proof (cases "k = i")
      case True
      with k(2) p ij g show False by (auto simp: covers_def)
    next
      case False
      with ki have l: "k < i" by simp
      show False
      proof (cases "rw_end_date (rows ! k)")
        case None
        have "rw_start_date (rows ! (k + 1)) \<le> rw_start_date (rows ! i)"
          using l ij(1) sorted_le_iff[OF s, of "k + 1" i] by simp
        with None k(2) l ij apartD(1)[OF a p] g show False by (auto simp: covers_def)
      next
        case (Some x)
        from apartD(2)[OF a nth_mem[OF k(1)] Some nth_mem[OF ij(1)]] sorted_less_iff[OF s k(1) ij(1)] l
        have "x < rw_start_date (rows ! i)" by simp
        with Some k(2) ij apartD(1)[OF a p] g show False by (auto simp: covers_def)
      qed
    qed
  qed
qed

text \<open>The days of a roster are each in one window exactly when its rows are tiled.\<close>

lemma tiled_iff_covered:
  assumes s: "strictly_sorted rows"
  shows "tiled (set rows) \<longleftrightarrow> one_open (set rows) \<and> (\<forall>r \<in> set rows. \<not> is_inverted r) \<and>
    (\<forall>d. within_roster rows d \<longrightarrow> (\<exists>!i. i < length rows \<and> covers rows i d))"
proof
  assume t: "tiled (set rows)"
  then have "rows \<noteq> []" by (auto simp: tiled_def one_open_def)
  with t show "one_open (set rows) \<and> (\<forall>r \<in> set rows. \<not> is_inverted r) \<and>
    (\<forall>d. within_roster rows d \<longrightarrow> (\<exists>!i. i < length rows \<and> covers rows i d))"
    using tiled_covered[OF s] apartD(1)[of "set rows"]
    by (auto simp: tiled_def is_inverted_def not_less split: option.splits)
next
  assume "one_open (set rows) \<and> (\<forall>r \<in> set rows. \<not> is_inverted r) \<and>
    (\<forall>d. within_roster rows d \<longrightarrow> (\<exists>!i. i < length rows \<and> covers rows i d))"
  then show "tiled (set rows)"
    using covered_apart[OF s] covered_abutting[OF s] by (auto simp: tiled_def)
qed

section \<open>The report\<close>

lemma derived_end:
  assumes "rmap (kernel_derived_end rows) [0..<length rows] = Inr ends"
  shows "length ends = length rows" "i < length rows \<Longrightarrow> kernel_derived_end rows i = Inr (ends ! i)"
  using assms by (auto simp: rmap_Inr list_all2_conv_all_nth)

lemma derived_end_closed:
  assumes "kernel_derived_end rows i = Inr e" "rw_end_date (rows ! i) = Some x"
  shows "e = Some x"
  using assms by (simp add: kernel_derived_end_def)

lemma derived_end_open:
  assumes "kernel_derived_end rows i = Inr e" "rw_end_date (rows ! i) = None" "i + 1 < length rows"
  obtains x where "e = Some x" "next_day x = Some (rw_start_date (rows ! (i + 1)))"
  using assms that next_prev_day by (auto simp: kernel_derived_end_def rbind_eq_Inr)

text \<open>A row that is followed ends before every later one.\<close>

lemma derived_end_before:
  assumes s: "strictly_sorted rows" and a: "apart (set rows)" and i: "i < length rows"
    and e: "kernel_derived_end rows i = Inr (Some e)" and j: "i < j" "j < length rows"
  shows "e < rw_start_date (rows ! j)"
proof (cases "rw_end_date (rows ! i)")
  case None
  from j have i1: "i + 1 < length rows" by simp
  from derived_end_open[OF e None i1] have "next_day e = Some (rw_start_date (rows ! (i + 1)))" by blast
  moreover have "rw_start_date (rows ! (i + 1)) \<le> rw_start_date (rows ! j)"
    using sorted_le_iff[OF s i1 j(2)] j(1) by simp
  ultimately show ?thesis using next_day_gt by (meson less_le_trans)
next
  case (Some x)
  with derived_end_closed[OF e] have "x = e" by simp
  with apartD(2)[OF a nth_mem[OF i] Some nth_mem[OF j(2)]] sorted_less_iff[OF s i j(2)] j(1) show ?thesis by simp
qed

lemma derived_end_abuts:
  assumes s: "strictly_sorted rows" and a: "apart (set rows)" and b: "abutting (set rows)"
    and i: "i + 1 < length rows" and e: "kernel_derived_end rows i = Inr e"
  shows "\<exists>x. e = Some x \<and> next_day x = Some (rw_start_date (rows ! (i + 1)))"
proof (cases "rw_end_date (rows ! i)")
  case None
  from derived_end_open[OF e None i] show ?thesis by blast
next
  case (Some x)
  have i0: "i < length rows" using i by simp
  have l: "rw_start_date (rows ! i) < rw_start_date (rows ! (i + 1))" using sorted_less_iff[OF s i0 i] by simp
  then have "\<exists>q \<in> set rows. rw_start_date (rows ! i) < rw_start_date q" using i by (intro bexI[of _ "rows ! (i + 1)"]) auto
  with b nth_mem[OF i0] Some obtain q where q: "q \<in> set rows" "next_day x = Some (rw_start_date q)"
    unfolding abutting_def by blast
  from q(1) obtain j where j: "j < length rows" "q = rows ! j" by (metis in_set_conv_nth)
  have "x < rw_start_date (rows ! (i + 1))" using apartD(2)[OF a nth_mem[OF i0] Some nth_mem[OF i] l] .
  from next_day_least[OF q(2) this] have "j \<le> i + 1" using sorted_le_iff[OF s j(1) i] j by simp
  moreover have "rw_start_date (rows ! i) < rw_start_date (rows ! j)"
    using next_day_gt[OF q(2)] apartD(1)[OF a nth_mem[OF i0] Some] j by simp
  then have "i < j" using sorted_less_iff[OF s i0 j(1)] by simp
  ultimately have "j = i + 1" by simp
  with q j derived_end_closed[OF e Some] show ?thesis by simp
qed

lemma no_overlaps_iff:
  assumes s: "strictly_sorted rows" and d: "rmap (kernel_derived_end rows) [0..<length rows] = Inr ends"
    and inv: "\<forall>r \<in> set rows. \<not> is_inverted r"
  shows "concat (map (overlaps_of rows ends) [0..<length rows]) = [] \<longleftrightarrow> apart (set rows)"
proof
  assume l: "concat (map (overlaps_of rows ends) [0..<length rows]) = []"
  have pair: "e < rw_start_date (rows ! j)" if "i < j" "j < length rows" "rw_end_date (rows ! i) = Some e" for i j e
  proof (rule ccontr)
    assume "\<not> e < rw_start_date (rows ! j)"
    moreover have "ends ! i = Some e"
      using derived_end_closed[OF derived_end(2)[OF d] that(3)] that by simp
    moreover have "\<not> is_inverted (rows ! i)" "\<not> is_inverted (rows ! j)" using inv that by auto
    moreover have "overlaps_of rows ends i = []" using l that by simp
    ultimately show False using that by (auto simp: overlaps_of_def filter_empty_conv)
  qed
  show "apart (set rows)" unfolding apart_def
  proof (intro ballI allI impI conjI)
    fix p e assume p: "p \<in> set rows" "rw_end_date p = Some e"
    then show "rw_start_date p \<le> e" using bspec[OF inv p(1)] by (simp add: is_inverted_def not_less)
    fix q assume "q \<in> set rows" "rw_start_date p < rw_start_date q"
    with p obtain i j where "i < length rows" "p = rows ! i" "j < length rows" "q = rows ! j" "i < j"
      by (metis in_set_conv_nth sorted_less_iff[OF s])
    with p pair show "e < rw_start_date q" by blast
  qed
next
  assume a: "apart (set rows)"
  have "overlaps_of rows ends i = []" if i: "i < length rows" for i
  proof (cases "ends ! i")
    case (Some e)
    with derived_end(2)[OF d i] derived_end_before[OF s a i, of e] show ?thesis
      by (auto simp: overlaps_of_def filter_empty_conv not_le)
  qed (simp add: overlaps_of_def)
  then show "concat (map (overlaps_of rows ends) [0..<length rows]) = []" by simp
qed

lemma no_gaps_iff:
  assumes s: "strictly_sorted rows" and a: "apart (set rows)"
    and d: "rmap (kernel_derived_end rows) [0..<length rows] = Inr ends"
    and g: "rmap (gap_after rows ends) [0..<length rows - 1] = Inr gaps"
  shows "concat gaps = [] \<longleftrightarrow> abutting (set rows)"
proof -
  have G: "gap_after rows ends i = Inr (gaps ! i)" "i < length gaps" if "i + 1 < length rows" for i
    using g that by (auto simp: rmap_Inr list_all2_conv_all_nth)
  have len: "length gaps = length rows - 1" using g by (auto simp: rmap_Inr list_all2_conv_all_nth)
  have inv: "\<not> is_inverted (rows ! i)" if "i < length rows" for i
    using apartD(1)[OF a nth_mem[OF that]] by (auto simp: is_inverted_def not_less split: option.splits)
  show ?thesis
  proof
    assume l: "concat gaps = []"
    show "abutting (set rows)" unfolding abutting_def
    proof (intro ballI allI impI)
      fix p e assume p: "p \<in> set rows" "rw_end_date p = Some e" and "\<exists>q \<in> set rows. rw_start_date p < rw_start_date q"
      then obtain i where i: "i + 1 < length rows" "p = rows ! i"
      proof -
        from \<open>\<exists>q \<in> set rows. _\<close> p obtain i j where "i < length rows" "p = rows ! i" "j < length rows" "i < j"
          by (metis in_set_conv_nth sorted_less_iff[OF s])
        then show thesis using that[of i] by simp
      qed
      have e: "ends ! i = Some e" using derived_end_closed[OF derived_end(2)[OF d]] p i by simp
      have lt: "e < rw_start_date (rows ! (i + 1))"
        using derived_end_before[OF s a _ _ _ i(1), of i e] derived_end(2)[OF d, of i] e i by simp
      have "gaps ! i = []" using l G(2)[OF i(1)] nth_mem by fastforce
      with G(1)[OF i(1)] e inv[of i] inv[OF i(1)] i(1) obtain nx where
        "next_day e = Some nx" "\<not> nx < rw_start_date (rows ! (i + 1))"
        by (auto simp: gap_after_def rbind_eq_Inr split: if_splits)
      with next_day_least[OF _ lt] have "next_day e = Some (rw_start_date (rows ! (i + 1)))" by fastforce
      with i(1) show "\<exists>q \<in> set rows. next_day e = Some (rw_start_date q)" by (intro bexI[of _ "rows ! (i + 1)"]) auto
    qed
  next
    assume b: "abutting (set rows)"
    have "gaps ! i = []" if i: "i + 1 < length rows" for i
    proof -
      from derived_end_abuts[OF s a b i derived_end(2)[OF d]] i obtain x where
        "ends ! i = Some x" "next_day x = Some (rw_start_date (rows ! (i + 1)))" by auto
      with G(1)[OF i] inv[of i] inv[OF i] i show ?thesis by (simp add: gap_after_def)
    qed
    then have "\<forall>xs \<in> set gaps. xs = []" using len by (auto simp: in_set_conv_nth)
    then show "concat gaps = []" by simp
  qed
qed

lemma open_rules_lapsed:
  assumes s: "strictly_sorted rows" and a: "apart (set rows)" and o: "length (open_indexes rows) = 1"
    and d: "rmap (kernel_derived_end rows) [0..<length rows] = Inr ends" and x: "x \<in> set (open_rules rows ends today)"
  shows "only_lapsed x"
proof -
  from o obtain k where k: "open_indexes rows = [k]" by (cases "open_indexes rows") auto
  have "\<not> straddles rows ends k i" if i: "i < length rows" for i
  proof
    assume st: "straddles rows ends k i"
    then obtain e where e: "ends ! i = Some e" "i \<noteq> k" "rw_start_date (rows ! i) \<le> rw_start_date (rows ! k)"
      "rw_start_date (rows ! k) \<le> e" by (auto simp: straddles_def split: option.splits)
    have kn: "k < length rows" using open_indexes_mem[of k rows] k by simp
    from e sorted_le_iff[OF s i kn] have "i < k" by simp
    from derived_end_before[OF s a i _ this kn, of e] derived_end(2)[OF d i] e show False by simp
  qed
  then have "filter (straddles rows ends k) [0..<length rows] = []" by (simp add: filter_empty_conv)
  with x k show ?thesis by (auto simp: open_rules_def only_lapsed_def split: option.splits if_splits)
qed

lemma open_rules_single:
  assumes "\<forall>x \<in> set (open_rules rows ends today). only_lapsed x"
  shows "length (open_indexes rows) = 1"
proof (cases "open_indexes rows")
  case Nil
  with assms show ?thesis by (simp add: open_rules_def only_lapsed_def)
next
  case (Cons k ks)
  show ?thesis
  proof (cases ks)
    case (Cons k' ks')
    then have "DuplicateOpen (map (\<lambda>i. rw_id (rows ! i)) (k # ks)) \<in> set (open_rules rows ends today)"
      using \<open>open_indexes rows = k # ks\<close> by (simp add: open_rules_def Let_def)
    with assms show ?thesis by (auto simp: only_lapsed_def)
  qed (simp add: Cons)
qed

lemma report_parts:
  assumes "find_period_anomalies (complete_roster.make i rows) today = Inr found"
  obtains ends gaps where "rmap (kernel_derived_end rows) [0..<length rows] = Inr ends"
    "rmap (gap_after rows ends) [0..<length rows - 1] = Inr gaps"
    "set found = set (inverted_rows rows) \<union> set (concat gaps) \<union> set (overlap_rule rows ends) \<union> set (open_rules rows ends today)"
proof -
  from assms obtain ends gaps where "rmap (kernel_derived_end rows) [0..<length rows] = Inr ends"
    "rmap (gap_after rows ends) [0..<length rows - 1] = Inr gaps"
    "found = sort_key anomaly_sort_key (inverted_rows rows @ concat gaps @ overlap_rule rows ends @ open_rules rows ends today)"
    by (auto simp: find_period_anomalies_def Let_def rbind_eq_Inr complete_roster.defs)
  then show thesis using that[of ends gaps] by (simp add: Un_assoc)
qed

lemma gaps_are_gaps:
  assumes g: "rmap (gap_after rows ends) is = Inr gaps" and x: "x \<in> set (concat gaps)"
  shows "\<exists>i j f t. x = Gap i j f t"
proof -
  from x obtain xs where xs: "xs \<in> set gaps" "x \<in> set xs" by auto
  from rmap_mem[OF g xs(1)] obtain k where "gap_after rows ends k = Inr xs" by blast
  with xs(2) show ?thesis by (auto simp: gap_after_def rbind_eq_Inr split: option.splits if_splits)
qed

lemma overlap_rule_lapsed:
  assumes "length rows \<le> OVERLAP_ANALYSIS_CAP"
  shows "(\<forall>x \<in> set (overlap_rule rows ends). only_lapsed x) \<longleftrightarrow> concat (map (overlaps_of rows ends) [0..<length rows]) = []"
proof -
  let ?found = "concat (map (overlaps_of rows ends) [0..<length rows])"
  have ne: "\<not> only_lapsed x" if "x \<in> set ?found" for x
    using that by (auto simp: overlaps_of_def only_lapsed_def split: option.splits if_splits)
  have r: "overlap_rule rows ends = take OVERLAP_EMISSION_CAP ?found @
      (if OVERLAP_EMISSION_CAP < length ?found then [OverlapEmissionCapped (length ?found) OVERLAP_EMISSION_CAP] else [])"
    using assms by (simp add: overlap_rule_def Let_def)
  show ?thesis
  proof (cases ?found)
    case Nil
    show ?thesis unfolding r Nil by simp
  next
    case (Cons y ys)
    then have "y \<in> set (overlap_rule rows ends)" unfolding r Cons by (simp add: OVERLAP_EMISSION_CAP_def)
    moreover have "\<not> only_lapsed y" using ne[of y] Cons by (metis list.set_intros(1))
    ultimately show ?thesis using Cons by (metis list.distinct(1))
  qed
qed

lemma only_the_gap_rule:
  "x \<in> set (inverted_rows rows) \<union> set (overlap_rule rows ends) \<union> set (open_rules rows ends today) \<Longrightarrow> kind_order x \<noteq> 0"
proof -
  have "kind_order x \<noteq> 0" if "x \<in> set (overlaps_of rows ends i)" for i x
    using that by (auto simp: overlaps_of_def split: option.splits if_splits)
  then have "x \<in> set (overlap_rule rows ends) \<Longrightarrow> kind_order x \<noteq> 0"
    by (auto simp: overlap_rule_def Let_def split: if_splits dest!: in_set_takeD)
  moreover have "x \<in> set (open_rules rows ends today) \<Longrightarrow> kind_order x \<noteq> 0"
    by (auto simp: open_rules_def Let_def split: list.splits option.splits if_splits)
  moreover have "x \<in> set (inverted_rows rows) \<Longrightarrow> kind_order x \<noteq> 0" by (auto simp: inverted_rows_def)
  ultimately show "x \<in> set (inverted_rows rows) \<union> set (overlap_rule rows ends) \<union> set (open_rules rows ends today) \<Longrightarrow> kind_order x \<noteq> 0"
    by blast
qed

text \<open>What the report may name without any window being wrong: a hole between two windows, and an open
  row whose window is over.\<close>

definition harmless :: "period_anomaly \<Rightarrow> bool" where
  "harmless x \<longleftrightarrow> only_lapsed x \<or> (\<exists>i j f t. x = Gap i j f t)"

lemma harmless_iff_apart:
  assumes s: "strictly_sorted rows" and cap: "length rows \<le> OVERLAP_ANALYSIS_CAP"
    and f: "find_period_anomalies (complete_roster.make i rows) today = Inr found"
  shows "(\<forall>x \<in> set found. harmless x) \<longleftrightarrow> one_open (set rows) \<and> apart (set rows)"
proof -
  obtain ends gaps where d: "rmap (kernel_derived_end rows) [0..<length rows] = Inr ends"
    and g: "rmap (gap_after rows ends) [0..<length rows - 1] = Inr gaps"
    and m: "set found = set (inverted_rows rows) \<union> set (concat gaps) \<union> set (overlap_rule rows ends) \<union> set (open_rules rows ends today)"
    by (rule report_parts[OF f])
  have ng: "only_lapsed x" if "harmless x" "x \<in> set (inverted_rows rows) \<union> set (overlap_rule rows ends) \<union> set (open_rules rows ends today)" for x
    using that(1) only_the_gap_rule[OF that(2)] by (auto simp: harmless_def)
  have gh: "harmless x" if "x \<in> set (concat gaps)" for x
    using gaps_are_gaps[OF g that] by (simp add: harmless_def)
  have lh: "only_lapsed x \<Longrightarrow> harmless x" for x by (simp add: harmless_def)
  have inv: "(\<forall>x \<in> set (inverted_rows rows). only_lapsed x) \<longleftrightarrow> (\<forall>r \<in> set rows. \<not> is_inverted r)"
    by (auto simp: inverted_rows_def only_lapsed_def)
  have "(\<forall>x \<in> set found. harmless x) \<longleftrightarrow>
    (\<forall>x \<in> set (inverted_rows rows). only_lapsed x) \<and> (\<forall>x \<in> set (overlap_rule rows ends). only_lapsed x) \<and>
    (\<forall>x \<in> set (open_rules rows ends today). only_lapsed x)"
    unfolding m using ng gh lh by blast
  then have P: "(\<forall>x \<in> set found. harmless x) \<longleftrightarrow> (\<forall>r \<in> set rows. \<not> is_inverted r) \<and>
    concat (map (overlaps_of rows ends) [0..<length rows]) = [] \<and> (\<forall>x \<in> set (open_rules rows ends today). only_lapsed x)"
    unfolding inv overlap_rule_lapsed[OF cap] .
  show ?thesis
  proof
    assume "\<forall>x \<in> set found. harmless x"
    then have p: "\<forall>r \<in> set rows. \<not> is_inverted r" "concat (map (overlaps_of rows ends) [0..<length rows]) = []"
      "\<forall>x \<in> set (open_rules rows ends today). only_lapsed x" using P by blast+
    with no_overlaps_iff[OF s d p(1)] one_open_single[OF s] open_rules_single[OF p(3)]
    show "one_open (set rows) \<and> apart (set rows)" by simp
  next
    assume t: "one_open (set rows) \<and> apart (set rows)"
    then have inv: "\<forall>r \<in> set rows. \<not> is_inverted r"
      using apartD(1)[of "set rows"] by (auto simp: is_inverted_def not_less split: option.splits)
    have "\<forall>x \<in> set (open_rules rows ends today). only_lapsed x"
      using open_rules_lapsed[OF s _ _ d] t one_open_single[OF s] by blast
    then show "\<forall>x \<in> set found. harmless x" using P inv no_overlaps_iff[OF s d inv] t by blast
  qed
qed

text \<open>It names nothing but a lapsed open row exactly when the rows are tiled.\<close>

lemma clean_iff_tiled:
  assumes s: "strictly_sorted rows" and cap: "length rows \<le> OVERLAP_ANALYSIS_CAP"
    and f: "find_period_anomalies (complete_roster.make i rows) today = Inr found"
  shows "(\<forall>x \<in> set found. only_lapsed x) \<longleftrightarrow> tiled (set rows)"
proof -
  obtain ends gaps where d: "rmap (kernel_derived_end rows) [0..<length rows] = Inr ends"
    and g: "rmap (gap_after rows ends) [0..<length rows - 1] = Inr gaps"
    and m: "set found = set (inverted_rows rows) \<union> set (concat gaps) \<union> set (overlap_rule rows ends) \<union> set (open_rules rows ends today)"
    by (rule report_parts[OF f])
  have "(\<forall>x \<in> set found. only_lapsed x) \<longleftrightarrow> (\<forall>x \<in> set found. harmless x) \<and> concat gaps = []"
  proof
    assume l: "\<forall>x \<in> set found. only_lapsed x"
    have "concat gaps = []"
    proof (cases "concat gaps")
      case (Cons y ys)
      then have y: "y \<in> set (concat gaps)" by simp
      with gaps_are_gaps[OF g y] l m show ?thesis by (auto simp: only_lapsed_def)
    qed
    with l show "(\<forall>x \<in> set found. harmless x) \<and> concat gaps = []" by (simp add: harmless_def)
  next
    assume h: "(\<forall>x \<in> set found. harmless x) \<and> concat gaps = []"
    show "\<forall>x \<in> set found. only_lapsed x"
    proof
      fix x assume x: "x \<in> set found"
      with h m have "harmless x" "x \<in> set (inverted_rows rows) \<union> set (overlap_rule rows ends) \<union> set (open_rules rows ends today)" by auto
      then show "only_lapsed x"
        using only_the_gap_rule[of x rows ends today] by (auto simp: harmless_def)
    qed
  qed
  also have "\<dots> \<longleftrightarrow> tiled (set rows)"
    unfolding harmless_iff_apart[OF s cap f] tiled_def using no_gaps_iff[OF s _ d g] by blast
  finally show ?thesis .
qed

text \<open>A roster whose windows are apart has a report.\<close>

lemma report_exists:
  assumes s: "strictly_sorted rows" and a: "apart (set rows)"
  shows "\<exists>found. find_period_anomalies (complete_roster.make i rows) today = Inr found"
proof -
  have dx: "\<exists>e. kernel_derived_end rows k = Inr e" if "k < length rows" for k
  proof (cases "rw_end_date (rows ! k) = None \<and> k + 1 < length rows")
    case True
    then have "rw_start_date (rows ! k) < rw_start_date (rows ! (k + 1))" using sorted_nth_less[OF s, of k "k + 1"] by simp
    then obtain e where "prev_day (rw_start_date (rows ! (k + 1))) = Some e"
      using prev_day_defined by blast
    with True show ?thesis by (simp add: kernel_derived_end_def)
  qed (auto simp: kernel_derived_end_def split: option.splits)
  have "\<exists>ends. rmap (kernel_derived_end rows) [0..<length rows] = Inr ends"
    by (rule rmap_exists) (use dx in auto)
  then obtain ends where d: "rmap (kernel_derived_end rows) [0..<length rows] = Inr ends" by blast
  have gx: "\<exists>e. gap_after rows ends k = Inr e" if k: "k + 1 < length rows" for k
  proof (cases "ends ! k")
    case None
    then show ?thesis by (simp add: gap_after_def)
  next
    case (Some e)
    let ?s = "rw_start_date (rows ! (k + 1))"
    have "e < ?s" using derived_end_before[OF s a _ _ _ k, of k e] derived_end(2)[OF d, of k] Some k by simp
    then obtain n p where "next_day e = Some n" "prev_day ?s = Some p"
      using next_day_defined[of e ?s] prev_day_defined[of e ?s] by blast
    with Some show ?thesis by (simp add: gap_after_def)
  qed
  have "\<exists>gaps. rmap (gap_after rows ends) [0..<length rows - 1] = Inr gaps"
    by (rule rmap_exists) (use gx in auto)
  with d show ?thesis by (auto simp: find_period_anomalies_def Let_def complete_roster.defs)
qed

end
