(* ===== verification/PeriodFacts.thy ===== *)
theory PeriodFacts
  imports RosterFacts
begin

text \<open>
  What the operations of \<open>Periods\<close> do to a roster. The set-level lemmas say that closing the open row
  and opening the one at the next day, and adding stubs that meet no row, keep windows apart; the rest
  connects them to the tables.
\<close>

section \<open>Rosters as sets\<close>

lemma close_keeps:
  assumes cur: "cur \<in> R" "rw_end_date cur = None" and one: "one_open R" and a: "apart R"
    and inj: "\<And>p q. p \<in> R \<Longrightarrow> q \<in> R \<Longrightarrow> rw_start_date p = rw_start_date q \<Longrightarrow> p = q"
    and r: "rw_start_date cur \<le> resolved" and nx: "next_day resolved = Some ns"
    and none: "\<And>q. q \<in> R \<Longrightarrow> rw_start_date cur < rw_start_date q \<Longrightarrow> resolved < rw_start_date q"
    and p: "rw_start_date p = ns" "rw_end_date p = None"
    and R': "R' = (R - {cur} - {x. rw_start_date x = ns}) \<union> {cur\<lparr>rw_end_date := Some resolved\<rparr>, p}"
  shows "one_open R'" "apart R'" "abutting R \<Longrightarrow> abutting R'"
proof -
  have gt: "resolved < ns" using next_day_gt[OF nx] .
  have only: "q = cur" if "q \<in> R" "rw_end_date q = None" for q
    using one that cur by (auto simp: one_open_def)
  have old: "x \<in> R' \<Longrightarrow> x \<in> R \<and> x \<noteq> cur \<and> rw_start_date x \<noteq> ns \<or> x = cur\<lparr>rw_end_date := Some resolved\<rparr> \<or> x = p" for x
    by (auto simp: R')
  have after: "ns \<le> rw_start_date q" if "q \<in> R" "rw_start_date cur < rw_start_date q" for q
    using next_day_least[OF nx none[OF that]] .
  show "one_open R'" unfolding one_open_def
  proof (rule ex1I[of _ p])
    show "p \<in> R' \<and> rw_end_date p = None" using p by (simp add: R')
    fix q assume "q \<in> R' \<and> rw_end_date q = None"
    with old[of q] only show "q = p" by auto
  qed
  have before: "rw_start_date x < rw_start_date cur" if "x \<in> R" "x \<noteq> cur" "rw_start_date x < ns" for x
    using that inj[OF that(1) cur(1)] after[OF that(1)] by (meson leD linorder_neqE)
  show "apart R'" unfolding apart_def
  proof (intro ballI allI impI conjI)
    fix x e assume x: "x \<in> R'" "rw_end_date x = Some e"
    then show "rw_start_date x \<le> e" using old[of x] apartD(1)[OF a] p r by auto
    fix q assume q: "q \<in> R'" "rw_start_date x < rw_start_date q"
    consider (o) "x \<in> R" "x \<noteq> cur" "rw_start_date x \<noteq> ns" | (c) "x = cur\<lparr>rw_end_date := Some resolved\<rparr>"
      using old[OF x(1)] x(2) p by auto
    then show "e < rw_start_date q"
    proof cases
      case o
      show ?thesis
      proof (cases "q = p")
        case True
        with q p before[OF o(1,2)] have l: "rw_start_date x < rw_start_date cur" by simp
        from apartD(2)[OF a o(1) x(2) cur(1) l] r gt True p show ?thesis by simp
      next
        case False
        with old[OF q(1)] q(2) apartD(2)[OF a o(1) x(2)] cur(1) show ?thesis by auto
      qed
    next
      case c
      with x(2) have "e = resolved" by simp
      with old[OF q(1)] c q(2) none gt p show ?thesis by auto
    qed
  qed
  show "abutting R'" if b: "abutting R" unfolding abutting_def
  proof (intro ballI allI impI)
    fix x e assume x: "x \<in> R'" "rw_end_date x = Some e" and later: "\<exists>q \<in> R'. rw_start_date x < rw_start_date q"
    have starts: "\<exists>z \<in> R'. rw_start_date z = rw_start_date y" if "y \<in> R" for y
    proof (cases "rw_start_date y = ns")
      case True
      with p show ?thesis by (intro bexI[of _ p]) (auto simp: R')
    next
      case False
      with that show ?thesis
        by (cases "y = cur") (auto simp: R' intro: bexI[of _ "cur\<lparr>rw_end_date := Some resolved\<rparr>"])
    qed
    consider (o) "x \<in> R" "x \<noteq> cur" "rw_start_date x \<noteq> ns" | (c) "x = cur\<lparr>rw_end_date := Some resolved\<rparr>"
      using old[OF x(1)] x(2) p by auto
    then show "\<exists>q \<in> R'. next_day e = Some (rw_start_date q)"
    proof cases
      case o
      have "\<exists>q \<in> R. rw_start_date x < rw_start_date q"
      proof (cases "rw_start_date x < ns")
        case True
        from before[OF o(1,2) True] cur(1) show ?thesis by blast
      next
        case False
        from later obtain q where q: "q \<in> R'" "rw_start_date x < rw_start_date q" by blast
        with old[OF q(1)] False r gt p have "q \<in> R" by auto
        with q show ?thesis by blast
      qed
      with b o(1) x(2) obtain q where "q \<in> R" "next_day e = Some (rw_start_date q)" unfolding abutting_def by blast
      with starts[of q] show ?thesis by metis
    next
      case c
      with x(2) nx p show ?thesis by (intro bexI[of _ p]) (auto simp: R')
    qed
  qed
qed

lemma stubs_keep:
  assumes one: "one_open R" and a: "apart R"
    and S: "\<And>x. x \<in> S \<Longrightarrow> \<exists>e. rw_end_date x = Some e \<and> rw_start_date x \<le> e \<and>
      (\<forall>q \<in> R. rw_start_date q \<noteq> rw_start_date x \<and>
         (case rw_end_date q of None \<Rightarrow> rw_start_date q < rw_start_date x
          | Some y \<Rightarrow> \<not> (rw_start_date q \<le> e \<and> rw_start_date x \<le> y)))"
    and pw: "\<And>x y e. x \<in> S \<Longrightarrow> y \<in> S \<Longrightarrow> rw_end_date x = Some e \<Longrightarrow> rw_start_date x < rw_start_date y \<Longrightarrow> e < rw_start_date y"
  shows "one_open (R \<union> S)" "apart (R \<union> S)"
proof -
  have closed: "rw_end_date x \<noteq> None" if "x \<in> S" for x using S[OF that] by auto
  then have "x \<in> R \<union> S \<and> rw_end_date x = None \<longleftrightarrow> x \<in> R \<and> rw_end_date x = None" for x by blast
  with one show "one_open (R \<union> S)" by (simp only: one_open_def)
  show "apart (R \<union> S)" unfolding apart_def
  proof (intro ballI allI impI conjI)
    fix x e assume x: "x \<in> R \<union> S" "rw_end_date x = Some e"
    then show l: "rw_start_date x \<le> e" using apartD(1)[OF a, of x] S[of x] by auto
    fix q assume q: "q \<in> R \<union> S" "rw_start_date x < rw_start_date q"
    consider "x \<in> R" "q \<in> R" | "x \<in> R" "q \<in> S" | "x \<in> S" "q \<in> R" | "x \<in> S" "q \<in> S" using x q by blast
    then show "e < rw_start_date q"
    proof cases
      case 1 then show ?thesis using apartD(2)[OF a] x q by blast
    next
      case 2
      from S[OF this(2)] this(1) obtain y where "rw_start_date q \<le> y" "\<not> (rw_start_date x \<le> y \<and> rw_start_date q \<le> e)"
        using x(2) by fastforce
      with q(2) show ?thesis by auto
    next
      case 3
      from S[OF this(1)] this(2) x(2) have "case rw_end_date q of None \<Rightarrow> rw_start_date q < rw_start_date x
          | Some y \<Rightarrow> \<not> (rw_start_date q \<le> e \<and> rw_start_date x \<le> y)" by auto
      with q(2) apartD(1)[OF a 3(2)] show ?thesis
        by (cases "rw_end_date q") (auto simp: not_le dest: less_trans less_le_trans)
    next
      case 4 then show ?thesis using pw x q by blast
    qed
  qed
qed

section \<open>Tables\<close>

definition periods_wf :: "budget_db \<Rightarrow> bool" where
  "periods_wf db \<longleftrightarrow> distinct (map bp_id (periods db)) \<and> (\<forall>p \<in> set (periods db). bp_id p < next_key db) \<and>
     distinct (map (\<lambda>p. (bp_org_id p, bp_start_date p)) (periods db)) \<and>
     distinct (map (\<lambda>b. (bg_org_id b, bg_category_id b, bg_period_start b)) (budgets db))"

definition roster_set :: "budget_db \<Rightarrow> int \<Rightarrow> roster_row set" where
  "roster_set db org_id = roster_row_of ` set (org_periods db org_id)"

lemma roster_row_of_sel [simp]:
  "rw_id (roster_row_of p) = bp_id p" "rw_start_date (roster_row_of p) = bp_start_date p"
  "rw_end_date (roster_row_of p) = bp_end_date p"
  by (simp_all add: roster_row_of_def)

lemma org_periods_mem: "p \<in> set (org_periods db org) \<longleftrightarrow> p \<in> set (periods db) \<and> bp_org_id p = org"
  by (auto simp: org_periods_def)

lemma period_start_unique:
  assumes "periods_wf db" "p \<in> set (org_periods db org)" "q \<in> set (org_periods db org)" "bp_start_date p = bp_start_date q"
  shows "p = q"
  using assms key_unique[of "\<lambda>p. (bp_org_id p, bp_start_date p)" "periods db" p q]
  by (auto simp: periods_wf_def org_periods_mem)

lemma org_periods_distinct:
  assumes "periods_wf db"
  shows "distinct (map bp_start_date (org_periods db org))" "distinct (org_periods db org)"
proof -
  have "distinct (periods db)" using assms by (auto simp: periods_wf_def distinct_map)
  then show d: "distinct (org_periods db org)" by (simp add: org_periods_def)
  show "distinct (map bp_start_date (org_periods db org))"
    using d period_start_unique[OF assms] by (auto simp: distinct_map inj_on_def)
qed

lemma roster_rows:
  assumes "periods_wf db"
  shows "strictly_sorted (cr_rows (load_complete_roster db org))"
    and "set (cr_rows (load_complete_roster db org)) = roster_set db org"
proof -
  have "sorted (map bp_start_date (sort_key bp_start_date (org_periods db org)))" by simp
  moreover have "distinct (map bp_start_date (sort_key bp_start_date (org_periods db org)))"
    using org_periods_distinct[OF assms, of org] by (simp add: distinct_map)
  ultimately have "sorted_wrt (<) (map bp_start_date (sort_key bp_start_date (org_periods db org)))"
    by (simp add: strict_sorted_iff)
  then show "strictly_sorted (cr_rows (load_complete_roster db org))"
    by (simp add: strictly_sorted_def load_complete_roster_def comp_def)
  show "set (cr_rows (load_complete_roster db org)) = roster_set db org"
    by (simp add: load_complete_roster_def roster_set_def)
qed

lemma find_period_by_start_Some:
  "find_period_by_start db org d = Some p \<Longrightarrow> p \<in> set (org_periods db org) \<and> bp_start_date p = d"
  by (auto simp: find_period_by_start_def find_Some_iff)

lemma find_period_by_start_None:
  "find_period_by_start db org d = None \<longleftrightarrow> (\<forall>p \<in> set (org_periods db org). bp_start_date p \<noteq> d)"
  by (auto simp: find_period_by_start_def find_None_iff)

lemma next_period_start_None:
  "next_period_start db org d = None \<longleftrightarrow> (\<forall>p \<in> set (org_periods db org). \<not> d < bp_start_date p)"
proof -
  have "next_period_start db org d = None \<longleftrightarrow> sort (filter (\<lambda>x. d < x) (map bp_start_date (org_periods db org))) = []"
    by (auto simp: next_period_start_def split: list.splits)
  also have "\<dots> \<longleftrightarrow> filter (\<lambda>x. d < x) (map bp_start_date (org_periods db org)) = []"
    by (metis set_empty set_sort)
  finally show ?thesis by (auto simp: filter_empty_conv)
qed

lemma next_period_start_Some:
  assumes "next_period_start db org d = Some s0"
  shows "d < s0" "\<exists>p \<in> set (org_periods db org). bp_start_date p = s0"
    and "p \<in> set (org_periods db org) \<Longrightarrow> d < bp_start_date p \<Longrightarrow> s0 \<le> bp_start_date p"
proof -
  let ?xs = "filter (\<lambda>x. d < x) (map bp_start_date (org_periods db org))"
  from assms obtain ys where ys: "sort ?xs = s0 # ys" by (auto simp: next_period_start_def split: list.splits)
  have "set (sort ?xs) = set ?xs" "sorted (sort ?xs)" by simp_all
  then have m: "set (s0 # ys) = set ?xs" "sorted (s0 # ys)" using ys by metis+
  then have "s0 \<in> set ?xs" by auto
  then show "d < s0" "\<exists>p \<in> set (org_periods db org). bp_start_date p = s0" by auto
  show "s0 \<le> bp_start_date p" if "p \<in> set (org_periods db org)" "d < bp_start_date p"
  proof -
    from that have "bp_start_date p \<in> set (s0 # ys)" unfolding m by simp
    with m(2) show ?thesis by auto
  qed
qed

lemma find_open_period_Some:
  assumes "find_open_period db org = Some p"
  shows "p \<in> set (org_periods db org)" "bp_end_date p = None"
proof -
  from assms obtain ps where "open_periods db org = p # ps" by (auto simp: find_open_period_def split: list.splits)
  then have "p \<in> set (open_periods db org)" by simp
  then show "p \<in> set (org_periods db org)" "bp_end_date p = None" by (auto simp: open_periods_def)
qed

lemma open_period:
  assumes one: "one_open (roster_set db org)" and p: "p \<in> set (org_periods db org)" "bp_end_date p = None"
    and wf: "periods_wf db"
  shows "find_open_period db org = Some p"
proof -
  have u: "q = p" if q: "q \<in> set (org_periods db org)" "bp_end_date q = None" for q
  proof -
    from one obtain r where r: "\<And>x. x \<in> roster_set db org \<and> rw_end_date x = None \<Longrightarrow> x = r"
      by (auto simp: one_open_def)
    have "roster_row_of q = r" "roster_row_of p = r" using r p q by (auto simp: roster_set_def)
    then have "bp_start_date q = bp_start_date p" by (metis roster_row_of_sel(2))
    from period_start_unique[OF wf q(1) p(1) this] show ?thesis .
  qed
  have "p \<in> set (open_periods db org)" using p by (auto simp: open_periods_def)
  then obtain q qs where q: "open_periods db org = q # qs" by (cases "open_periods db org") auto
  then have "q \<in> set (open_periods db org)" by simp
  then have "q = p" using u by (auto simp: open_periods_def)
  with q show ?thesis by (simp add: find_open_period_def)
qed

lemma one_open_period:
  assumes "one_open (roster_set db org)" "periods_wf db"
  obtains p where "p \<in> set (org_periods db org)" "bp_end_date p = None" "find_open_period db org = Some p"
proof -
  from assms(1) obtain p where "p \<in> set (org_periods db org)" "bp_end_date p = None"
    by (auto simp: one_open_def roster_set_def)
  with open_period[OF assms(1) this assms(2)] that show thesis by blast
qed

lemma get_current_open:
  "find_open_period db org = Some p \<Longrightarrow> get_current_period rd s org today db = Inr (db, p)"
  by (simp add: get_current_period_def)

text \<open>The budgets of a period that stays where it is are refreshed without a conflict.\<close>

lemma reanchor_in_place:
  assumes "periods_wf db"
  shows "\<exists>bs n. reanchor_period_dependents s org d d e db = Inr (db\<lparr>budgets := bs\<rparr>, n) \<and> periods_wf (db\<lparr>budgets := bs\<rparr>)"
proof -
  let ?key = "\<lambda>b. (bg_org_id b, bg_category_id b, bg_period_start b)"
  let ?bs = "reanchored (\<lambda>b. moves_with org d b \<and> bg_period_end b \<noteq> e) d e (budgets db)"
  have "?key (if moves_with org d b \<and> bg_period_end b \<noteq> e then b\<lparr>bg_period_start := d, bg_period_end := e\<rparr> else b) = ?key b" for b
    by (simp add: moves_with_def)
  then have k: "map ?key ?bs = map ?key (budgets db)" by (simp add: reanchored_def)
  then have "distinct (map ?key ?bs)" using assms by (simp add: periods_wf_def)
  then have wf: "periods_wf (db\<lparr>budgets := ?bs\<rparr>)" using assms by (simp add: periods_wf_def)
  have "\<not> list_ex (\<lambda>b. moves_with org d b \<and> bg_period_end b \<noteq> e) (budgets db) \<Longrightarrow>
      reanchor_period_dependents s org d d e db = Inr (db\<lparr>budgets := budgets db\<rparr>, 0)"
    by (simp add: reanchor_period_dependents_def Let_def)
  moreover have "list_ex (\<lambda>b. moves_with org d b \<and> bg_period_end b \<noteq> e) (budgets db) \<Longrightarrow>
      \<exists>n. reanchor_period_dependents s org d d e db = Inr (db\<lparr>budgets := ?bs\<rparr>, n)"
    using \<open>distinct (map ?key ?bs)\<close>
    by (simp add: reanchor_period_dependents_def Let_def filter_empty_conv)
  moreover have "periods_wf (db\<lparr>budgets := budgets db\<rparr>)" using assms by simp
  ultimately show ?thesis using wf by blast
qed

end
