(* ===== verification/PeriodClose.thy ===== *)
theory PeriodClose
  imports PeriodFacts
begin

text \<open>
  The close step, the close job and the stubs on the tables: what each returns and that it keeps the
  windows of a roster apart.
\<close>

section \<open>One close\<close>

lemma set_end_mem:
  assumes "periods_wf db" "c \<in> set (periods db)"
  shows "set (periods (set_end (bp_id c) e db)) = (set (periods db) - {c}) \<union> {c\<lparr>bp_end_date := e\<rparr>}"
proof -
  have u: "bp_id p = bp_id c \<longleftrightarrow> p = c" if "p \<in> set (periods db)" for p
    using key_unique[of bp_id "periods db" p c] assms that by (auto simp: periods_wf_def)
  have "set (periods (set_end (bp_id c) e db)) = (\<lambda>p. if bp_id p = bp_id c then p\<lparr>bp_end_date := e\<rparr> else p) ` set (periods db)"
    by (simp add: set_end_def set_update_row)
  also have "\<dots> = (\<lambda>p. if p = c then c\<lparr>bp_end_date := e\<rparr> else p) ` set (periods db)"
    by (rule image_cong) (use u in simp_all)
  also have "\<dots> = (set (periods db) - {c}) \<union> {c\<lparr>bp_end_date := e\<rparr>}" using assms(2) by auto
  finally show ?thesis .
qed

lemma set_end_org:
  assumes "periods_wf db" "c \<in> set (org_periods db org)"
  shows "set (org_periods (set_end (bp_id c) e db) org) = (set (org_periods db org) - {c}) \<union> {c\<lparr>bp_end_date := e\<rparr>}"
  using set_end_mem[OF assms(1), of c e] assms(2) by (auto simp: org_periods_def)

lemma set_end_other:
  assumes "periods_wf db" "c \<in> set (org_periods db org)" "org' \<noteq> org"
  shows "org_periods (set_end (bp_id c) e db) org' = org_periods db org'"
proof -
  have "filter (\<lambda>p. bp_org_id p = org') (map (\<lambda>r. if bp_id r = bp_id c then r\<lparr>bp_end_date := e\<rparr> else r) xs) =
      filter (\<lambda>p. bp_org_id p = org') xs" if "\<And>p. p \<in> set xs \<Longrightarrow> bp_id p = bp_id c \<Longrightarrow> p = c" for xs
    using that assms(2,3) by (induction xs) (auto simp: org_periods_mem)
  moreover have "p \<in> set (periods db) \<Longrightarrow> bp_id p = bp_id c \<Longrightarrow> p = c" for p
    using key_unique[of bp_id "periods db" p c] assms(1,2) by (auto simp: periods_wf_def org_periods_mem)
  ultimately show ?thesis by (simp add: org_periods_def set_end_def update_row_def)
qed

lemma set_end_sel:
  "(\<And>p. g (p\<lparr>bp_end_date := e\<rparr>) = g p) \<Longrightarrow> map g (periods (set_end i e db)) = map g (periods db)"
  "next_key (set_end i e db) = next_key db" "budgets (set_end i e db) = budgets db"
  by (auto simp: set_end_def update_row_def)

lemma set_end_wf:
  assumes "periods_wf db"
  shows "periods_wf (set_end i e db)"
proof -
  have ids: "map bp_id (periods (set_end i e db)) = map bp_id (periods db)" by (rule set_end_sel(1)) simp
  have keys: "map (\<lambda>p. (bp_org_id p, bp_start_date p)) (periods (set_end i e db)) = map (\<lambda>p. (bp_org_id p, bp_start_date p)) (periods db)"
    by (rule set_end_sel(1)) simp
  have "bp_id p < next_key db" if "p \<in> set (periods (set_end i e db))" for p
  proof -
    from that have "bp_id p \<in> set (map bp_id (periods db))" unfolding ids[symmetric] by simp
    with assms show ?thesis by (auto simp: periods_wf_def)
  qed
  with assms show ?thesis unfolding periods_wf_def ids keys set_end_sel(2,3) by simp
qed

lemma insert_period_wf:
  assumes "periods_wf db" "find_period_by_start db org d = None"
  shows "periods_wf (insert_period (new_period_row db org d e) db)"
  using assms find_period_by_start_None[of db org d]
  by (auto simp: periods_wf_def insert_period_def new_period_row_def org_periods_mem)

lemma insert_period_org:
  "set (org_periods (insert_period (new_period_row db org d e) db) org) = insert (new_period_row db org d e) (set (org_periods db org))"
  "org' \<noteq> org \<Longrightarrow> org_periods (insert_period (new_period_row db org d e) db) org' = org_periods db org'"
  by (auto simp: org_periods_def insert_period_def new_period_row_def)

lemma org_periods_budgets [simp]: "org_periods (db\<lparr>budgets := bs\<rparr>) org = org_periods db org"
  by (simp add: org_periods_def)

lemma find_period_budgets [simp]: "find_period_by_start (db\<lparr>budgets := bs\<rparr>) org d = find_period_by_start db org d"
  by (simp add: find_period_by_start_def)

lemma set_end_budgets: "set_end i e (db\<lparr>budgets := bs\<rparr>) = (set_end i e db)\<lparr>budgets := bs\<rparr>"
  by (simp add: set_end_def)

text \<open>The rows after a close: the closed one, the opened one, and the others as they were.\<close>

definition closes_to :: "budget_db \<Rightarrow> int \<Rightarrow> billing_period \<Rightarrow> date \<Rightarrow> date \<Rightarrow> budget_db \<Rightarrow> billing_period \<Rightarrow> bool" where
  "closes_to db org cur resolved ns db' p \<longleftrightarrow>
     bp_start_date p = ns \<and> bp_end_date p = None \<and> bp_org_id p = org \<and>
     set (org_periods db' org) =
       (set (org_periods db org) - {cur} - {x. bp_start_date x = ns}) \<union> {cur\<lparr>bp_end_date := Some resolved\<rparr>, p} \<and>
     (\<forall>x \<in> set (org_periods db org). bp_start_date x = ns \<longrightarrow> p = x\<lparr>bp_end_date := None\<rparr>) \<and>
     (\<forall>o'. o' \<noteq> org \<longrightarrow> org_periods db' o' = org_periods db o')"

lemma apply_close_step_spec:
  assumes wf: "periods_wf db" and c: "cur \<in> set (org_periods db org)"
    and r: "resolved_close db org (bp_start_date cur) requested = Inr resolved"
    and n: "next_day resolved = Some ns" and le: "bp_start_date cur \<le> resolved"
  shows "\<exists>db' p. apply_close_step s org cur requested db = Inr (db', p) \<and> periods_wf db' \<and> closes_to db org cur resolved ns db' p"
proof -
  have ns: "bp_start_date cur < ns" using le next_day_gt[OF n] by simp
  from reanchor_in_place[OF wf, of s org "bp_start_date cur" "Some resolved"] obtain bs k where
    re: "reanchor_period_dependents s org (bp_start_date cur) (bp_start_date cur) (Some resolved) db = Inr (db\<lparr>budgets := bs\<rparr>, k)"
    and wf1: "periods_wf (db\<lparr>budgets := bs\<rparr>)" by blast
  define db2 where "db2 = set_end (bp_id cur) (Some resolved) (db\<lparr>budgets := bs\<rparr>)"
  have wf2: "periods_wf db2" unfolding db2_def by (rule set_end_wf[OF wf1])
  have o2: "set (org_periods db2 org) = (set (org_periods db org) - {cur}) \<union> {cur\<lparr>bp_end_date := Some resolved\<rparr>}"
    unfolding db2_def using set_end_org[OF wf1, of cur org] c by simp
  have oo: "o' \<noteq> org \<Longrightarrow> org_periods db2 o' = org_periods db o'" for o'
    unfolding db2_def using set_end_other[OF wf1, of cur org o'] c by simp
  show ?thesis
  proof (cases "find_period_by_start db2 org ns")
    case None
    let ?p = "new_period_row db2 org ns None"
    have step: "apply_close_step s org cur requested db = Inr (insert_period ?p db2, ?p)"
      using r n re None by (simp add: apply_close_step_def Let_def db2_def)
    have miss: "x \<in> set (org_periods db org) \<Longrightarrow> bp_start_date x \<noteq> ns" for x
      using None ns o2 unfolding find_period_by_start_None by (cases "x = cur") auto
    have "closes_to db org cur resolved ns (insert_period ?p db2) ?p"
      unfolding closes_to_def using miss o2 oo insert_period_org(1)[of db2 org ns None] insert_period_org(2)[of _ org db2 ns None]
      by (auto simp: new_period_row_def)
    with step insert_period_wf[OF wf2 None] show ?thesis by blast
  next
    case (Some x)
    then have x: "x \<in> set (org_periods db2 org)" "bp_start_date x = ns" by (auto dest: find_period_by_start_Some)
    then have xdb: "x \<in> set (org_periods db org)" "x \<noteq> cur" using o2 ns by auto
    define db3 where "db3 = set_end (bp_id x) None db2"
    have wf3: "periods_wf db3" unfolding db3_def by (rule set_end_wf[OF wf2])
    from reanchor_in_place[OF wf3, of s org ns None] obtain bs' k' where
      re': "reanchor_period_dependents s org ns ns None db3 = Inr (db3\<lparr>budgets := bs'\<rparr>, k')"
      and wf4: "periods_wf (db3\<lparr>budgets := bs'\<rparr>)" by blast
    have step: "apply_close_step s org cur requested db = Inr (db3\<lparr>budgets := bs'\<rparr>, x\<lparr>bp_end_date := None\<rparr>)"
      using r n re Some re' by (simp add: apply_close_step_def Let_def db2_def db3_def)
    have same: "y \<in> set (org_periods db org) \<Longrightarrow> bp_start_date y = ns \<Longrightarrow> y = x" for y
      using period_start_unique[OF wf _ xdb(1)] x(2) by simp
    have keep: "cur\<lparr>bp_end_date := Some resolved\<rparr> \<noteq> x"
      using ns x(2) by auto
    have "set (org_periods db2 org) - {x} =
        (set (org_periods db org) - {cur} - {x. bp_start_date x = ns}) \<union> {cur\<lparr>bp_end_date := Some resolved\<rparr>}"
      unfolding o2 using same x(2) keep by blast
    then have "set (org_periods (db3\<lparr>budgets := bs'\<rparr>) org) =
        (set (org_periods db org) - {cur} - {x. bp_start_date x = ns}) \<union> {cur\<lparr>bp_end_date := Some resolved\<rparr>, x\<lparr>bp_end_date := None\<rparr>}"
      using set_end_org[OF wf2 x(1), of None] by (simp add: db3_def Un_commute insert_commute)
    moreover have "o' \<noteq> org \<Longrightarrow> org_periods (db3\<lparr>budgets := bs'\<rparr>) o' = org_periods db o'" for o'
      using set_end_other[OF wf2 x(1), of o' None] oo[of o'] by (simp add: db3_def)
    ultimately have "closes_to db org cur resolved ns (db3\<lparr>budgets := bs'\<rparr>) (x\<lparr>bp_end_date := None\<rparr>)"
      unfolding closes_to_def using same x xdb by (auto simp: org_periods_mem)
    with step wf4 show ?thesis by blast
  qed
qed

lemma closes_to_length:
  assumes wf': "periods_wf db'" and t: "closes_to db org cur resolved ns db' p" and c: "cur \<in> set (org_periods db org)"
  shows "length (org_periods db' org) \<le> length (org_periods db org) + 1"
proof -
  let ?A = "set (org_periods db org)"
  have "length (org_periods db' org) = card (set (org_periods db' org))"
    using distinct_card[OF org_periods_distinct(2)[OF wf']] by simp
  also have "set (org_periods db' org) = (?A - {cur} - {x. bp_start_date x = ns}) \<union> {cur\<lparr>bp_end_date := Some resolved\<rparr>, p}"
    using t by (simp add: closes_to_def)
  also have "card \<dots> \<le> card (?A - {cur} - {x. bp_start_date x = ns}) + card {cur\<lparr>bp_end_date := Some resolved\<rparr>, p}"
    by (rule card_Un_le)
  also have "\<dots> \<le> card (?A - {cur}) + 2"
    by (intro add_mono card_mono) (auto simp: card_insert_if)
  also have "card (?A - {cur}) = card ?A - 1" using c by simp
  also have "card ?A - 1 + 2 = card ?A + 1" using c card_gt_0_iff[of ?A] by fastforce
  also have "card ?A \<le> length (org_periods db org)" by (rule card_length)
  finally show ?thesis by simp
qed

lemma closes_to_keeps:
  assumes wf: "periods_wf db" and one: "one_open (roster_set db org)" and a: "apart (roster_set db org)"
    and c: "cur \<in> set (org_periods db org)" "bp_end_date cur = None"
    and n: "next_day resolved = Some ns" and le: "bp_start_date cur \<le> resolved"
    and none: "\<And>q. q \<in> set (org_periods db org) \<Longrightarrow> bp_start_date cur < bp_start_date q \<Longrightarrow> resolved < bp_start_date q"
    and t: "closes_to db org cur resolved ns db' p"
  shows "one_open (roster_set db' org)" "apart (roster_set db' org)"
    and "abutting (roster_set db org) \<Longrightarrow> abutting (roster_set db' org)"
proof -
  note T = t[unfolded closes_to_def]
  have inj: "inj_on roster_row_of (set (org_periods db org))"
    using period_start_unique[OF wf] by (metis inj_onI roster_row_of_sel(2))
  have e1: "roster_row_of ` (set (org_periods db org) - {cur} - {x. bp_start_date x = ns}) =
      roster_set db org - {roster_row_of cur} - {x. rw_start_date x = ns}"
    unfolding roster_set_def using inj c(1) by (auto simp: inj_on_def)
  have e2: "roster_row_of (cur\<lparr>bp_end_date := Some resolved\<rparr>) = (roster_row_of cur)\<lparr>rw_end_date := Some resolved\<rparr>"
    by (simp add: roster_row_of_def)
  have e3: "set (org_periods db' org) =
       (set (org_periods db org) - {cur} - {x. bp_start_date x = ns}) \<union> {cur\<lparr>bp_end_date := Some resolved\<rparr>, p}"
    using T by blast
  have R': "roster_set db' org = (roster_set db org - {roster_row_of cur} - {x. rw_start_date x = ns}) \<union>
      {(roster_row_of cur)\<lparr>rw_end_date := Some resolved\<rparr>, roster_row_of p}"
    unfolding roster_set_def[of db'] e3 image_Un e1 image_insert image_empty e2 ..
  have u: "x = y" if "x \<in> roster_set db org" "y \<in> roster_set db org" "rw_start_date x = rw_start_date y" for x y
  proof -
    from that(1,2) obtain x' y' where "x' \<in> set (org_periods db org)" "x = roster_row_of x'"
      "y' \<in> set (org_periods db org)" "y = roster_row_of y'" unfolding roster_set_def by blast
    with that(3) period_start_unique[OF wf, of x' org y'] show ?thesis by simp
  qed
  have c': "roster_row_of cur \<in> roster_set db org" "rw_end_date (roster_row_of cur) = None" using c by (auto simp: roster_set_def)
  have none': "q \<in> roster_set db org \<Longrightarrow> rw_start_date (roster_row_of cur) < rw_start_date q \<Longrightarrow> resolved < rw_start_date q" for q
    using none by (auto simp: roster_set_def)
  have p: "rw_start_date (roster_row_of p) = ns" "rw_end_date (roster_row_of p) = None" using T by simp_all
  have le': "rw_start_date (roster_row_of cur) \<le> resolved" using le by simp
  note K = close_keeps[OF c' one a u le' n none' p R']
  from K show "one_open (roster_set db' org)" "apart (roster_set db' org)"
    "abutting (roster_set db org) \<Longrightarrow> abutting (roster_set db' org)" by blast+
qed

lemma resolved_close_exists:
  assumes "bp_start_date cur \<le> requested"
  shows "\<exists>resolved. resolved_close db org (bp_start_date cur) requested = Inr resolved \<and> bp_start_date cur \<le> resolved \<and>
    resolved \<le> requested \<and>
    (\<forall>q \<in> set (org_periods db org). bp_start_date cur < bp_start_date q \<longrightarrow> resolved < bp_start_date q) \<and>
    (resolved < requested \<longrightarrow> (\<exists>q \<in> set (org_periods db org). next_day resolved = Some (bp_start_date q) \<and> bp_start_date q \<le> requested)) \<and>
    (resolved = requested \<longrightarrow> (\<forall>q \<in> set (org_periods db org). bp_start_date cur < bp_start_date q \<longrightarrow> requested < bp_start_date q))"
proof (cases "next_period_start db org (bp_start_date cur)")
  case None
  then have "resolved_close db org (bp_start_date cur) requested = Inr requested" by (simp add: resolved_close_def)
  with assms None show ?thesis unfolding next_period_start_None by (intro exI[of _ requested]) auto
next
  case (Some s0)
  note S = next_period_start_Some[OF Some]
  show ?thesis
  proof (cases "s0 \<le> requested")
    case True
    from S(1) obtain e where e: "prev_day s0 = Some e"
      using prev_day_None[of s0 "bp_start_date cur"] S(1) by (cases "prev_day s0") (auto dest: less_imp_le)
    note E = next_prev_day[OF e]
    have "bp_start_date cur \<le> e" using prev_day_greatest[OF e S(1)] .
    moreover have "e < s0" using prev_day_less[OF e] .
    moreover have "resolved_close db org (bp_start_date cur) requested = Inr e" using Some True e by (simp add: resolved_close_def)
    moreover obtain q where "q \<in> set (org_periods db org)" "bp_start_date q = s0" using S(2) by blast
    ultimately show ?thesis using True E S(3) by (intro exI[of _ e]) (auto dest: less_le_trans)
  next
    case False
    then have "resolved_close db org (bp_start_date cur) requested = Inr requested" using Some by (simp add: resolved_close_def)
    with False assms S(3) show ?thesis by (intro exI[of _ requested]) (auto simp: not_le dest: less_le_trans)
  qed
qed

lemma close_period_spec:
  assumes wf: "periods_wf db" and one: "one_open (roster_set db org)" and a: "apart (roster_set db org)"
    and c: "find_open_period db org = Some cur" and d: "bp_start_date cur \<le> d" "d \<le> today" and nx: "next_day d \<noteq> None"
  shows "\<exists>db' p resolved ns. close_period rd s org (Some d) today db = Inr (db', p, [bp_id cur]) \<and> periods_wf db' \<and>
    closes_to db org cur resolved ns db' p \<and> bp_start_date cur \<le> resolved \<and> resolved \<le> d \<and> next_day resolved = Some ns \<and>
    (resolved < d \<longrightarrow> (\<exists>q \<in> set (org_periods db org). ns = bp_start_date q \<and> bp_start_date q \<le> d)) \<and>
    (\<forall>q \<in> set (org_periods db org). bp_start_date cur < bp_start_date q \<longrightarrow> resolved < bp_start_date q) \<and>
    one_open (roster_set db' org) \<and> apart (roster_set db' org) \<and>
    (abutting (roster_set db org) \<longrightarrow> abutting (roster_set db' org)) \<and> find_open_period db' org = Some p"
proof -
  note C = find_open_period_Some[OF c]
  from resolved_close_exists[OF d(1), of db org] obtain resolved where
    r: "resolved_close db org (bp_start_date cur) d = Inr resolved" "bp_start_date cur \<le> resolved" "resolved \<le> d"
    "\<forall>q \<in> set (org_periods db org). bp_start_date cur < bp_start_date q \<longrightarrow> resolved < bp_start_date q"
    "resolved < d \<longrightarrow> (\<exists>q \<in> set (org_periods db org). next_day resolved = Some (bp_start_date q) \<and> bp_start_date q \<le> d)" by blast
  obtain ns where n: "next_day resolved = Some ns"
  proof (cases "resolved = d")
    case False
    with r(3,5) that show thesis by auto
  qed (use nx that in auto)
  from apply_close_step_spec[OF wf C(1) r(1) n r(2), of s] obtain db' p where
    st: "apply_close_step s org cur d db = Inr (db', p)" "periods_wf db'" "closes_to db org cur resolved ns db' p" by blast
  note K = closes_to_keeps[OF wf one a C n r(2) _ st(3)]
  have K': "one_open (roster_set db' org)" "apart (roster_set db' org)"
    "abutting (roster_set db org) \<Longrightarrow> abutting (roster_set db' org)" using K r(4) by blast+
  have p: "p \<in> set (org_periods db' org)" "bp_end_date p = None" using st(3) by (auto simp: closes_to_def)
  have "close_period rd s org (Some d) today db = Inr (db', p, [bp_id cur])"
    using get_current_open[OF c] C(2) d st(1) by (simp add: close_period_def)
  with st r n K' open_period[OF K'(1) p st(2)] show ?thesis by (intro exI[of _ db'] exI[of _ p] exI[of _ resolved] exI[of _ ns]) auto
qed

end
