(* ===== verification/BudgetInv.thy ===== *)
theory BudgetInv
  imports Budgets PeriodClose
begin

text \<open>
  The invariant of the periods and budgets tables, and that every operation of \<open>Periods\<close> and
  \<open>Budgets\<close> keeps it: the unique constraints hold, an organisation has at most one open period, and
  every budget carries the window of a stored period.
\<close>

section \<open>The invariant\<close>

definition anchor :: "budget \<Rightarrow> billing_period \<Rightarrow> bool" where
  "anchor b p \<longleftrightarrow> bp_org_id p = bg_org_id b \<and> bp_start_date p = bg_period_start b \<and> bp_end_date p = bg_period_end b"

definition tables_ok :: "budget_db \<Rightarrow> bool" where
  "tables_ok db \<longleftrightarrow> periods_wf db \<and> distinct (map bg_id (budgets db)) \<and> (\<forall>b \<in> set (budgets db). bg_id b < next_key db) \<and>
     (\<forall>b \<in> set (budgets db). \<exists>p \<in> set (periods db). anchor b p)"

definition opens_once :: "budget_db \<Rightarrow> bool" where
  "opens_once db \<longleftrightarrow> (\<forall>p \<in> set (periods db). \<forall>q \<in> set (periods db).
     bp_org_id p = bp_org_id q \<and> bp_end_date p = None \<and> bp_end_date q = None \<longrightarrow> p = q)"

definition book_ok :: "budget_db \<Rightarrow> bool" where
  "book_ok db \<longleftrightarrow> tables_ok db \<and> opens_once db"

lemma book_okD: "book_ok db \<Longrightarrow> tables_ok db" "book_ok db \<Longrightarrow> opens_once db" "book_ok db \<Longrightarrow> periods_wf db"
  by (simp_all add: book_ok_def tables_ok_def)

lemma opens_onceD:
  "opens_once db \<Longrightarrow> p \<in> set (periods db) \<Longrightarrow> q \<in> set (periods db) \<Longrightarrow> bp_org_id p = bp_org_id q \<Longrightarrow>
    bp_end_date p = None \<Longrightarrow> bp_end_date q = None \<Longrightarrow> p = q"
  unfolding opens_once_def by blast

section \<open>Elementary edits\<close>

lemma insert_period_ok:
  assumes "tables_ok db" "find_period_by_start db org d = None"
  shows "tables_ok (insert_period (new_period_row db org d e) db)"
  using assms insert_period_wf[of db org d e]
  by (fastforce simp: tables_ok_def insert_period_def)

lemma insert_period_opens:
  assumes "opens_once db" "e \<noteq> None \<or> (\<forall>p \<in> set (org_periods db org). bp_end_date p \<noteq> None)"
  shows "opens_once (insert_period (new_period_row db org d e) db)"
  using assms by (auto simp: opens_once_def insert_period_def new_period_row_def org_periods_def)

lemma insert_budget_ok:
  assumes "book_ok db" "p \<in> set (org_periods db org)" "cat \<notin> set (existing_budget_cat_ids db org (bp_start_date p))"
  shows "book_ok (insert_budget (new_budget_row db org cat x p) db)"
proof -
  have u: "\<not> (bg_org_id b = org \<and> bg_category_id b = cat \<and> bg_period_start b = bp_start_date p)" if "b \<in> set (budgets db)" for b
    using that assms(3) by (auto simp: existing_budget_cat_ids_def budgets_at_def)
  have "anchor (new_budget_row db org cat x p) p" using assms(2) by (simp add: anchor_def new_budget_row_def org_periods_mem)
  moreover have "p \<in> set (periods db)" using assms(2) by (simp add: org_periods_mem)
  ultimately show ?thesis using assms(1) u
    by (fastforce simp: book_ok_def tables_ok_def opens_once_def periods_wf_def insert_budget_def new_budget_row_def)
qed

lemma map_budgets_ok:
  assumes "tables_ok db" "\<And>b. bg_id (f b) = bg_id b" "\<And>b. bg_org_id (f b) = bg_org_id b"
    "\<And>b. bg_category_id (f b) = bg_category_id b" "\<And>b. bg_period_start (f b) = bg_period_start b"
    "\<And>b p. b \<in> set (budgets db) \<Longrightarrow> p \<in> set (periods db) \<Longrightarrow> anchor b p \<Longrightarrow> anchor (f b) (g p)"
    "periods_wf (db\<lparr>periods := map g (periods db)\<rparr>)"
  shows "tables_ok (db\<lparr>periods := map g (periods db), budgets := map f (budgets db)\<rparr>)"
proof -
  have "map bg_id (map f (budgets db)) = map bg_id (budgets db)"
    "map (\<lambda>b. (bg_org_id b, bg_category_id b, bg_period_start b)) (map f (budgets db)) =
     map (\<lambda>b. (bg_org_id b, bg_category_id b, bg_period_start b)) (budgets db)" using assms(2-5) by simp_all
  moreover have "\<exists>p \<in> set (map g (periods db)). anchor b p" if b: "b \<in> set (map f (budgets db))" for b
  proof -
    from b obtain b0 where b0: "b0 \<in> set (budgets db)" "b = f b0" by auto
    with assms(1) obtain p where "p \<in> set (periods db)" "anchor b0 p" by (auto simp: tables_ok_def)
    with assms(6)[of b0 p] b0 show ?thesis by auto
  qed
  moreover have "bg_id b < next_key db" if b: "b \<in> set (map f (budgets db))" for b
    using b assms(1,2) by (auto simp: tables_ok_def)
  ultimately show ?thesis using assms(1,7) by (simp add: tables_ok_def periods_wf_def del: map_map)
qed

lemma put_amount_ok:
  assumes "book_ok db"
  shows "book_ok (put_amount i x db)" "periods (put_amount i x db) = periods db"
proof -
  have "tables_ok (db\<lparr>periods := map id (periods db), budgets := map (\<lambda>b. if bg_id b = i then b\<lparr>bg_amount := x\<rparr> else b) (budgets db)\<rparr>)"
    using book_okD[OF assms] by (intro map_budgets_ok) (auto simp: anchor_def)
  then show "book_ok (put_amount i x db)" using assms
    by (simp add: book_ok_def put_amount_def update_row_def opens_once_def)
  show "periods (put_amount i x db) = periods db" by (simp add: put_amount_def)
qed

lemma put_amounts_ok:
  "book_ok db \<Longrightarrow> book_ok (fold (\<lambda>it. put_amount (f it) (g it)) items db)"
  by (induction items arbitrary: db) (auto simp: put_amount_ok)

lemma drop_budgets_ok: "book_ok db \<Longrightarrow> book_ok (db\<lparr>budgets := filter P (budgets db)\<rparr>)"
  by (auto simp: book_ok_def tables_ok_def opens_once_def periods_wf_def distinct_map_filter)

section \<open>Periods\<close>

lemma get_current_ok:
  assumes "book_ok db" "get_current_period rd s org today db = Inr (db', p)"
  shows "book_ok db' \<and> p \<in> set (org_periods db' org) \<and> budgets db' = budgets db"
proof (cases "find_open_period db org")
  case (Some q)
  with assms find_open_period_Some[OF Some] show ?thesis by (auto simp: get_current_period_def)
next
  case None
  with assms(2) obtain start e where w: "current_cycle_window rd (cycle_day_of s org) today = Some (start, e)"
    by (auto simp: get_current_period_def split: option.splits)
  have "set (open_periods db org) = {}" using None by (auto simp: find_open_period_def split: list.splits)
  then have closed: "\<forall>p \<in> set (org_periods db org). bp_end_date p \<noteq> None" by (auto simp: open_periods_def)
  show ?thesis
  proof (cases "find_period_by_start db org start")
    case (Some q)
    with assms None w find_period_by_start_Some[OF Some] show ?thesis by (auto simp: get_current_period_def)
  next
    case miss: None
    with assms(2) None w have "db' = insert_period (new_period_row db org start None) db" "p = new_period_row db org start None"
      by (auto simp: get_current_period_def Let_def)
    with insert_period_ok[OF book_okD(1)[OF assms(1)] miss] insert_period_opens[OF book_okD(2)[OF assms(1)] disjI2[OF closed]]
      insert_period_org(1)[of db org start None]
    show ?thesis by (simp add: book_ok_def insert_period_def)
  qed
qed

lemma resolve_period_ok:
  assumes "book_ok db" "resolve_period rd s org start today db = Inr (db', p)"
  shows "book_ok db' \<and> p \<in> set (org_periods db' org) \<and> budgets db' = budgets db"
  using assms get_current_ok[OF assms(1)] find_period_by_start_Some[of db org]
  by (auto simp: resolve_period_def split: option.splits)

lemma insert_stubs_ok:
  assumes "book_ok db" "distinct (map fst cs)" "\<forall>c \<in> set cs. find_period_by_start db org (fst c) = None"
  shows "book_ok (fold (insert_stub org) cs db) \<and> budgets (fold (insert_stub org) cs db) = budgets db \<and>
    set (org_periods db org) \<subseteq> set (org_periods (fold (insert_stub org) cs db) org)"
  using assms
proof (induction cs arbitrary: db)
  case (Cons c cs)
  let ?db = "insert_stub org c db"
  have "find_period_by_start db org (fst c) = None" using Cons.prems(3) by simp
  with insert_period_ok[of db org "fst c"] insert_period_opens[of db "Some (snd c)"] book_okD[OF Cons.prems(1)]
  have "book_ok ?db" by (simp add: book_ok_def insert_stub_def)
  moreover have "set (org_periods ?db org) = insert (new_period_row db org (fst c) (Some (snd c))) (set (org_periods db org))"
    by (simp add: insert_stub_def insert_period_org)
  moreover have "\<forall>d \<in> set cs. find_period_by_start ?db org (fst d) = None"
    using Cons.prems(2,3) calculation(2) unfolding find_period_by_start_None by (auto simp: new_period_row_def image_iff)
  moreover have "budgets ?db = budgets db" by (simp add: insert_stub_def insert_period_def)
  ultimately show ?case using Cons.IH[of ?db] Cons.prems(2) by auto
qed simp

lemma ensure_future_ok:
  assumes "book_ok db" "ensure_future_periods rd s org n today db = Inr (db', created)"
  shows "book_ok db' \<and> budgets db' = budgets db"
proof -
  from assms(2) obtain db1 cur planned where
    g: "get_current_period rd s org today db = Inr (db1, cur)" "plan_future_periods rd s org (bp_start_date cur) n db1 = Inr planned"
    and d: "db' = db1 \<or> distinct (map fst planned) \<and> (\<forall>c \<in> set planned. find_period_by_start db1 org (fst c) = None) \<and>
      db' = fold (insert_stub org) planned db1"
    by (auto simp: ensure_future_periods_def rbind_eq_Inr Let_def list_ex_iff split: if_splits)
  from get_current_ok[OF assms(1) g(1)] have k: "book_ok db1" "budgets db1 = budgets db" by blast+
  from d show ?thesis
  proof
    assume "distinct (map fst planned) \<and> (\<forall>c \<in> set planned. find_period_by_start db1 org (fst c) = None) \<and>
      db' = fold (insert_stub org) planned db1"
    with insert_stubs_ok[OF k(1), of planned org] k(2) show ?thesis by simp
  qed (use k in simp)
qed

section \<open>Closing\<close>

text \<open>The new end of a period, on its row and on its budgets.\<close>

definition put_end :: "billing_period \<Rightarrow> date option \<Rightarrow> budget_db \<Rightarrow> budget_db" where
  "put_end c e db = db\<lparr>periods := map (\<lambda>p. if bp_id p = bp_id c then p\<lparr>bp_end_date := e\<rparr> else p) (periods db),
     budgets := map (\<lambda>b. if moves_with (bp_org_id c) (bp_start_date c) b then b\<lparr>bg_period_end := e\<rparr> else b) (budgets db)\<rparr>"

lemma reanchor_same:
  assumes "periods_wf db"
  shows "\<exists>n. reanchor_period_dependents s org d d e db =
    Inr (db\<lparr>budgets := map (\<lambda>b. if moves_with org d b then b\<lparr>bg_period_end := e\<rparr> else b) (budgets db)\<rparr>, n)"
proof -
  let ?P = "\<lambda>b. moves_with org d b \<and> bg_period_end b \<noteq> e"
  let ?f = "\<lambda>b. if moves_with org d b then b\<lparr>bg_period_end := e\<rparr> else b"
  have eq: "(if ?P b then b\<lparr>bg_period_start := d, bg_period_end := e\<rparr> else b) = ?f b" for b
    by (cases b) (auto simp: moves_with_def)
  then have re: "reanchored ?P d e (budgets db) = map ?f (budgets db)" by (simp add: reanchored_def)
  have "map (\<lambda>b. (bg_org_id b, bg_category_id b, bg_period_start b)) (map ?f (budgets db)) =
      map (\<lambda>b. (bg_org_id b, bg_category_id b, bg_period_start b)) (budgets db)" by simp
  then have k: "distinct (map (\<lambda>b. (bg_org_id b, bg_category_id b, bg_period_start b)) (map ?f (budgets db)))"
    using assms by (simp only: periods_wf_def)
  show ?thesis
  proof (cases "list_ex ?P (budgets db)")
    case True
    then show ?thesis using k by (simp add: reanchor_period_dependents_def Let_def filter_empty_conv re del: map_map)
  next
    case False
    then have "map ?f (budgets db) = budgets db" unfolding re[symmetric] reanchored_def
      by (intro map_idI) (auto simp: list_ex_iff)
    with False show ?thesis by (simp add: reanchor_period_dependents_def Let_def)
  qed
qed

lemma put_end_eq:
  assumes "bp_org_id c = org" "bp_start_date c = d"
  shows "set_end (bp_id c) e (db\<lparr>budgets := map (\<lambda>b. if moves_with org d b then b\<lparr>bg_period_end := e\<rparr> else b) (budgets db)\<rparr>) = put_end c e db"
    "(set_end (bp_id c) e db)\<lparr>budgets := map (\<lambda>b. if moves_with org d b then b\<lparr>bg_period_end := e\<rparr> else b)
       (budgets (set_end (bp_id c) e db))\<rparr> = put_end c e db"
  using assms by (cases db; simp add: put_end_def set_end_def update_row_def)+

lemma put_end_ok:
  assumes "tables_ok db" "c \<in> set (periods db)"
  shows "tables_ok (put_end c e db)"
  unfolding put_end_def
proof (rule map_budgets_ok[OF assms(1)])
  have wf: "periods_wf db" using assms(1) by (simp add: tables_ok_def)
  show "periods_wf (db\<lparr>periods := map (\<lambda>p. if bp_id p = bp_id c then p\<lparr>bp_end_date := e\<rparr> else p) (periods db)\<rparr>)"
    using set_end_wf[OF wf, of "bp_id c" e] by (simp add: set_end_def update_row_def)
  fix b p assume p: "p \<in> set (periods db)" "anchor b p"
  have "moves_with (bp_org_id c) (bp_start_date c) b \<longleftrightarrow> p = c"
    using period_start_unique[OF wf, of p "bp_org_id c" c] p assms(2) by (auto simp: moves_with_def anchor_def org_periods_mem)
  moreover have "bp_id p = bp_id c \<longleftrightarrow> p = c"
    using key_unique[of bp_id "periods db" p c] wf p assms(2) by (auto simp: periods_wf_def)
  ultimately show "anchor (if moves_with (bp_org_id c) (bp_start_date c) b then b\<lparr>bg_period_end := e\<rparr> else b)
      (if bp_id p = bp_id c then p\<lparr>bp_end_date := e\<rparr> else p)" using p(2) by (auto simp: anchor_def)
qed simp_all

lemma put_end_periods:
  assumes "tables_ok db" "c \<in> set (periods db)"
  shows "set (periods (put_end c e db)) = (set (periods db) - {c}) \<union> {c\<lparr>bp_end_date := e\<rparr>}"
  using set_end_mem[of db c e] assms by (simp add: put_end_def tables_ok_def set_end_def update_row_def)

lemma apply_close_step_ok:
  assumes "book_ok db" "cur \<in> set (org_periods db org)" "bp_end_date cur = None"
    and "apply_close_step s org cur requested db = Inr (db', p)"
  shows "book_ok db'"
proof -
  note ok = book_okD[OF assms(1)]
  have c: "cur \<in> set (periods db)" "bp_org_id cur = org" using assms(2) by (auto simp: org_periods_mem)
  from assms(4) obtain resolved ns where r: "resolved_close db org (bp_start_date cur) requested = Inr resolved" "next_day resolved = Some ns"
    by (auto simp: apply_close_step_def rbind_eq_Inr date_or_error_Inr)
  define db2 where "db2 = put_end cur (Some resolved) db"
  have t2: "tables_ok db2" unfolding db2_def by (rule put_end_ok[OF ok(1) c(1)])
  have p2: "set (periods db2) = (set (periods db) - {cur}) \<union> {cur\<lparr>bp_end_date := Some resolved\<rparr>}"
    unfolding db2_def by (rule put_end_periods[OF ok(1) c(1)])
  have closed: "bp_end_date q \<noteq> None" if "q \<in> set (periods db2)" "bp_org_id q = org" for q
  proof -
    from that(1) consider "q \<in> set (periods db)" "q \<noteq> cur" | "q = cur\<lparr>bp_end_date := Some resolved\<rparr>" unfolding p2 by blast
    then show ?thesis
    proof cases
      case 1
      with opens_onceD[OF ok(2), of q cur] c that(2) assms(3) show ?thesis by auto
    qed simp
  qed
  have o2: "opens_once db2" unfolding opens_once_def
  proof (intro ballI impI, elim conjE)
    fix q q' assume q: "q \<in> set (periods db2)" "q' \<in> set (periods db2)" "bp_org_id q = bp_org_id q'"
      "bp_end_date q = None" "bp_end_date q' = None"
    then have "q \<noteq> cur\<lparr>bp_end_date := Some resolved\<rparr>" "q' \<noteq> cur\<lparr>bp_end_date := Some resolved\<rparr>" by auto
    with q(1,2) have "q \<in> set (periods db)" "q' \<in> set (periods db)" unfolding p2 by blast+
    with opens_onceD[OF ok(2)] q(3-5) show "q = q'" by blast
  qed
  from reanchor_same[OF ok(3), of s org "bp_start_date cur" "Some resolved"] obtain n where
    "reanchor_period_dependents s org (bp_start_date cur) (bp_start_date cur) (Some resolved) db =
      Inr (db\<lparr>budgets := map (\<lambda>b. if moves_with org (bp_start_date cur) b then b\<lparr>bg_period_end := Some resolved\<rparr> else b) (budgets db)\<rparr>, n)" by blast
  then have step: "apply_close_step s org cur requested db = (case find_period_by_start db2 org ns of
      Some existing \<Rightarrow> rbind (reanchor_period_dependents s org ns ns None (set_end (bp_id existing) None db2))
              (\<lambda>(db3, _). Inr (db3, existing\<lparr>bp_end_date := None\<rparr>))
    | None \<Rightarrow> let p = new_period_row db2 org ns None in Inr (insert_period p db2, p))"
    using r by (simp only: apply_close_step_def Let_def db2_def put_end_eq(1)[OF c(2) refl] rbind_simps date_or_error_Some prod.case)
  show ?thesis
  proof (cases "find_period_by_start db2 org ns")
    case None
    with step assms(4) have "db' = insert_period (new_period_row db2 org ns None) db2" by (simp add: Let_def)
    with insert_period_ok[OF t2 None] insert_period_opens[OF o2, of None org ns] closed show ?thesis
      by (simp add: book_ok_def org_periods_mem)
  next
    case (Some x)
    then have x: "x \<in> set (periods db2)" "bp_org_id x = org" "bp_start_date x = ns"
      by (auto dest: find_period_by_start_Some simp: org_periods_mem)
    have wf: "periods_wf (set_end (bp_id x) None db2)" using set_end_wf t2 by (simp add: tables_ok_def)
    from reanchor_same[OF wf, of s org ns None] obtain k where
      re: "reanchor_period_dependents s org ns ns None (set_end (bp_id x) None db2) = Inr (put_end x None db2, k)"
      unfolding put_end_eq(2)[OF x(2,3)] by blast
    have "Inr (db', p) = (Inr (put_end x None db2, x\<lparr>bp_end_date := None\<rparr>) :: (budget_db \<times> billing_period) result)"
      using step assms(4) by (simp only: Some re option.case rbind_simps prod.case)
    then have "db' = put_end x None db2" by simp
    moreover have "opens_once (put_end x None db2)"
      unfolding opens_once_def
    proof (intro ballI impI, elim conjE)
      fix q q' assume q: "q \<in> set (periods (put_end x None db2))" "q' \<in> set (periods (put_end x None db2))"
        "bp_org_id q = bp_org_id q'" "bp_end_date q = None" "bp_end_date q' = None"
      note m = q(1,2)[unfolded put_end_periods[OF t2 x(1)]]
      show "q = q'"
      proof (cases "bp_org_id q = org")
        case True
        have "q = x\<lparr>bp_end_date := None\<rparr>" using m(1) closed[of q] True q(4) by blast
        moreover have "bp_org_id q' = org" using True q(3) by simp
        then have "q' = x\<lparr>bp_end_date := None\<rparr>" using m(2) closed[of q'] q(5) by blast
        ultimately show ?thesis by simp
      next
        case False
        then have "q \<noteq> x\<lparr>bp_end_date := None\<rparr>" "q' \<noteq> x\<lparr>bp_end_date := None\<rparr>" using q(3) x(2) by auto
        with m have "q \<in> set (periods db2)" "q' \<in> set (periods db2)" by blast+
        with opens_onceD[OF o2] q(3-5) show ?thesis by blast
      qed
    qed
    ultimately show ?thesis using put_end_ok[OF t2 x(1)] by (simp add: book_ok_def)
  qed
qed

lemma close_period_ok:
  assumes "book_ok db" "close_period rd s org close_date today db = Inr (db', p, ids)"
  shows "book_ok db'"
proof -
  from assms(2) obtain db1 cur where g: "get_current_period rd s org today db = Inr (db1, cur)"
    unfolding close_period_def rbind_eq_Inr by (auto simp del: rbind_guard)
  from get_current_ok[OF assms(1) g] have k: "book_ok db1" "cur \<in> set (org_periods db1 org)" by blast+
  show ?thesis
  proof (cases "bp_end_date cur")
    case (Some e)
    with assms(2) g k(1) show ?thesis by (auto simp: close_period_def rbind_eq_Inr split: if_splits)
  next
    case None
    with assms(2) g obtain d where "apply_close_step s org cur d db1 = Inr (db', p)"
      by (auto simp: close_period_def rbind_eq_Inr split: if_splits)
    then show ?thesis by (rule apply_close_step_ok[OF k None])
  qed
qed

lemma close_is_due_ok:
  assumes "book_ok db" "billing_close_is_due rd s org today db = Inr (db', b)"
  shows "book_ok db'"
  using assms(2) get_current_ok[OF assms(1)] by (auto simp: billing_close_is_due_def rbind_eq_Inr)

lemma close_pass_ok:
  assumes "book_ok (fst st)" "close_pass rd s org d today st = Inr (st', again)"
  shows "book_ok (fst st')"
proof -
  obtain db counts where st: "st = (db, counts)" by (cases st)
  from assms(2) obtain db1 closing db2 p ids where
    g: "get_current_period rd s (o_id org) today db = Inr (db1, closing)" "close_period rd s (o_id org) (Some d) today db1 = Inr (db2, p, ids)"
    and e: "fst st' = db2 \<or> (\<exists>due. billing_close_is_due rd s org today db2 = Inr (fst st', due))"
    unfolding st close_pass_def by (auto simp: rbind_eq_Inr Let_def split: if_splits)
  have "book_ok db1" using get_current_ok[OF _ g(1)] assms(1) st by simp
  then have "book_ok db2" by (rule close_period_ok[OF _ g(2)])
  with e close_is_due_ok[OF this] show ?thesis by blast
qed

lemma close_passes_ok:
  "book_ok (fst st) \<Longrightarrow> close_passes n rd s org d today st = Inr st' \<Longrightarrow> book_ok (fst st')"
proof (induction n arbitrary: st)
  case (Suc n)
  from Suc.prems(2) obtain st1 again where c: "close_pass rd s org d today st = Inr (st1, again)"
    and e: "(if again then close_passes n rd s org d today st1 else Inr st1) = (Inr st' :: (budget_db \<times> close_counts) result)"
    by (auto simp: rbind_eq_Inr)
  from close_pass_ok[OF Suc.prems(1) c] e Suc.IH[of st1] show ?case by (auto split: if_splits)
qed simp

lemma close_run_ok:
  assumes "book_ok db" "billing_close_run rd s org today db = Inr (db', counts)"
  shows "book_ok db'"
  using assms close_passes_ok[of "(db, _)" _ rd s org _ today "(db', counts)"]
  by (auto simp: billing_close_run_def rbind_eq_Inr)

section \<open>Budgets\<close>

lemma list_budgets_ok:
  assumes "book_ok db" "list_budgets rd s org start today db = Inr (db', rs)"
  shows "book_ok db'"
  using assms(2) resolve_period_ok[OF assms(1)] assms(1)
  by (auto simp: list_budgets_def rbind_eq_Inr split: sum.splits service_error.splits)

lemma create_budget_ok:
  assumes "book_ok db" "create_budget rd s org cat x start today db = Inr (db', r)"
  shows "book_ok db'"
proof -
  from assms(2) obtain db1 p where g: "resolve_period rd s org start today db = Inr (db1, p)"
    "\<not> list_ex (\<lambda>b. bg_category_id b = cat) (budgets_at db1 org (bp_start_date p))"
    "db' = insert_budget (new_budget_row db1 org cat x p) db1"
    by (auto simp: create_budget_def rbind_eq_Inr Let_def split: option.splits if_splits)
  from resolve_period_ok[OF assms(1) g(1)] have "book_ok db1" "p \<in> set (org_periods db1 org)" by blast+
  moreover have "cat \<notin> set (existing_budget_cat_ids db1 org (bp_start_date p))"
    using g(2) by (auto simp: list_ex_iff existing_budget_cat_ids_def)
  ultimately show ?thesis unfolding g(3) by (rule insert_budget_ok)
qed

lemma update_budget_ok:
  assumes "book_ok db" "update_budget s org i x today db = Inr (db', r)"
  shows "book_ok db'"
  using assms put_amount_ok(1)[OF assms(1)]
  by (auto simp: update_budget_def rbind_eq_Inr Let_def split: option.splits)

lemma rebalance_ok:
  assumes "book_ok db" "rebalance_budgets rd s org items today db = Inr (db', rs)"
  shows "book_ok db'"
proof -
  from assms(2) obtain start where
    "list_budgets rd s org (Some start) today (fold (\<lambda>it. put_amount (ri_budget_id it) (ri_amount it)) items db) = Inr (db', rs)"
    by (auto simp: rebalance_budgets_def Let_def split: if_splits list.splits)
  with list_budgets_ok[OF put_amounts_ok[OF assms(1)]] show ?thesis by blast
qed

lemma delete_budget_ok:
  "book_ok db \<Longrightarrow> delete_budget org i db = Inr db' \<Longrightarrow> book_ok db'"
  by (auto simp: delete_budget_def drop_budgets_ok split: option.splits)

lemma seed_budgets_ok:
  "book_ok db \<Longrightarrow> p \<in> set (org_periods db org) \<Longrightarrow> book_ok (fold (seed_budget org p) xs db)"
proof (induction xs arbitrary: db)
  case (Cons x xs)
  have "org_periods (insert_budget b db) org = org_periods db org" for b
    by (simp add: insert_budget_def org_periods_def)
  with Cons insert_budget_ok[OF Cons.prems, of "fst x" "snd x"] show ?case by (simp add: seed_budget_def)
qed simp

lemma from_forecast_ok:
  assumes "book_ok db" "create_budgets_from_forecast rd s plans org start today db = Inr (db', rs)"
  shows "book_ok db'"
proof -
  from assms(2) obtain db1 where
    e: "(if start = None then Inr db else rbind (ensure_future_periods rd s org FUTURE_PERIODS_DEFAULT today db) (\<lambda>(db1, _). Inr db1)) =
      (Inr db1 :: budget_db result)"
    and r: "rbind (resolve_period rd s org start today db1) (\<lambda>(db2, period).
     rbind (forecast_budget_amounts s plans org period db2) (\<lambda>amounts.
     list_budgets rd s org (Some (bp_start_date period)) today (fold (seed_budget org period) amounts db2))) = Inr (db', rs)"
    unfolding create_budgets_from_forecast_def rbind_eq_Inr by blast
  from r obtain db2 p amounts where
    g: "resolve_period rd s org start today db1 = Inr (db2, p)"
      "list_budgets rd s org (Some (bp_start_date p)) today (fold (seed_budget org p) amounts db2) = Inr (db', rs)"
    by (auto simp: rbind_eq_Inr)
  have "book_ok db1" using e assms(1) ensure_future_ok[OF assms(1)] by (auto simp: rbind_eq_Inr split: if_splits)
  from resolve_period_ok[OF this g(1)] have "book_ok (fold (seed_budget org p) amounts db2)" using seed_budgets_ok by blast
  from list_budgets_ok[OF this g(2)] show ?thesis .
qed

lemma copy_budgets_parts:
  assumes "copy_budgets_from_period rd s org src tgt today db = Inr (db', rs)"
  obtains db1 created db2 target db3 source where
    "ensure_future_periods rd s org FUTURE_PERIODS_DEFAULT today db = Inr (db1, created)"
    "resolve_period rd s org tgt today db1 = Inr (db2, target)" "resolve_period rd s org (Some src) today db2 = Inr (db3, source)"
    "budgets_at db3 org (bp_start_date source) \<noteq> []"
    "list_budgets rd s org (Some (bp_start_date target)) today (fold (seed_budget org target)
       (map (\<lambda>b. (bg_category_id b, bg_amount b)) (filter (\<lambda>b. bg_category_id b \<notin> set (existing_budget_cat_ids db3 org (bp_start_date target)))
          (budgets_at db3 org (bp_start_date source)))) db3) = Inr (db', rs)"
  using assms by (auto simp: copy_budgets_from_period_def rbind_eq_Inr Let_def split: if_splits)

lemma copy_budgets_ok:
  assumes "book_ok db" "copy_budgets_from_period rd s org src tgt today db = Inr (db', rs)"
  shows "book_ok db'"
proof -
  obtain db1 created db2 target db3 source xs where
    g: "ensure_future_periods rd s org FUTURE_PERIODS_DEFAULT today db = Inr (db1, created)"
    "resolve_period rd s org tgt today db1 = Inr (db2, target)" "resolve_period rd s org (Some src) today db2 = Inr (db3, source)"
    "list_budgets rd s org (Some (bp_start_date target)) today (fold (seed_budget org target) xs db3) = Inr (db', rs)"
    by (rule copy_budgets_parts[OF assms(2)]) blast
  have "book_ok db1" using ensure_future_ok[OF assms(1) g(1)] by simp
  from resolve_period_ok[OF this g(2)] have k: "book_ok db2" "target \<in> set (org_periods db2 org)" by blast+
  have e: "db3 = db2" using g(3) by (auto simp: resolve_period_def split: option.splits)
  from list_budgets_ok[OF seed_budgets_ok[OF k] g(4)[unfolded e]] show ?thesis .
qed

end
