(* ===== verification/PeriodProps.thy ===== *)
theory PeriodProps
  imports PeriodClose Sample
begin

text \<open>
  The properties of billing periods: what a clean report of the anomaly kernel means in days, that a
  close keeps a clean roster clean, that the close job brings the open period to the current cycle, and
  that stubs never cross a window.
\<close>

section \<open>The report of a table\<close>

abbreviation report :: "budget_db \<Rightarrow> int \<Rightarrow> date \<Rightarrow> period_anomaly list result" where
  "report db org today \<equiv> find_period_anomalies (load_complete_roster db org) today"

lemma load_make: "load_complete_roster db org = complete_roster.make org (cr_rows (load_complete_roster db org))"
  by (simp add: load_complete_roster_def complete_roster.defs)

lemma roster_length: "length (cr_rows (load_complete_roster db org)) = length (org_periods db org)"
  by (simp add: load_complete_roster_def)

lemma report_clean_iff:
  assumes "periods_wf db" "length (org_periods db org) \<le> OVERLAP_ANALYSIS_CAP" "report db org today = Inr found"
  shows "(\<forall>x \<in> set found. only_lapsed x) \<longleftrightarrow> tiled (roster_set db org)"
  using clean_iff_tiled[OF roster_rows(1)[OF assms(1), of org], of org today found] assms(2,3)
  by (simp add: load_make[symmetric] roster_length roster_rows(2)[OF assms(1)])

lemma report_harmless_iff:
  assumes "periods_wf db" "length (org_periods db org) \<le> OVERLAP_ANALYSIS_CAP" "report db org today = Inr found"
  shows "(\<forall>x \<in> set found. harmless x) \<longleftrightarrow> one_open (roster_set db org) \<and> apart (roster_set db org)"
  using harmless_iff_apart[OF roster_rows(1)[OF assms(1), of org], of org today found] assms(2,3)
  by (simp add: load_make[symmetric] roster_length roster_rows(2)[OF assms(1)])

lemma report_of_apart:
  assumes "periods_wf db" "apart (roster_set db org)"
  shows "\<exists>found. report db org today = Inr found"
  using report_exists[OF roster_rows(1)[OF assms(1), of org], of org today] assms(2)
  by (simp add: load_make[symmetric] roster_rows(2)[OF assms(1)])

lemma one_open_length:
  assumes "periods_wf db"
  shows "one_open (roster_set db org) \<longleftrightarrow> length (filter (\<lambda>p. bp_end_date p = None) (org_periods db org)) = 1"
proof -
  let ?rows = "cr_rows (load_complete_roster db org)"
  have "length (open_indexes ?rows) = length (filter (\<lambda>r. rw_end_date r = None) ?rows)"
    using arg_cong[OF filter_map[of "\<lambda>r. rw_end_date r = None" "(!) ?rows" "[0..<length ?rows]"], of length]
    by (simp add: open_indexes_def map_nth comp_def)
  also have "\<dots> = length (filter (\<lambda>p. bp_end_date p = None) (sort_key bp_start_date (org_periods db org)))"
    by (simp add: load_complete_roster_def filter_map comp_def)
  also have "\<dots> = length (filter (\<lambda>p. bp_end_date p = None) (org_periods db org))"
    by (simp add: filter_sort)
  finally show ?thesis
    using one_open_single[OF roster_rows(1)[OF assms, of org]] roster_rows(2)[OF assms, of org] by simp
qed

section \<open>A clean report\<close>

text \<open>C36: the anomaly kernel reports nothing but a lapsed open period exactly when the organisation has
  one open period, no period ends before it starts, and every day from the first period's start on (up
  to the end of the last one, when it is closed) lies in exactly one period's window.\<close>

theorem clean_report_tiles_days:
  assumes "periods_wf db" "length (org_periods db org) \<le> OVERLAP_ANALYSIS_CAP"
    and "find_period_anomalies (load_complete_roster db org) today = Inr found"
  shows "(\<forall>x \<in> set found. only_lapsed x) \<longleftrightarrow>
    length (filter (\<lambda>p. bp_end_date p = None) (org_periods db org)) = 1 \<and>
    (\<forall>p \<in> set (org_periods db org). \<forall>e. bp_end_date p = Some e \<longrightarrow> bp_start_date p \<le> e) \<and>
    (\<forall>d. within_roster (cr_rows (load_complete_roster db org)) d \<longrightarrow>
       (\<exists>!i. i < length (org_periods db org) \<and> covers (cr_rows (load_complete_roster db org)) i d))"
proof -
  have inv: "(\<forall>r \<in> roster_set db org. \<not> is_inverted r) \<longleftrightarrow>
      (\<forall>p \<in> set (org_periods db org). \<forall>e. bp_end_date p = Some e \<longrightarrow> bp_start_date p \<le> e)"
    by (auto simp: roster_set_def is_inverted_def not_less split: option.splits)
  show ?thesis
    unfolding report_clean_iff[OF assms] inv[symmetric] one_open_length[OF assms(1), symmetric]
    using tiled_iff_covered[OF roster_rows(1)[OF assms(1), of org]] by (simp add: roster_rows(2)[OF assms(1)] roster_length)
qed

definition sample_period :: "int \<Rightarrow> date \<Rightarrow> date option \<Rightarrow> billing_period" where
  "sample_period i st e = \<lparr>bp_id = i, bp_org_id = 1, bp_start_date = st, bp_end_date = e\<rparr>"

definition sample_budgets :: budget_db where
  "sample_budgets =
     \<lparr>periods = [sample_period 1 (date_of 2025 1 1) (Some (date_of 2025 1 31)), sample_period 2 (date_of 2025 2 1) None,
        sample_period 3 (date_of 2025 3 1) (Some (date_of 2025 3 31)), sample_period 4 (date_of 2025 4 1) (Some (date_of 2025 4 30))],
      budgets = [\<lparr>bg_id = 5, bg_org_id = 1, bg_category_id = 6, bg_amount = 100, bg_period_start = date_of 2025 2 1,
        bg_period_end = None\<rparr>], next_key = 10\<rparr>"

lemma sample_budgets_wf: "periods_wf sample_budgets" by code_simp

lemma sample_report: "report sample_budgets 1 (date_of 2025 3 20) = Inr [LapsedOpen 2 (date_of 2025 2 28)]"
  by code_simp

theorem clean_report_tiles_days_witness:
  "\<exists>!i. i < 4 \<and> covers (cr_rows (load_complete_roster sample_budgets 1)) i (date_of 2025 2 14)"
proof -
  have n: "length (org_periods sample_budgets 1) = 4" by code_simp
  have "length (org_periods sample_budgets 1) \<le> OVERLAP_ANALYSIS_CAP" unfolding n by (simp add: OVERLAP_ANALYSIS_CAP_def)
  from clean_report_tiles_days[OF sample_budgets_wf this sample_report]
  have "within_roster (cr_rows (load_complete_roster sample_budgets 1)) (date_of 2025 2 14) \<longrightarrow>
      (\<exists>!i. i < length (org_periods sample_budgets 1) \<and> covers (cr_rows (load_complete_roster sample_budgets 1)) i (date_of 2025 2 14))"
    by (simp add: only_lapsed_def)
  moreover have "within_roster (cr_rows (load_complete_roster sample_budgets 1)) (date_of 2025 2 14)" by code_simp
  ultimately show ?thesis unfolding n by blast
qed

section \<open>Closing\<close>

text \<open>On a roster the anomaly kernel finds clean, closing the open period on a day from its start to
  today succeeds, closes that row and no other, on the requested day or the day before the next period
  if that comes first, opens the row of the following day, touches no other organisation, and leaves a
  clean roster.\<close>

theorem close_keeps_roster_clean:
  assumes "periods_wf db" "length (org_periods db org) < OVERLAP_ANALYSIS_CAP"
    and "find_period_anomalies (load_complete_roster db org) today = Inr found" "\<forall>x \<in> set found. only_lapsed x"
    and "find_open_period db org = Some cur" "bp_start_date cur \<le> d" "d \<le> today" "today < date_of 9999 12 31"
  shows "\<exists>db' p resolved ns found'. close_period rd s org (Some d) today db = Inr (db', p, [bp_id cur]) \<and>
    resolved \<le> d \<and> next_day resolved = Some ns \<and>
    (resolved < d \<longrightarrow> (\<exists>q \<in> set (org_periods db org). ns = bp_start_date q \<and> bp_start_date q \<le> d)) \<and>
    bp_start_date p = ns \<and> find_open_period db' org = Some p \<and>
    set (org_periods db' org) =
      (set (org_periods db org) - {cur} - {x. bp_start_date x = ns}) \<union> {cur\<lparr>bp_end_date := Some resolved\<rparr>, p} \<and>
    (\<forall>o'. o' \<noteq> org \<longrightarrow> org_periods db' o' = org_periods db o') \<and>
    find_period_anomalies (load_complete_roster db' org) today = Inr found' \<and> (\<forall>x \<in> set found'. only_lapsed x)"
proof -
  have t: "one_open (roster_set db org)" "apart (roster_set db org)" "abutting (roster_set db org)"
    using report_clean_iff[OF assms(1) _ assms(3)] assms(2,4) by (auto simp: tiled_def)
  have "next_day d \<noteq> None" using next_day_defined[of d "date_of 9999 12 31"] assms(7,8) by auto
  from close_period_spec[OF assms(1) t(1,2) assms(5,6,7) this, of rd s] t(3) obtain db' p resolved ns where
    c: "close_period rd s org (Some d) today db = Inr (db', p, [bp_id cur])" "periods_wf db'"
      "closes_to db org cur resolved ns db' p" "resolved \<le> d" "next_day resolved = Some ns"
      "resolved < d \<longrightarrow> (\<exists>q \<in> set (org_periods db org). ns = bp_start_date q \<and> bp_start_date q \<le> d)"
      "tiled (roster_set db' org)" "find_open_period db' org = Some p" unfolding tiled_def by blast
  have T: "bp_start_date p = ns" "\<forall>o'. o' \<noteq> org \<longrightarrow> org_periods db' o' = org_periods db o'"
    "set (org_periods db' org) =
      (set (org_periods db org) - {cur} - {x. bp_start_date x = ns}) \<union> {cur\<lparr>bp_end_date := Some resolved\<rparr>, p}"
    using c(3) unfolding closes_to_def by blast+
  have "length (org_periods db' org) \<le> OVERLAP_ANALYSIS_CAP"
    using closes_to_length[OF c(2,3)] find_open_period_Some(1)[OF assms(5)] assms(2) by simp
  moreover obtain found' where f: "report db' org today = Inr found'"
    using report_of_apart[OF c(2)] c(7) by (auto simp: tiled_def)
  ultimately have l: "\<forall>x \<in> set found'. only_lapsed x" using report_clean_iff[OF c(2) _ f] c(7) by blast
  show ?thesis
    by (intro exI[of _ db'] exI[of _ p] exI[of _ resolved] exI[of _ ns] exI[of _ found'] conjI)
       (rule c(1) c(4) c(5) c(6) c(8) T f l)+
qed

theorem close_keeps_roster_clean_witness:
  "\<exists>db' p. close_period civil_add sample_store 1 (Some (date_of 2025 3 20)) (date_of 2025 3 20) sample_budgets = Inr (db', p, [2]) \<and>
     bp_start_date p = date_of 2025 3 1 \<and> find_open_period db' 1 = Some p"
proof -
  have n: "length (org_periods sample_budgets 1) = 4" by code_simp
  have l: "length (org_periods sample_budgets 1) < OVERLAP_ANALYSIS_CAP" unfolding n by (simp add: OVERLAP_ANALYSIS_CAP_def)
  have o: "find_open_period sample_budgets 1 = Some (sample_period 2 (date_of 2025 2 1) None)" by code_simp
  have d: "bp_start_date (sample_period 2 (date_of 2025 2 1) None) \<le> date_of 2025 3 20" "date_of 2025 3 20 \<le> date_of 2025 3 20"
    "date_of 2025 3 20 < date_of 9999 12 31" by code_simp+
  have f: "\<forall>x \<in> set [LapsedOpen 2 (date_of 2025 2 28)]. only_lapsed x" by (simp add: only_lapsed_def)
  from close_keeps_roster_clean[OF sample_budgets_wf l sample_report f o d, of civil_add sample_store] obtain db' p where
    c: "close_period civil_add sample_store 1 (Some (date_of 2025 3 20)) (date_of 2025 3 20) sample_budgets =
      Inr (db', p, [bp_id (sample_period 2 (date_of 2025 2 1) None)])" "find_open_period db' 1 = Some p" by blast
  have "map_sum id (\<lambda>x. bp_start_date (fst (snd x)))
      (close_period civil_add sample_store 1 (Some (date_of 2025 3 20)) (date_of 2025 3 20) sample_budgets) = Inr (date_of 2025 3 1)"
    by code_simp
  with c show ?thesis by (simp add: sample_period_def)
qed

section \<open>The close job\<close>

definition to_close :: "budget_db \<Rightarrow> int \<Rightarrow> billing_period \<Rightarrow> date \<Rightarrow> date set" where
  "to_close db org cur d = {x \<in> bp_start_date ` set (org_periods db org). bp_start_date cur < x \<and> x \<le> d}"

lemma to_close_finite [simp]: "finite (to_close db org cur d)"
  by (simp add: to_close_def)

lemma closes_to_starts:
  assumes "closes_to db org cur resolved ns db' p" "cur \<in> set (org_periods db org)"
  shows "bp_start_date ` set (org_periods db' org) = insert ns (bp_start_date ` set (org_periods db org))"
proof -
  have "set (org_periods db' org) =
      (set (org_periods db org) - {cur} - {x. bp_start_date x = ns}) \<union> {cur\<lparr>bp_end_date := Some resolved\<rparr>, p}"
    and "bp_start_date p = ns" using assms(1) by (auto simp: closes_to_def)
  with assms(2) show ?thesis by (auto simp: image_iff)
qed

text \<open>A close uses up one of the periods before the target, or reaches it.\<close>

lemma to_close_step:
  assumes t: "closes_to db org cur resolved ns db' p" and c: "cur \<in> set (org_periods db org)"
    and n: "next_day resolved = Some ns" and le: "bp_start_date cur \<le> resolved" "resolved \<le> d"
    and none: "\<forall>q \<in> set (org_periods db org). bp_start_date cur < bp_start_date q \<longrightarrow> resolved < bp_start_date q"
    and q: "resolved < d \<longrightarrow> (\<exists>q \<in> set (org_periods db org). ns = bp_start_date q \<and> bp_start_date q \<le> d)"
  shows "resolved = d \<and> to_close db org cur d = {} \<or>
    resolved < d \<and> ns \<le> d \<and> to_close db' org p d = to_close db org cur d - {ns} \<and> ns \<in> to_close db org cur d"
proof (cases "resolved = d")
  case True
  with none show ?thesis by (auto simp: to_close_def)
next
  case False
  with le q have l: "resolved < d" "ns \<le> d" "ns \<in> bp_start_date ` set (org_periods db org)" by auto
  have p: "bp_start_date p = ns" using t by (simp add: closes_to_def)
  have gt: "bp_start_date cur < ns" using le(1) next_day_gt[OF n] by simp
  have "ns < x \<longleftrightarrow> bp_start_date cur < x \<and> x \<noteq> ns" if "x \<in> bp_start_date ` set (org_periods db org)" for x
    using that none next_day_least[OF n, of x] gt by (auto intro: less_trans)
  with l gt have "to_close db' org p d = to_close db org cur d - {ns}" "ns \<in> to_close db org cur d"
    unfolding to_close_def closes_to_starts[OF t c] p by auto
  with l show ?thesis by blast
qed

lemma close_boundary_Inr:
  assumes "relativedelta_lib rd" "close_boundary rd org today = Inr boundary"
  shows "boundary \<le> today"
proof -
  from assms(2) obtain e where "current_cycle_window rd (o_billing_cycle_day org) today = Some (boundary, e)"
    by (auto simp: close_boundary_def)
  from relativedelta_lib.current_cycle_window_contains[OF assms(1) this] show ?thesis by simp
qed

lemma close_passes_spec:
  assumes rd: "relativedelta_lib rd" and b: "close_boundary rd org today = Inr boundary" "prev_day boundary = Some d"
    and wf: "periods_wf db" and one: "one_open (roster_set db (o_id org))" and a: "apart (roster_set db (o_id org))"
    and c: "find_open_period db (o_id org) = Some cur" "bp_start_date cur < boundary" and n: "0 < n"
  shows "\<exists>db' counts' p. close_passes n rd s org d today (db, counts) = Inr (db', counts') \<and> periods_wf db' \<and>
    one_open (roster_set db' (o_id org)) \<and> apart (roster_set db' (o_id org)) \<and>
    (abutting (roster_set db (o_id org)) \<longrightarrow> abutting (roster_set db' (o_id org))) \<and>
    find_open_period db' (o_id org) = Some p \<and> cc_new_period counts' = Some p \<and>
    (if card (to_close db (o_id org) cur d) < n
     then bp_start_date p = boundary \<and> cc_steps counts' = cc_steps counts + card (to_close db (o_id org) cur d) + 1
     else bp_start_date p < boundary \<and> cc_steps counts' = cc_steps counts + n \<and>
       card (to_close db' (o_id org) p d) = card (to_close db (o_id org) cur d) - n)"
  using wf one a c n
proof (induction n arbitrary: db counts cur)
  case (Suc n)
  let ?o = "o_id org"
  note C = find_open_period_Some[OF Suc.prems(4)]
  have d: "bp_start_date cur \<le> d" using prev_day_greatest[OF b(2) Suc.prems(5)] .
  have dt: "d \<le> today" using close_boundary_Inr[OF rd b(1)] prev_day_less[OF b(2)] by simp
  have nd: "next_day d = Some boundary" using next_prev_day[OF b(2)] .
  then have "next_day d \<noteq> None" by simp
  from close_period_spec[OF Suc.prems(1-4) d dt this, of rd s] obtain db' p resolved ns where
    cl: "close_period rd s ?o (Some d) today db = Inr (db', p, [bp_id cur])" "periods_wf db'"
      "closes_to db ?o cur resolved ns db' p" "bp_start_date cur \<le> resolved" "resolved \<le> d" "next_day resolved = Some ns"
      "resolved < d \<longrightarrow> (\<exists>q \<in> set (org_periods db ?o). ns = bp_start_date q \<and> bp_start_date q \<le> d)"
      "\<forall>q \<in> set (org_periods db ?o). bp_start_date cur < bp_start_date q \<longrightarrow> resolved < bp_start_date q"
    and k: "one_open (roster_set db' ?o)" "apart (roster_set db' ?o)"
      "abutting (roster_set db ?o) \<longrightarrow> abutting (roster_set db' ?o)" "find_open_period db' ?o = Some p" by blast
  have p: "bp_start_date p = ns" using cl(3) by (simp add: closes_to_def)
  have gt: "bp_start_date cur < ns" using cl(4) next_day_gt[OF cl(6)] by simp
  then have ng: "\<not> ns \<le> bp_start_date cur" by simp
  obtain pd where pd: "prev_day ns = Some pd" using prev_day_defined[OF gt] by blast
  define counts1 where "counts1 = \<lparr>cc_closed_on = Some pd, cc_new_period = Some p,
     cc_steps = cc_steps counts + 1, cc_closed_period_ids = cc_closed_period_ids counts @ [bp_id cur]\<rparr>"
  have pass: "close_pass rd s org d today (db, counts) = Inr ((db', counts1), ns < boundary)"
    using get_current_open[OF Suc.prems(4)] get_current_open[OF k(4)] cl(1) p ng pd b(1)
    by (simp add: close_pass_def Let_def billing_close_is_due_def counts1_def)
  from to_close_step[OF cl(3) C(1) cl(6,4,5,8,7)] show ?case
  proof
    assume r: "resolved = d \<and> to_close db ?o cur d = {}"
    then have "ns = boundary" using cl(6) nd by simp
    with pass have "close_passes (Suc n) rd s org d today (db, counts) = Inr (db', counts1)" by simp
    moreover have "if card (to_close db ?o cur d) < Suc n
        then bp_start_date p = boundary \<and> cc_steps counts1 = cc_steps counts + card (to_close db ?o cur d) + 1
        else bp_start_date p < boundary \<and> cc_steps counts1 = cc_steps counts + Suc n \<and>
          card (to_close db' ?o p d) = card (to_close db ?o cur d) - Suc n"
      using r p \<open>ns = boundary\<close> by (simp add: counts1_def)
    moreover have "cc_new_period counts1 = Some p" by (simp add: counts1_def)
    ultimately show ?thesis
      by (intro exI[of _ db'] exI[of _ counts1] exI[of _ p] conjI cl(2) k)
  next
    assume r: "resolved < d \<and> ns \<le> d \<and> to_close db' ?o p d = to_close db ?o cur d - {ns} \<and> ns \<in> to_close db ?o cur d"
    then have e: "to_close db' ?o p d = to_close db ?o cur d - {ns}" "ns \<in> to_close db ?o cur d" by blast+
    have card: "card (to_close db ?o cur d) = Suc (card (to_close db' ?o p d))"
      using card_Suc_Diff1[OF to_close_finite e(2)] by (simp only: e(1))
    have "ns \<le> d" using r by blast
    then have nb: "ns < boundary" using prev_day_less[OF b(2)] by simp
    with pass have st: "close_passes (Suc n) rd s org d today (db, counts) = close_passes n rd s org d today (db', counts1)" by simp
    show ?thesis
    proof (cases n)
      case 0
      with st have "close_passes (Suc n) rd s org d today (db, counts) = Inr (db', counts1)" by simp
      moreover have "if card (to_close db ?o cur d) < Suc n
          then bp_start_date p = boundary \<and> cc_steps counts1 = cc_steps counts + card (to_close db ?o cur d) + 1
          else bp_start_date p < boundary \<and> cc_steps counts1 = cc_steps counts + Suc n \<and>
            card (to_close db' ?o p d) = card (to_close db ?o cur d) - Suc n"
        using p nb card 0 by (simp add: counts1_def)
      moreover have "cc_new_period counts1 = Some p" by (simp add: counts1_def)
      ultimately show ?thesis
        by (intro exI[of _ db'] exI[of _ counts1] exI[of _ p] conjI cl(2) k)
    next
      case (Suc m)
      then have "0 < n" "bp_start_date p < boundary" using p nb by simp_all
      from Suc.IH[OF cl(2) k(1,2,4) this(2,1), of counts1] obtain db2 counts2 p2 where
        r2: "close_passes n rd s org d today (db', counts1) = Inr (db2, counts2)" "periods_wf db2"
          "one_open (roster_set db2 ?o)" "apart (roster_set db2 ?o)"
          "abutting (roster_set db' ?o) \<longrightarrow> abutting (roster_set db2 ?o)"
          "find_open_period db2 ?o = Some p2" "cc_new_period counts2 = Some p2"
        and m: "if card (to_close db' ?o p d) < n
           then bp_start_date p2 = boundary \<and> cc_steps counts2 = cc_steps counts1 + card (to_close db' ?o p d) + 1
           else bp_start_date p2 < boundary \<and> cc_steps counts2 = cc_steps counts1 + n \<and>
             card (to_close db2 ?o p2 d) = card (to_close db' ?o p d) - n" by blast
      have "if card (to_close db ?o cur d) < Suc n
           then bp_start_date p2 = boundary \<and> cc_steps counts2 = cc_steps counts + card (to_close db ?o cur d) + 1
           else bp_start_date p2 < boundary \<and> cc_steps counts2 = cc_steps counts + Suc n \<and>
             card (to_close db2 ?o p2 d) = card (to_close db ?o cur d) - Suc n"
        using m unfolding card by (simp add: counts1_def split: if_splits)
      moreover have "abutting (roster_set db ?o) \<longrightarrow> abutting (roster_set db2 ?o)" using r2(5) k(3) by blast
      moreover have "close_passes (Suc n) rd s org d today (db, counts) = Inr (db2, counts2)" using st r2(1) by simp
      ultimately show ?thesis
        by (intro exI[of _ db2] exI[of _ counts2] exI[of _ p2] conjI r2)
    qed
  qed
qed simp

text \<open>C37: when the close job is due on a roster without overlapping windows, its run succeeds. It closes
  one period for each period start before the current cycle and one more, after which the open period
  starts with the current cycle and the job is no longer due; a roster with 24 or more such starts loses
  24 of them, so repeated runs end there. The windows stay apart throughout.\<close>

theorem billing_close_converges:
  assumes "relativedelta_lib rd" "periods_wf db" "length (org_periods db (o_id org)) \<le> OVERLAP_ANALYSIS_CAP"
    and "find_period_anomalies (load_complete_roster db (o_id org)) today = Inr found" "\<forall>x \<in> set found. harmless x"
    and "close_boundary rd org today = Inr boundary"
    and "find_open_period db (o_id org) = Some cur" "bp_start_date cur < boundary"
  shows "\<exists>db' counts p d. billing_close_run rd s org today db = Inr (db', counts) \<and> next_day d = Some boundary \<and>
    find_open_period db' (o_id org) = Some p \<and> cc_new_period counts = Some p \<and>
    (if card (to_close db (o_id org) cur d) < MAX_CONVERGENCE_STEPS
     then bp_start_date p = boundary \<and> cc_steps counts = card (to_close db (o_id org) cur d) + 1 \<and>
       billing_close_is_due rd s org today db' = Inr (db', False)
     else cc_steps counts = MAX_CONVERGENCE_STEPS \<and>
       card (to_close db' (o_id org) p d) = card (to_close db (o_id org) cur d) - MAX_CONVERGENCE_STEPS) \<and>
    one_open (roster_set db' (o_id org)) \<and> apart (roster_set db' (o_id org))"
proof -
  let ?o = "o_id org" and ?c0 = "\<lparr>cc_closed_on = None, cc_new_period = None, cc_steps = 0, cc_closed_period_ids = []\<rparr>"
  have t: "one_open (roster_set db ?o)" "apart (roster_set db ?o)"
    using report_harmless_iff[OF assms(2,3,4)] assms(5) by auto
  obtain d where d: "prev_day boundary = Some d" using prev_day_defined[OF assms(8)] by blast
  have n: "0 < MAX_CONVERGENCE_STEPS" by (simp add: MAX_CONVERGENCE_STEPS_def)
  from close_passes_spec[OF assms(1,6) d assms(2) t assms(7,8) n, of s ?c0] obtain db' counts p where
    r: "close_passes MAX_CONVERGENCE_STEPS rd s org d today (db, ?c0) = Inr (db', counts)"
      "one_open (roster_set db' ?o)" "apart (roster_set db' ?o)" "find_open_period db' ?o = Some p" "cc_new_period counts = Some p"
    and m: "if card (to_close db ?o cur d) < MAX_CONVERGENCE_STEPS
     then bp_start_date p = boundary \<and> cc_steps counts = cc_steps ?c0 + card (to_close db ?o cur d) + 1
     else bp_start_date p < boundary \<and> cc_steps counts = cc_steps ?c0 + MAX_CONVERGENCE_STEPS \<and>
       card (to_close db' ?o p d) = card (to_close db ?o cur d) - MAX_CONVERGENCE_STEPS" by blast
  have run: "billing_close_run rd s org today db = Inr (db', counts)"
    using assms(6) d r(1) by (simp add: billing_close_run_def)
  have due: "billing_close_is_due rd s org today db' = Inr (db', bp_start_date p < boundary)"
    using assms(6) get_current_open[OF r(4)] by (simp add: billing_close_is_due_def)
  show ?thesis
  proof (intro exI[of _ db'] exI[of _ counts] exI[of _ p] exI[of _ d] conjI)
    show "if card (to_close db ?o cur d) < MAX_CONVERGENCE_STEPS
     then bp_start_date p = boundary \<and> cc_steps counts = card (to_close db ?o cur d) + 1 \<and>
       billing_close_is_due rd s org today db' = Inr (db', False)
     else cc_steps counts = MAX_CONVERGENCE_STEPS \<and>
       card (to_close db' ?o p d) = card (to_close db ?o cur d) - MAX_CONVERGENCE_STEPS"
      using m due by (simp split: if_splits)
  qed (rule run next_prev_day[OF d] r)+
qed

definition sample_org :: organization where
  "sample_org = \<lparr>o_id = 1, o_billing_cycle_day = 1, o_primary_currency = None\<rparr>"

theorem billing_close_converges_witness:
  "\<exists>db' counts p. billing_close_run civil_add sample_store sample_org (date_of 2025 5 20) sample_budgets = Inr (db', counts) \<and>
     cc_steps counts = 3 \<and> find_open_period db' 1 = Some p \<and> bp_start_date p = date_of 2025 5 1"
proof -
  have n: "length (org_periods sample_budgets (o_id sample_org)) = 4" by code_simp
  have l: "length (org_periods sample_budgets (o_id sample_org)) \<le> OVERLAP_ANALYSIS_CAP"
    unfolding n by (simp add: OVERLAP_ANALYSIS_CAP_def)
  have f: "report sample_budgets (o_id sample_org) (date_of 2025 5 20) = Inr [LapsedOpen 2 (date_of 2025 2 28)]" by code_simp
  have h: "\<forall>x \<in> set [LapsedOpen 2 (date_of 2025 2 28)]. harmless x" by (simp add: only_lapsed_def harmless_def)
  have b: "close_boundary civil_add sample_org (date_of 2025 5 20) = Inr (date_of 2025 5 1)" by code_simp
  have o: "find_open_period sample_budgets (o_id sample_org) = Some (sample_period 2 (date_of 2025 2 1) None)" by code_simp
  have c: "bp_start_date (sample_period 2 (date_of 2025 2 1) None) < date_of 2025 5 1" by code_simp
  from billing_close_converges[OF civil.relativedelta_lib_axioms sample_budgets_wf l f h b o c, of sample_store] obtain db' counts p d where
    r: "billing_close_run civil_add sample_store sample_org (date_of 2025 5 20) sample_budgets = Inr (db', counts)"
      "next_day d = Some (date_of 2025 5 1)" "find_open_period db' (o_id sample_org) = Some p"
    and m: "if card (to_close sample_budgets (o_id sample_org) (sample_period 2 (date_of 2025 2 1) None) d) < MAX_CONVERGENCE_STEPS
     then bp_start_date p = date_of 2025 5 1 \<and>
       cc_steps counts = card (to_close sample_budgets (o_id sample_org) (sample_period 2 (date_of 2025 2 1) None) d) + 1 \<and>
       billing_close_is_due civil_add sample_store sample_org (date_of 2025 5 20) db' = Inr (db', False)
     else cc_steps counts = MAX_CONVERGENCE_STEPS \<and>
       card (to_close db' (o_id sample_org) p d) =
         card (to_close sample_budgets (o_id sample_org) (sample_period 2 (date_of 2025 2 1) None) d) - MAX_CONVERGENCE_STEPS" by blast
  have "next_day (date_of 2025 4 30) = Some (date_of 2025 5 1)" by code_simp
  from next_day_inj[OF r(2) this] have d: "d = date_of 2025 4 30" .
  have s: "bp_start_date ` set (org_periods sample_budgets (o_id sample_org)) =
      {date_of 2025 1 1, date_of 2025 2 1, date_of 2025 3 1, date_of 2025 4 1}" by code_simp
  have "to_close sample_budgets (o_id sample_org) (sample_period 2 (date_of 2025 2 1) None) d = {date_of 2025 3 1, date_of 2025 4 1}"
    unfolding to_close_def s d sample_period_def by (auto; code_simp)
  moreover have "card {date_of 2025 3 1, date_of 2025 4 1} = 2" by code_simp
  ultimately have "bp_start_date p = date_of 2025 5 1 \<and> cc_steps counts = 3"
    using m by (simp add: MAX_CONVERGENCE_STEPS_def)
  moreover have "find_open_period db' 1 = Some p" using r(3) by (simp add: sample_org_def)
  ultimately show ?thesis using r(1) by blast
qed

end
