(* ===== verification/StubFacts.thy ===== *)
theory StubFacts
  imports PeriodProps
begin

text \<open>
  The future stubs: \<open>ensure_future_periods\<close> inserts whole cycles after the open period that meet no
  window of the roster, so the windows stay apart.
\<close>

lemma insert_stubs:
  assumes "periods_wf db" "distinct (map fst cs)" "\<And>c. c \<in> set cs \<Longrightarrow> find_period_by_start db org (fst c) = None"
  shows "periods_wf (fold (insert_stub org) cs db) \<and>
    (\<exists>new. periods (fold (insert_stub org) cs db) = periods db @ new \<and>
       list_all2 (\<lambda>p c. bp_org_id p = org \<and> bp_start_date p = fst c \<and> bp_end_date p = Some (snd c)) new cs)"
  using assms
proof (induction cs arbitrary: db)
  case (Cons c cs)
  let ?p = "new_period_row db org (fst c) (Some (snd c))" and ?db = "insert_stub org c db"
  have db: "?db = insert_period ?p db" by (simp add: insert_stub_def)
  have wf: "periods_wf ?db" unfolding db by (rule insert_period_wf) (use Cons.prems in simp_all)
  have miss: "find_period_by_start ?db org (fst x) = None" if "x \<in> set cs" for x
  proof -
    have "fst c \<noteq> fst x" using Cons.prems(2) that by (auto simp: image_iff)
    moreover have "find_period_by_start db org (fst x) = None" using Cons.prems(3) that by simp
    ultimately show ?thesis
      unfolding find_period_by_start_None db insert_period_org(1) by (auto simp: new_period_row_def)
  qed
  have "distinct (map fst cs)" using Cons.prems(2) by simp
  from Cons.IH[OF wf this miss] obtain new where
    n: "periods_wf (fold (insert_stub org) cs ?db)" "periods (fold (insert_stub org) cs ?db) = periods ?db @ new"
      "list_all2 (\<lambda>p c. bp_org_id p = org \<and> bp_start_date p = fst c \<and> bp_end_date p = Some (snd c)) new cs" by blast
  have "periods ?db = periods db @ [?p]" by (simp add: db insert_period_def)
  then have "periods (fold (insert_stub org) (c # cs) db) = periods db @ ?p # new" using n(2) by simp
  moreover have "list_all2 (\<lambda>p c. bp_org_id p = org \<and> bp_start_date p = fst c \<and> bp_end_date p = Some (snd c)) (?p # new) (c # cs)"
    using n(3) by (simp add: new_period_row_def)
  moreover have "periods_wf (fold (insert_stub org) (c # cs) db)" using n(1) by simp
  ultimately show ?case by blast
qed simp

text \<open>A candidate is a whole cycle of a later month.\<close>

lemma stub_candidate_Inr:
  assumes "relativedelta_lib rd" "stub_candidate rd cd base i = Inr c"
  shows "month_index (fst c) = month_index base + i" "fst c \<le> snd c"
    and "\<exists>f. next_day (snd c) = Some f \<and> month_index f = month_index base + i + 1 \<and> is_cycle_start cd f"
    and "is_cycle_start cd (fst c)"
proof -
  from assms(2) obtain f where c: "cycle_start_after rd cd i base = Some (fst c)" "cycle_start_after rd cd 1 (fst c) = Some f"
    "prev_day f = Some (snd c)" by (cases c) (auto simp: stub_candidate_def rbind_eq_Inr)
  note A = relativedelta_lib.cycle_start_after_Some[OF assms(1) c(1)]
    and F = relativedelta_lib.cycle_start_after_Some[OF assms(1) c(2)]
  show "month_index (fst c) = month_index base + i" "is_cycle_start cd (fst c)" using A by simp_all
  show "\<exists>f. next_day (snd c) = Some f \<and> month_index f = month_index base + i + 1 \<and> is_cycle_start cd f"
    using F A next_prev_day[OF c(3)] by auto
  have "fst c < f" using F A by (intro date_less_by_month) simp
  then show "fst c \<le> snd c" using prev_day_greatest[OF c(3)] by blast
qed

lemma stub_candidates:
  assumes rd: "relativedelta_lib rd" and r: "rmap (stub_candidate rd cd base) is = Inr cs"
    and s: "sorted_wrt (<) is"
  shows "sorted_wrt (\<lambda>x y. snd x < fst y) cs" and "c \<in> set cs \<Longrightarrow> fst c \<le> snd c \<and> (\<exists>i \<in> set is. month_index (fst c) = month_index base + i)"
proof -
  have l: "length cs = length is" and nth: "\<And>k. k < length is \<Longrightarrow> stub_candidate rd cd base (is ! k) = Inr (cs ! k)"
    using r by (auto simp: rmap_Inr list_all2_conv_all_nth)
  show "fst c \<le> snd c \<and> (\<exists>i \<in> set is. month_index (fst c) = month_index base + i)" if "c \<in> set cs"
  proof -
    from that obtain k where "k < length is" "c = cs ! k" by (metis in_set_conv_nth l)
    with stub_candidate_Inr[OF rd nth[of k]] show ?thesis by auto
  qed
  have "snd (cs ! j) < fst (cs ! k)" if jk: "j < k" "k < length cs" for j k
  proof -
    have lt: "is ! j < is ! k" using s jk l by (simp add: sorted_wrt_nth_less)
    from stub_candidate_Inr[OF rd nth[of j]] jk l obtain f where
      f: "next_day (snd (cs ! j)) = Some f" "month_index f = month_index base + is ! j + 1" "is_cycle_start cd f" by auto
    from stub_candidate_Inr[OF rd nth[of k]] jk l have
      K: "month_index (fst (cs ! k)) = month_index base + is ! k" "is_cycle_start cd (fst (cs ! k))" by auto
    have "f \<le> fst (cs ! k)"
    proof (cases "is ! k = is ! j + 1")
      case True
      with is_cycle_start_unique[OF f(3) K(2)] f(2) K(1) show ?thesis by simp
    next
      case False
      with lt f(2) K(1) show ?thesis by (intro less_imp_le date_less_by_month) simp
    qed
    with next_day_gt[OF f(1)] show ?thesis by simp
  qed
  then show "sorted_wrt (\<lambda>x y. snd x < fst y) cs" by (simp add: sorted_wrt_iff_nth_less)
qed

text \<open>Asking for future periods only adds rows: closed cycles that start in a later month than the
  open period and meet no window of the roster or each other, at most one per month asked for. A roster
  without overlapping windows, and with one open period, stays so.\<close>

theorem stubs_keep_windows_apart:
  assumes "relativedelta_lib rd" "periods_wf db"
    and "one_open (roster_set db org)" "apart (roster_set db org)" "find_open_period db org = Some cur"
    and "ensure_future_periods rd s org n today db = Inr (db', created)"
  shows "periods_wf db' \<and> periods db' = periods db @ created \<and> length created \<le> nat n \<and>
    (\<forall>p \<in> set created. bp_org_id p = org \<and> month_index (bp_start_date cur) < month_index (bp_start_date p) \<and> bp_end_date p \<noteq> None) \<and>
    one_open (roster_set db' org) \<and> apart (roster_set db' org)"
proof -
  let ?base = "bp_start_date cur" and ?cd = "cycle_day_of s org"
  let ?stub = "\<lambda>c. \<not> list_ex (stub_collides (fst c) (snd c)) (org_periods db org)"
  have "rbind (plan_future_periods rd s org ?base n db) (\<lambda>planned.
     if \<not> distinct (map fst planned) \<or> list_ex (\<lambda>c. find_period_by_start db org (fst c) \<noteq> None) planned then Inr (db, [])
     else let db2 = fold (insert_stub org) planned db in Inr (db2, drop (length (periods db)) (periods db2))) = Inr (db', created)"
    using assms(6) by (simp only: ensure_future_periods_def get_current_open[OF assms(5)] rbind_simps prod.case)
  then obtain planned where pl: "plan_future_periods rd s org ?base n db = Inr planned"
    and e: "(if \<not> distinct (map fst planned) \<or> list_ex (\<lambda>c. find_period_by_start db org (fst c) \<noteq> None) planned then Inr (db, [])
     else let db2 = fold (insert_stub org) planned db in Inr (db2, drop (length (periods db)) (periods db2))) = (Inr (db', created) :: (budget_db \<times> billing_period list) result)"
    unfolding rbind_eq_Inr by blast
  from pl obtain cs where cs: "rmap (stub_candidate rd ?cd ?base) [1..n] = Inr cs" and planned_def: "planned = filter ?stub cs"
  proof -
    from pl obtain cs where cs: "rmap (stub_candidate rd ?cd ?base) [1..n] = Inr cs"
      and f: "(Inr (filter (\<lambda>(start, end_date). \<not> list_ex (stub_collides start end_date) (org_periods db org)) cs) ::
        (date \<times> date) list result) = Inr planned"
      unfolding plan_future_periods_def rbind_eq_Inr by blast
    from f have "planned = filter ?stub cs" by (simp add: case_prod_unfold)
    with cs that show thesis by blast
  qed
  have "sorted_wrt (<) [1..n]" by simp
  note W = stub_candidates[OF assms(1) cs this]
  have pm: "c \<in> set cs" "q \<in> set (org_periods db org) \<Longrightarrow> \<not> stub_collides (fst c) (snd c) q" if "c \<in> set planned" for c q
    using that by (auto simp: planned_def list_ex_iff)
  have pw: "sorted_wrt (\<lambda>x y. snd x < fst y) planned" unfolding planned_def by (rule sorted_wrt_filter[OF W(1)])
  have "sorted_wrt (\<lambda>x y. fst x < fst y) planned"
    by (rule sorted_wrt_mono_rel[OF _ pw]) (meson W(2) pm(1) le_less_trans)
  then have "sorted_wrt (<) (map fst planned)" by (simp add: sorted_wrt_map)
  then have dist: "distinct (map fst planned)" by (simp add: strict_sorted_iff)
  have miss: "find_period_by_start db org (fst c) = None" if "c \<in> set planned" for c
    using pm(2)[OF that] by (auto simp: find_period_by_start_None stub_collides_def)
  then have db': "db' = fold (insert_stub org) planned db" "created = drop (length (periods db)) (periods db')"
    using e dist miss by (auto simp: Let_def list_ex_iff)
  from insert_stubs[OF assms(2) dist miss] obtain new where
    n: "periods_wf db'" "periods db' = periods db @ new"
      "list_all2 (\<lambda>p c. bp_org_id p = org \<and> bp_start_date p = fst c \<and> bp_end_date p = Some (snd c)) new planned"
    unfolding db'(1) by blast
  have cr: "created = new" using db'(2) n(2) by simp
  have row: "\<exists>c \<in> set planned. bp_org_id p = org \<and> bp_start_date p = fst c \<and> bp_end_date p = Some (snd c)" if "p \<in> set new" for p
  proof -
    from that obtain i where i: "i < length new" "p = new ! i" by (auto simp: in_set_conv_nth)
    with list_all2_nthD[OF n(3) i(1)] list_all2_lengthD[OF n(3)] show ?thesis by (intro bexI[of _ "planned ! i"]) auto
  qed
  have later: "month_index ?base < month_index (fst c)" if "c \<in> set planned" for c
    using W(2)[OF pm(1)[OF that]] by auto
  have len: "length new \<le> nat n"
  proof -
    have "length cs = length [1..n]" using cs by (auto simp: rmap_Inr list_all2_conv_all_nth)
    then have "length planned \<le> nat n" unfolding planned_def by (intro order_trans[OF length_filter_le]) simp
    with n(3) show ?thesis by (simp add: list_all2_lengthD)
  qed
  have R: "roster_set db' org = roster_set db org \<union> roster_row_of ` set new"
    using row by (auto simp: roster_set_def org_periods_def n(2))
  have only: "q = cur" if "q \<in> set (org_periods db org)" "bp_end_date q = None" for q
    using open_period[OF assms(3) that assms(2)] assms(5) by simp
  have stub: "\<exists>e. rw_end_date x = Some e \<and> rw_start_date x \<le> e \<and>
      (\<forall>q \<in> roster_set db org. rw_start_date q \<noteq> rw_start_date x \<and>
         (case rw_end_date q of None \<Rightarrow> rw_start_date q < rw_start_date x
          | Some y \<Rightarrow> \<not> (rw_start_date q \<le> e \<and> rw_start_date x \<le> y)))" if "x \<in> roster_row_of ` set new" for x
  proof -
    from that row obtain c where c: "c \<in> set planned" "rw_start_date x = fst c" "rw_end_date x = Some (snd c)" by force
    have free: "rw_start_date q \<noteq> fst c \<and> (case rw_end_date q of None \<Rightarrow> rw_start_date q < fst c
          | Some y \<Rightarrow> \<not> (rw_start_date q \<le> snd c \<and> fst c \<le> y))" if q: "q \<in> roster_set db org" for q
    proof -
      from q obtain p where p: "p \<in> set (org_periods db org)" "q = roster_row_of p" by (auto simp: roster_set_def)
      have "?base < fst c" using later[OF c(1)] by (rule date_less_by_month)
      with pm(2)[OF c(1) p(1)] only[OF p(1)] p(2) show ?thesis
        by (cases "bp_end_date p") (auto simp: stub_collides_def)
    qed
    have "fst c \<le> snd c" using W(2)[OF pm(1)[OF c(1)]] by blast
    with free show ?thesis unfolding c(2,3) by blast
  qed
  have apart2: "e < rw_start_date y" if xy: "x \<in> roster_row_of ` set new" "y \<in> roster_row_of ` set new" "rw_end_date x = Some e"
      "rw_start_date x < rw_start_date y" for x y e
  proof -
    from xy(1,3) row obtain c where c: "c \<in> set planned" "rw_start_date x = fst c" "e = snd c" by force
    from xy(2) row obtain c' where c': "c' \<in> set planned" "rw_start_date y = fst c'" by force
    from c(1) c'(1) obtain i j where ij: "i < length planned" "c = planned ! i" "j < length planned" "c' = planned ! j"
      by (metis in_set_conv_nth)
    consider "i < j" | "j < i" | "i = j" by linarith
    then show ?thesis
    proof cases
      case 1
      with sorted_wrt_nth_less[OF pw 1 ij(3)] ij c c' show ?thesis by simp
    next
      case 2
      with sorted_wrt_nth_less[OF pw 2 ij(1)] ij W(2)[OF pm(1)[OF c'(1)]] c c' xy(4) show ?thesis by auto
    next
      case 3
      with ij c c' xy(4) show ?thesis by simp
    qed
  qed
  have "one_open (roster_set db' org)" "apart (roster_set db' org)"
    unfolding R by (rule stubs_keep[OF assms(3,4) stub apart2]; assumption)+
  moreover have "\<forall>p \<in> set new. bp_org_id p = org \<and> month_index ?base < month_index (bp_start_date p) \<and> bp_end_date p \<noteq> None"
    using row later by fastforce
  ultimately show ?thesis using n len cr by blast
qed

theorem stubs_keep_windows_apart_witness:
  "\<exists>db' created. ensure_future_periods civil_add sample_store 1 4 (date_of 2025 3 20) sample_budgets = Inr (db', created) \<and>
     map bp_start_date created = [date_of 2025 5 25, date_of 2025 6 25] \<and> length created \<le> 4 \<and> apart (roster_set db' 1)"
proof -
  have o: "find_open_period sample_budgets 1 = Some (sample_period 2 (date_of 2025 2 1) None)" by code_simp
  have n: "length (org_periods sample_budgets 1) \<le> OVERLAP_ANALYSIS_CAP" by code_simp
  have "\<forall>x \<in> set [LapsedOpen 2 (date_of 2025 2 28)]. harmless x" by (simp add: only_lapsed_def harmless_def)
  with report_harmless_iff[OF sample_budgets_wf n sample_report]
  have a: "one_open (roster_set sample_budgets 1)" "apart (roster_set sample_budgets 1)" by auto
  have m: "map_sum id (\<lambda>r. map bp_start_date (snd r))
      (ensure_future_periods civil_add sample_store 1 4 (date_of 2025 3 20) sample_budgets) = Inr [date_of 2025 5 25, date_of 2025 6 25]" by code_simp
  then obtain db' created where e: "ensure_future_periods civil_add sample_store 1 4 (date_of 2025 3 20) sample_budgets = Inr (db', created)"
    by (cases "ensure_future_periods civil_add sample_store 1 4 (date_of 2025 3 20) sample_budgets") auto
  from stubs_keep_windows_apart[OF civil.relativedelta_lib_axioms sample_budgets_wf a o e] m e show ?thesis
    by (intro exI[of _ db'] exI[of _ created]) simp
qed

end
