(* ===== verification/BudgetProps.thy ===== *)
theory BudgetProps
  imports Budgets StubFacts Sample
begin

text \<open>
  What budgets count: on a clean roster a settled expense of a category is spent in exactly one
  period's window.
\<close>

section \<open>The spend windows of a clean roster\<close>

abbreviation sorted_periods :: "budget_db \<Rightarrow> int \<Rightarrow> billing_period list" where
  "sorted_periods db org \<equiv> sort_key bp_start_date (org_periods db org)"

lemma roster_nth:
  assumes "i < length (org_periods db org)"
  shows "cr_rows (load_complete_roster db org) ! i = roster_row_of (sorted_periods db org ! i)"
  using assms by (simp add: load_complete_roster_def)

lemma sorted_periods_less:
  assumes wf: "periods_wf db" and "j < length (org_periods db org)" "k < length (org_periods db org)"
  shows "bp_start_date (sorted_periods db org ! j) < bp_start_date (sorted_periods db org ! k) \<longleftrightarrow> j < k"
  using sorted_less_iff[OF roster_rows(1)[OF wf, of org], of j k] assms(2,3) by (simp add: roster_length roster_nth)

lemma sorted_periods_mem:
  "p \<in> set (org_periods db org) \<longleftrightarrow> (\<exists>j < length (org_periods db org). p = sorted_periods db org ! j)"
  using in_set_conv_nth[of p "sorted_periods db org"] by (metis length_sort set_sort)

lemma next_start_index:
  assumes wf: "periods_wf db" and i: "i < length (org_periods db org)"
  shows "next_period_start db org (bp_start_date (sorted_periods db org ! i)) =
    (if i + 1 < length (org_periods db org) then Some (bp_start_date (sorted_periods db org ! (i + 1))) else None)"
proof -
  let ?ps = "sorted_periods db org" and ?rows = "cr_rows (load_complete_roster db org)"
  have len: "length ?rows = length ?ps" "length ?ps = length (org_periods db org)" by (simp_all add: roster_length)
  note lt = sorted_periods_less[OF wf] and mem = sorted_periods_mem
  show ?thesis
  proof (cases "i + 1 < length (org_periods db org)")
    case False
    have "\<not> bp_start_date (?ps ! i) < bp_start_date p" if "p \<in> set (org_periods db org)" for p
      using that lt[OF i] i False len unfolding mem by fastforce
    then show ?thesis using False by (simp add: next_period_start_None)
  next
    case True
    let ?q = "?ps ! (i + 1)"
    have q: "?q \<in> set (org_periods db org)" "bp_start_date (?ps ! i) < bp_start_date ?q"
      using True lt[OF i True] mem by auto
    then obtain s0 where s0: "next_period_start db org (bp_start_date (?ps ! i)) = Some s0"
      using next_period_start_None by (cases "next_period_start db org (bp_start_date (?ps ! i))") blast+
    note S = next_period_start_Some[OF s0]
    from S(2) obtain p where p: "p \<in> set (org_periods db org)" "bp_start_date p = s0" by blast
    then obtain j where j: "j < length (org_periods db org)" "bp_start_date (?ps ! j) = s0" using mem[of p db org] by blast
    then have "i < j" using S(1) lt[OF i j(1)] by simp
    then have "bp_start_date ?q \<le> s0" using j lt[OF j(1) True] by (simp add: not_less[symmetric])
    with S(3)[OF q] s0 True show ?thesis by simp
  qed
qed

text \<open>Nothing in the report means that the open period, if another follows it, reaches today.\<close>

lemma open_not_lapsed:
  assumes s: "strictly_sorted rows" and f: "find_period_anomalies (complete_roster.make i rows) today = Inr []"
    and k: "k < length rows" "rw_end_date (rows ! k) = None" and e: "kernel_derived_end rows k = Inr (Some e)"
  shows "today \<le> e"
proof -
  obtain ends gaps where d: "rmap (kernel_derived_end rows) [0..<length rows] = Inr ends"
    and m: "set [] = set (inverted_rows rows) \<union> set (concat gaps) \<union> set (overlap_rule rows ends) \<union> set (open_rules rows ends today)"
    by (rule report_parts[OF f])
  then have o: "open_rules rows ends today = []" by simp
  then have "length (open_indexes rows) = 1" using open_rules_single[of rows ends today] by simp
  moreover have "k \<in> set (open_indexes rows)" using k by (simp add: open_indexes_mem)
  ultimately have "open_indexes rows = [k]" by (cases "open_indexes rows") auto
  moreover have "ends ! k = Some e" using derived_end(2)[OF d k(1)] e by simp
  ultimately show ?thesis using o by (auto simp: open_rules_def Let_def split: if_splits)
qed

lemma spend_window_covers:
  assumes wf: "periods_wf db" and cap: "length (org_periods db org) \<le> OVERLAP_ANALYSIS_CAP"
    and f: "report db org today = Inr []" and i: "i < length (org_periods db org)"
  shows "\<exists>e. period_spend_window_end db org (sorted_periods db org ! i) today = Inr e \<and>
    (\<forall>d. covers (cr_rows (load_complete_roster db org)) i d \<longleftrightarrow>
       bp_start_date (sorted_periods db org ! i) \<le> d \<and> (case e of None \<Rightarrow> True | Some x \<Rightarrow> d \<le> x))"
proof -
  let ?rows = "cr_rows (load_complete_roster db org)" and ?p = "sorted_periods db org ! i"
  have row: "?rows ! i = roster_row_of ?p" by (rule roster_nth[OF i])
  show ?thesis
  proof (cases "bp_end_date ?p")
    case (Some x)
    then show ?thesis using row
      by (intro exI[of _ "Some x"]) (simp add: period_spend_window_end_def period_effective_end_def covers_def)
  next
    case None
    show ?thesis
    proof (cases "i + 1 < length (org_periods db org)")
      case False
      then show ?thesis using row None next_start_index[OF wf i] roster_length[of db org]
        by (intro exI[of _ None]) (simp add: period_spend_window_end_def period_effective_end_def covers_def)
    next
      case True
      let ?q = "sorted_periods db org ! (i + 1)"
      have rq: "?rows ! (i + 1) = roster_row_of ?q" by (rule roster_nth[OF True])
      have lt: "bp_start_date ?p < bp_start_date ?q"
        using sorted_nth_less[OF roster_rows(1)[OF wf, of org], of i "i + 1"] True row rq by (simp add: roster_length)
      then obtain e where e: "prev_day (bp_start_date ?q) = Some e" using prev_day_defined by blast
      have "kernel_derived_end ?rows i = Inr (Some e)"
        using row rq None True e by (simp add: kernel_derived_end_def roster_length)
      moreover have "find_period_anomalies (complete_roster.make org ?rows) today = Inr []"
        using f by (simp only: load_make[symmetric])
      ultimately have "today \<le> e"
        using open_not_lapsed[OF roster_rows(1)[OF wf, of org], of org today i e] i row None by (simp add: roster_length)
      moreover have "bp_start_date ?p \<le> e" using prev_day_greatest[OF e lt] .
      ultimately have "period_spend_window_end db org ?p today = Inr (Some e)"
        using None next_start_index[OF wf i] True e
        by (simp add: period_spend_window_end_def period_effective_end_def Let_def max_def)
      moreover have "d < bp_start_date ?q \<longleftrightarrow> d \<le> e" for d using prev_day_less_iff[OF e] .
      ultimately show ?thesis using row rq None True
        by (intro exI[of _ "Some e"]) (simp add: covers_def roster_length)
    qed
  qed
qed

lemma covers_within:
  assumes s: "strictly_sorted rows" and a: "apart (set rows)" and i: "i < length rows" and c: "covers rows i d"
  shows "within_roster rows d"
proof -
  let ?l = "length rows - 1"
  have "rows \<noteq> []" using i by auto
  then have l: "?l < length rows" "last rows = rows ! ?l" by (simp_all add: last_conv_nth)
  have "rw_start_date (hd rows) \<le> d" using hd_start[OF s i] c by (auto simp: covers_def)
  moreover have "d \<le> e" if e: "rw_end_date (last rows) = Some e" for e
  proof (cases "i = ?l")
    case True
    with c e l show ?thesis by (auto simp: covers_def)
  next
    case False
    then have il: "i < ?l" "i + 1 < length rows" using i by auto
    have "d < rw_start_date (rows ! (i + 1)) \<or> d < rw_start_date (rows ! ?l)"
    proof (cases "rw_end_date (rows ! i)")
      case None
      with c il show ?thesis by (simp add: covers_def)
    next
      case (Some x)
      from apartD(2)[OF a nth_mem[OF i] Some nth_mem[OF l(1)]] sorted_less_iff[OF s i l(1)] il c Some
      show ?thesis by (auto simp: covers_def)
    qed
    moreover have "rw_start_date (rows ! (i + 1)) \<le> rw_start_date (rows ! ?l)"
      using sorted_le_iff[OF s il(2) l(1)] il by simp
    moreover have "rw_start_date (rows ! ?l) \<le> e" using apartD(1)[OF a nth_mem[OF l(1)]] e l(2) by simp
    ultimately show ?thesis by auto
  qed
  ultimately show ?thesis by (auto simp: within_roster_def split: option.splits)
qed

text \<open>A sum over rows, split by windows of which each row of interest is in exactly one.\<close>

lemma sum_by_windows:
  fixes f :: "'r \<Rightarrow> decimal" and n :: nat
  assumes "\<And>t. t \<in> set ts \<Longrightarrow> P t \<Longrightarrow> W t \<Longrightarrow> \<exists>!i. i < n \<and> C i t" "\<And>t i. t \<in> set ts \<Longrightarrow> i < n \<Longrightarrow> C i t \<Longrightarrow> W t"
  shows "(\<Sum>i<n. sum_list (map f (filter (\<lambda>t. P t \<and> C i t) ts))) = sum_list (map f (filter (\<lambda>t. P t \<and> W t) ts))"
  using assms
proof (induction ts)
  case (Cons t ts)
  have "(\<Sum>i<n. if P t \<and> C i t then f t else 0) = (if P t \<and> W t then f t else 0)"
  proof (cases "P t \<and> W t")
    case True
    with Cons.prems(1)[of t] obtain k where k: "k < n" "C k t" "\<And>i. i < n \<Longrightarrow> C i t \<Longrightarrow> i = k" by auto
    have "C i t \<longleftrightarrow> i = k" if "i < n" for i using k that by blast
    then have "(\<Sum>i<n. if P t \<and> C i t then f t else 0) = (\<Sum>i<n. if i = k then f t else 0)"
      using True by (intro sum.cong) simp_all
    also have "\<dots> = f t" using k(1) by (simp add: sum.delta)
    finally show ?thesis using True by simp
  next
    case False
    with Cons.prems(2)[of t] have "(\<Sum>i<n. if P t \<and> C i t then f t else 0) = 0" by (intro sum.neutral) auto
    with False show ?thesis by auto
  qed
  moreover have "sum_list (map f (filter Q (t # ts))) = (if Q t then f t else 0) + sum_list (map f (filter Q ts))" for Q by simp
  moreover have "(\<Sum>i<n. sum_list (map f (filter (\<lambda>t. P t \<and> C i t) ts))) = sum_list (map f (filter (\<lambda>t. P t \<and> W t) ts))"
    using Cons by simp
  ultimately show ?case by (simp add: sum.distrib del: filter.simps)
qed simp

text \<open>C38: on a roster the anomaly kernel finds nothing wrong with, every period has a spend window, and
  what a category spent in the windows of all periods adds up to what it spent from the start of the
  first to the end of the last (or without end, when that one is open): no settled expense is counted
  twice and none is lost.\<close>

theorem spent_counted_once:
  assumes "periods_wf db" "length (org_periods db org) \<le> OVERLAP_ANALYSIS_CAP"
    and "find_period_anomalies (load_complete_roster db org) today = Inr []"
    and "first \<in> set (org_periods db org)" "\<forall>p \<in> set (org_periods db org). bp_start_date first \<le> bp_start_date p"
    and "final \<in> set (org_periods db org)" "\<forall>p \<in> set (org_periods db org). bp_start_date p \<le> bp_start_date final"
  shows "(\<forall>p \<in> set (org_periods db org). isl (period_spend_window_end db org p today) = False) \<and>
    (\<Sum>p \<in> set (org_periods db org). compute_spent s org master (bp_start_date p)
       (projr (period_spend_window_end db org p today)) scope) =
    compute_spent s org master (bp_start_date first) (bp_end_date final) scope"
proof -
  let ?ps = "sorted_periods db org" and ?rows = "cr_rows (load_complete_roster db org)" and ?n = "length (org_periods db org)"
  let ?e = "\<lambda>p. period_spend_window_end db org p today" and ?d = effective_period_date_expr
  note W = spend_window_covers[OF assms(1-3)]
  have len: "length ?ps = ?n" "length ?rows = ?n" by (simp_all add: roster_length)
  have s: "strictly_sorted ?rows" by (rule roster_rows(1)[OF assms(1)])
  have t: "one_open (set ?rows)" "apart (set ?rows)" "abutting (set ?rows)"
    using report_clean_iff[OF assms(1-3)] roster_rows(2)[OF assms(1), of org] by (auto simp: tiled_def)
  have n: "?rows \<noteq> []" "0 < ?n" using t(1) len by (auto simp: one_open_def)
  have ok: "\<not> isl (?e p)" if p: "p \<in> set (org_periods db org)" for p
  proof -
    from p have "p \<in> set ?ps" by simp
    then obtain i where "i < ?n" "p = ?ps ! i" unfolding in_set_conv_nth len by blast
    with W[of i] show ?thesis by auto
  qed
  have ends: "hd ?rows = roster_row_of first" "last ?rows = roster_row_of final"
  proof -
    note lt = sorted_periods_less[OF assms(1)] and mem = sorted_periods_mem
    from assms(4) obtain j where j: "j < ?n" "first = ?ps ! j" using mem by blast
    have "?ps ! 0 \<in> set (org_periods db org)" using n mem by blast
    then have "\<not> bp_start_date (?ps ! 0) < bp_start_date first" using assms(5) leD by blast
    then have "j = 0" using lt[OF n(2) j(1)] j(2) by simp
    with j n show "hd ?rows = roster_row_of first" by (simp add: hd_conv_nth roster_nth)
    from assms(6) obtain k where k: "k < ?n" "final = ?ps ! k" using mem by blast
    have l: "?n - 1 < ?n" using n by simp
    then have "?ps ! (?n - 1) \<in> set (org_periods db org)" using mem by blast
    then have "\<not> bp_start_date final < bp_start_date (?ps ! (?n - 1))" using assms(7) leD by blast
    then have "\<not> k < ?n - 1" using lt[OF k(1) l] k(2) by simp
    with k(1) have "k = ?n - 1" by simp
    with k l n show "last ?rows = roster_row_of final" by (simp add: last_conv_nth roster_nth len)
  qed
  have each: "compute_spent s org master (bp_start_date (?ps ! i)) (projr (?e (?ps ! i))) scope =
      sum_list (map tx_amount (filter (\<lambda>t. spends s org master scope t \<and> covers ?rows i (?d t)) (transactions s)))" if i: "i < ?n" for i
  proof -
    from W[OF i] obtain x where x: "?e (?ps ! i) = Inr x"
      "\<forall>d. covers ?rows i d \<longleftrightarrow> bp_start_date (?ps ! i) \<le> d \<and> (case x of None \<Rightarrow> True | Some y \<Rightarrow> d \<le> y)" by blast
    then show ?thesis unfolding compute_spent_def by (simp add: conj_assoc)
  qed
  have "(\<Sum>p \<in> set (org_periods db org). compute_spent s org master (bp_start_date p) (projr (?e p)) scope) =
      sum_list (map (\<lambda>p. compute_spent s org master (bp_start_date p) (projr (?e p)) scope) ?ps)"
    using org_periods_distinct(2)[OF assms(1), of org] by (simp add: sum_list_distinct_conv_sum_set)
  also have "\<dots> = (\<Sum>i<?n. compute_spent s org master (bp_start_date (?ps ! i)) (projr (?e (?ps ! i))) scope)"
    by (simp add: sum_list_sum_nth atLeast0LessThan)
  also have "\<dots> = (\<Sum>i<?n. sum_list (map tx_amount (filter (\<lambda>t. spends s org master scope t \<and> covers ?rows i (?d t)) (transactions s))))"
    using each by (intro sum.cong) auto
  also have "\<dots> = sum_list (map tx_amount (filter (\<lambda>t. spends s org master scope t \<and> within_roster ?rows (?d t)) (transactions s)))"
    using tiled_covered[OF s t(2,3) n(1)] covers_within[OF s t(2)] len by (intro sum_by_windows) auto
  also have "\<dots> = compute_spent s org master (bp_start_date first) (bp_end_date final) scope"
    by (simp add: compute_spent_def within_roster_def ends)
  finally show ?thesis using ok by blast
qed

theorem spent_counted_once_witness:
  "(\<Sum>p \<in> set (org_periods sample_budgets 1). compute_spent sample_store 1 3 (bp_start_date p)
     (projr (period_spend_window_end sample_budgets 1 p (date_of 2025 2 20))) None) = 100"
proof -
  have n: "length (org_periods sample_budgets 1) \<le> OVERLAP_ANALYSIS_CAP" by code_simp
  have f: "report sample_budgets 1 (date_of 2025 2 20) = Inr []" by code_simp
  have e: "sample_period 1 (date_of 2025 1 1) (Some (date_of 2025 1 31)) \<in> set (org_periods sample_budgets 1)"
    "sample_period 4 (date_of 2025 4 1) (Some (date_of 2025 4 30)) \<in> set (org_periods sample_budgets 1)" by code_simp+
  have b: "\<forall>p \<in> set (org_periods sample_budgets 1). bp_start_date (sample_period 1 (date_of 2025 1 1) (Some (date_of 2025 1 31))) \<le> bp_start_date p"
    "\<forall>p \<in> set (org_periods sample_budgets 1). bp_start_date p \<le> bp_start_date (sample_period 4 (date_of 2025 4 1) (Some (date_of 2025 4 30)))" by code_simp+
  have "compute_spent sample_store 1 3 (bp_start_date (sample_period 1 (date_of 2025 1 1) (Some (date_of 2025 1 31))))
      (bp_end_date (sample_period 4 (date_of 2025 4 1) (Some (date_of 2025 4 30)))) None = 100" by code_simp
  with spent_counted_once[OF sample_budgets_wf n f e(1) b(1) e(2) b(2), of sample_store 3 None] show ?thesis by simp
qed

end
