(* ===== verification/BudgetOps.thy ===== *)
theory BudgetOps
  imports BudgetInv BudgetProps
begin

text \<open>
  The budget tables as a system: the contract \<open>book_operation\<close> of a request, its interpretation, the
  invariant of \<open>BudgetInv\<close> over all histories, and what the rebalance moves. The route that inserts
  a period row directly, for seeding, is not a request here.
\<close>

section \<open>Requests\<close>

locale book_operation =
  fixes exec :: "'c \<Rightarrow> store \<Rightarrow> budget_db \<Rightarrow> budget_db result"
  assumes keeps: "book_ok db \<Longrightarrow> exec c s db = Inr db' \<Longrightarrow> book_ok db'"

text \<open>The ledger tables may change between two requests.\<close>

inductive book_reaches :: "('c \<Rightarrow> store \<Rightarrow> budget_db \<Rightarrow> budget_db result) \<Rightarrow> budget_db \<Rightarrow> budget_db \<Rightarrow> bool" for exec db0 where
  book_start: "book_reaches exec db0 db0"
| book_step: "book_reaches exec db0 db \<Longrightarrow> exec c s db = Inr db' \<Longrightarrow> book_reaches exec db0 db'"

inductive_cases book_reachesE: "book_reaches exec db0 db"

context book_operation
begin

lemma reaches_keeps: "book_reaches exec db0 db \<Longrightarrow> book_ok db0 \<Longrightarrow> book_ok db"
  by (induction rule: book_reaches.induct) (auto intro: keeps)

end

datatype budget_request =
    CurrentPeriod int date
  | EnsureFuture int int date
  | ClosePeriod int "date option" date
  | CloseJob organization date
  | ListBudgets int "date option" date
  | CreateBudget int int decimal "date option" date
  | UpdateBudget int int "decimal option" date
  | RebalanceBudgets int "rebalance_item list" date
  | DeleteBudget int int
  | FromForecast "forecast_plan list" int "date option" date
  | CopyBudgets int date "date option" date

definition committed_book :: "(budget_db \<times> 'a) result \<Rightarrow> budget_db result" where
  "committed_book r = rbind r (\<lambda>p. Inr (fst p))"

lemma committed_book_Inr: "committed_book r = Inr db' \<longleftrightarrow> (\<exists>x. r = Inr (db', x))"
  by (auto simp: committed_book_def rbind_eq_Inr)

fun book_handle :: "(int \<Rightarrow> int \<Rightarrow> date \<Rightarrow> date option) \<Rightarrow> budget_request \<Rightarrow> store \<Rightarrow> budget_db \<Rightarrow> budget_db result" where
  "book_handle rd (CurrentPeriod org today) s db = committed_book (get_current_period rd s org today db)"
| "book_handle rd (EnsureFuture org n today) s db = committed_book (ensure_future_periods rd s org n today db)"
| "book_handle rd (ClosePeriod org d today) s db = committed_book (close_period rd s org d today db)"
| "book_handle rd (CloseJob org today) s db =
     rbind (billing_close_is_due rd s org today db) (\<lambda>(db1, due).
     if due then committed_book (billing_close_run rd s org today db1) else Inr db1)"
| "book_handle rd (ListBudgets org start today) s db = committed_book (list_budgets rd s org start today db)"
| "book_handle rd (CreateBudget org cat x start today) s db = committed_book (create_budget rd s org cat x start today db)"
| "book_handle rd (UpdateBudget org i x today) s db = committed_book (update_budget s org i x today db)"
| "book_handle rd (RebalanceBudgets org items today) s db = committed_book (rebalance_budgets rd s org items today db)"
| "book_handle rd (DeleteBudget org i) s db = delete_budget org i db"
| "book_handle rd (FromForecast plans org start today) s db =
     committed_book (create_budgets_from_forecast rd s plans org start today db)"
| "book_handle rd (CopyBudgets org src tgt today) s db = committed_book (copy_budgets_from_period rd s org src tgt today db)"

lemma close_job_ok:
  "book_ok db \<Longrightarrow> billing_close_is_due rd s org today db = Inr (db1, due) \<Longrightarrow>
    billing_close_run rd s org today db1 = Inr (db', counts) \<Longrightarrow> book_ok db'"
  by (rule close_run_ok[OF close_is_due_ok])

lemma book_handle_keeps:
  assumes "book_ok db" "book_handle rd c s db = Inr db'"
  shows "book_ok db'"
  using assms(2) get_current_ok[OF assms(1)] ensure_future_ok[OF assms(1)] close_period_ok[OF assms(1)] list_budgets_ok[OF assms(1)]
    create_budget_ok[OF assms(1)] update_budget_ok[OF assms(1)] rebalance_ok[OF assms(1)] delete_budget_ok[OF assms(1)]
    from_forecast_ok[OF assms(1)] copy_budgets_ok[OF assms(1)] close_is_due_ok[OF assms(1)] close_job_ok[OF assms(1)]
  by (cases c) (auto simp: committed_book_Inr rbind_eq_Inr split: if_splits)

interpretation book: book_operation "book_handle rd"
  by unfold_locales (rule book_handle_keeps)

definition empty_book :: budget_db where
  "empty_book = \<lparr>periods = [], budgets = [], next_key = 1\<rparr>"

lemma empty_book_ok: "book_ok empty_book"
  by (simp add: empty_book_def book_ok_def tables_ok_def opens_once_def periods_wf_def)

lemma book_window:
  assumes "book_ok db" "b \<in> set (budgets db)"
  shows "\<exists>p. find_period_by_start db (bg_org_id b) (bg_period_start b) = Some p \<and> bp_end_date p = bg_period_end b"
proof -
  from assms obtain p where p: "p \<in> set (org_periods db (bg_org_id b))" "bp_start_date p = bg_period_start b" "bp_end_date p = bg_period_end b"
    by (auto simp: book_ok_def tables_ok_def anchor_def org_periods_mem)
  then obtain q where q: "find_period_by_start db (bg_org_id b) (bg_period_start b) = Some q"
    using find_period_by_start_None[of db "bg_org_id b" "bg_period_start b"] by fastforce
  with p(3) period_start_unique[OF book_okD(3)[OF assms(1)] _ p(1), of q] p(2) find_period_by_start_Some[OF q] show ?thesis by auto
qed

text \<open>C39: whatever sequence of the requests above succeeds on empty tables, with the ledger tables
  changing in between, no organisation has two periods with one start or two budgets of a category in a
  period, at most one of its periods is open, and every budget carries the start and end of a stored
  period of its organisation.\<close>

theorem books_stay_consistent:
  assumes "book_reaches (book_handle rd) empty_book db"
  shows "distinct (map (\<lambda>p. (bp_org_id p, bp_start_date p)) (periods db)) \<and>
    distinct (map (\<lambda>b. (bg_org_id b, bg_category_id b, bg_period_start b)) (budgets db)) \<and>
    length (open_periods db org) \<le> 1 \<and>
    (\<forall>b \<in> set (budgets db). \<exists>p. find_period_by_start db (bg_org_id b) (bg_period_start b) = Some p \<and>
       bp_end_date p = bg_period_end b)"
proof (intro conjI ballI)
  have ok: "book_ok db" by (rule book.reaches_keeps[OF assms empty_book_ok])
  then show "distinct (map (\<lambda>p. (bp_org_id p, bp_start_date p)) (periods db))"
    "distinct (map (\<lambda>b. (bg_org_id b, bg_category_id b, bg_period_start b)) (budgets db))"
    by (simp_all add: book_ok_def tables_ok_def periods_wf_def)
  let ?os = "open_periods db org"
  have d: "distinct ?os" using org_periods_distinct(2)[OF book_okD(3)[OF ok]] by (simp add: open_periods_def)
  have u: "p = q" if "p \<in> set ?os" "q \<in> set ?os" for p q
    using that opens_onceD[OF book_okD(2)[OF ok], of p q] by (auto simp: open_periods_def org_periods_mem)
  show "length ?os \<le> 1"
  proof (rule ccontr)
    assume "\<not> length ?os \<le> 1"
    then have "0 < length ?os" "1 < length ?os" by auto
    then have "?os ! 0 = ?os ! 1" "?os ! 0 \<noteq> ?os ! 1" using u d nth_eq_iff_index_eq[OF d, of 0 1] nth_mem by auto
    then show False by simp
  qed
  show "\<exists>p. find_period_by_start db (bg_org_id b) (bg_period_start b) = Some p \<and> bp_end_date p = bg_period_end b"
    if "b \<in> set (budgets db)" for b by (rule book_window[OF ok that])
qed

theorem books_stay_consistent_witness:
  "\<exists>db. book_reaches (book_handle civil_add) empty_book db \<and> map bg_period_end (budgets db) = [Some (date_of 2025 3 20)] \<and>
     length (periods db) = 2 \<and> length (open_periods db 1) \<le> 1"
proof -
  let ?c = "book_handle civil_add (CreateBudget 1 3 50 None (date_of 2025 3 10)) sample_store empty_book"
  let ?d = "rbind ?c (\<lambda>db. book_handle civil_add (ClosePeriod 1 (Some (date_of 2025 3 20)) (date_of 2025 3 21)) sample_store db)"
  have "map_sum id (\<lambda>db. (map bg_period_end (budgets db), length (periods db))) ?d = Inr ([Some (date_of 2025 3 20)], 2)" by code_simp
  then obtain db where d: "?d = Inr db" "map bg_period_end (budgets db) = [Some (date_of 2025 3 20)]" "length (periods db) = 2"
    by (cases ?d) auto
  from d(1) obtain db1 where "?c = Inr db1"
    "book_handle civil_add (ClosePeriod 1 (Some (date_of 2025 3 20)) (date_of 2025 3 21)) sample_store db1 = Inr db" unfolding rbind_eq_Inr by blast
  then have r: "book_reaches (book_handle civil_add) empty_book db" by (intro book_step[OF book_step[OF book_start]])
  from books_stay_consistent[OF r, of 1] have "length (open_periods db 1) \<le> 1" by (elim conjE)
  with r d(2,3) show ?thesis by (intro exI[of _ db] conjI)
qed

section \<open>Rebalancing\<close>

lemma put_amount_named:
  assumes "distinct (map bg_id (budgets db))" "b \<in> set (budgets db)" "bg_id b = i" "\<And>c y. P (c\<lparr>bg_amount := y\<rparr>) = P c"
  shows "sum_list (map bg_amount (filter P (budgets (put_amount i x db)))) =
      sum_list (map bg_amount (filter P (budgets db))) + (if P b then x - bg_amount b else 0)"
proof -
  have none: "map (\<lambda>c. if bg_id c = i then c\<lparr>bg_amount := x\<rparr> else c) cs = cs" if "i \<notin> set (map bg_id cs)" for cs
    using that by (intro map_idI) auto
  have "sum_list (map bg_amount (filter P (map (\<lambda>c. if bg_id c = i then c\<lparr>bg_amount := x\<rparr> else c) cs))) =
      sum_list (map bg_amount (filter P cs)) + (if P b then x - bg_amount b else 0)"
    if "distinct (map bg_id cs)" "b \<in> set cs" for cs
    using that
  proof (induction cs)
    case (Cons c cs)
    show ?case
    proof (cases "c = b")
      case True
      then have "i \<notin> set (map bg_id cs)" using Cons.prems assms(3) by auto
      with none[OF this] True assms(3,4) show ?thesis by simp
    next
      case False
      then have "bg_id c \<noteq> i" using Cons.prems assms(3) by auto
      with Cons False show ?thesis by simp
    qed
  qed simp
  with assms(1,2) show ?thesis by (simp add: put_amount_def update_row_def)
qed

lemma put_amount_ids: "map bg_id (budgets (put_amount i x db)) = map bg_id (budgets db)"
  by (simp add: put_amount_def update_row_def)

abbreviation put_amounts :: "rebalance_item list \<Rightarrow> budget_db \<Rightarrow> budget_db" where
  "put_amounts \<equiv> fold (\<lambda>it. put_amount (ri_budget_id it) (ri_amount it))"

lemma put_amounts_shape:
  "periods (put_amounts items db) = periods db"
  "map (\<lambda>b. b\<lparr>bg_amount := 0\<rparr>) (budgets (put_amounts items db)) = map (\<lambda>b. b\<lparr>bg_amount := 0\<rparr>) (budgets db)"
  "filter (\<lambda>b. bg_id b \<notin> set (map ri_budget_id items)) (budgets (put_amounts items db)) =
     filter (\<lambda>b. bg_id b \<notin> set (map ri_budget_id items)) (budgets db)"
proof -
  show "periods (put_amounts items db) = periods db"
    by (induction items arbitrary: db) (simp_all add: put_amount_def)
  show "map (\<lambda>b. b\<lparr>bg_amount := 0\<rparr>) (budgets (put_amounts items db)) = map (\<lambda>b. b\<lparr>bg_amount := 0\<rparr>) (budgets db)"
    by (induction items arbitrary: db) (simp_all add: put_amount_def update_row_def)
  have one: "filter (\<lambda>b. bg_id b \<notin> S) (budgets (put_amount i x db)) = filter (\<lambda>b. bg_id b \<notin> S) (budgets db)" if "i \<in> S" for i x db S
  proof -
    have "filter (\<lambda>b. bg_id b \<notin> S) (map (\<lambda>c. if bg_id c = i then c\<lparr>bg_amount := x\<rparr> else c) cs) = filter (\<lambda>b. bg_id b \<notin> S) cs" for cs
      using that by (induction cs) auto
    then show ?thesis by (simp add: put_amount_def update_row_def)
  qed
  have "filter (\<lambda>b. bg_id b \<notin> S) (budgets (put_amounts its db)) = filter (\<lambda>b. bg_id b \<notin> S) (budgets db)"
    if "set (map ri_budget_id its) \<subseteq> S" for its db S
    using that by (induction its arbitrary: db) (auto simp: one)
  then show "filter (\<lambda>b. bg_id b \<notin> set (map ri_budget_id items)) (budgets (put_amounts items db)) =
     filter (\<lambda>b. bg_id b \<notin> set (map ri_budget_id items)) (budgets db)" by blast
qed

text \<open>The rows an item list names, with the amounts it expects and a common period.\<close>

definition names_rows :: "rebalance_item list \<Rightarrow> int \<Rightarrow> date \<Rightarrow> budget_db \<Rightarrow> bool" where
  "names_rows items org start db \<longleftrightarrow> (\<forall>it \<in> set items. \<exists>b \<in> set (budgets db). bg_id b = ri_budget_id it \<and>
     bg_org_id b = org \<and> bg_period_start b = start \<and> bg_amount b = ri_expected_amount it)"

lemma names_rows_step:
  assumes "names_rows (it # items) org start db" "distinct (map ri_budget_id (it # items))"
  shows "names_rows items org start (put_amount (ri_budget_id it) x db)"
  unfolding names_rows_def
proof
  fix it' assume i: "it' \<in> set items"
  with assms(1) obtain b where b: "b \<in> set (budgets db)" "bg_id b = ri_budget_id it'" "bg_org_id b = org"
    "bg_period_start b = start" "bg_amount b = ri_expected_amount it'" by (auto simp: names_rows_def)
  have "ri_budget_id it' \<in> ri_budget_id ` set items" using i by (rule imageI)
  then have "ri_budget_id it' \<noteq> ri_budget_id it" using assms(2) by auto
  with b have "b \<in> set (budgets (put_amount (ri_budget_id it) x db))" by (force simp: put_amount_def set_update_row)
  with b show "\<exists>b \<in> set (budgets (put_amount (ri_budget_id it) x db)). bg_id b = ri_budget_id it' \<and> bg_org_id b = org \<and>
      bg_period_start b = start \<and> bg_amount b = ri_expected_amount it'" by blast
qed

lemma put_amounts_sum:
  assumes "distinct (map bg_id (budgets db))" "distinct (map ri_budget_id items)" "names_rows items org start db"
  shows "sum_list (map bg_amount (budgets_at (put_amounts items db) org d)) = sum_list (map bg_amount (budgets_at db org d)) +
    (if d = start then sum_list (map ri_amount items) - sum_list (map ri_expected_amount items) else 0)"
  using assms
proof (induction items arbitrary: db)
  case (Cons it items)
  let ?db = "put_amount (ri_budget_id it) (ri_amount it) db" and ?P = "\<lambda>b. bg_org_id b = org \<and> bg_period_start b = d"
  from Cons.prems(3) obtain b where b: "b \<in> set (budgets db)" "bg_id b = ri_budget_id it" "bg_org_id b = org"
    "bg_period_start b = start" "bg_amount b = ri_expected_amount it" by (auto simp: names_rows_def)
  from Cons.IH[of ?db] Cons.prems(1,2) names_rows_step[OF Cons.prems(3,2)] have
    "sum_list (map bg_amount (budgets_at (put_amounts items ?db) org d)) = sum_list (map bg_amount (budgets_at ?db org d)) +
      (if d = start then sum_list (map ri_amount items) - sum_list (map ri_expected_amount items) else 0)"
    by (simp add: put_amount_ids)
  moreover have "sum_list (map bg_amount (budgets_at ?db org d)) = sum_list (map bg_amount (budgets_at db org d)) +
      (if ?P b then ri_amount it - bg_amount b else 0)"
    unfolding budgets_at_def by (rule put_amount_named[OF Cons.prems(1) b(1,2)]) simp
  ultimately show ?case using b by simp
qed simp

lemma put_amounts_put:
  assumes "distinct (map ri_budget_id items)" "names_rows items org start db" "it \<in> set items"
  shows "\<exists>b \<in> set (budgets (put_amounts items db)). bg_id b = ri_budget_id it \<and> bg_amount b = ri_amount it"
  using assms
proof (induction items arbitrary: db)
  case (Cons it0 items)
  let ?db = "put_amount (ri_budget_id it0) (ri_amount it0) db"
  show ?case
  proof (cases "it = it0")
    case False
    with Cons.prems Cons.IH[OF _ names_rows_step[OF Cons.prems(2,1)]] show ?thesis by simp
  next
    case True
    from Cons.prems(2) obtain b where "b \<in> set (budgets db)" "bg_id b = ri_budget_id it0" by (auto simp: names_rows_def)
    then have b: "b\<lparr>bg_amount := ri_amount it0\<rparr> \<in> set (budgets ?db)" "bg_id b = ri_budget_id it0"
      by (force simp: put_amount_def set_update_row)+
    then have "b\<lparr>bg_amount := ri_amount it0\<rparr> \<in> set (filter (\<lambda>b. bg_id b \<notin> set (map ri_budget_id items)) (budgets ?db))"
      using Cons.prems(1) by auto
    then have "b\<lparr>bg_amount := ri_amount it0\<rparr> \<in>
        set (filter (\<lambda>b. bg_id b \<notin> set (map ri_budget_id items)) (budgets (put_amounts items ?db)))"
      by (simp only: put_amounts_shape(3))
    then have "b\<lparr>bg_amount := ri_amount it0\<rparr> \<in> set (budgets (put_amounts items ?db))" by (simp only: set_filter mem_Collect_eq)
    with b(2) True show ?thesis by (intro bexI[of _ "b\<lparr>bg_amount := ri_amount it0\<rparr>"]) simp_all
  qed
qed simp

lemma rebalance_parts:
  assumes "distinct (map bg_id (budgets db))" "rebalance_budgets rd s org items today db = Inr (db', rs)"
  obtains start where "distinct (map ri_budget_id items)" "names_rows items org start db"
    "sum_list (map ri_amount items) = sum_list (map ri_expected_amount items)" "db' = put_amounts items db"
    "list_budgets rd s org (Some start) today db' = Inr (db', rs)"
proof -
  let ?ids = "map ri_budget_id items"
  define rows where "rows = filter (\<lambda>b. bg_id b \<in> ri_budget_id ` set items \<and> bg_org_id b = org) (budgets db)"
  from assms(2) obtain start where len: "length rows = length items" and st: "remdups (map bg_period_start rows) = [start]"
    and ex: "list_all (\<lambda>it. case find_budget db org (ri_budget_id it) of None \<Rightarrow> False | Some b \<Rightarrow> bg_amount b = ri_expected_amount it) items"
    and z: "sum_list (map ri_amount items) = sum_list (map ri_expected_amount items)"
    and l: "list_budgets rd s org (Some start) today (put_amounts items db) = Inr (db', rs)"
    by (auto simp: rebalance_budgets_def Let_def rows_def[symmetric] split: if_splits list.splits)
  have "card (bg_id ` set rows) = length rows"
    using assms(1) distinct_card[of "map bg_id rows"] by (simp add: rows_def distinct_map_filter)
  moreover have "card (bg_id ` set rows) \<le> card (set ?ids)" by (rule card_mono) (auto simp: rows_def)
  moreover have "card (set ?ids) \<le> length ?ids" by (rule card_length)
  ultimately have "card (set ?ids) = length ?ids" using len by simp
  then have d: "distinct ?ids" by (rule card_distinct)
  have "set (map bg_period_start rows) = {start}" using arg_cong[OF st, of set] by simp
  then have s0: "bg_period_start b = start" if "b \<in> set rows" for b using that by auto
  have "names_rows items org start db" unfolding names_rows_def
  proof
    fix it assume it: "it \<in> set items"
    with ex obtain b where b: "find_budget db org (ri_budget_id it) = Some b" "bg_amount b = ri_expected_amount it"
      by (auto simp: list_all_iff split: option.splits)
    then have m: "b \<in> set (budgets db)" "bg_id b = ri_budget_id it" "bg_org_id b = org"
      by (auto simp: find_budget_def find_Some_iff)
    with it have "b \<in> set rows" by (auto simp: rows_def)
    with s0 m b(2) show "\<exists>b \<in> set (budgets db). bg_id b = ri_budget_id it \<and> bg_org_id b = org \<and> bg_period_start b = start \<and>
        bg_amount b = ri_expected_amount it" by blast
  qed
  moreover have "db' = put_amounts items db"
    using l by (auto simp: list_budgets_def resolve_period_def rbind_eq_Inr split: option.splits sum.splits service_error.splits)
  ultimately show thesis using that[OF d _ z] l by blast
qed

text \<open>An accepted rebalance gives every named budget its requested amount, where the client knew the
  amount it had, and changes nothing else of the tables; what each period of the organisation allocates in
  all stays the same.\<close>

theorem rebalance_conserves:
  assumes "book_ok db" "rebalance_budgets rd s org items today db = Inr (db', rs)"
  shows "(\<forall>it \<in> set items. \<exists>b \<in> set (budgets db). \<exists>b' \<in> set (budgets db'). bg_id b = ri_budget_id it \<and> bg_org_id b = org \<and>
       bg_amount b = ri_expected_amount it \<and> b' = b\<lparr>bg_amount := ri_amount it\<rparr>) \<and>
    map (\<lambda>b. b\<lparr>bg_amount := 0\<rparr>) (budgets db') = map (\<lambda>b. b\<lparr>bg_amount := 0\<rparr>) (budgets db) \<and>
    filter (\<lambda>b. bg_id b \<notin> set (map ri_budget_id items)) (budgets db') = filter (\<lambda>b. bg_id b \<notin> set (map ri_budget_id items)) (budgets db) \<and>
    periods db' = periods db \<and>
    sum_list (map bg_amount (budgets_at db' org d)) = sum_list (map bg_amount (budgets_at db org d))"
proof -
  have u: "distinct (map bg_id (budgets db))" using assms(1) by (simp add: book_ok_def tables_ok_def)
  obtain start where r: "distinct (map ri_budget_id items)" "names_rows items org start db"
    "sum_list (map ri_amount items) = sum_list (map ri_expected_amount items)" "db' = put_amounts items db"
    by (rule rebalance_parts[OF u assms(2)])
  have "\<exists>b \<in> set (budgets db). \<exists>b' \<in> set (budgets db'). bg_id b = ri_budget_id it \<and> bg_org_id b = org \<and>
       bg_amount b = ri_expected_amount it \<and> b' = b\<lparr>bg_amount := ri_amount it\<rparr>" if it: "it \<in> set items" for it
  proof -
    from r(2) it obtain b where b: "b \<in> set (budgets db)" "bg_id b = ri_budget_id it" "bg_org_id b = org"
      "bg_amount b = ri_expected_amount it" by (auto simp: names_rows_def)
    from put_amounts_put[OF r(1,2) it] r(4) obtain b' where
      b': "b' \<in> set (budgets db')" "bg_id b' = ri_budget_id it" "bg_amount b' = ri_amount it" by blast
    have "b'\<lparr>bg_amount := 0\<rparr> \<in> set (map (\<lambda>b. b\<lparr>bg_amount := 0\<rparr>) (budgets db'))" using b'(1) by simp
    then obtain c where c: "c \<in> set (budgets db)" "b'\<lparr>bg_amount := 0\<rparr> = c\<lparr>bg_amount := 0\<rparr>"
      unfolding r(4) put_amounts_shape(2) by auto
    from arg_cong[OF c(2), of bg_id] b' b have "bg_id c = bg_id b" by simp
    with key_unique[OF u c(1) b(1)] have cb: "c = b" .
    have "b' = (b'\<lparr>bg_amount := 0\<rparr>)\<lparr>bg_amount := bg_amount b'\<rparr>" by simp
    then have "b' = b\<lparr>bg_amount := ri_amount it\<rparr>" unfolding c(2) cb b'(3) by simp
    with b b' show ?thesis by blast
  qed
  with r put_amounts_shape[of items db] put_amounts_sum[OF u r(1,2), of d] show ?thesis by simp
qed

definition two_budgets :: budget_db where
  "two_budgets = sample_budgets\<lparr>budgets := budgets sample_budgets @
     [\<lparr>bg_id = 6, bg_org_id = 1, bg_category_id = 7, bg_amount = 40, bg_period_start = date_of 2025 2 1, bg_period_end = None\<rparr>]\<rparr>"

theorem rebalance_conserves_witness:
  "\<exists>db' rs. rebalance_budgets civil_add sample_store 1 [\<lparr>ri_budget_id = 5, ri_expected_amount = 100, ri_amount = 80\<rparr>,
      \<lparr>ri_budget_id = 6, ri_expected_amount = 40, ri_amount = 60\<rparr>] (date_of 2025 2 20) two_budgets = Inr (db', rs) \<and>
     map bg_amount (budgets db') = [80, 60] \<and> sum_list (map bg_amount (budgets_at db' 1 (date_of 2025 2 1))) = 140"
proof -
  let ?r = "rebalance_budgets civil_add sample_store 1 [\<lparr>ri_budget_id = 5, ri_expected_amount = 100, ri_amount = 80\<rparr>,
      \<lparr>ri_budget_id = 6, ri_expected_amount = 40, ri_amount = 60\<rparr>] (date_of 2025 2 20) two_budgets"
  have ok: "book_ok two_budgets" by code_simp
  have "map_sum id (\<lambda>r. map bg_amount (budgets (fst r))) ?r = Inr [80, 60]" by code_simp
  then obtain db' rs where r: "?r = Inr (db', rs)" "map bg_amount (budgets db') = [80, 60]" by (cases ?r) auto
  have "sum_list (map bg_amount (budgets_at two_budgets 1 (date_of 2025 2 1))) = 140" by code_simp
  with rebalance_conserves[OF ok r(1), of "date_of 2025 2 1"] r show ?thesis by simp
qed

end
