(* ===== verification/ProjectionWindow.thy ===== *)
theory ProjectionWindow
  imports BudgetOps
begin

text \<open>
  The window a projection starts from (\<open>services/projection_kernel.py\<close>): the end of a billing period as
  the dashboard shows it, and the current period's window resolved without writing a row.
\<close>

definition period_window_end ::
  "(int \<Rightarrow> int \<Rightarrow> date \<Rightarrow> date option) \<Rightarrow> budget_db \<Rightarrow> int \<Rightarrow> billing_period \<Rightarrow> date \<Rightarrow> date result" where
  "period_window_end rd db org_id period today =
     (case bp_end_date period of
        Some e \<Rightarrow> Inr e
      | None \<Rightarrow>
          rbind (period_spend_window_end db org_id period today) (\<lambda>derived.
          case derived of
            Some e \<Rightarrow> Inr e
          | None \<Rightarrow> rbind (date_or_error (rd 0 1 (bp_start_date period))) (\<lambda>d. date_or_error (prev_day d))))"

text \<open>The stand-in for a period that is not stored has no id; no lookup of the window reads it.\<close>

definition unsaved_period :: "int \<Rightarrow> date \<Rightarrow> billing_period" where
  "unsaved_period org_id start = \<lparr>bp_id = 0, bp_org_id = org_id, bp_start_date = start, bp_end_date = None\<rparr>"

definition current_window ::
  "(int \<Rightarrow> int \<Rightarrow> date \<Rightarrow> date option) \<Rightarrow> store \<Rightarrow> int \<Rightarrow> date \<Rightarrow> budget_db \<Rightarrow> (date \<times> date) result" where
  "current_window rd s org_id today db =
     rbind (case find_open_period db org_id of
              Some p \<Rightarrow> Inr p
            | None \<Rightarrow>
                let cycle_day = (case row_by o_id (organizations s) org_id of
                      None \<Rightarrow> 1 | Some org \<Rightarrow> if o_billing_cycle_day org = 0 then 1 else o_billing_cycle_day org)
                in rbind (date_or_error (map_option fst (current_cycle_window rd cycle_day today))) (\<lambda>start.
                   case resolve_period rd s org_id (Some start) today db of
                     Inr (_, p) \<Rightarrow> Inr p
                   | Inl (ValidationError _) \<Rightarrow> Inr (unsaved_period org_id start)
                   | Inl e \<Rightarrow> Inl e)) (\<lambda>period.
     rbind (period_window_end rd db org_id period today) (\<lambda>e. Inr (bp_start_date period, e)))"

section \<open>The dashboard's window, without the write\<close>

lemma window_cong:
  assumes "bp_start_date p = bp_start_date q" "bp_end_date p = bp_end_date q"
  shows "period_window_end rd db org p today = period_window_end rd db org q today"
  unfolding period_window_end_def period_spend_window_end_def period_effective_end_def assms ..

lemma window_of_inserted:
  assumes "bp_start_date p = start" "bp_end_date p = None" "bp_start_date q = start" "bp_end_date q = None"
  shows "period_window_end rd (insert_period p db) org q today = period_window_end rd db org p today"
proof -
  have "filter ((<) start) (map bp_start_date (org_periods (insert_period p db) org)) = filter ((<) start) (map bp_start_date (org_periods db org))"
    using assms(1) by (simp add: org_periods_def insert_period_def)
  then have "next_period_start (insert_period p db) org start = next_period_start db org start" by (simp add: next_period_start_def)
  then show ?thesis unfolding period_window_end_def period_spend_window_end_def period_effective_end_def assms by (simp only:)
qed

text \<open>C40: for an organisation whose cycle day is not 0, the read-only resolution of the current window gives
  exactly what the dashboard computes by first getting the current period, creating it when there is
  none, and then its window end: the same start and end, and the same error when there is one.\<close>

theorem current_window_is_dashboards:
  assumes "cycle_day_of s org_id \<noteq> 0"
  shows "current_window rd s org_id today db =
    rbind (get_current_period rd s org_id today db) (\<lambda>(db1, p).
    rbind (period_window_end rd db1 org_id p today) (\<lambda>e. Inr (bp_start_date p, e)))"
proof (cases "find_open_period db org_id")
  case (Some p)
  then show ?thesis by (simp add: current_window_def get_current_period_def)
next
  case none: None
  have day: "(case row_by o_id (organizations s) org_id of None \<Rightarrow> 1 | Some org \<Rightarrow>
      if o_billing_cycle_day org = 0 then 1 else o_billing_cycle_day org) = cycle_day_of s org_id"
    using assms by (auto simp: cycle_day_of_def split: option.splits)
  show ?thesis
  proof (cases "current_cycle_window rd (cycle_day_of s org_id) today")
    case None
    then show ?thesis using none unfolding current_window_def day by (simp add: get_current_period_def date_or_error_def)
  next
    case (Some w)
    then obtain start e where w: "current_cycle_window rd (cycle_day_of s org_id) today = Some (start, e)" by (cases w) auto
    show ?thesis
    proof (cases "find_period_by_start db org_id start")
      case (Some q)
      then show ?thesis using none w unfolding current_window_def day by (simp add: get_current_period_def resolve_period_def)
    next
      case None
      have "period_window_end rd (insert_period (new_period_row db org_id start None) db) org_id (new_period_row db org_id start None) today =
          period_window_end rd db org_id (unsaved_period org_id start) today"
        by (subst window_of_inserted[where start = start]) (simp_all add: new_period_row_def unsaved_period_def window_cong)
      then show ?thesis using none w None unfolding current_window_def day
        by (simp add: get_current_period_def resolve_period_def Let_def) (simp add: new_period_row_def unsaved_period_def)
    qed
  qed
qed

theorem current_window_is_dashboards_witness:
  "current_window civil_add sample_store 1 (date_of 2025 3 12) empty_book = Inr (date_of 2025 2 25, date_of 2025 3 24)"
proof -
  have d: "cycle_day_of sample_store 1 \<noteq> 0" by code_simp
  have "rbind (get_current_period civil_add sample_store 1 (date_of 2025 3 12) empty_book) (\<lambda>(db1, p).
    rbind (period_window_end civil_add db1 1 p (date_of 2025 3 12)) (\<lambda>e. Inr (bp_start_date p, e))) =
      Inr (date_of 2025 2 25, date_of 2025 3 24)" by code_simp
  with current_window_is_dashboards[OF d, of civil_add "date_of 2025 3 12" empty_book] show ?thesis by simp
qed

end
