(* ===== verification/Spec2Isabelle.thy ===== *)
theory Spec2Isabelle
  imports LedgerProps ScheduleProps BulkUpdateProps CardProps AccountForecast ProjectionWindow
begin

text \<open>
  The ledger core of a personal-finance backend (Python, \<open>backend/app\<close>), as executable HOL
  definitions and the theorems that make it correct.

  The program. An organisation has accounts, categories, transactions, recurring templates and
  import batches. \<open>accounts.balance\<close> is a cache: it is the opening balance plus the signed amounts
  of the settled rows that contribute, and every service that settles, edits, matches, skips, pairs
  or deletes a row has to move it by exactly that row. A row that a bank import matched one-way onto
  another row is a duplicate and does not contribute; two rows that link each other are a transfer.

  Theories, from the bottom:

  \<^item> \<open>Prelude\<close>: money as exact rationals (\<open>Numeric(12, 2)\<close> columns, of which the code only takes sums,
    differences, minima and comparisons), exceptions as \<open>service_error + 'a\<close>.
  \<^item> \<open>Calendar\<close>: \<open>datetime.date\<close> as a type with its order and the partial day and month arithmetic;
    \<open>dateutil.relativedelta\<close> is third-party, so it is a parameter \<open>rd\<close>, and what the code relies on
    is the locale \<open>relativedelta_lib\<close>, interpreted by \<open>civil_add\<close>.
  \<^item> \<open>DateUtils\<close> (\<open>services/date_utils.py\<close>), \<open>Cycle\<close> (\<open>services/billing_service.py\<close>, the cycle
    windows), \<open>Frontier\<close> (\<open>services/recurring_filters.py\<close> and the frontier bounds).
  \<^item> \<open>Models\<close> (\<open>app/models\<close>): the rows and the store of tables; \<open>Filters\<close>
    (\<open>services/transaction_filters.py\<close>).
  \<^item> \<open>Balance\<close>, \<open>Deletion\<close> (\<open>services/transaction_service.py\<close>), \<open>Batches\<close>, \<open>Reconcile\<close>
    (\<open>services/reconciliation_service.py\<close>): one definition per function, every guard and early return
    in source order. \<open>BalanceInv\<close>, \<open>BalanceOps\<close>, \<open>BalanceKeep\<close>, \<open>DeletionKeep\<close>, \<open>DeletePaths\<close>,
    \<open>ReconcileKeep\<close> and \<open>BatchKeep\<close> prove that each of them keeps \<open>db_inv\<close>: the store is well-formed,
    links stay in the organisation, every account agrees with its rows, every batch counter is the
    count of its live rows.
  \<^item> \<open>Recurring\<close> (\<open>services/recurring_service.py\<close>): templates, one occurrence, early
    materialisation, skips, the auto-settle sweep, catch-up generation, stop and delete. \<open>SeriesOps\<close>,
    \<open>RecurringKeep\<close>, \<open>SweepKeep\<close> and \<open>SeriesKeep\<close> prove that each keeps \<open>full_inv\<close>;
    \<open>SeriesFacts\<close>, \<open>GenerationFacts\<close> and \<open>SeriesProps\<close> relate generation to the projection.
  \<^item> \<open>SeriesEdit\<close>: \<open>update_recurring\<close> and the series half of a transaction edit, with \<open>SeriesEditKeep\<close>
    and \<open>SeriesEditProps\<close>. \<open>TxUpdate\<close>: \<open>update_transaction\<close> and \<open>promote_to_recurring\<close>, with
    \<open>TxUpdateKeep\<close> and \<open>TxUpdateProps\<close>. \<open>Transfers\<close>: conversion of a row to a transfer and the two
    detectors, with \<open>TransfersKeep\<close> and \<open>TransfersProps\<close>. \<open>BulkUpdate\<close>: the bulk edit, with
    \<open>BulkUpdateProps\<close>.
  \<^item> \<open>System\<close>: the contract \<open>store_operation\<close> of a writing operation, its interpretations, and the
    stores reachable by requests. \<open>Sample\<close> is the ledger the witnesses run on.
  \<^item> \<open>CardCycle\<close> (\<open>services/cc_cycle_service.py\<close>, \<open>cc_cycle_payment_service.py\<close>,
    \<open>credit_card_service.py\<close>), \<open>CardForecast\<close> (\<open>cc_forecast_service.py\<close>, \<open>cc_statement_service.py\<close>),
    \<open>Decimals\<close> (the rounding arithmetic of \<open>decimal.Decimal\<close>), \<open>Loan\<close> (\<open>loan_service.py\<close>,
    \<open>loan_forecast_service.py\<close>; the float logarithm of the payoff is a parameter), \<open>Projection\<close>
    (\<open>projection_kernel.py\<close>: the sources of movement, the bookings, the walk) and \<open>AccountForecast\<close>
    (the low-balance warnings). \<open>CardFacts\<close>, \<open>ProjectionFacts\<close>, \<open>ProjectionFlows\<close>, \<open>CardProps\<close> and
    \<open>ProjectionProps\<close> prove what the cards and the projection promise.
  \<^item> \<open>Periods\<close> (\<open>services/billing_service.py\<close>, \<open>services/scheduler/jobs/billing_close.py\<close>): the stored
    periods, the future stubs, the close of a period with the budgets that follow it, and the job that
    closes until the current cycle is open. \<open>Roster\<close> is the anomaly kernel. \<open>RosterFacts\<close>, \<open>PeriodFacts\<close>,
    \<open>PeriodClose\<close>, \<open>PeriodProps\<close> and \<open>StubFacts\<close> prove what a clean report means in days, that closes and
    stubs keep windows apart, and that the job converges.
  \<^item> \<open>Budgets\<close> (\<open>services/budget_service.py\<close> and the currency scope of \<open>services/currency_service.py\<close>),
    with \<open>BudgetProps\<close> (spend over a clean roster), \<open>BudgetInv\<close> (the invariant of periods and budgets) and
    \<open>BudgetOps\<close> (the contract \<open>book_operation\<close>, its interpretation and the reachable tables).
    \<open>ProjectionWindow\<close>: the window of the current period as the projection resolves it.
  \<^item> \<open>LedgerFacts\<close>, \<open>LedgerProps\<close>, \<open>ScheduleProps\<close> and this theory: the remaining properties.

  The ledger and the projection meet in the tables: \<open>baseline\<close> reads the store the ledger services
  write. Periods and budgets are tables of their own; the budgets read the ledger to sum what was spent
  and never write it.

  Bounds. The walk over card closes carries the cap of the code, two steps a month and twelve more,
  and \<open>due_cycles_exact\<close> proves that it is never what ends the walk. The loops of generation carry
  the cap of 500 of the code, the loop of \<open>_loan_periods\<close> a bound of one pass a month of the horizon,
  which \<open>CardProps.loan_periods_bound\<close> proves enough. The close job carries the cap of 24 passes of the
  code: \<open>PeriodProps.billing_close_converges\<close> says when one run suffices and what a capped run leaves. The
  overlap scan carries the caps of the code, 2000 rows and 5000 markers. Every other loop is structural or has a
  termination proof.

  Conventions. A table is the list of its rows in primary-key order; keys come from one counter
  \<open>next_id\<close>. A function that may raise returns a sum; a savepoint that rolls back is \<open>Inl\<close>, which leaves
  the caller with the store it had. Reads under locks are plain reads: the model is sequential, so it
  says nothing about lock order or a racing closer. A call on periods or budgets that raises after it
  committed part of its work is modelled by its error alone. Error texts are shortened to what tells
  two refusals apart.

  Not modelled: request parsing, sessions, audit rows and log lines, tags and category learning,
  forecast plans beyond the items that seed budgets, rebalance suggestions, the route that inserts a
  period for seeding, the AI features, mail, authentication, imports of bank files, reports.
\<close>

section \<open>The ledger as a whole\<close>

text \<open>C1: from a ledger whose cached balances agree with its rows, no sequence of committed requests
  leads to one where they differ: the drift report of \<open>reconcile_account\<close> stays consistent for every
  account, the links stay well-formed, and the counters of every import batch are the counts of its
  rows.\<close>

theorem reachable_ledger_audited:
  assumes "full_inv s0" and "reaches (handle rd show_dec) s0 s"
  shows "(\<forall>a \<in> set (accounts s). snd (snd (reconcile_account s (acc_org_id a) a))) \<and>
    links_wf (transactions s) \<and> (\<forall>b \<in> set (batches s). counters_ok (transactions s) b)"
proof -
  note inv = system.reaches_keeps[OF assms(2,1)] and db = full_invD(1)[OF system.reaches_keeps[OF assms(2,1)]]
  show ?thesis
    using system.audited[OF inv] db_invD(2)[OF db] batches_invD(1)[OF db_invD(4)[OF db]] by blast
qed

definition sample_requests :: "request list" where
  "sample_requests =
     [CreateTransfer 1 (sample_transfer SETTLED) False,
      UnpairTransactions 1 8 2 1,
      DeleteTransaction 1 7,
      DeleteTransaction 1 7,
      GenerateDue 1 (date_of 2025 5 3),
      StopRecurring 1 20 (date_of 2025 5 3),
      AdjustBalance 1 5 90 None (date_of 2025 3 12),
      BulkDelete 1 [11, 6]]"

theorem reachable_ledger_audited_witness:
  "\<exists>s::store. map tx_id (transactions s) \<noteq> map tx_id (transactions sample_store) \<and>
     (\<forall>a \<in> set (accounts s). snd (snd (reconcile_account s (acc_org_id a) a)))"
proof -
  let ?exec = "handle civil_add (\<lambda>_. ''x'')"
  let ?s = "run_requests ?exec sample_requests sample_store"
  have r: "reaches ?exec sample_store ?s" by (rule reaches_run[OF reaches.start])
  have "map tx_id (transactions ?s) \<noteq> map tx_id (transactions sample_store)" by code_simp
  with reachable_ledger_audited[OF sample_full r] show ?thesis by blast
qed

end
